(* ===== verification/Ring_Prelude.thy ===== *)
theory Ring_Prelude
  imports Main "HOL-Library.Word" "HOL-Library.AList" "HOL-Library.Multiset"
begin

unbundle bit_operations_syntax

text \<open>
  Shared vocabulary of the development: machine integers and byte strings, Rust's
  \<^verbatim>\<open>io::Error\<close>, little-endian encodings, the byte memory behind a mapped segment,
  \<^verbatim>\<open>format!\<close> of integers, and \<^verbatim>\<open>HashMap\<close>. The collections below gather the
  facts that the component theories hand to \<^theory_text>\<open>simp\<close>:
  \<^item> \<open>mem_simps\<close>: loads after stores on a byte memory;
  \<^item> \<open>le_eval\<close>: evaluation of little-endian encodings on literals;
  \<^item> \<open>hm_simps\<close>: lookups after updates of a hash map.
\<close>

named_theorems mem_simps "loads after stores on a byte memory"
named_theorems le_eval "evaluation of little-endian encodings"
named_theorems hm_simps "lookups after updates of a hash map"

section \<open>Integers and byte strings\<close>

text \<open>
  Unsigned integers are words, and their arithmetic wraps as the release build's does.
  \<^verbatim>\<open>usize\<close> lengths and offsets are \<open>nat\<close> (64-bit targets only), and the places where
  a \<^verbatim>\<open>usize\<close> operation could wrap write the wrap out. Signed integers are \<open>int\<close>,
  brought back into range by the \<open>wrap\<close> functions wherever the source can leave it.
  A Rust \<^verbatim>\<open>String\<close> is its UTF-8 bytes, as a \<open>string\<close>.
\<close>

type_synonym u8 = "8 word"
type_synonym u16 = "16 word"
type_synonym u32 = "32 word"
type_synonym u64 = "64 word"
type_synonym bytes = "8 word list"
type_synonym usize = nat
type_synonym i32 = int
type_synonym i64 = int

definition wrap_i64 :: "int \<Rightarrow> i64" where
  "wrap_i64 x = sint (word_of_int x :: u64)"

definition wrap_i32 :: "int \<Rightarrow> i32" where
  "wrap_i32 x = sint (word_of_int x :: u32)"

definition usize_sub :: "usize \<Rightarrow> usize \<Rightarrow> usize" where
  "usize_sub a b = unat (word_of_nat a - word_of_nat b :: u64)"

lemma unat_bound: "unat (w :: 'a::len word) < 2 ^ LENGTH('a)"
  by (rule unsigned_less)

lemma wrap_i64_id: "- (2 ^ 63) \<le> x \<Longrightarrow> x < 2 ^ 63 \<Longrightarrow> wrap_i64 x = x"
  by (simp add: wrap_i64_def signed_of_int signed_take_bit_int_eq_self)

lemma wrap_i64_bounds: "- (2 ^ 63) \<le> wrap_i64 x" "wrap_i64 x < 2 ^ 63"
  using sint_range_size [of "word_of_int x :: u64"]
  by (simp_all add: wrap_i64_def word_size)

lemma wrap_i32_id: "- (2 ^ 31) \<le> x \<Longrightarrow> x < 2 ^ 31 \<Longrightarrow> wrap_i32 x = x"
  by (simp add: wrap_i32_def signed_of_int signed_take_bit_int_eq_self)

lemma usize_sub_ge: "b \<le> a \<Longrightarrow> a < 2 ^ 64 \<Longrightarrow> usize_sub a b = a - b"
  by (simp add: usize_sub_def unat_sub_if_size word_size unat_of_nat word_le_nat_alt take_bit_nat_eq_self)


section \<open>Errors\<close>

text \<open>
  \<^verbatim>\<open>io::Error\<close> in the three ways the source builds it: \<^verbatim>\<open>io::Error::other\<close>,
  \<^verbatim>\<open>io::Error::new(kind, msg)\<close> and \<^verbatim>\<open>io::Error::last_os_error\<close>. A fallible
  function returns \<open>io_error + 'a\<close>, with \<open>Inl\<close> for \<^verbatim>\<open>Err\<close>. A failed \<^verbatim>\<open>assert!\<close>
  is the value \<open>IoPanic\<close>; where the code can reach one of those asserts the development
  shows that it does not fail.
\<close>

text \<open>The kinds the program tells apart; the other kinds that the standard library knows are \<open>OtherKind\<close>.\<close>

datatype error_kind = NotFound | PermissionDenied | TimedOut | OtherKind

datatype io_error = IoOther string | IoNew error_kind string | IoOs int | IoPanic string

type_synonym 'a io_result = "io_error + 'a"

abbreviation (input) EPERM :: int where "EPERM \<equiv> 1"
abbreviation (input) ENOENT :: int where "ENOENT \<equiv> 2"
abbreviation (input) EACCES :: int where "EACCES \<equiv> 13"
abbreviation (input) ETIMEDOUT :: int where "ETIMEDOUT \<equiv> 110"

fun err_kind :: "io_error \<Rightarrow> error_kind" where
  "err_kind (IoOther m) = OtherKind"
| "err_kind (IoNew k m) = k"
| "err_kind (IoPanic m) = OtherKind"
| "err_kind (IoOs n) =
     (if n = ENOENT then NotFound
      else if n = EPERM \<or> n = EACCES then PermissionDenied
      else if n = ETIMEDOUT then TimedOut
      else OtherKind)"

fun raw_os_error :: "io_error \<Rightarrow> int option" where
  "raw_os_error (IoOs n) = Some n"
| "raw_os_error _ = None"

fun is_ok :: "'e + 'a \<Rightarrow> bool" where
  "is_ok (Inr _) = True"
| "is_ok (Inl _) = False"

section \<open>Little-endian encodings\<close>

fun le_bytes :: "nat \<Rightarrow> nat \<Rightarrow> bytes" where
  "le_bytes 0 k = []"
| "le_bytes (Suc n) k = word_of_nat k # le_bytes n (k div 256)"

fun le_val :: "bytes \<Rightarrow> nat" where
  "le_val [] = 0"
| "le_val (b # bs) = unat b + 256 * le_val bs"

lemma le_bytes_numeral [le_eval]:
  "le_bytes (numeral v) k = word_of_nat k # le_bytes (pred_numeral v) (k div 256)"
  by (subst numeral_eq_Suc) (rule le_bytes.simps(2))

lemma length_le_bytes [simp]: "length (le_bytes n k) = n"
  by (induction n arbitrary: k) auto

lemma unat_byte_of_nat [simp]: "unat (word_of_nat k :: u8) = k mod 256"
  by (simp add: unat_of_nat)

lemma le_val_le_bytes: "le_val (le_bytes n k) = k mod 256 ^ n"
proof (induction n arbitrary: k)
  case (Suc n)
  have "k mod 256 + 256 * (k div 256 mod 256 ^ n) = k mod (256 * 256 ^ n)"
    by (simp add: mod_mult2_eq)
  with Suc show ?case by simp
qed simp

lemma le_val_bound: "le_val bs < 256 ^ length bs"
proof (induction bs)
  case (Cons b bs)
  have "unat b < 256" using unat_bound [of b] by simp
  moreover have "256 * Suc (le_val bs) \<le> 256 * 256 ^ length bs"
    using Cons by (intro mult_le_mono2) simp
  ultimately show ?case by simp
qed simp

lemma le_bytes_le_val: "le_bytes (length bs) (le_val bs) = bs"
proof (induction bs)
  case (Cons b bs)
  have "(unat b + 256 * le_val bs) div 256 = le_val bs"
    using unat_bound [of b] by simp
  moreover have "(256 :: u8) = 0" by simp
  then have "(word_of_nat (unat b + 256 * le_val bs) :: u8) = b"
    by (simp only: of_nat_add of_nat_mult of_nat_numeral) simp
  ultimately show ?case using Cons by simp
qed simp

definition u16_to_le_bytes :: "u16 \<Rightarrow> bytes" where
  "u16_to_le_bytes w = le_bytes 2 (unat w)"

definition u16_from_le_bytes :: "bytes \<Rightarrow> u16" where
  "u16_from_le_bytes bs = word_of_nat (le_val bs)"

definition u32_to_le_bytes :: "u32 \<Rightarrow> bytes" where
  "u32_to_le_bytes w = le_bytes 4 (unat w)"

definition u32_from_le_bytes :: "bytes \<Rightarrow> u32" where
  "u32_from_le_bytes bs = word_of_nat (le_val bs)"

definition u64_to_le_bytes :: "u64 \<Rightarrow> bytes" where
  "u64_to_le_bytes w = le_bytes 8 (unat w)"

definition u64_from_le_bytes :: "bytes \<Rightarrow> u64" where
  "u64_from_le_bytes bs = word_of_nat (le_val bs)"

lemmas le_defs =
  u16_to_le_bytes_def u16_from_le_bytes_def
  u32_to_le_bytes_def u32_from_le_bytes_def
  u64_to_le_bytes_def u64_from_le_bytes_def

lemma length_to_le_bytes [simp]:
  "length (u16_to_le_bytes a) = 2" "length (u32_to_le_bytes b) = 4" "length (u64_to_le_bytes c) = 8"
  by (simp_all add: le_defs)

lemma u16_le_round_trip [simp]: "u16_from_le_bytes (u16_to_le_bytes w) = w"
  using unat_bound [of w] by (simp add: le_defs le_val_le_bytes)

lemma u32_le_round_trip [simp]: "u32_from_le_bytes (u32_to_le_bytes w) = w"
  using unat_bound [of w] by (simp add: le_defs le_val_le_bytes)

lemma u64_le_round_trip [simp]: "u64_from_le_bytes (u64_to_le_bytes w) = w"
  using unat_bound [of w] by (simp add: le_defs le_val_le_bytes)

lemma u32_le_round_trip': "length bs = 4 \<Longrightarrow> u32_to_le_bytes (u32_from_le_bytes bs) = bs"
  using le_val_bound [of bs] le_bytes_le_val [of bs]
  by (simp add: le_defs unat_of_nat)

lemma u64_le_round_trip': "length bs = 8 \<Longrightarrow> u64_to_le_bytes (u64_from_le_bytes bs) = bs"
  using le_val_bound [of bs] le_bytes_le_val [of bs]
  by (simp add: le_defs unat_of_nat)

lemma u16_le_round_trip': "length bs = 2 \<Longrightarrow> u16_to_le_bytes (u16_from_le_bytes bs) = bs"
  using le_val_bound [of bs] le_bytes_le_val [of bs]
  by (simp add: le_defs unat_of_nat)

section \<open>Byte memory\<close>

text \<open>
  The memory behind a mapping is a byte list. A load past its end reads zero, as the tail of
  a mapping's last page does; a store never changes its length. The ring theory shows that
  its own accesses stay inside.
\<close>

definition load_bytes :: "bytes \<Rightarrow> usize \<Rightarrow> usize \<Rightarrow> bytes" where
  "load_bytes m off n = map (\<lambda>i. if off + i < length m then m ! (off + i) else 0) [0..<n]"

definition store_bytes :: "bytes \<Rightarrow> usize \<Rightarrow> bytes \<Rightarrow> bytes" where
  "store_bytes m off bs = take off m @ take (length m - off) bs @ drop (off + length bs) m"

lemma length_load_bytes [simp]: "length (load_bytes m off n) = n"
  by (simp add: load_bytes_def)

lemma length_store_bytes [simp]: "length (store_bytes m off bs) = length m"
  by (simp add: store_bytes_def)

lemma nth_load_bytes: "i < n \<Longrightarrow> off + n \<le> length m \<Longrightarrow> load_bytes m off n ! i = m ! (off + i)"
  by (simp add: load_bytes_def)

lemma nth_store_bytes:
  "j < length m \<Longrightarrow> store_bytes m off bs ! j =
     (if off \<le> j \<and> j < off + length bs then bs ! (j - off) else m ! j)"
  by (auto simp: store_bytes_def nth_append min_def)

lemma load_store_same [mem_simps]:
  "off + length bs \<le> length m \<Longrightarrow> n = length bs \<Longrightarrow> load_bytes (store_bytes m off bs) off n = bs"
  by (rule nth_equalityI) (auto simp: load_bytes_def nth_store_bytes)

lemma load_store_other [mem_simps]:
  "off + n \<le> o' \<or> o' + length bs \<le> off \<Longrightarrow>
     load_bytes (store_bytes m o' bs) off n = load_bytes m off n"
  by (rule nth_equalityI) (auto simp: load_bytes_def nth_store_bytes)

lemma store_bytes_Nil [simp]: "store_bytes m off [] = m"
  by (simp add: store_bytes_def)

lemma load_bytes_0 [simp]: "load_bytes m off 0 = []"
  by (simp add: load_bytes_def)

text \<open>Atomic words of a mapping, as \<^verbatim>\<open>atomic_u32_at\<close> and \<^verbatim>\<open>atomic_u64_at\<close> read and write them.\<close>

definition u32_at :: "bytes \<Rightarrow> usize \<Rightarrow> u32" where
  "u32_at m off = u32_from_le_bytes (load_bytes m off 4)"

definition u64_at :: "bytes \<Rightarrow> usize \<Rightarrow> u64" where
  "u64_at m off = u64_from_le_bytes (load_bytes m off 8)"

definition set_u32 :: "bytes \<Rightarrow> usize \<Rightarrow> u32 \<Rightarrow> bytes" where
  "set_u32 m off w = store_bytes m off (u32_to_le_bytes w)"

definition set_u64 :: "bytes \<Rightarrow> usize \<Rightarrow> u64 \<Rightarrow> bytes" where
  "set_u64 m off w = store_bytes m off (u64_to_le_bytes w)"

lemma length_set_word [simp]: "length (set_u32 m i w) = length m" "length (set_u64 m i v) = length m"
  by (simp_all add: set_u32_def set_u64_def)

lemma u32_at_store [mem_simps]:
  "off + 4 \<le> length m \<Longrightarrow> u32_at (set_u32 m off w) off = w"
  "off + 4 \<le> o' \<or> o' + 4 \<le> off \<Longrightarrow> u32_at (set_u32 m o' w) off = u32_at m off"
  "off + 4 \<le> o' \<or> o' + 8 \<le> off \<Longrightarrow> u32_at (set_u64 m o' v) off = u32_at m off"
  "off + 4 \<le> o' \<or> o' + length bs \<le> off \<Longrightarrow> u32_at (store_bytes m o' bs) off = u32_at m off"
  by (simp_all add: u32_at_def set_u32_def set_u64_def mem_simps)

lemma u64_at_store [mem_simps]:
  "off + 8 \<le> length m \<Longrightarrow> u64_at (set_u64 m off w) off = w"
  "off + 8 \<le> o' \<or> o' + 8 \<le> off \<Longrightarrow> u64_at (set_u64 m o' w) off = u64_at m off"
  "off + 8 \<le> o' \<or> o' + 4 \<le> off \<Longrightarrow> u64_at (set_u32 m o' v) off = u64_at m off"
  "off + 8 \<le> o' \<or> o' + length bs \<le> off \<Longrightarrow> u64_at (store_bytes m o' bs) off = u64_at m off"
  by (simp_all add: u64_at_def set_u32_def set_u64_def mem_simps)

lemma load_set_word [mem_simps]:
  "off + n \<le> o' \<or> o' + 4 \<le> off \<Longrightarrow> load_bytes (set_u32 m o' w) off n = load_bytes m off n"
  "off + n \<le> o' \<or> o' + 8 \<le> off \<Longrightarrow> load_bytes (set_u64 m o' v) off n = load_bytes m off n"
  by (simp_all add: set_u32_def set_u64_def mem_simps)

section \<open>Printing integers\<close>

text \<open>
  \<^verbatim>\<open>{n}\<close>, \<^verbatim>\<open>{n:#x}\<close> and \<^verbatim>\<open>{n:016x}\<close> of Rust's format strings. \<open>digits_val\<close> reads
  a digit string back and is what makes printed names injective.
\<close>

definition digit_char :: "nat \<Rightarrow> char" where
  "digit_char d = char_of (if d < 10 then 48 + d else 87 + d)"

definition char_digit :: "char \<Rightarrow> nat" where
  "char_digit c = (let n = of_char c in if n < 58 then n - 48 else n - 87)"

fun show_base :: "nat \<Rightarrow> nat \<Rightarrow> string" where
  "show_base b n = (if b < 2 \<or> n < b then [digit_char n] else show_base b (n div b) @ [digit_char (n mod b)])"

declare show_base.simps [simp del]

definition show_nat :: "nat \<Rightarrow> string" where
  "show_nat n = show_base 10 n"

definition show_hex :: "nat \<Rightarrow> string" where
  "show_hex n = show_base 16 n"

definition show_int :: "int \<Rightarrow> string" where
  "show_int i = (if i < 0 then CHR ''-'' # show_nat (nat (- i)) else show_nat (nat i))"

definition pad_zero :: "nat \<Rightarrow> string \<Rightarrow> string" where
  "pad_zero w s = replicate (w - length s) (CHR ''0'') @ s"

fun digits_val :: "nat \<Rightarrow> nat \<Rightarrow> string \<Rightarrow> nat" where
  "digits_val b acc [] = acc"
| "digits_val b acc (c # cs) = digits_val b (acc * b + char_digit c) cs"

lemma char_digit_digit_char: "d < 16 \<Longrightarrow> char_digit (digit_char d) = d"
  by (simp add: char_digit_def digit_char_def Let_def)

lemma digits_val_append: "digits_val b acc (xs @ ys) = digits_val b (digits_val b acc xs) ys"
  by (induction xs arbitrary: acc) auto

lemma digits_val_show_base:
  "2 \<le> b \<Longrightarrow> b \<le> 16 \<Longrightarrow> digits_val b 0 (show_base b n) = n"
proof (induction b n rule: show_base.induct)
  case (1 b n)
  have "n mod b < b" using "1.prems" by simp
  then have "n mod b < 16" using "1.prems" by linarith
  with 1 show ?case
    by (subst show_base.simps) (auto simp: digits_val_append char_digit_digit_char)
qed

lemma show_base_inject: "2 \<le> b \<Longrightarrow> b \<le> 16 \<Longrightarrow> show_base b m = show_base b n \<longleftrightarrow> m = n"
  using digits_val_show_base [of b] by metis

lemma show_nat_inject [simp]: "show_nat m = show_nat n \<longleftrightarrow> m = n"
  by (simp add: show_nat_def show_base_inject)

lemma digit_char_neq_dot: "d < 16 \<Longrightarrow> digit_char d \<noteq> CHR ''.''"
  by (auto simp: digit_char_def char_of_eq_iff take_bit_eq_mod split: if_splits)

lemma show_base_no_dot: "2 \<le> b \<Longrightarrow> b \<le> 16 \<Longrightarrow> CHR ''.'' \<notin> set (show_base b n)"
proof (induction b n rule: show_base.induct)
  case (1 b n)
  have "n mod b < b" using "1.prems" by simp
  then have "n mod b < 16" "n < b \<Longrightarrow> n < 16"
    using "1.prems" by linarith+
  then have "CHR ''.'' \<noteq> digit_char (n mod b)" "n < b \<Longrightarrow> CHR ''.'' \<noteq> digit_char n"
    using digit_char_neq_dot by metis+
  with 1 show ?case
    by (subst show_base.simps) auto
qed

lemma show_base_length: "2 \<le> b \<Longrightarrow> n < b ^ k \<Longrightarrow> 0 < k \<Longrightarrow> length (show_base b n) \<le> k"
proof (induction b n arbitrary: k rule: show_base.induct)
  case (1 b n)
  show ?case
  proof (cases "n < b")
    case True
    with "1.prems" show ?thesis by (subst show_base.simps) simp
  next
    case False
    then obtain j where k: "k = Suc j" "0 < j"
      using "1.prems" by (metis One_nat_def gr0_conv_Suc power_one_right neq0_conv)
    have "n div b < b ^ j" using "1.prems" k by (simp add: less_mult_imp_div_less mult.commute)
    with "1.IH" [of j] False "1.prems" k show ?thesis by (subst show_base.simps) auto
  qed
qed

lemma char_digit_zero: "char_digit (CHR ''0'') = 0"
  by (simp add: char_digit_def)

lemma digits_val_zeros: "digits_val b 0 (replicate k (CHR ''0'') @ s) = digits_val b 0 s"
  by (induction k) (auto simp: char_digit_zero)

lemma pad_hex_inject: "pad_zero w (show_hex m) = pad_zero w (show_hex n) \<Longrightarrow> m = n"
proof -
  assume eq: "pad_zero w (show_hex m) = pad_zero w (show_hex n)"
  have val: "digits_val 16 0 (pad_zero w (show_hex k)) = k" for k
    unfolding pad_zero_def show_hex_def digits_val_zeros by (rule digits_val_show_base) simp_all
  have "m = digits_val 16 0 (pad_zero w (show_hex m))" by (rule val [symmetric])
  also have "\<dots> = n" unfolding eq by (rule val)
  finally show ?thesis .
qed

section \<open>Hash maps\<close>

text \<open>
  \<^verbatim>\<open>HashMap\<close> as an association list with distinct keys. The order of the list stands for
  the iteration order, which Rust leaves open: what is proved of an iteration is proved up to
  that order.
\<close>

type_synonym ('k, 'v) hash_map = "('k \<times> 'v) list"

definition hm_empty :: "('k, 'v) hash_map" where
  "hm_empty = []"

definition hm_get :: "('k, 'v) hash_map \<Rightarrow> 'k \<Rightarrow> 'v option" where
  "hm_get m k = map_of m k"

definition hm_insert :: "'k \<Rightarrow> 'v \<Rightarrow> ('k, 'v) hash_map \<Rightarrow> ('k, 'v) hash_map" where
  "hm_insert k v m = AList.update k v m"

definition hm_remove :: "'k \<Rightarrow> ('k, 'v) hash_map \<Rightarrow> ('k, 'v) hash_map" where
  "hm_remove k m = AList.delete k m"

definition hm_contains :: "('k, 'v) hash_map \<Rightarrow> 'k \<Rightarrow> bool" where
  "hm_contains m k = (hm_get m k \<noteq> None)"

text \<open>\<^verbatim>\<open>entry(k).or_insert(v)\<close>.\<close>

definition hm_or_insert :: "'k \<Rightarrow> 'v \<Rightarrow> ('k, 'v) hash_map \<Rightarrow> ('k, 'v) hash_map" where
  "hm_or_insert k v m = (case hm_get m k of None \<Rightarrow> hm_insert k v m | Some _ \<Rightarrow> m)"

definition hm_ok :: "('k, 'v) hash_map \<Rightarrow> bool" where
  "hm_ok m = distinct (map fst m)"

definition hm_entries :: "('k, 'v) hash_map \<Rightarrow> ('k \<times> 'v) list" where
  "hm_entries m = m"

definition hm_keys_where :: "('v \<Rightarrow> bool) \<Rightarrow> ('k, 'v) hash_map \<Rightarrow> 'k list" where
  "hm_keys_where P m = map fst (filter (\<lambda>(k, v). P v) (hm_entries m))"

text \<open>What the components rely on, and what follows from it alone.\<close>

locale hash_table =
  fixes empty :: 'm
    and get :: "'m \<Rightarrow> 'k \<Rightarrow> 'v option"
    and insert :: "'k \<Rightarrow> 'v \<Rightarrow> 'm \<Rightarrow> 'm"
    and remove :: "'k \<Rightarrow> 'm \<Rightarrow> 'm"
    and entries :: "'m \<Rightarrow> ('k \<times> 'v) list"
    and invar :: "'m \<Rightarrow> bool"
  assumes get_empty: "get empty k = None"
    and get_insert: "get (insert k v m) k' = (if k' = k then Some v else get m k')"
    and get_remove: "get (remove k m) k' = (if k' = k then None else get m k')"
    and invar_empty: "invar empty"
    and invar_insert: "invar m \<Longrightarrow> invar (insert k v m)"
    and invar_remove: "invar m \<Longrightarrow> invar (remove k m)"
    and entries_get: "invar m \<Longrightarrow> (k, v) \<in> set (entries m) \<longleftrightarrow> get m k = Some v"
    and entries_distinct: "invar m \<Longrightarrow> distinct (map fst (entries m))"
begin

lemma get_fold_remove:
  "get (fold remove ks m) k = (if k \<in> set ks then None else get m k)"
  by (induction ks arbitrary: m) (auto simp: get_remove)

lemma invar_fold_remove: "invar m \<Longrightarrow> invar (fold remove ks m)"
  by (induction ks arbitrary: m) (auto simp: invar_remove)

lemma set_keys_where:
  "invar m \<Longrightarrow> k \<in> set (map fst (filter (\<lambda>(k, v). P v) (entries m))) \<longleftrightarrow>
     (\<exists>v. get m k = Some v \<and> P v)"
  using entries_get by force

lemma distinct_keys_where:
  "invar m \<Longrightarrow> distinct (map fst (filter (\<lambda>(k, v). P v) (entries m)))"
  by (rule distinct_map_filter) (rule entries_distinct)

end

interpretation hm: hash_table hm_empty hm_get hm_insert hm_remove hm_entries hm_ok
  by unfold_locales
    (auto simp: hm_empty_def hm_get_def hm_insert_def hm_remove_def hm_entries_def hm_ok_def
      update_conv' delete_conv' distinct_update distinct_delete)

lemmas [simp, hm_simps] = hm.get_empty hm.get_insert hm.get_remove
lemmas [intro, simp] = hm.invar_empty hm.invar_insert hm.invar_remove

lemma hm_contains_simps [simp, hm_simps]:
  "hm_contains (hm_insert k v m) k' \<longleftrightarrow> k' = k \<or> hm_contains m k'"
  "hm_contains (hm_remove k m) k' \<longleftrightarrow> k' \<noteq> k \<and> hm_contains m k'"
  "\<not> hm_contains hm_empty k"
  by (auto simp: hm_contains_def)

lemma hm_get_or_insert [simp, hm_simps]:
  "hm_get (hm_or_insert k v m) k' =
     (if k' = k then (case hm_get m k of None \<Rightarrow> Some v | Some w \<Rightarrow> Some w) else hm_get m k')"
  by (auto simp: hm_or_insert_def split: option.splits)

lemma hm_get_or_insert_keep: "hm_get m j = Some w \<Longrightarrow> hm_get (hm_or_insert k v m) j = Some w"
  by auto

lemma set_hm_keys_where [simp]:
  "hm_ok m \<Longrightarrow> k \<in> set (hm_keys_where P m) \<longleftrightarrow> (\<exists>v. hm_get m k = Some v \<and> P v)"
  unfolding hm_keys_where_def by (rule hm.set_keys_where)

lemma distinct_hm_keys_where [simp]: "hm_ok m \<Longrightarrow> distinct (hm_keys_where P m)"
  unfolding hm_keys_where_def by (rule hm.distinct_keys_where)

section \<open>Codecs\<close>

text \<open>
  The contract of every encoder and decoder pair of the code: on valid values decoding what
  was encoded returns it. A framed codec also decodes it with further bytes behind it.
\<close>

locale codec =
  fixes enc :: "'a \<Rightarrow> 'b" and dec :: "'b \<Rightarrow> 'e + 'a" and valid :: "'a \<Rightarrow> bool"
  assumes dec_enc: "valid x \<Longrightarrow> dec (enc x) = Inr x"
begin

lemma enc_inject: "valid x \<Longrightarrow> valid y \<Longrightarrow> enc x = enc y \<longleftrightarrow> x = y"
  using dec_enc by (metis sum.inject(2))

end

locale framed_codec = codec enc dec valid
  for enc :: "'a \<Rightarrow> 'c list" and dec :: "'c list \<Rightarrow> 'e + 'a" and valid :: "'a \<Rightarrow> bool" +
  assumes dec_enc_rest: "valid x \<Longrightarrow> dec (enc x @ rest) = Inr x"
begin

lemma enc_prefix_free: "valid x \<Longrightarrow> valid y \<Longrightarrow> enc x @ r = enc y @ s \<Longrightarrow> x = y \<and> r = s"
  using dec_enc_rest by (metis same_append_eq sum.inject(2))

end

section \<open>Weights of threads\<close>

lemma total_update:
  fixes f :: "'a \<Rightarrow> 'n::cancel_comm_monoid_add"
  shows "i < length xs \<Longrightarrow> sum_list (map f (xs[i := y])) + f (xs ! i) = sum_list (map f xs) + f y"
  by (induction xs arbitrary: i) (auto simp: nth_Cons' list_update_code ac_simps split: nat.split)

section \<open>Reachable states\<close>

inductive reach :: "('s \<Rightarrow> bool) \<Rightarrow> ('s \<Rightarrow> 's \<Rightarrow> bool) \<Rightarrow> 's \<Rightarrow> bool"
  for init :: "'s \<Rightarrow> bool" and step :: "'s \<Rightarrow> 's \<Rightarrow> bool" where
  reach_init: "init s \<Longrightarrow> reach init step s"
| reach_step: "reach init step s \<Longrightarrow> step s t \<Longrightarrow> reach init step t"

text \<open>An inductive invariant of a transition system holds in every reachable state.\<close>

locale invariant_system =
  fixes init :: "'s \<Rightarrow> bool" and step :: "'s \<Rightarrow> 's \<Rightarrow> bool" and inv :: "'s \<Rightarrow> bool"
  assumes inv_init: "init s \<Longrightarrow> inv s"
    and inv_step: "inv s \<Longrightarrow> step s t \<Longrightarrow> inv t"
begin

lemma inv_reach: "reach init step s \<Longrightarrow> inv s"
  by (induction rule: reach.induct) (auto intro: inv_init inv_step)

end

end
