(* ===== verification/Ring_Frame.thy ===== *)
theory Ring_Frame
  imports Ring_Prelude
begin

text \<open>
  The wire frame around every Avro body (\<^verbatim>\<open>crates/core/src/frame.rs\<close>): a sixteen byte
  header (magic, version, flags, schema fingerprint, body length) and the body. A frame is a
  \<open>framed_codec\<close> for bodies below four gigabytes, and decoding is characterised exactly: which
  buffers it accepts, and which error every other buffer gives.
\<close>

section \<open>Frames\<close>

type_synonym fingerprint = u64

definition FRAME_MAGIC :: u16 where "FRAME_MAGIC = 0x5249"
definition WIRE_VERSION :: u8 where "WIRE_VERSION = 1"
definition FRAME_HEADER :: usize where "FRAME_HEADER = 16"

record frame =
  frame_flags :: u8
  frame_schema_fp :: fingerprint
  frame_body :: bytes

definition frame_new :: "fingerprint \<Rightarrow> bytes \<Rightarrow> frame" where
  "frame_new fp bs = \<lparr>frame_flags = 0, frame_schema_fp = fp, frame_body = bs\<rparr>"

definition frame_encode :: "frame \<Rightarrow> bytes" where
  "frame_encode f =
     u16_to_le_bytes FRAME_MAGIC @ [WIRE_VERSION] @ [frame_flags f] @
     u64_to_le_bytes (frame_schema_fp f) @
     u32_to_le_bytes (word_of_nat (length (frame_body f))) @ frame_body f"

definition frame_decode :: "bytes \<Rightarrow> frame io_result" where
  "frame_decode buf =
     (if length buf < FRAME_HEADER then Inl (IoOther ''frame shorter than header'')
      else if u16_from_le_bytes [buf ! 0, buf ! 1] \<noteq> FRAME_MAGIC
      then Inl (IoOther ''bad frame magic'')
      else
        (let ver = buf ! 2 in
         if ver \<noteq> WIRE_VERSION
         then Inl (IoOther (''unsupported wire version '' @ show_nat (unat ver)))
         else
           (let flags = buf ! 3;
                schema_fp = u64_from_le_bytes (take 8 (drop 4 buf));
                body_len = unat (u32_from_le_bytes (take 4 (drop 12 buf)))
            in if length buf < FRAME_HEADER + body_len
               then Inl (IoOther ''frame body truncated'')
               else Inr \<lparr>frame_flags = flags, frame_schema_fp = schema_fp,
                         frame_body = take body_len (drop FRAME_HEADER buf)\<rparr>)))"

text \<open>The bodies whose length fits the \<^verbatim>\<open>u32\<close> length field.\<close>

definition frame_ok :: "frame \<Rightarrow> bool" where
  "frame_ok f \<longleftrightarrow> length (frame_body f) < 2 ^ 32"

lemmas frame_consts = FRAME_MAGIC_def WIRE_VERSION_def FRAME_HEADER_def

lemma length_frame_encode [simp]: "length (frame_encode f) = FRAME_HEADER + length (frame_body f)"
  by (simp add: frame_encode_def frame_consts)

lemma magic_bytes: "u16_to_le_bytes FRAME_MAGIC = [0x49, 0x52]"
  by (simp add: le_defs frame_consts le_eval)

lemma magic_val: "u16_from_le_bytes [0x49, 0x52] = FRAME_MAGIC"
  using u16_le_round_trip [of FRAME_MAGIC] by (simp add: magic_bytes)

text \<open>
  The header of an encoded frame, byte by byte: every later fact about decoding a frame reads
  its fields off this list.
\<close>

lemma frame_encode_split:
  "frame_encode f @ rest =
     [0x49, 0x52, 1, frame_flags f] @ u64_to_le_bytes (frame_schema_fp f) @
     u32_to_le_bytes (word_of_nat (length (frame_body f))) @ frame_body f @ rest"
  by (simp add: frame_encode_def magic_bytes WIRE_VERSION_def)

lemma frame_fields:
  fixes f :: frame and rest :: bytes
  defines "buf \<equiv> frame_encode f @ rest"
  shows "buf ! 0 = 0x49" "buf ! Suc 0 = 0x52" "buf ! 2 = 1" "buf ! 3 = frame_flags f"
    and "take 8 (drop 4 buf) = u64_to_le_bytes (frame_schema_fp f)"
    and "take 4 (drop 12 buf) = u32_to_le_bytes (word_of_nat (length (frame_body f)))"
    and "drop 16 buf = frame_body f @ rest"
  unfolding buf_def frame_encode_split by simp_all

lemma frame_decode_encode_mod:
  "frame_decode (frame_encode f @ rest) =
     Inr (f\<lparr>frame_body := take (length (frame_body f) mod 2 ^ 32) (frame_body f)\<rparr>)"
proof -
  define buf where "buf = frame_encode f @ rest"
  note fields = frame_fields [of f rest, folded buf_def]
  have len: "unat (word_of_nat (length (frame_body f)) :: u32) = length (frame_body f) mod 2 ^ 32"
    by (simp add: unat_of_nat)
  have le: "length (frame_body f) mod 2 ^ 32 \<le> length (frame_body f)"
    by (rule mod_less_eq_dividend)
  have "length buf = 16 + length (frame_body f) + length rest"
    by (simp add: buf_def FRAME_HEADER_def)
  then have "frame_decode buf = Inr (f\<lparr>frame_body := take (length (frame_body f) mod 2 ^ 32) (frame_body f)\<rparr>)"
    using le by (simp add: frame_decode_def fields magic_val WIRE_VERSION_def FRAME_HEADER_def len Let_def)
  then show ?thesis by (simp only: buf_def)
qed

lemma frame_decode_encode_rest: "frame_ok f \<Longrightarrow> frame_decode (frame_encode f @ rest) = Inr f"
  by (simp add: frame_decode_encode_mod frame_ok_def)

interpretation fc: framed_codec frame_encode frame_decode frame_ok
proof unfold_locales
  show "frame_decode (frame_encode f) = Inr f" if "frame_ok f" for f
    using frame_decode_encode_rest [OF that, of "[]"] by simp
qed (rule frame_decode_encode_rest)

section \<open>Which buffers are frames\<close>

lemma split_header:
  assumes "16 \<le> length buf"
  shows "buf = [buf ! 0, buf ! 1] @ [buf ! 2, buf ! 3] @ take 8 (drop 4 buf) @ take 4 (drop 12 buf) @ drop 16 buf"
proof -
  have "take 4 buf = [buf ! 0, buf ! 1, buf ! 2, buf ! 3]"
    using assms by (intro nth_equalityI) (auto simp: less_Suc_eq numeral_eq_Suc)
  moreover have "drop 4 buf = take 8 (drop 4 buf) @ drop 12 buf"
    using append_take_drop_id [of 8 "drop 4 buf"] by (simp add: drop_drop)
  moreover have "drop 12 buf = take 4 (drop 12 buf) @ drop 16 buf"
    using append_take_drop_id [of 4 "drop 12 buf"] by (simp add: drop_drop)
  ultimately show ?thesis
    using append_take_drop_id [of 4 buf] by simp
qed

lemma frame_decode_Inr:
  assumes "frame_decode buf = Inr f"
  shows "16 \<le> length buf" "[buf ! 0, buf ! 1] = u16_to_le_bytes FRAME_MAGIC" "buf ! 2 = WIRE_VERSION"
    "buf ! 3 = frame_flags f" "take 8 (drop 4 buf) = u64_to_le_bytes (frame_schema_fp f)"
    "unat (u32_from_le_bytes (take 4 (drop 12 buf))) = length (frame_body f)"
    "frame_body f = take (length (frame_body f)) (drop 16 buf)"
proof -
  show len: "16 \<le> length buf"
    using assms by (auto simp: frame_decode_def FRAME_HEADER_def split: if_splits)
  have "u16_from_le_bytes [buf ! 0, buf ! 1] = FRAME_MAGIC"
    using assms by (auto simp: frame_decode_def split: if_splits)
  then show "[buf ! 0, buf ! 1] = u16_to_le_bytes FRAME_MAGIC"
    using u16_le_round_trip' [of "[buf ! 0, buf ! 1]"] by simp
  show "buf ! 2 = WIRE_VERSION" "buf ! 3 = frame_flags f"
    using assms by (auto simp: frame_decode_def Let_def split: if_splits)
  have "frame_schema_fp f = u64_from_le_bytes (take 8 (drop 4 buf))"
    using assms by (auto simp: frame_decode_def Let_def split: if_splits)
  then show "take 8 (drop 4 buf) = u64_to_le_bytes (frame_schema_fp f)"
    using len u64_le_round_trip' [of "take 8 (drop 4 buf)"] by simp
  show "unat (u32_from_le_bytes (take 4 (drop 12 buf))) = length (frame_body f)"
    using assms by (auto simp: frame_decode_def FRAME_HEADER_def Let_def split: if_splits)
  moreover have "frame_body f = take (unat (u32_from_le_bytes (take 4 (drop 12 buf)))) (drop 16 buf)"
    using assms by (auto simp: frame_decode_def FRAME_HEADER_def Let_def split: if_splits)
  ultimately show "frame_body f = take (length (frame_body f)) (drop 16 buf)"
    by metis
qed

text \<open>
  C32: decoding accepts exactly the buffers that begin with the encoding of a frame whose body
  fits the length field, and returns that frame: every encoded frame is read back, whatever
  bytes follow it in the buffer, and nothing else is taken for a frame.
\<close>

theorem frame_decode_iff:
  "frame_decode buf = Inr f \<longleftrightarrow> frame_ok f \<and> (\<exists>rest. buf = frame_encode f @ rest)"
proof
  assume dec: "frame_decode buf = Inr f"
  note fields = frame_decode_Inr [OF dec]
  have ok: "frame_ok f"
    using fields(6) unat_bound [of "u32_from_le_bytes (take 4 (drop 12 buf))"] by (simp add: frame_ok_def)
  have "word_of_nat (length (frame_body f)) = u32_from_le_bytes (take 4 (drop 12 buf))"
    by (simp flip: fields(6))
  then have len: "take 4 (drop 12 buf) = u32_to_le_bytes (word_of_nat (length (frame_body f)))"
    using fields(1) u32_le_round_trip' [of "take 4 (drop 12 buf)"] by simp
  have "drop 16 buf = frame_body f @ drop (length (frame_body f)) (drop 16 buf)"
    using fields(7) append_take_drop_id [of "length (frame_body f)" "drop 16 buf"] by simp
  then have "buf = frame_encode f @ drop (length (frame_body f)) (drop 16 buf)"
    using split_header [OF fields(1)] unfolding fields(2-5) len by (simp add: frame_encode_def)
  with ok show "frame_ok f \<and> (\<exists>rest. buf = frame_encode f @ rest)" by blast
qed (auto simp: fc.dec_enc_rest)

text \<open>
  A body of four gigabytes or more is cut silently: its length is stored modulo
  \<open>2 ^ 32\<close>, and a decoder returns that prefix of the body and no error.
\<close>

lemma frame_body_truncation:
  "frame_decode (frame_encode f) = Inr (f\<lparr>frame_body := take (length (frame_body f) mod 2 ^ 32) (frame_body f)\<rparr>)"
  using frame_decode_encode_mod [of f "[]"] by simp

end
