(* ===== verification/Ring_Avro.thy ===== *)
theory Ring_Avro
  imports Ring_Frame "HOL-Library.Monad_Syntax"
begin

text \<open>
  The Avro layer (\<^verbatim>\<open>crates/core/src/avro.rs\<close>). Parsing of schemas, the Rabin fingerprint,
  resolution and the binary encoding are the \<^verbatim>\<open>apache_avro\<close> crate's, and form the parameter
  \<open>avro_lib\<close>; a schema is an opaque value of type \<open>'sc\<close>. What the code relies on is stated
  as \<open>avro_laws\<close>: the text of a schema, written from its structure, parses to a schema under
  which every value of that structure survives resolution, encoding and decoding. The theory
  \<open>Ring_Avro_Ref\<close> has an instance of the parameter that satisfies the laws.
\<close>

section \<open>Values and the library\<close>

datatype avro_value =
    AvLong i64 | AvInt i32 | AvString string | AvBoolean bool | AvBytes bytes
  | AvArray "avro_value list" | AvRecord "(string \<times> avro_value) list"

record 'sc avro_lib =
  parse_str :: "string \<Rightarrow> string + 'sc"
  rabin_bytes :: "'sc \<Rightarrow> bytes"
  av_resolve :: "avro_value \<Rightarrow> 'sc \<Rightarrow> string + avro_value"
  to_avro_datum :: "'sc \<Rightarrow> avro_value \<Rightarrow> string + bytes"
  from_avro_datum :: "'sc \<Rightarrow> bytes \<Rightarrow> string + avro_value"
  de_long :: "avro_value \<Rightarrow> i64 option"
  de_int :: "avro_value \<Rightarrow> i32 option"
  de_string :: "avro_value \<Rightarrow> string option"
  de_boolean :: "avro_value \<Rightarrow> bool option"
  de_bytes :: "avro_value \<Rightarrow> bytes option"
  de_error :: "avro_value \<Rightarrow> string"

definition other_err :: "string + 'a \<Rightarrow> 'a io_result" where
  "other_err r = (case r of Inl e \<Rightarrow> Inl (IoOther e) | Inr x \<Rightarrow> Inr x)"

definition io_bind :: "'a io_result \<Rightarrow> ('a \<Rightarrow> 'b io_result) \<Rightarrow> 'b io_result" where
  "io_bind r f = (case r of Inl e \<Rightarrow> Inl e | Inr x \<Rightarrow> f x)"

lemma io_bind_simps [simp]: "io_bind (Inl e) f = Inl e" "io_bind (Inr x) f = f x"
  by (simp_all add: io_bind_def)

lemma other_err_simps [simp]: "other_err (Inl m) = Inl (IoOther m)" "other_err (Inr x) = Inr x"
  by (simp_all add: other_err_def)

lemma io_bind_Inr: "io_bind r f = Inr y \<longleftrightarrow> (\<exists>x. r = Inr x \<and> f x = Inr y)"
  by (cases r) auto

lemma other_err_Inr [simp]: "other_err r = Inr x \<longleftrightarrow> r = Inr x"
  by (cases r) auto

section \<open>Operations\<close>

definition fingerprint_of :: "'sc avro_lib \<Rightarrow> 'sc \<Rightarrow> fingerprint" where
  "fingerprint_of lib schema =
     (let fp = rabin_bytes lib schema;
          n = min (length fp) 8
      in u64_from_le_bytes (take n fp @ replicate (8 - n) 0))"

definition avro_parse :: "'sc avro_lib \<Rightarrow> string \<Rightarrow> ('sc \<times> fingerprint) io_result" where
  "avro_parse lib json =
     io_bind (other_err (parse_str lib json)) (\<lambda>schema. Inr (schema, fingerprint_of lib schema))"

text \<open>\<^verbatim>\<open>T: Serialize\<close> and \<^verbatim>\<open>T: DeserializeOwned\<close> are passed as the conversions they derive.\<close>

definition avro_encode ::
  "'sc avro_lib \<Rightarrow> ('a \<Rightarrow> string + avro_value) \<Rightarrow> 'sc \<Rightarrow> 'a \<Rightarrow> bytes io_result" where
  "avro_encode lib to_v schema x =
     io_bind (other_err (to_v x)) (\<lambda>v.
     io_bind (other_err (av_resolve lib v schema)) (\<lambda>v'.
     other_err (to_avro_datum lib schema v')))"

definition avro_decode ::
  "'sc avro_lib \<Rightarrow> (avro_value \<Rightarrow> 'a option) \<Rightarrow> 'sc \<Rightarrow> bytes \<Rightarrow> 'a io_result" where
  "avro_decode lib from_v schema bs =
     io_bind (other_err (from_avro_datum lib schema bs)) (\<lambda>v.
     case from_v v of None \<Rightarrow> Inl (IoOther (de_error lib v)) | Some x \<Rightarrow> Inr x)"

type_synonym 'sc schema_registry = "(fingerprint, 'sc) hash_map"

definition schema_register :: "'sc avro_lib \<Rightarrow> 'sc \<Rightarrow> 'sc schema_registry \<Rightarrow> fingerprint \<times> 'sc schema_registry" where
  "schema_register lib schema reg =
     (let fp = fingerprint_of lib schema in
      (fp, hm_or_insert fp schema reg))"

definition schema_register_json ::
  "'sc avro_lib \<Rightarrow> string \<Rightarrow> 'sc schema_registry \<Rightarrow> fingerprint io_result \<times> 'sc schema_registry" where
  "schema_register_json lib json reg =
     (case avro_parse lib json of
        Inl e \<Rightarrow> (Inl e, reg)
      | Inr (schema, _) \<Rightarrow> (let (fp, reg') = schema_register lib schema reg in (Inr fp, reg')))"

definition schema_get :: "'sc schema_registry \<Rightarrow> fingerprint \<Rightarrow> 'sc option" where
  "schema_get reg fp = hm_get reg fp"

definition schema_compatible :: "fingerprint \<Rightarrow> fingerprint \<Rightarrow> bool" where
  "schema_compatible expected actual = (expected = actual)"

section \<open>The structure of a schema\<close>

datatype avro_ty =
    TLong | TInt | TString | TBoolean | TBytes
  | TArray avro_ty
  | TRecord string "string option" "(string \<times> avro_ty \<times> i64 option) list"

fun intersperse_comma :: "string list \<Rightarrow> string" where
  "intersperse_comma [] = []"
| "intersperse_comma [s] = s"
| "intersperse_comma (s # t # ss) = s @ '','' @ intersperse_comma (t # ss)"

definition default_json :: "i64 option \<Rightarrow> string" where
  \<open>default_json d = (case d of None \<Rightarrow> '''' | Some i \<Rightarrow> '',"default":'' @ show_int i)\<close>

fun type_json :: "avro_ty \<Rightarrow> string" where
  \<open>type_json TLong = ''"long"''\<close>
| \<open>type_json TInt = ''"int"''\<close>
| \<open>type_json TString = ''"string"''\<close>
| \<open>type_json TBoolean = ''"boolean"''\<close>
| \<open>type_json TBytes = ''"bytes"''\<close>
| \<open>type_json (TArray t) = ''{"type":"array","items":'' @ type_json t @ ''}''\<close>
| \<open>type_json (TRecord nm ns fs) =
     ''{"type":"record","name":"'' @ nm @
     (case ns of None \<Rightarrow> ''"'' | Some n \<Rightarrow> ''","namespace":"'' @ n @ ''"'') @ '',"fields":['' @
     intersperse_comma
       (map (\<lambda>(fnm, t, d). ''{"name":"'' @ fnm @ ''","type":'' @ type_json t @ default_json d @ ''}'') fs) @ '']}''\<close>

text \<open>
  The values of a structure, with integers in the range of their Rust type and no more than the decoder is willing to
  allocate: it refuses a string or bytes of more than 512 MiB, and an array whose items would need more.
\<close>

fun has_type :: "avro_ty \<Rightarrow> avro_value \<Rightarrow> bool" where
  "has_type TLong (AvLong i) \<longleftrightarrow> - (2 ^ 63) \<le> i \<and> i < 2 ^ 63"
| "has_type TInt (AvInt i) \<longleftrightarrow> - (2 ^ 31) \<le> i \<and> i < 2 ^ 31"
| "has_type TString (AvString s) \<longleftrightarrow> length s \<le> 2 ^ 29"
| "has_type TBoolean (AvBoolean b) \<longleftrightarrow> True"
| "has_type TBytes (AvBytes bs) \<longleftrightarrow> length bs \<le> 2 ^ 29"
| "has_type (TArray t) (AvArray vs) \<longleftrightarrow> length vs \<le> 2 ^ 22 \<and> (\<forall>v \<in> set vs. has_type t v)"
| "has_type (TRecord nm ns fs) (AvRecord vs) \<longleftrightarrow>
     map fst vs = map fst fs \<and> list_all2 (\<lambda>(fnm, t, d) (k, v). has_type t v) fs vs"
| "has_type _ _ \<longleftrightarrow> False"

text \<open>
  The laws of the library, for the structures in \<open>tys\<close> (those the program writes down):
  the text of each parses, to a schema under which its values pass \<^verbatim>\<open>resolve\<close> unchanged,
  encode, and decode to themselves; and a leaf converts to the Rust value it was made from.
\<close>

definition avro_leaf_laws :: "'sc avro_lib \<Rightarrow> bool" where
  "avro_leaf_laws lib \<longleftrightarrow>
     (\<forall>i. de_long lib (AvLong i) = Some i) \<and> (\<forall>i. de_int lib (AvInt i) = Some i) \<and>
     (\<forall>s. de_string lib (AvString s) = Some s) \<and> (\<forall>b. de_boolean lib (AvBoolean b) = Some b) \<and>
     (\<forall>bs. de_bytes lib (AvBytes bs) = Some bs)"

definition avro_schema_law :: "'sc avro_lib \<Rightarrow> avro_ty \<Rightarrow> bool" where
  "avro_schema_law lib t \<longleftrightarrow>
     (\<exists>sc. parse_str lib (type_json t) = Inr sc \<and>
        (\<forall>v. has_type t v \<longrightarrow> av_resolve lib v sc = Inr v \<and>
           (\<exists>bs. to_avro_datum lib sc v = Inr bs \<and> from_avro_datum lib sc bs = Inr v)))"

definition avro_laws :: "avro_ty set \<Rightarrow> 'sc avro_lib \<Rightarrow> bool" where
  "avro_laws tys lib \<longleftrightarrow> avro_leaf_laws lib \<and> (\<forall>t \<in> tys. avro_schema_law lib t)"

lemma avro_leafD [simp]:
  assumes "avro_leaf_laws lib"
  shows "de_long lib (AvLong i) = Some i" "de_int lib (AvInt n) = Some n"
    "de_string lib (AvString s) = Some s" "de_boolean lib (AvBoolean b) = Some b"
    "de_bytes lib (AvBytes bs) = Some bs"
  using assms by (simp_all add: avro_leaf_laws_def)

lemma avro_schema_lawE:
  assumes "avro_schema_law lib t" "parse_str lib (type_json t) = Inr sc" "has_type t v"
  obtains bs where "av_resolve lib v sc = Inr v" "to_avro_datum lib sc v = Inr bs"
    "from_avro_datum lib sc bs = Inr v"
  using assms by (auto simp: avro_schema_law_def)

section \<open>Lemmas\<close>

lemma avro_encode_ok:
  assumes "avro_schema_law lib t" "parse_str lib (type_json t) = Inr sc" "has_type t v" "to_v x = Inr v"
  shows "\<exists>bs. avro_encode lib to_v sc x = Inr bs \<and>
    (\<forall>from_v. avro_decode lib from_v sc bs =
       (case from_v v of None \<Rightarrow> Inl (IoOther (de_error lib v)) | Some y \<Rightarrow> Inr y))"
  by (rule avro_schema_lawE [OF assms(1-3)]) (simp add: avro_encode_def avro_decode_def assms(4))

text \<open>
  Registering a schema is idempotent and first-come: the fingerprint returned is the schema's
  own, what the registry holds under it afterwards is the schema registered first, and no other
  entry changes.
\<close>

lemma schema_register_spec:
  "schema_register lib schema reg = (fp, reg') \<Longrightarrow>
     fp = fingerprint_of lib schema \<and>
     schema_get reg' fp = (case schema_get reg fp of None \<Rightarrow> Some schema | Some old \<Rightarrow> Some old) \<and>
     (\<forall>other. other \<noteq> fp \<longrightarrow> schema_get reg' other = schema_get reg other) \<and>
     schema_register lib schema reg' = (fp, reg')"
  by (auto simp: schema_register_def schema_get_def hm_or_insert_def Let_def split: option.splits)

end
