(* ===== verification/Ring_Shm.thy ===== *)
theory Ring_Shm
  imports Ring_Prelude
begin

text \<open>
  Named POSIX shared memory (\<^verbatim>\<open>crates/core/src/shm.rs\<close>). The kernel's side is a directory
  from names to objects and the objects' bytes: a name is created, resized and unlinked, an
  object outlives its name for whoever has mapped it. Which calls the kernel refuses, and with
  which \<^verbatim>\<open>errno\<close>, is a parameter (\<open>os_env\<close>). On top of it: \<^verbatim>\<open>Segment::create\<close>,
  \<^verbatim>\<open>Segment::open\<close>, \<^verbatim>\<open>Drop\<close>, \<^verbatim>\<open>unlink\<close>, \<^verbatim>\<open>list_segments\<close>, \<^verbatim>\<open>pid_alive\<close>.
\<close>

section \<open>The kernel\<close>

record os_env =
  os_shm_open :: "string \<Rightarrow> bool \<Rightarrow> int option"
  os_fchmod :: "string \<Rightarrow> int option"
  os_ftruncate :: "string \<Rightarrow> usize \<Rightarrow> int option"
  os_fstat :: "string \<Rightarrow> int option"
  os_mmap :: "string \<Rightarrow> usize \<Rightarrow> int option"
  os_shm_unlink :: "string \<Rightarrow> int option"
  os_read_dir :: "int option"
  os_kill :: "i32 \<Rightarrow> int option"
  os_strerror :: "int \<Rightarrow> string"

record shm =
  shm_dir :: "(string, nat) hash_map"
  shm_obj :: "nat \<Rightarrow> bytes"
  shm_next :: nat

definition shm_empty :: shm where
  "shm_empty = \<lparr>shm_dir = hm_empty, shm_obj = (\<lambda>_. []), shm_next = 0\<rparr>"

text \<open>A POSIX name is looked up without its leading slashes.\<close>

definition shm_path :: "string \<Rightarrow> string" where
  "shm_path name = dropWhile (\<lambda>c. c = CHR ''/'') name"

definition has_nul :: "string \<Rightarrow> bool" where
  "has_nul s = list_ex (\<lambda>c. c = CHR 0x00) s"

definition resize :: "usize \<Rightarrow> bytes \<Rightarrow> bytes" where
  "resize n bs = take n bs @ replicate (n - length bs) 0"

definition sys_open :: "string \<Rightarrow> shm \<Rightarrow> nat option" where
  "sys_open name w = hm_get (shm_dir w) (shm_path name)"

definition sys_creat :: "string \<Rightarrow> shm \<Rightarrow> nat \<times> shm" where
  "sys_creat name w =
     (case sys_open name w of
        Some ob \<Rightarrow> (ob, w)
      | None \<Rightarrow>
          (shm_next w,
           w\<lparr>shm_dir := hm_insert (shm_path name) (shm_next w) (shm_dir w),
             shm_obj := (shm_obj w)(shm_next w := []),
             shm_next := Suc (shm_next w)\<rparr>))"

definition set_obj :: "nat \<Rightarrow> bytes \<Rightarrow> shm \<Rightarrow> shm" where
  "set_obj ob bs w = w\<lparr>shm_obj := (shm_obj w)(ob := bs)\<rparr>"

definition sys_mmap :: "os_env \<Rightarrow> string \<Rightarrow> usize \<Rightarrow> int option" where
  "sys_mmap os name sz = (if sz = 0 then Some 22 else os_mmap os name sz)"

section \<open>Segments\<close>

definition NAME_PREFIX :: string where
  "NAME_PREFIX = ''impulse-ring.''"

record segment =
  seg_name :: string
  seg_ptr :: nat
  seg_len :: usize
  owns_unlink :: bool

definition segment_create :: "os_env \<Rightarrow> string \<Rightarrow> usize \<Rightarrow> shm \<Rightarrow> segment io_result \<times> shm" where
  "segment_create os name sz w =
     (if has_nul name then (Inl (IoOther ''nul in shm name''), w)
      else case os_shm_open os name True of
        Some e \<Rightarrow> (Inl (IoOs e), w)
      | None \<Rightarrow>
          (let (ob, w1) = sys_creat name w in
           case os_fchmod os name of
             Some e \<Rightarrow> (Inl (IoOs e), w1)
           | None \<Rightarrow>
               (case os_ftruncate os name sz of
                  Some e \<Rightarrow> (Inl (IoOs e), w1)
                | None \<Rightarrow>
                    (let w2 = set_obj ob (resize sz (shm_obj w1 ob)) w1 in
                     case sys_mmap os name sz of
                       Some e \<Rightarrow> (Inl (IoOs e), w2)
                     | None \<Rightarrow>
                         (Inr \<lparr>seg_name = name, seg_ptr = ob, seg_len = sz, owns_unlink = True\<rparr>, w2)))))"

definition segment_open :: "os_env \<Rightarrow> string \<Rightarrow> shm \<Rightarrow> segment io_result" where
  "segment_open os name w =
     (if has_nul name then Inl (IoOther ''nul in shm name'')
      else case sys_open name w of
        None \<Rightarrow> Inl (IoOs ENOENT)
      | Some ob \<Rightarrow>
          (case os_shm_open os name False of
             Some e \<Rightarrow> Inl (IoOs e)
           | None \<Rightarrow>
               (case os_fstat os name of
                  Some e \<Rightarrow> Inl (IoOs e)
                | None \<Rightarrow>
                    (let sz = length (shm_obj w ob) in
                     if sz = 0 then Inl (IoOther ''segment has zero size'')
                     else case sys_mmap os name sz of
                       Some e \<Rightarrow> Inl (IoOs e)
                     | None \<Rightarrow>
                         Inr \<lparr>seg_name = name, seg_ptr = ob, seg_len = sz, owns_unlink = False\<rparr>))))"

definition unlink :: "os_env \<Rightarrow> string \<Rightarrow> shm \<Rightarrow> unit io_result \<times> shm" where
  "unlink os name w =
     (if has_nul name then (Inl (IoOther ''nul in shm name''), w)
      else case sys_open name w of
        None \<Rightarrow> (Inr (), w)
      | Some ob \<Rightarrow>
          (case os_shm_unlink os name of
             Some e \<Rightarrow> (if e = ENOENT then Inr () else Inl (IoOs e), w)
           | None \<Rightarrow> (Inr (), w\<lparr>shm_dir := hm_remove (shm_path name) (shm_dir w)\<rparr>)))"

definition segment_drop :: "os_env \<Rightarrow> segment \<Rightarrow> shm \<Rightarrow> shm" where
  "segment_drop os seg w = (if owns_unlink seg then snd (unlink os (seg_name seg) w) else w)"

definition starts_with :: "string \<Rightarrow> string \<Rightarrow> bool" where
  "starts_with s p = (take (length p) s = p)"

definition list_segments :: "os_env \<Rightarrow> shm \<Rightarrow> string list io_result" where
  "list_segments os w =
     (case os_read_dir os of
        Some e \<Rightarrow> Inl (IoOs e)
      | None \<Rightarrow>
          Inr (map (\<lambda>fname. CHR ''/'' # fname)
                 (filter (\<lambda>fname. starts_with fname NAME_PREFIX) (map fst (hm_entries (shm_dir w))))))"

definition pid_alive :: "os_env \<Rightarrow> i32 \<Rightarrow> bool" where
  "pid_alive os pid =
     (if pid \<le> 0 then False
      else case os_kill os pid of
        None \<Rightarrow> True
      | Some e \<Rightarrow> e = EPERM)"

text \<open>Every name leads to an object that exists, and no two names lead to the same one.\<close>

definition shm_ok :: "shm \<Rightarrow> bool" where
  "shm_ok w \<longleftrightarrow> hm_ok (shm_dir w) \<and>
     (\<forall>p ob. hm_get (shm_dir w) p = Some ob \<longrightarrow> ob < shm_next w) \<and>
     (\<forall>p q ob. hm_get (shm_dir w) p = Some ob \<longrightarrow> hm_get (shm_dir w) q = Some ob \<longrightarrow> p = q)"

section \<open>Lemmas\<close>

lemma length_resize [simp]: "length (resize n bs) = n"
  by (simp add: resize_def)

lemma set_obj_simps [simp]:
  "shm_dir (set_obj ob bs w) = shm_dir w" "shm_next (set_obj ob bs w) = shm_next w"
  "shm_obj (set_obj ob bs w) = (shm_obj w)(ob := bs)"
  by (simp_all add: set_obj_def)

lemma sys_open_set_obj [simp]: "sys_open name (set_obj ob bs w) = sys_open name w"
  by (simp add: sys_open_def)

lemma shm_ok_empty [simp]: "shm_ok shm_empty"
  by (simp add: shm_ok_def shm_empty_def)

lemma shm_ok_set_obj [simp]: "shm_ok (set_obj ob bs w) = shm_ok w"
  by (simp add: shm_ok_def)

lemma sys_creat_open: "sys_open name (snd (sys_creat name w)) = Some (fst (sys_creat name w))"
  by (auto simp: sys_creat_def sys_open_def split: option.splits)

lemma sys_creat_open_other:
  "shm_path n \<noteq> shm_path name \<Longrightarrow> sys_open n (snd (sys_creat name w)) = sys_open n w"
  by (auto simp: sys_creat_def sys_open_def split: option.splits)

lemma sys_creat_obj_other:
  "ob < shm_next w \<Longrightarrow> shm_obj (snd (sys_creat name w)) ob = shm_obj w ob"
  by (auto simp: sys_creat_def split: option.splits)

lemma sys_creat_fresh: "sys_open name w = None \<Longrightarrow> fst (sys_creat name w) = shm_next w"
  by (simp add: sys_creat_def)

lemma sys_creat_next: "shm_next w \<le> shm_next (snd (sys_creat name w))"
  by (auto simp: sys_creat_def split: option.splits)

lemma shm_ok_creat: "shm_ok w \<Longrightarrow> shm_ok (snd (sys_creat name w))"
  by (cases "sys_open name w")
    (auto simp: sys_creat_def sys_open_def shm_ok_def less_Suc_eq_le intro: less_imp_le dest: less_not_refl2)

lemma unlink_dir:
  "sys_open n (snd (unlink os name w)) = None \<or> sys_open n (snd (unlink os name w)) = sys_open n w"
  "shm_path n \<noteq> shm_path name \<Longrightarrow> sys_open n (snd (unlink os name w)) = sys_open n w"
  "shm_obj (snd (unlink os name w)) = shm_obj w"
  "shm_next (snd (unlink os name w)) = shm_next w"
  by (auto simp: unlink_def sys_open_def split: option.splits)

lemma shm_ok_unlink [intro]: "shm_ok w \<Longrightarrow> shm_ok (snd (unlink os name w))"
  by (auto simp: unlink_def shm_ok_def split: option.splits)

lemma shm_ok_drop [intro]: "shm_ok w \<Longrightarrow> shm_ok (segment_drop os seg w)"
  by (auto simp: segment_drop_def)

lemma shm_ok_create [intro]: "shm_ok w \<Longrightarrow> shm_ok (snd (segment_create os name sz w))"
  using shm_ok_creat [of w name]
  by (auto simp: segment_create_def Let_def split: option.splits prod.splits)

lemma segment_create_Inr:
  assumes "segment_create os name sz w = (Inr seg, w')"
  shows "seg_name seg = name" "seg_len seg = sz" "owns_unlink seg"
    and "sys_open name w' = Some (seg_ptr seg)" "length (shm_obj w' (seg_ptr seg)) = sz"
    and "0 < sz"
  using assms sys_creat_open [of name w]
  by (auto simp: segment_create_def sys_mmap_def Let_def split: option.splits prod.splits if_splits)

lemma segment_open_Inr:
  assumes "segment_open os name w = Inr seg"
  shows "seg_name seg = name" "sys_open name w = Some (seg_ptr seg)" "\<not> owns_unlink seg"
    and "seg_len seg = length (shm_obj w (seg_ptr seg))" "0 < seg_len seg"
  using assms
  by (auto simp: segment_open_def Let_def split: option.splits if_splits)

end
