(* ===== verification/Ring_Util.thy ===== *)
theory Ring_Util
  imports Ring_Shm "HOL-Library.Disjoint_Sets"
begin

text \<open>
  Segment names and access keys (\<^verbatim>\<open>crates/core/src/util.rs\<close>). Every segment of the bus is
  found by its name alone, so the names of different segments have to differ and all of them
  have to be recognisable by the broker's start-up sweep. SHA-256 comes from a crate and is the
  parameter \<open>sha\<close>; random numbers are drawn by the callers' environment.
\<close>

section \<open>Names\<close>

definition CONTROL_SEGMENT :: string where
  "CONTROL_SEGMENT = ''/impulse-ring.ctl.v1''"

definition client_segment :: "u64 \<Rightarrow> string" where
  "client_segment nonce = ''/impulse-ring.cli.'' @ show_nat (unat nonce) @ ''.v1''"

definition channel_arena :: "u64 \<Rightarrow> string" where
  "channel_arena channel_id = ''/impulse-ring.arena.'' @ show_nat (unat channel_id) @ ''.v1''"

definition function_arena :: "u64 \<Rightarrow> string" where
  "function_arena fn_id = ''/impulse-ring.fn.'' @ show_nat (unat fn_id) @ ''.v1''"

text \<open>\<open>bs\<close> are the eight bytes \<^verbatim>\<open>getrandom\<close> filled in.\<close>

definition random_u64 :: "bytes \<Rightarrow> u64" where
  "random_u64 bs = u64_from_le_bytes bs"

lemmas name_defs = CONTROL_SEGMENT_def client_segment_def channel_arena_def function_arena_def

text \<open>The names of the bus, as the sweep of the shared memory directory sees them.\<close>

definition bus_names :: "string set" where
  "bus_names = insert CONTROL_SEGMENT (range client_segment \<union> range channel_arena \<union> range function_arena)"

lemma names_inject [simp]:
  "client_segment a = client_segment b \<longleftrightarrow> a = b"
  "channel_arena a = channel_arena b \<longleftrightarrow> a = b"
  "function_arena a = function_arena b \<longleftrightarrow> a = b"
  by (simp_all add: name_defs word_unat_eq_iff)

lemma names_disjoint [simp]:
  "client_segment a \<noteq> channel_arena b" "channel_arena b \<noteq> client_segment a"
  "client_segment a \<noteq> function_arena b" "function_arena b \<noteq> client_segment a"
  "channel_arena a \<noteq> function_arena b" "function_arena b \<noteq> channel_arena a"
  "client_segment a \<noteq> CONTROL_SEGMENT" "CONTROL_SEGMENT \<noteq> client_segment a"
  "channel_arena a \<noteq> CONTROL_SEGMENT" "CONTROL_SEGMENT \<noteq> channel_arena a"
  "function_arena a \<noteq> CONTROL_SEGMENT" "CONTROL_SEGMENT \<noteq> function_arena a"
  by (simp_all add: name_defs)

lemma shm_path_name [simp]:
  "shm_path CONTROL_SEGMENT = tl CONTROL_SEGMENT"
  "shm_path (client_segment a) = tl (client_segment a)"
  "shm_path (channel_arena a) = tl (channel_arena a)"
  "shm_path (function_arena a) = tl (function_arena a)"
  by (simp_all add: name_defs shm_path_def)

lemma bus_name_path: "n \<in> bus_names \<Longrightarrow> n = CHR ''/'' # shm_path n"
  by (auto simp: bus_names_def) (simp_all add: name_defs)

lemma bus_name_path_inject: "a \<in> bus_names \<Longrightarrow> b \<in> bus_names \<Longrightarrow> shm_path a = shm_path b \<longleftrightarrow> a = b"
  using bus_name_path by metis

lemma bus_names_intro [simp, intro]:
  "CONTROL_SEGMENT \<in> bus_names" "client_segment a \<in> bus_names"
  "channel_arena a \<in> bus_names" "function_arena a \<in> bus_names"
  by (simp_all add: bus_names_def)

lemma bus_name_prefix: "n \<in> bus_names \<Longrightarrow> starts_with (shm_path n) NAME_PREFIX"
  by (auto simp: bus_names_def) (simp_all add: name_defs starts_with_def NAME_PREFIX_def)

lemma digit_char_nul: "d < 16 \<Longrightarrow> digit_char d \<noteq> CHR 0x00"
  by (auto simp: digit_char_def char_of_eq_iff take_bit_eq_mod split: if_splits)

lemma show_base_no_nul: "2 \<le> b \<Longrightarrow> b \<le> 16 \<Longrightarrow> CHR 0x00 \<notin> set (show_base b n)"
proof (induction b n rule: show_base.induct)
  case (1 b n)
  have "n mod b < b" using "1.prems" by simp
  then have "n mod b < 16" "n < b \<Longrightarrow> n < 16"
    using "1.prems" by linarith+
  then have "CHR 0x00 \<noteq> digit_char (n mod b)" "n < b \<Longrightarrow> CHR 0x00 \<noteq> digit_char n"
    using digit_char_nul by metis+
  with 1 show ?case
    by (subst show_base.simps) auto
qed

lemma has_nul_iff: "has_nul s \<longleftrightarrow> CHR 0x00 \<in> set s"
  by (auto simp: has_nul_def list_ex_iff)

lemma bus_name_nul: "n \<in> bus_names \<Longrightarrow> \<not> has_nul n"
  by (auto simp: bus_names_def has_nul_iff) (auto simp: name_defs show_nat_def show_base_no_nul)

text \<open>
  Distinct segments have distinct names: the printed identifier can be read back from a
  name, the kinds of name never meet, none of them is the control segment, and all of them
  carry the prefix by which the sweep of the shared memory directory recognises the bus.
\<close>

lemma segment_names:
  "inj client_segment \<and> inj channel_arena \<and> inj function_arena \<and>
   disjoint_family_on (\<lambda>f. range f) {client_segment, channel_arena, function_arena} \<and>
   CONTROL_SEGMENT \<notin> range client_segment \<union> range channel_arena \<union> range function_arena \<and>
   inj_on shm_path bus_names \<and>
   bus_names \<subseteq> {n. starts_with (shm_path n) NAME_PREFIX \<and> \<not> has_nul n}"
proof (intro conjI)
  show "inj client_segment" "inj channel_arena" "inj function_arena"
    by (simp_all add: inj_on_def)
  show "disjoint_family_on (\<lambda>f. range f) {client_segment, channel_arena, function_arena}"
    by (auto simp: disjoint_family_on_def)
  show "CONTROL_SEGMENT \<notin> range client_segment \<union> range channel_arena \<union> range function_arena"
    by auto
  show "inj_on shm_path bus_names"
    by (rule inj_onI) (simp add: bus_name_path_inject)
  show "bus_names \<subseteq> {n. starts_with (shm_path n) NAME_PREFIX \<and> \<not> has_nul n}"
    using bus_name_prefix bus_name_nul by blast
qed

section \<open>Access keys\<close>

definition string_bytes :: "string \<Rightarrow> bytes" where
  "string_bytes s = map of_char s"

definition key_hash :: "(bytes \<Rightarrow> bytes) \<Rightarrow> string \<Rightarrow> bytes" where
  "key_hash sha key = sha (string_bytes (''impulse-ring/key/v1:'' @ key))"

definition key_matches :: "(bytes \<Rightarrow> bytes) \<Rightarrow> string \<Rightarrow> bytes \<Rightarrow> bool" where
  "key_matches sha presented stored_hash =
     (let h = key_hash sha presented;
          diff = fold (\<lambda>i diff. diff OR (h ! i XOR stored_hash ! i)) [0..<32] (0 :: u8)
      in diff = 0)"

lemma or_eq_0_word: "(a OR b :: 'a::len word) = 0 \<longleftrightarrow> a = 0 \<and> b = 0"
  by (auto simp: bit_eq_iff bit_simps)

lemma xor_eq_0_word: "(a XOR b :: 'a::len word) = 0 \<longleftrightarrow> a = b"
  by (auto simp: bit_eq_iff bit_simps)

lemma fold_diff_zero:
  "fold (\<lambda>i d. d OR (f i XOR g i)) xs (d0 :: u8) = 0 \<longleftrightarrow> d0 = 0 \<and> (\<forall>i \<in> set xs. f i = g i)"
  by (induction xs arbitrary: d0) (auto simp: or_eq_0_word xor_eq_0_word)

lemma key_matches_eq:
  "length (key_hash sha presented) = 32 \<Longrightarrow> length stored = 32 \<Longrightarrow>
     key_matches sha presented stored \<longleftrightarrow> key_hash sha presented = stored"
  by (auto simp: key_matches_def fold_diff_zero list_eq_iff_nth_eq)

lemma string_bytes_inject [simp]: "string_bytes a = string_bytes b \<longleftrightarrow> a = b"
proof -
  have nat: "unat (of_char c :: u8) = of_char c" for c
  proof -
    have "(of_char c :: u8) = word_of_nat (of_char c)" by (simp only: of_nat_of_char)
    moreover have "of_char c < (256 :: nat)" by (rule nat_of_char_less_256)
    ultimately show ?thesis by (simp only: unat_byte_of_nat) simp
  qed
  have "inj (of_char :: char \<Rightarrow> u8)"
  proof (rule injI)
    fix x y :: char
    assume "(of_char x :: u8) = of_char y"
    then have "(of_char x :: nat) = of_char y" using nat by metis
    then show "x = y" by simp
  qed
  then show ?thesis by (simp add: string_bytes_def)
qed

text \<open>
  the comparison that does not stop at the first difference decides equality of the
  hashes: a presented key is accepted if and only if the salted hash of it is the stored one,
  so that the key a resource was locked with opens it, and another key does only when
  the two are a collision of the hash.
\<close>

lemma key_matches_spec:
  assumes "\<And>bs. length (sha bs) = 32" and "length stored = 32"
  shows "key_matches sha presented stored \<longleftrightarrow>
     sha (string_bytes (''impulse-ring/key/v1:'' @ presented)) = stored"
  using key_matches_eq [of sha presented stored] assms by (simp add: key_hash_def)

text \<open>A stand-in for the hash, for concrete runs: the first 32 bytes after the salt, padded.\<close>

definition demo_sha :: "bytes \<Rightarrow> bytes" where
  "demo_sha bs = take 32 (drop 20 bs @ replicate 32 0)"

lemma length_demo_sha [simp]: "length (demo_sha bs) = 32"
  by (simp add: demo_sha_def)

end
