(* ===== verification/Ring_Avro_Ref.thy ===== *)
theory Ring_Avro_Ref
  imports Ring_Avro Ring_Util
begin

text \<open>
  An instance of the Avro parameter: a catalogue of structures, schemas that are positions in
  it, and a fixed-width encoding. It satisfies the laws assumed of the library, so that every
  theorem that assumes them applies to something.
\<close>

section \<open>A fixed-width encoding\<close>

definition bytes_string :: "bytes \<Rightarrow> string" where
  "bytes_string bs = map (\<lambda>b. char_of (unat b)) bs"

lemma bytes_string_bytes [simp]: "bytes_string (string_bytes s) = s"
proof -
  have "char_of (unat (of_char c :: u8)) = c" for c
  proof -
    have "(of_char c :: u8) = word_of_nat (of_char c)" by (simp only: of_nat_of_char)
    then have "unat (of_char c :: u8) = of_char c" by (simp only: unat_byte_of_nat) simp
    then show ?thesis by simp
  qed
  then show ?thesis by (induction s) (simp_all add: bytes_string_def string_bytes_def)
qed

lemma length_string_bytes [simp]: "length (string_bytes s) = length s"
  by (simp add: string_bytes_def)

fun ref_enc :: "avro_value \<Rightarrow> bytes" where
  "ref_enc (AvLong i) = u64_to_le_bytes (word_of_int i)"
| "ref_enc (AvInt i) = u32_to_le_bytes (word_of_int i)"
| "ref_enc (AvString s) = u64_to_le_bytes (word_of_nat (length s)) @ string_bytes s"
| "ref_enc (AvBoolean b) = [if b then 1 else 0]"
| "ref_enc (AvBytes bs) = u64_to_le_bytes (word_of_nat (length bs)) @ bs"
| "ref_enc (AvArray vs) = u64_to_le_bytes (word_of_nat (length vs)) @ concat (map ref_enc vs)"
| "ref_enc (AvRecord vs) = concat (map (\<lambda>(k, v). ref_enc v) vs)"

definition ref_len :: "bytes \<Rightarrow> nat" where
  "ref_len bs = unat (u64_from_le_bytes (take 8 bs))"

fun dec_times :: "(bytes \<Rightarrow> (avro_value \<times> bytes) option) \<Rightarrow> nat \<Rightarrow> bytes \<Rightarrow> (avro_value list \<times> bytes) option" where
  "dec_times d 0 bs = Some ([], bs)"
| "dec_times d (Suc n) bs =
     do { (v, r) \<leftarrow> d bs; (vs, r') \<leftarrow> dec_times d n r; Some (v # vs, r') }"

fun dec_fields ::
  "(string \<times> (bytes \<Rightarrow> (avro_value \<times> bytes) option)) list \<Rightarrow> bytes \<Rightarrow> ((string \<times> avro_value) list \<times> bytes) option" where
  "dec_fields [] bs = Some ([], bs)"
| "dec_fields ((nm, d) # ds) bs =
     do { (v, r) \<leftarrow> d bs; (vs, r') \<leftarrow> dec_fields ds r; Some ((nm, v) # vs, r') }"

fun ref_dec :: "avro_ty \<Rightarrow> bytes \<Rightarrow> (avro_value \<times> bytes) option" where
  "ref_dec TLong bs = Some (AvLong (sint (u64_from_le_bytes (take 8 bs))), drop 8 bs)"
| "ref_dec TInt bs = Some (AvInt (sint (u32_from_le_bytes (take 4 bs))), drop 4 bs)"
| "ref_dec TString bs =
     Some (AvString (bytes_string (take (ref_len bs) (drop 8 bs))), drop (8 + ref_len bs) bs)"
| "ref_dec TBoolean bs = Some (AvBoolean (take 1 bs = [1]), drop 1 bs)"
| "ref_dec TBytes bs = Some (AvBytes (take (ref_len bs) (drop 8 bs)), drop (8 + ref_len bs) bs)"
| "ref_dec (TArray t) bs =
     map_option (\<lambda>(vs, r). (AvArray vs, r)) (dec_times (ref_dec t) (ref_len bs) (drop 8 bs))"
| "ref_dec (TRecord nm ns fs) bs =
     map_option (\<lambda>(vs, r). (AvRecord vs, r)) (dec_fields (map (\<lambda>(k, t, d). (k, ref_dec t)) fs) bs)"

lemma ref_len_enc [simp]:
  "n < 2 ^ 64 \<Longrightarrow> ref_len (u64_to_le_bytes (word_of_nat n) @ bs) = n"
  by (simp add: ref_len_def unat_of_nat take_bit_nat_eq_self)

lemma dec_times_enc:
  "(\<And>v rest. v \<in> set vs \<Longrightarrow> d (ref_enc v @ rest) = Some (v, rest)) \<Longrightarrow>
     dec_times d (length vs) (concat (map ref_enc vs) @ rest) = Some (vs, rest)"
  by (induction vs) simp_all

lemma dec_fields_enc:
  "list_all2 (\<lambda>(k, d) (k', v). k' = k \<and> (\<forall>rest. d (ref_enc v @ rest) = Some (v, rest))) ds vs \<Longrightarrow>
     dec_fields ds (concat (map (\<lambda>(k, v). ref_enc v) vs) @ rest) = Some (vs, rest)"
  by (induction ds vs rule: list_all2_induct) auto

lemma sint_of_int_64: "- (2 ^ 63) \<le> i \<Longrightarrow> i < 2 ^ 63 \<Longrightarrow> sint (word_of_int i :: u64) = i"
  using wrap_i64_id by (simp add: wrap_i64_def)

lemma sint_of_int_32: "- (2 ^ 31) \<le> i \<Longrightarrow> i < 2 ^ 31 \<Longrightarrow> sint (word_of_int i :: u32) = i"
  using wrap_i32_id by (simp add: wrap_i32_def)

lemma ref_dec_enc: "has_type t v \<Longrightarrow> ref_dec t (ref_enc v @ rest) = Some (v, rest)"
proof (induction t v arbitrary: rest rule: has_type.induct)
  case (1 i)
  then show ?case using sint_of_int_64 [of i] by simp
next
  case (2 i)
  then show ?case using sint_of_int_32 [of i] by simp
next
  case (6 t vs)
  have "dec_times (ref_dec t) (length vs) (concat (map ref_enc vs) @ rest) = Some (vs, rest)"
    by (rule dec_times_enc) (use 6 in auto)
  with "6.prems" show ?case by simp
next
  case (7 nm ns fs vs)
  have "list_all2 (\<lambda>(k, d) (k', v). k' = k \<and> (\<forall>rest. d (ref_enc v @ rest) = Some (v, rest)))
      (map (\<lambda>(k, t, d). (k, ref_dec t)) fs) vs"
  proof (rule list_all2_all_nthI)
    show len: "length (map (\<lambda>(k, t, d). (k, ref_dec t)) fs) = length vs"
      using "7.prems" by (auto dest: list_all2_lengthD)
    fix i assume "i < length (map (\<lambda>(k, t, d). (k, ref_dec t)) fs)"
    then have i: "i < length fs" "i < length vs" using len by simp_all
    obtain k t d k' v where e: "fs ! i = (k, t, d)" "vs ! i = (k', v)" by (metis prod_cases3 surj_pair)
    have k: "k' = k" using "7.prems" i e by (metis fst_conv has_type.simps(7) nth_map)
    have t: "has_type t v" using "7.prems" i e by (auto simp: list_all2_conv_all_nth split: prod.splits)
    have "ref_dec t (ref_enc v @ rest) = Some (v, rest)" for rest
      using "7.IH" [of "fs ! i" "vs ! i"] nth_mem [OF i(1)] nth_mem [OF i(2)] e t by simp
    with i e k show "(case map (\<lambda>(k, t, d). (k, ref_dec t)) fs ! i of (k, d) \<Rightarrow>
        \<lambda>(k', v). k' = k \<and> (\<forall>rest. d (ref_enc v @ rest) = Some (v, rest))) (vs ! i)" by simp
  qed
  from dec_fields_enc [OF this] show ?case by simp
qed simp_all

section \<open>The instance\<close>

definition ref_lib :: "avro_ty list \<Rightarrow> nat avro_lib" where
  "ref_lib tys =
     \<lparr>parse_str = (\<lambda>json. case find (\<lambda>i. type_json (tys ! i) = json) [0..<length tys] of
                     None \<Rightarrow> Inl ''unknown schema'' | Some i \<Rightarrow> Inr i),
      rabin_bytes = (\<lambda>i. le_bytes 8 i),
      av_resolve = (\<lambda>v i. Inr v),
      to_avro_datum = (\<lambda>i v. Inr (ref_enc v)),
      from_avro_datum = (\<lambda>i bs. case ref_dec (tys ! i) bs of
                           None \<Rightarrow> Inl ''end of data'' | Some (v, r) \<Rightarrow> Inr v),
      de_long = (\<lambda>v. case v of AvLong i \<Rightarrow> Some i | AvInt i \<Rightarrow> Some i | _ \<Rightarrow> None),
      de_int = (\<lambda>v. case v of AvInt i \<Rightarrow> Some i | _ \<Rightarrow> None),
      de_string = (\<lambda>v. case v of AvString s \<Rightarrow> Some s | _ \<Rightarrow> None),
      de_boolean = (\<lambda>v. case v of AvBoolean b \<Rightarrow> Some b | _ \<Rightarrow> None),
      de_bytes = (\<lambda>v. case v of AvBytes bs \<Rightarrow> Some bs | _ \<Rightarrow> None),
      de_error = (\<lambda>v. ''cannot deserialize'')\<rparr>"

lemma ref_lib_leaf: "avro_leaf_laws (ref_lib tys)"
  by (simp add: avro_leaf_laws_def ref_lib_def)

lemma ref_parse:
  assumes "distinct (map type_json tys)" "i < length tys"
  shows "parse_str (ref_lib tys) (type_json (tys ! i)) = Inr i"
proof -
  have "find (\<lambda>j. type_json (tys ! j) = type_json (tys ! i)) [0..<length tys] = Some i"
    using assms by (auto simp: find_Some_iff nth_eq_iff_index_eq distinct_map intro!: exI [of _ i]
        dest: inj_onD)
  then show ?thesis by (simp add: ref_lib_def)
qed

lemma ref_lib_laws:
  assumes "distinct (map type_json tys)" "T \<subseteq> set tys"
  shows "avro_laws T (ref_lib tys)"
  unfolding avro_laws_def
proof (intro conjI ballI)
  show "avro_leaf_laws (ref_lib tys)" by (rule ref_lib_leaf)
  fix t assume "t \<in> T"
  then obtain i where i: "i < length tys" "t = tys ! i" using assms(2) by (metis in_set_conv_nth subsetD)
  have "from_avro_datum (ref_lib tys) i (ref_enc v) = Inr v" if "has_type t v" for v
    using ref_dec_enc [OF that, of "[]"] by (simp add: ref_lib_def i(2))
  moreover have "av_resolve (ref_lib tys) v i = Inr v" "to_avro_datum (ref_lib tys) i v = Inr (ref_enc v)" for v
    by (simp_all add: ref_lib_def)
  ultimately show "avro_schema_law (ref_lib tys) t"
    using ref_parse [OF assms(1) i(1)] i(2) by (auto simp: avro_schema_law_def)
qed

end
