(* ===== verification/Ring_Proto.thy ===== *)
theory Ring_Proto
  imports Ring_Avro_Ref
begin

text \<open>
  The control-plane and RPC messages (\<^verbatim>\<open>crates/core/src/proto.rs\<close>): one record per message
  struct with the conversions its \<^verbatim>\<open>Serialize\<close> and \<^verbatim>\<open>Deserialize\<close> derive, the schema
  texts, the catalogue that maps fingerprints to message kinds and writer schemas, and the
  framing of messages. \<open>kind_type\<close> is the structure behind each schema text.
\<close>

section \<open>Status codes and kinds\<close>

definition STATUS_OK :: i32 where "STATUS_OK = 0"
definition ERR_NOT_FOUND :: i32 where "ERR_NOT_FOUND = 1"
definition ERR_DENIED :: i32 where "ERR_DENIED = 2"
definition ERR_SCHEMA_MISMATCH :: i32 where "ERR_SCHEMA_MISMATCH = 3"
definition ERR_INTERNAL :: i32 where "ERR_INTERNAL = 4"
definition ERR_EXISTS :: i32 where "ERR_EXISTS = 5"

lemmas status_defs =
  STATUS_OK_def ERR_NOT_FOUND_def ERR_DENIED_def ERR_SCHEMA_MISMATCH_def ERR_INTERNAL_def ERR_EXISTS_def

definition fp_to_i64 :: "fingerprint \<Rightarrow> i64" where
  "fp_to_i64 fp = sint fp"

definition i64_to_fp :: "i64 \<Rightarrow> fingerprint" where
  "i64_to_fp v = word_of_int v"

datatype kind =
    Register | RegisterReply | Unregister | PublishChannel | PublishReply | Unpublish
  | ListChannels | ChannelList | Subscribe | SubscribeReply | ExposeFunction | ExposeReply
  | LookupFunction | LookupReply | Heartbeat | RpcRequest | RpcResponse

definition ALL_KINDS :: "kind list" where
  "ALL_KINDS =
     [Register, RegisterReply, Unregister, PublishChannel, PublishReply, Unpublish,
      ListChannels, ChannelList, Subscribe, SubscribeReply, ExposeFunction, ExposeReply,
      LookupFunction, LookupReply, Heartbeat, RpcRequest, RpcResponse]"

fun kind_name :: "kind \<Rightarrow> string" where
  "kind_name Register = ''Register''"
| "kind_name RegisterReply = ''RegisterReply''"
| "kind_name Unregister = ''Unregister''"
| "kind_name PublishChannel = ''PublishChannel''"
| "kind_name PublishReply = ''PublishReply''"
| "kind_name Unpublish = ''Unpublish''"
| "kind_name ListChannels = ''ListChannels''"
| "kind_name ChannelList = ''ChannelList''"
| "kind_name Subscribe = ''Subscribe''"
| "kind_name SubscribeReply = ''SubscribeReply''"
| "kind_name ExposeFunction = ''ExposeFunction''"
| "kind_name ExposeReply = ''ExposeReply''"
| "kind_name LookupFunction = ''LookupFunction''"
| "kind_name LookupReply = ''LookupReply''"
| "kind_name Heartbeat = ''Heartbeat''"
| "kind_name RpcRequest = ''RpcRequest''"
| "kind_name RpcResponse = ''RpcResponse''"

section \<open>Messages\<close>

record register =
  reg_correlation_id :: i64
  reg_app_name :: string
  reg_nonce :: i64
  reg_reply_segment :: string
  reg_heartbeat_ms :: i64
  reg_pid :: i64

record register_reply =
  regr_correlation_id :: i64
  regr_client_id :: i64
  regr_status :: i32
  regr_message :: string

record unregister =
  unreg_correlation_id :: i64
  unreg_client_id :: i64

record publish_channel =
  pub_correlation_id :: i64
  pub_client_id :: i64
  pub_channel :: string
  pub_schema_json :: string
  pub_access_key :: string
  pub_arena_cap :: i64

record publish_reply =
  pubr_correlation_id :: i64
  pubr_channel_id :: i64
  pubr_schema_fp :: i64
  pubr_arena :: string
  pubr_status :: i32
  pubr_message :: string

record unpublish =
  unpub_correlation_id :: i64
  unpub_client_id :: i64
  unpub_channel :: string

record list_channels =
  lst_correlation_id :: i64
  lst_client_id :: i64

record channel_info =
  ci_channel_id :: i64
  ci_name :: string
  ci_owner_app :: string
  ci_schema_fp :: i64
  ci_requires_key :: bool

record channel_list =
  chl_correlation_id :: i64
  chl_channels :: "channel_info list"

record subscribe =
  sub_correlation_id :: i64
  sub_client_id :: i64
  sub_channel_id :: i64
  sub_access_key :: string
  sub_expected_fp :: i64

record subscribe_reply =
  subr_correlation_id :: i64
  subr_arena :: string
  subr_schema_fp :: i64
  subr_status :: i32
  subr_message :: string

record expose_function =
  exp_correlation_id :: i64
  exp_client_id :: i64
  exp_fn_name :: string
  exp_req_schema_json :: string
  exp_resp_schema_json :: string
  exp_access_key :: string
  exp_req_arena_cap :: i64

record expose_reply =
  expr_correlation_id :: i64
  expr_fn_id :: i64
  expr_req_fp :: i64
  expr_resp_fp :: i64
  expr_req_arena :: string
  expr_status :: i32
  expr_message :: string

record lookup_function =
  lkp_correlation_id :: i64
  lkp_client_id :: i64
  lkp_fn_name :: string
  lkp_access_key :: string

record lookup_reply =
  lkpr_correlation_id :: i64
  lkpr_fn_id :: i64
  lkpr_req_fp :: i64
  lkpr_resp_fp :: i64
  lkpr_req_arena :: string
  lkpr_status :: i32
  lkpr_message :: string

record heartbeat =
  hb_correlation_id :: i64
  hb_client_id :: i64
  hb_seq :: i64

record rpc_request =
  rq_correlation_id :: i64
  rq_caller_id :: i64
  rq_reply_segment :: string
  rq_arg_fp :: i64
  rq_args :: bytes

record rpc_response =
  rs_correlation_id :: i64
  rs_status :: i32
  rs_message :: string
  rs_result_fp :: i64
  rs_result :: bytes

section \<open>Conversions\<close>

text \<open>A field of a struct, and one with \<^verbatim>\<open>#[serde(default)]\<close>.\<close>

definition de_field :: "(avro_value \<Rightarrow> 'a option) \<Rightarrow> avro_value \<Rightarrow> string \<Rightarrow> 'a option" where
  "de_field de v nm = (case v of AvRecord fs \<Rightarrow> Option.bind (map_of fs nm) de | _ \<Rightarrow> None)"

definition field_default :: "(avro_value \<Rightarrow> 'a option) \<Rightarrow> 'a \<Rightarrow> avro_value \<Rightarrow> string \<Rightarrow> 'a option" where
  "field_default de d v nm =
     (case v of AvRecord fs \<Rightarrow> (case map_of fs nm of None \<Rightarrow> Some d | Some w \<Rightarrow> de w) | _ \<Rightarrow> None)"

definition register_to_value :: "register \<Rightarrow> avro_value" where
  "register_to_value m =
     AvRecord
       [(''correlation_id'', AvLong (reg_correlation_id m)),
        (''app_name'', AvString (reg_app_name m)),
        (''nonce'', AvLong (reg_nonce m)),
        (''reply_segment'', AvString (reg_reply_segment m)),
        (''heartbeat_ms'', AvLong (reg_heartbeat_ms m)),
        (''pid'', AvLong (reg_pid m))]"

definition register_from_value :: "'sc avro_lib \<Rightarrow> avro_value \<Rightarrow> register option" where
  "register_from_value lib v =
     do {
       x0 \<leftarrow> de_field (de_long lib) v ''correlation_id'';
       x1 \<leftarrow> de_field (de_string lib) v ''app_name'';
       x2 \<leftarrow> de_field (de_long lib) v ''nonce'';
       x3 \<leftarrow> de_field (de_string lib) v ''reply_segment'';
       x4 \<leftarrow> de_field (de_long lib) v ''heartbeat_ms'';
       x5 \<leftarrow> field_default (de_long lib) 0 v ''pid'';
       Some \<lparr>reg_correlation_id = x0, reg_app_name = x1, reg_nonce = x2, reg_reply_segment = x3, reg_heartbeat_ms = x4, reg_pid = x5\<rparr>
     }"

definition register_reply_to_value :: "register_reply \<Rightarrow> avro_value" where
  "register_reply_to_value m =
     AvRecord
       [(''correlation_id'', AvLong (regr_correlation_id m)),
        (''client_id'', AvLong (regr_client_id m)),
        (''status'', AvInt (regr_status m)),
        (''message'', AvString (regr_message m))]"

definition register_reply_from_value :: "'sc avro_lib \<Rightarrow> avro_value \<Rightarrow> register_reply option" where
  "register_reply_from_value lib v =
     do {
       x0 \<leftarrow> de_field (de_long lib) v ''correlation_id'';
       x1 \<leftarrow> de_field (de_long lib) v ''client_id'';
       x2 \<leftarrow> de_field (de_int lib) v ''status'';
       x3 \<leftarrow> de_field (de_string lib) v ''message'';
       Some \<lparr>regr_correlation_id = x0, regr_client_id = x1, regr_status = x2, regr_message = x3\<rparr>
     }"

definition unregister_to_value :: "unregister \<Rightarrow> avro_value" where
  "unregister_to_value m =
     AvRecord
       [(''correlation_id'', AvLong (unreg_correlation_id m)),
        (''client_id'', AvLong (unreg_client_id m))]"

definition unregister_from_value :: "'sc avro_lib \<Rightarrow> avro_value \<Rightarrow> unregister option" where
  "unregister_from_value lib v =
     do {
       x0 \<leftarrow> de_field (de_long lib) v ''correlation_id'';
       x1 \<leftarrow> de_field (de_long lib) v ''client_id'';
       Some \<lparr>unreg_correlation_id = x0, unreg_client_id = x1\<rparr>
     }"

definition publish_channel_to_value :: "publish_channel \<Rightarrow> avro_value" where
  "publish_channel_to_value m =
     AvRecord
       [(''correlation_id'', AvLong (pub_correlation_id m)),
        (''client_id'', AvLong (pub_client_id m)),
        (''channel'', AvString (pub_channel m)),
        (''schema_json'', AvString (pub_schema_json m)),
        (''access_key'', AvString (pub_access_key m)),
        (''arena_cap'', AvLong (pub_arena_cap m))]"

definition publish_channel_from_value :: "'sc avro_lib \<Rightarrow> avro_value \<Rightarrow> publish_channel option" where
  "publish_channel_from_value lib v =
     do {
       x0 \<leftarrow> de_field (de_long lib) v ''correlation_id'';
       x1 \<leftarrow> de_field (de_long lib) v ''client_id'';
       x2 \<leftarrow> de_field (de_string lib) v ''channel'';
       x3 \<leftarrow> de_field (de_string lib) v ''schema_json'';
       x4 \<leftarrow> de_field (de_string lib) v ''access_key'';
       x5 \<leftarrow> field_default (de_long lib) 0 v ''arena_cap'';
       Some \<lparr>pub_correlation_id = x0, pub_client_id = x1, pub_channel = x2, pub_schema_json = x3, pub_access_key = x4, pub_arena_cap = x5\<rparr>
     }"

definition publish_reply_to_value :: "publish_reply \<Rightarrow> avro_value" where
  "publish_reply_to_value m =
     AvRecord
       [(''correlation_id'', AvLong (pubr_correlation_id m)),
        (''channel_id'', AvLong (pubr_channel_id m)),
        (''schema_fp'', AvLong (pubr_schema_fp m)),
        (''arena'', AvString (pubr_arena m)),
        (''status'', AvInt (pubr_status m)),
        (''message'', AvString (pubr_message m))]"

definition publish_reply_from_value :: "'sc avro_lib \<Rightarrow> avro_value \<Rightarrow> publish_reply option" where
  "publish_reply_from_value lib v =
     do {
       x0 \<leftarrow> de_field (de_long lib) v ''correlation_id'';
       x1 \<leftarrow> de_field (de_long lib) v ''channel_id'';
       x2 \<leftarrow> de_field (de_long lib) v ''schema_fp'';
       x3 \<leftarrow> de_field (de_string lib) v ''arena'';
       x4 \<leftarrow> de_field (de_int lib) v ''status'';
       x5 \<leftarrow> de_field (de_string lib) v ''message'';
       Some \<lparr>pubr_correlation_id = x0, pubr_channel_id = x1, pubr_schema_fp = x2, pubr_arena = x3, pubr_status = x4, pubr_message = x5\<rparr>
     }"

definition unpublish_to_value :: "unpublish \<Rightarrow> avro_value" where
  "unpublish_to_value m =
     AvRecord
       [(''correlation_id'', AvLong (unpub_correlation_id m)),
        (''client_id'', AvLong (unpub_client_id m)),
        (''channel'', AvString (unpub_channel m))]"

definition unpublish_from_value :: "'sc avro_lib \<Rightarrow> avro_value \<Rightarrow> unpublish option" where
  "unpublish_from_value lib v =
     do {
       x0 \<leftarrow> de_field (de_long lib) v ''correlation_id'';
       x1 \<leftarrow> de_field (de_long lib) v ''client_id'';
       x2 \<leftarrow> de_field (de_string lib) v ''channel'';
       Some \<lparr>unpub_correlation_id = x0, unpub_client_id = x1, unpub_channel = x2\<rparr>
     }"

definition list_channels_to_value :: "list_channels \<Rightarrow> avro_value" where
  "list_channels_to_value m =
     AvRecord
       [(''correlation_id'', AvLong (lst_correlation_id m)),
        (''client_id'', AvLong (lst_client_id m))]"

definition list_channels_from_value :: "'sc avro_lib \<Rightarrow> avro_value \<Rightarrow> list_channels option" where
  "list_channels_from_value lib v =
     do {
       x0 \<leftarrow> de_field (de_long lib) v ''correlation_id'';
       x1 \<leftarrow> de_field (de_long lib) v ''client_id'';
       Some \<lparr>lst_correlation_id = x0, lst_client_id = x1\<rparr>
     }"

definition channel_info_to_value :: "channel_info \<Rightarrow> avro_value" where
  "channel_info_to_value m =
     AvRecord
       [(''channel_id'', AvLong (ci_channel_id m)),
        (''name'', AvString (ci_name m)),
        (''owner_app'', AvString (ci_owner_app m)),
        (''schema_fp'', AvLong (ci_schema_fp m)),
        (''requires_key'', AvBoolean (ci_requires_key m))]"

definition channel_info_from_value :: "'sc avro_lib \<Rightarrow> avro_value \<Rightarrow> channel_info option" where
  "channel_info_from_value lib v =
     do {
       x0 \<leftarrow> de_field (de_long lib) v ''channel_id'';
       x1 \<leftarrow> de_field (de_string lib) v ''name'';
       x2 \<leftarrow> de_field (de_string lib) v ''owner_app'';
       x3 \<leftarrow> de_field (de_long lib) v ''schema_fp'';
       x4 \<leftarrow> de_field (de_boolean lib) v ''requires_key'';
       Some \<lparr>ci_channel_id = x0, ci_name = x1, ci_owner_app = x2, ci_schema_fp = x3, ci_requires_key = x4\<rparr>
     }"

fun infos_from_values :: "'sc avro_lib \<Rightarrow> avro_value list \<Rightarrow> channel_info list option" where
  "infos_from_values lib [] = Some []"
| "infos_from_values lib (v # vs) =
     do { i \<leftarrow> channel_info_from_value lib v; is \<leftarrow> infos_from_values lib vs; Some (i # is) }"

definition infos_from_value :: "'sc avro_lib \<Rightarrow> avro_value \<Rightarrow> channel_info list option" where
  "infos_from_value lib v = (case v of AvArray vs \<Rightarrow> infos_from_values lib vs | _ \<Rightarrow> None)"

definition channel_list_to_value :: "channel_list \<Rightarrow> avro_value" where
  "channel_list_to_value m =
     AvRecord
       [(''correlation_id'', AvLong (chl_correlation_id m)),
        (''channels'', AvArray (map channel_info_to_value (chl_channels m)))]"

definition channel_list_from_value :: "'sc avro_lib \<Rightarrow> avro_value \<Rightarrow> channel_list option" where
  "channel_list_from_value lib v =
     do {
       x0 \<leftarrow> de_field (de_long lib) v ''correlation_id'';
       x1 \<leftarrow> de_field (infos_from_value lib) v ''channels'';
       Some \<lparr>chl_correlation_id = x0, chl_channels = x1\<rparr>
     }"

definition subscribe_to_value :: "subscribe \<Rightarrow> avro_value" where
  "subscribe_to_value m =
     AvRecord
       [(''correlation_id'', AvLong (sub_correlation_id m)),
        (''client_id'', AvLong (sub_client_id m)),
        (''channel_id'', AvLong (sub_channel_id m)),
        (''access_key'', AvString (sub_access_key m)),
        (''expected_fp'', AvLong (sub_expected_fp m))]"

definition subscribe_from_value :: "'sc avro_lib \<Rightarrow> avro_value \<Rightarrow> subscribe option" where
  "subscribe_from_value lib v =
     do {
       x0 \<leftarrow> de_field (de_long lib) v ''correlation_id'';
       x1 \<leftarrow> de_field (de_long lib) v ''client_id'';
       x2 \<leftarrow> de_field (de_long lib) v ''channel_id'';
       x3 \<leftarrow> de_field (de_string lib) v ''access_key'';
       x4 \<leftarrow> de_field (de_long lib) v ''expected_fp'';
       Some \<lparr>sub_correlation_id = x0, sub_client_id = x1, sub_channel_id = x2, sub_access_key = x3, sub_expected_fp = x4\<rparr>
     }"

definition subscribe_reply_to_value :: "subscribe_reply \<Rightarrow> avro_value" where
  "subscribe_reply_to_value m =
     AvRecord
       [(''correlation_id'', AvLong (subr_correlation_id m)),
        (''arena'', AvString (subr_arena m)),
        (''schema_fp'', AvLong (subr_schema_fp m)),
        (''status'', AvInt (subr_status m)),
        (''message'', AvString (subr_message m))]"

definition subscribe_reply_from_value :: "'sc avro_lib \<Rightarrow> avro_value \<Rightarrow> subscribe_reply option" where
  "subscribe_reply_from_value lib v =
     do {
       x0 \<leftarrow> de_field (de_long lib) v ''correlation_id'';
       x1 \<leftarrow> de_field (de_string lib) v ''arena'';
       x2 \<leftarrow> de_field (de_long lib) v ''schema_fp'';
       x3 \<leftarrow> de_field (de_int lib) v ''status'';
       x4 \<leftarrow> de_field (de_string lib) v ''message'';
       Some \<lparr>subr_correlation_id = x0, subr_arena = x1, subr_schema_fp = x2, subr_status = x3, subr_message = x4\<rparr>
     }"

definition expose_function_to_value :: "expose_function \<Rightarrow> avro_value" where
  "expose_function_to_value m =
     AvRecord
       [(''correlation_id'', AvLong (exp_correlation_id m)),
        (''client_id'', AvLong (exp_client_id m)),
        (''fn_name'', AvString (exp_fn_name m)),
        (''req_schema_json'', AvString (exp_req_schema_json m)),
        (''resp_schema_json'', AvString (exp_resp_schema_json m)),
        (''access_key'', AvString (exp_access_key m)),
        (''req_arena_cap'', AvLong (exp_req_arena_cap m))]"

definition expose_function_from_value :: "'sc avro_lib \<Rightarrow> avro_value \<Rightarrow> expose_function option" where
  "expose_function_from_value lib v =
     do {
       x0 \<leftarrow> de_field (de_long lib) v ''correlation_id'';
       x1 \<leftarrow> de_field (de_long lib) v ''client_id'';
       x2 \<leftarrow> de_field (de_string lib) v ''fn_name'';
       x3 \<leftarrow> de_field (de_string lib) v ''req_schema_json'';
       x4 \<leftarrow> de_field (de_string lib) v ''resp_schema_json'';
       x5 \<leftarrow> de_field (de_string lib) v ''access_key'';
       x6 \<leftarrow> field_default (de_long lib) 0 v ''req_arena_cap'';
       Some \<lparr>exp_correlation_id = x0, exp_client_id = x1, exp_fn_name = x2, exp_req_schema_json = x3, exp_resp_schema_json = x4, exp_access_key = x5, exp_req_arena_cap = x6\<rparr>
     }"

definition expose_reply_to_value :: "expose_reply \<Rightarrow> avro_value" where
  "expose_reply_to_value m =
     AvRecord
       [(''correlation_id'', AvLong (expr_correlation_id m)),
        (''fn_id'', AvLong (expr_fn_id m)),
        (''req_fp'', AvLong (expr_req_fp m)),
        (''resp_fp'', AvLong (expr_resp_fp m)),
        (''req_arena'', AvString (expr_req_arena m)),
        (''status'', AvInt (expr_status m)),
        (''message'', AvString (expr_message m))]"

definition expose_reply_from_value :: "'sc avro_lib \<Rightarrow> avro_value \<Rightarrow> expose_reply option" where
  "expose_reply_from_value lib v =
     do {
       x0 \<leftarrow> de_field (de_long lib) v ''correlation_id'';
       x1 \<leftarrow> de_field (de_long lib) v ''fn_id'';
       x2 \<leftarrow> de_field (de_long lib) v ''req_fp'';
       x3 \<leftarrow> de_field (de_long lib) v ''resp_fp'';
       x4 \<leftarrow> de_field (de_string lib) v ''req_arena'';
       x5 \<leftarrow> de_field (de_int lib) v ''status'';
       x6 \<leftarrow> de_field (de_string lib) v ''message'';
       Some \<lparr>expr_correlation_id = x0, expr_fn_id = x1, expr_req_fp = x2, expr_resp_fp = x3, expr_req_arena = x4, expr_status = x5, expr_message = x6\<rparr>
     }"

definition lookup_function_to_value :: "lookup_function \<Rightarrow> avro_value" where
  "lookup_function_to_value m =
     AvRecord
       [(''correlation_id'', AvLong (lkp_correlation_id m)),
        (''client_id'', AvLong (lkp_client_id m)),
        (''fn_name'', AvString (lkp_fn_name m)),
        (''access_key'', AvString (lkp_access_key m))]"

definition lookup_function_from_value :: "'sc avro_lib \<Rightarrow> avro_value \<Rightarrow> lookup_function option" where
  "lookup_function_from_value lib v =
     do {
       x0 \<leftarrow> de_field (de_long lib) v ''correlation_id'';
       x1 \<leftarrow> de_field (de_long lib) v ''client_id'';
       x2 \<leftarrow> de_field (de_string lib) v ''fn_name'';
       x3 \<leftarrow> de_field (de_string lib) v ''access_key'';
       Some \<lparr>lkp_correlation_id = x0, lkp_client_id = x1, lkp_fn_name = x2, lkp_access_key = x3\<rparr>
     }"

definition lookup_reply_to_value :: "lookup_reply \<Rightarrow> avro_value" where
  "lookup_reply_to_value m =
     AvRecord
       [(''correlation_id'', AvLong (lkpr_correlation_id m)),
        (''fn_id'', AvLong (lkpr_fn_id m)),
        (''req_fp'', AvLong (lkpr_req_fp m)),
        (''resp_fp'', AvLong (lkpr_resp_fp m)),
        (''req_arena'', AvString (lkpr_req_arena m)),
        (''status'', AvInt (lkpr_status m)),
        (''message'', AvString (lkpr_message m))]"

definition lookup_reply_from_value :: "'sc avro_lib \<Rightarrow> avro_value \<Rightarrow> lookup_reply option" where
  "lookup_reply_from_value lib v =
     do {
       x0 \<leftarrow> de_field (de_long lib) v ''correlation_id'';
       x1 \<leftarrow> de_field (de_long lib) v ''fn_id'';
       x2 \<leftarrow> de_field (de_long lib) v ''req_fp'';
       x3 \<leftarrow> de_field (de_long lib) v ''resp_fp'';
       x4 \<leftarrow> de_field (de_string lib) v ''req_arena'';
       x5 \<leftarrow> de_field (de_int lib) v ''status'';
       x6 \<leftarrow> de_field (de_string lib) v ''message'';
       Some \<lparr>lkpr_correlation_id = x0, lkpr_fn_id = x1, lkpr_req_fp = x2, lkpr_resp_fp = x3, lkpr_req_arena = x4, lkpr_status = x5, lkpr_message = x6\<rparr>
     }"

definition heartbeat_to_value :: "heartbeat \<Rightarrow> avro_value" where
  "heartbeat_to_value m =
     AvRecord
       [(''correlation_id'', AvLong (hb_correlation_id m)),
        (''client_id'', AvLong (hb_client_id m)),
        (''seq'', AvLong (hb_seq m))]"

definition heartbeat_from_value :: "'sc avro_lib \<Rightarrow> avro_value \<Rightarrow> heartbeat option" where
  "heartbeat_from_value lib v =
     do {
       x0 \<leftarrow> de_field (de_long lib) v ''correlation_id'';
       x1 \<leftarrow> de_field (de_long lib) v ''client_id'';
       x2 \<leftarrow> de_field (de_long lib) v ''seq'';
       Some \<lparr>hb_correlation_id = x0, hb_client_id = x1, hb_seq = x2\<rparr>
     }"

definition rpc_request_to_value :: "rpc_request \<Rightarrow> avro_value" where
  "rpc_request_to_value m =
     AvRecord
       [(''correlation_id'', AvLong (rq_correlation_id m)),
        (''caller_id'', AvLong (rq_caller_id m)),
        (''reply_segment'', AvString (rq_reply_segment m)),
        (''arg_fp'', AvLong (rq_arg_fp m)),
        (''args'', AvBytes (rq_args m))]"

definition rpc_request_from_value :: "'sc avro_lib \<Rightarrow> avro_value \<Rightarrow> rpc_request option" where
  "rpc_request_from_value lib v =
     do {
       x0 \<leftarrow> de_field (de_long lib) v ''correlation_id'';
       x1 \<leftarrow> de_field (de_long lib) v ''caller_id'';
       x2 \<leftarrow> de_field (de_string lib) v ''reply_segment'';
       x3 \<leftarrow> de_field (de_long lib) v ''arg_fp'';
       x4 \<leftarrow> de_field (de_bytes lib) v ''args'';
       Some \<lparr>rq_correlation_id = x0, rq_caller_id = x1, rq_reply_segment = x2, rq_arg_fp = x3, rq_args = x4\<rparr>
     }"

definition rpc_response_to_value :: "rpc_response \<Rightarrow> avro_value" where
  "rpc_response_to_value m =
     AvRecord
       [(''correlation_id'', AvLong (rs_correlation_id m)),
        (''status'', AvInt (rs_status m)),
        (''message'', AvString (rs_message m)),
        (''result_fp'', AvLong (rs_result_fp m)),
        (''result'', AvBytes (rs_result m))]"

definition rpc_response_from_value :: "'sc avro_lib \<Rightarrow> avro_value \<Rightarrow> rpc_response option" where
  "rpc_response_from_value lib v =
     do {
       x0 \<leftarrow> de_field (de_long lib) v ''correlation_id'';
       x1 \<leftarrow> de_field (de_int lib) v ''status'';
       x2 \<leftarrow> de_field (de_string lib) v ''message'';
       x3 \<leftarrow> de_field (de_long lib) v ''result_fp'';
       x4 \<leftarrow> de_field (de_bytes lib) v ''result'';
       Some \<lparr>rs_correlation_id = x0, rs_status = x1, rs_message = x2, rs_result_fp = x3, rs_result = x4\<rparr>
     }"

section \<open>Schema texts\<close>

definition schema_json :: "string \<Rightarrow> string \<Rightarrow> string" where
  \<open>schema_json nm flds =
     ''{"type":"record","name":"'' @ nm @ ''","namespace":"ring.proto","fields":['' @ flds @ '']}''\<close>

fun schema_for :: "kind \<Rightarrow> string" where
  \<open>schema_for Register = schema_json ''Register''
     ''{"name":"correlation_id","type":"long"},{"name":"app_name","type":"string"},{"name":"nonce","type":"long"},{"name":"reply_segment","type":"string"},{"name":"heartbeat_ms","type":"long"},{"name":"pid","type":"long","default":0}''\<close>
| \<open>schema_for RegisterReply = schema_json ''RegisterReply''
     ''{"name":"correlation_id","type":"long"},{"name":"client_id","type":"long"},{"name":"status","type":"int"},{"name":"message","type":"string"}''\<close>
| \<open>schema_for Unregister = schema_json ''Unregister''
     ''{"name":"correlation_id","type":"long"},{"name":"client_id","type":"long"}''\<close>
| \<open>schema_for PublishChannel = schema_json ''PublishChannel''
     ''{"name":"correlation_id","type":"long"},{"name":"client_id","type":"long"},{"name":"channel","type":"string"},{"name":"schema_json","type":"string"},{"name":"access_key","type":"string"},{"name":"arena_cap","type":"long","default":0}''\<close>
| \<open>schema_for PublishReply = schema_json ''PublishReply''
     ''{"name":"correlation_id","type":"long"},{"name":"channel_id","type":"long"},{"name":"schema_fp","type":"long"},{"name":"arena","type":"string"},{"name":"status","type":"int"},{"name":"message","type":"string"}''\<close>
| \<open>schema_for Unpublish = schema_json ''Unpublish''
     ''{"name":"correlation_id","type":"long"},{"name":"client_id","type":"long"},{"name":"channel","type":"string"}''\<close>
| \<open>schema_for ListChannels = schema_json ''ListChannels''
     ''{"name":"correlation_id","type":"long"},{"name":"client_id","type":"long"}''\<close>
| \<open>schema_for ChannelList =
     ''{"type":"record","name":"ChannelList","namespace":"ring.proto","fields":['' @
     ''{"name":"correlation_id","type":"long"},'' @
     ''{"name":"channels","type":{"type":"array","items":{"type":"record","name":"ChannelInfo","fields":['' @
     ''{"name":"channel_id","type":"long"},{"name":"name","type":"string"},{"name":"owner_app","type":"string"},{"name":"schema_fp","type":"long"},{"name":"requires_key","type":"boolean"}'' @
     '']}}}]}''\<close>
| \<open>schema_for Subscribe = schema_json ''Subscribe''
     ''{"name":"correlation_id","type":"long"},{"name":"client_id","type":"long"},{"name":"channel_id","type":"long"},{"name":"access_key","type":"string"},{"name":"expected_fp","type":"long"}''\<close>
| \<open>schema_for SubscribeReply = schema_json ''SubscribeReply''
     ''{"name":"correlation_id","type":"long"},{"name":"arena","type":"string"},{"name":"schema_fp","type":"long"},{"name":"status","type":"int"},{"name":"message","type":"string"}''\<close>
| \<open>schema_for ExposeFunction = schema_json ''ExposeFunction''
     ''{"name":"correlation_id","type":"long"},{"name":"client_id","type":"long"},{"name":"fn_name","type":"string"},{"name":"req_schema_json","type":"string"},{"name":"resp_schema_json","type":"string"},{"name":"access_key","type":"string"},{"name":"req_arena_cap","type":"long","default":0}''\<close>
| \<open>schema_for ExposeReply = schema_json ''ExposeReply''
     ''{"name":"correlation_id","type":"long"},{"name":"fn_id","type":"long"},{"name":"req_fp","type":"long"},{"name":"resp_fp","type":"long"},{"name":"req_arena","type":"string"},{"name":"status","type":"int"},{"name":"message","type":"string"}''\<close>
| \<open>schema_for LookupFunction = schema_json ''LookupFunction''
     ''{"name":"correlation_id","type":"long"},{"name":"client_id","type":"long"},{"name":"fn_name","type":"string"},{"name":"access_key","type":"string"}''\<close>
| \<open>schema_for LookupReply = schema_json ''LookupReply''
     ''{"name":"correlation_id","type":"long"},{"name":"fn_id","type":"long"},{"name":"req_fp","type":"long"},{"name":"resp_fp","type":"long"},{"name":"req_arena","type":"string"},{"name":"status","type":"int"},{"name":"message","type":"string"}''\<close>
| \<open>schema_for Heartbeat = schema_json ''Heartbeat''
     ''{"name":"correlation_id","type":"long"},{"name":"client_id","type":"long"},{"name":"seq","type":"long"}''\<close>
| \<open>schema_for RpcRequest = schema_json ''RpcRequest''
     ''{"name":"correlation_id","type":"long"},{"name":"caller_id","type":"long"},{"name":"reply_segment","type":"string"},{"name":"arg_fp","type":"long"},{"name":"args","type":"bytes"}''\<close>
| \<open>schema_for RpcResponse = schema_json ''RpcResponse''
     ''{"name":"correlation_id","type":"long"},{"name":"status","type":"int"},{"name":"message","type":"string"},{"name":"result_fp","type":"long"},{"name":"result","type":"bytes"}''\<close>

definition legacy_schemas :: "(kind \<times> string) list" where
  \<open>legacy_schemas =
    [(Register, schema_json ''Register''
        ''{"name":"correlation_id","type":"long"},{"name":"app_name","type":"string"},{"name":"nonce","type":"long"},{"name":"reply_segment","type":"string"},{"name":"heartbeat_ms","type":"long"}''),
     (PublishChannel, schema_json ''PublishChannel''
        ''{"name":"correlation_id","type":"long"},{"name":"client_id","type":"long"},{"name":"channel","type":"string"},{"name":"schema_json","type":"string"},{"name":"access_key","type":"string"}''),
     (ExposeFunction, schema_json ''ExposeFunction''
        ''{"name":"correlation_id","type":"long"},{"name":"client_id","type":"long"},{"name":"fn_name","type":"string"},{"name":"req_schema_json","type":"string"},{"name":"resp_schema_json","type":"string"},{"name":"access_key","type":"string"}'')]\<close>

section \<open>Structures\<close>

definition channel_info_type :: avro_ty where
  "channel_info_type = TRecord ''ChannelInfo'' None
     [(''channel_id'', TLong, None), (''name'', TString, None), (''owner_app'', TString, None), (''schema_fp'', TLong, None), (''requires_key'', TBoolean, None)]"

fun kind_fields :: "kind \<Rightarrow> (string \<times> avro_ty \<times> i64 option) list" where
  "kind_fields Register = [(''correlation_id'', TLong, None), (''app_name'', TString, None), (''nonce'', TLong, None), (''reply_segment'', TString, None), (''heartbeat_ms'', TLong, None), (''pid'', TLong, Some 0)]"
| "kind_fields RegisterReply = [(''correlation_id'', TLong, None), (''client_id'', TLong, None), (''status'', TInt, None), (''message'', TString, None)]"
| "kind_fields Unregister = [(''correlation_id'', TLong, None), (''client_id'', TLong, None)]"
| "kind_fields PublishChannel = [(''correlation_id'', TLong, None), (''client_id'', TLong, None), (''channel'', TString, None), (''schema_json'', TString, None), (''access_key'', TString, None), (''arena_cap'', TLong, Some 0)]"
| "kind_fields PublishReply = [(''correlation_id'', TLong, None), (''channel_id'', TLong, None), (''schema_fp'', TLong, None), (''arena'', TString, None), (''status'', TInt, None), (''message'', TString, None)]"
| "kind_fields Unpublish = [(''correlation_id'', TLong, None), (''client_id'', TLong, None), (''channel'', TString, None)]"
| "kind_fields ListChannels = [(''correlation_id'', TLong, None), (''client_id'', TLong, None)]"
| "kind_fields ChannelList = [(''correlation_id'', TLong, None), (''channels'', (TArray channel_info_type), None)]"
| "kind_fields Subscribe = [(''correlation_id'', TLong, None), (''client_id'', TLong, None), (''channel_id'', TLong, None), (''access_key'', TString, None), (''expected_fp'', TLong, None)]"
| "kind_fields SubscribeReply = [(''correlation_id'', TLong, None), (''arena'', TString, None), (''schema_fp'', TLong, None), (''status'', TInt, None), (''message'', TString, None)]"
| "kind_fields ExposeFunction = [(''correlation_id'', TLong, None), (''client_id'', TLong, None), (''fn_name'', TString, None), (''req_schema_json'', TString, None), (''resp_schema_json'', TString, None), (''access_key'', TString, None), (''req_arena_cap'', TLong, Some 0)]"
| "kind_fields ExposeReply = [(''correlation_id'', TLong, None), (''fn_id'', TLong, None), (''req_fp'', TLong, None), (''resp_fp'', TLong, None), (''req_arena'', TString, None), (''status'', TInt, None), (''message'', TString, None)]"
| "kind_fields LookupFunction = [(''correlation_id'', TLong, None), (''client_id'', TLong, None), (''fn_name'', TString, None), (''access_key'', TString, None)]"
| "kind_fields LookupReply = [(''correlation_id'', TLong, None), (''fn_id'', TLong, None), (''req_fp'', TLong, None), (''resp_fp'', TLong, None), (''req_arena'', TString, None), (''status'', TInt, None), (''message'', TString, None)]"
| "kind_fields Heartbeat = [(''correlation_id'', TLong, None), (''client_id'', TLong, None), (''seq'', TLong, None)]"
| "kind_fields RpcRequest = [(''correlation_id'', TLong, None), (''caller_id'', TLong, None), (''reply_segment'', TString, None), (''arg_fp'', TLong, None), (''args'', TBytes, None)]"
| "kind_fields RpcResponse = [(''correlation_id'', TLong, None), (''status'', TInt, None), (''message'', TString, None), (''result_fp'', TLong, None), (''result'', TBytes, None)]"

definition kind_type :: "kind \<Rightarrow> avro_ty" where
  "kind_type k = TRecord (kind_name k) (Some ''ring.proto'') (kind_fields k)"

text \<open>The superseded versions: the structure without its last field.\<close>

definition legacy_type :: "kind \<Rightarrow> avro_ty" where
  "legacy_type k = TRecord (kind_name k) (Some ''ring.proto'') (butlast (kind_fields k))"

definition proto_types :: "avro_ty list" where
  "proto_types = map kind_type ALL_KINDS @ map legacy_type [Register, PublishChannel, ExposeFunction]"

lemma show_zero: "show_int 0 = ''0''"
  by (simp add: show_int_def show_nat_def show_base.simps digit_char_def char_of_eq_iff take_bit_eq_mod)

lemma schema_for_type: "schema_for k = type_json (kind_type k)"
  by (cases k) (simp_all add: kind_type_def schema_json_def default_json_def show_zero channel_info_type_def)

lemma legacy_schemas_type:
  "legacy_schemas = map (\<lambda>k. (k, type_json (legacy_type k))) [Register, PublishChannel, ExposeFunction]"
  by (simp add: legacy_schemas_def legacy_type_def schema_json_def default_json_def)

end
