(* ===== verification/Ring_Catalog.thy ===== *)
theory Ring_Catalog
  imports Ring_Proto
begin

text \<open>
  The catalogue of message schemas and the framing of messages (the second half of
  \<^verbatim>\<open>crates/core/src/proto.rs\<close>). The catalogue is built once per process; its operations take
  it as an argument. \<open>message_codec\<close> is the contract of a message struct, kept by each of
  the seventeen, and it gives the round trip through a frame.
\<close>

section \<open>The catalogue\<close>

record 'sc catalog =
  cat_schemas :: "(kind, 'sc) hash_map"
  cat_fps :: "(kind, fingerprint) hash_map"
  cat_by_fp :: "(fingerprint, kind) hash_map"
  cat_writer_schemas :: "(fingerprint, 'sc) hash_map"

text \<open>\<open>None\<close> is the panic of \<^verbatim>\<open>expect\<close>.\<close>

fun add_kinds :: "'sc avro_lib \<Rightarrow> kind list \<Rightarrow> 'sc catalog \<Rightarrow> 'sc catalog option" where
  "add_kinds lib [] c = Some c"
| "add_kinds lib (k # ks) c =
     (case avro_parse lib (schema_for k) of
        Inl e \<Rightarrow> None
      | Inr (schema, fp) \<Rightarrow>
          add_kinds lib ks
            (c\<lparr>cat_writer_schemas := hm_insert fp schema (cat_writer_schemas c),
               cat_schemas := hm_insert k schema (cat_schemas c),
               cat_fps := hm_insert k fp (cat_fps c),
               cat_by_fp := hm_insert fp k (cat_by_fp c)\<rparr>))"

fun add_legacy :: "'sc avro_lib \<Rightarrow> (kind \<times> string) list \<Rightarrow> 'sc catalog \<Rightarrow> 'sc catalog option" where
  "add_legacy lib [] c = Some c"
| "add_legacy lib ((k, json) # ls) c =
     (case avro_parse lib json of
        Inl e \<Rightarrow> None
      | Inr (schema, fp) \<Rightarrow>
          add_legacy lib ls
            (c\<lparr>cat_by_fp := hm_or_insert fp k (cat_by_fp c),
               cat_writer_schemas := hm_or_insert fp schema (cat_writer_schemas c)\<rparr>))"

definition catalog_build :: "'sc avro_lib \<Rightarrow> 'sc catalog option" where
  "catalog_build lib =
     Option.bind
       (add_kinds lib ALL_KINDS
          \<lparr>cat_schemas = hm_empty, cat_fps = hm_empty, cat_by_fp = hm_empty,
           cat_writer_schemas = hm_empty\<rparr>)
       (add_legacy lib legacy_schemas)"

definition cat_schema :: "'sc catalog \<Rightarrow> kind \<Rightarrow> 'sc io_result" where
  "cat_schema c k =
     (case hm_get (cat_schemas c) k of None \<Rightarrow> Inl (IoPanic ''no entry found for key'') | Some sc \<Rightarrow> Inr sc)"

definition cat_fp :: "'sc catalog \<Rightarrow> kind \<Rightarrow> fingerprint io_result" where
  "cat_fp c k =
     (case hm_get (cat_fps c) k of None \<Rightarrow> Inl (IoPanic ''no entry found for key'') | Some fp \<Rightarrow> Inr fp)"

definition kind_of :: "'sc catalog \<Rightarrow> fingerprint \<Rightarrow> kind option" where
  "kind_of c fp = hm_get (cat_by_fp c) fp"

definition writer_schema :: "'sc catalog \<Rightarrow> fingerprint \<Rightarrow> 'sc option" where
  "writer_schema c fp = hm_get (cat_writer_schemas c) fp"

section \<open>Framing\<close>

definition to_frame ::
  "'sc avro_lib \<Rightarrow> 'sc catalog \<Rightarrow> ('m \<Rightarrow> avro_value) \<Rightarrow> kind \<Rightarrow> 'm \<Rightarrow> frame io_result" where
  "to_frame lib c to_v k msg =
     io_bind (cat_schema c k) (\<lambda>schema.
     io_bind (avro_encode lib (\<lambda>m. Inr (to_v m)) schema msg) (\<lambda>body.
     io_bind (cat_fp c k) (\<lambda>fp. Inr (frame_new fp body))))"

definition from_frame ::
  "'sc avro_lib \<Rightarrow> 'sc catalog \<Rightarrow> ('sc avro_lib \<Rightarrow> avro_value \<Rightarrow> 'm option) \<Rightarrow> kind \<Rightarrow> frame \<Rightarrow> 'm io_result" where
  "from_frame lib c from_v k f =
     io_bind (cat_schema c k) (\<lambda>schema. avro_decode lib (from_v lib) schema (frame_body f))"

definition from_frame_compat ::
  "'sc avro_lib \<Rightarrow> 'sc catalog \<Rightarrow> ('sc avro_lib \<Rightarrow> avro_value \<Rightarrow> 'm option) \<Rightarrow> frame \<Rightarrow> 'm io_result" where
  "from_frame_compat lib c from_v f =
     (case writer_schema c (frame_schema_fp f) of
        None \<Rightarrow> Inl (IoOther ''unknown frame fingerprint'')
      | Some schema \<Rightarrow> avro_decode lib (from_v lib) schema (frame_body f))"

definition correlation_id :: "'sc avro_lib \<Rightarrow> 'sc catalog \<Rightarrow> frame \<Rightarrow> i64 io_result" where
  "correlation_id lib c f =
     (case kind_of c (frame_schema_fp f) of
        None \<Rightarrow> Inl (IoOther ''unknown frame fingerprint'')
      | Some k \<Rightarrow>
          (case k of
             RegisterReply \<Rightarrow>
               io_bind (from_frame lib c register_reply_from_value k f) (\<lambda>m. Inr (regr_correlation_id m))
           | PublishReply \<Rightarrow>
               io_bind (from_frame lib c publish_reply_from_value k f) (\<lambda>m. Inr (pubr_correlation_id m))
           | ChannelList \<Rightarrow>
               io_bind (from_frame lib c channel_list_from_value k f) (\<lambda>m. Inr (chl_correlation_id m))
           | SubscribeReply \<Rightarrow>
               io_bind (from_frame lib c subscribe_reply_from_value k f) (\<lambda>m. Inr (subr_correlation_id m))
           | ExposeReply \<Rightarrow>
               io_bind (from_frame lib c expose_reply_from_value k f) (\<lambda>m. Inr (expr_correlation_id m))
           | LookupReply \<Rightarrow>
               io_bind (from_frame lib c lookup_reply_from_value k f) (\<lambda>m. Inr (lkpr_correlation_id m))
           | RpcResponse \<Rightarrow>
               io_bind (from_frame lib c rpc_response_from_value k f) (\<lambda>m. Inr (rs_correlation_id m))
           | _ \<Rightarrow> Inl (IoOther (''frame kind '' @ kind_name k @ '' is not a routable reply''))))"

section \<open>What the catalogue knows\<close>

definition known_schemas :: "(kind \<times> string) list" where
  "known_schemas = map (\<lambda>k. (k, schema_for k)) ALL_KINDS @ legacy_schemas"

definition json_fp :: "'sc avro_lib \<Rightarrow> string \<Rightarrow> fingerprint option" where
  "json_fp lib json = (case avro_parse lib json of Inl e \<Rightarrow> None | Inr (sc, fp) \<Rightarrow> Some fp)"

text \<open>No two schema texts of the protocol share a fingerprint.\<close>

definition fps_distinct :: "'sc avro_lib \<Rightarrow> bool" where
  "fps_distinct lib \<longleftrightarrow> distinct (map (json_fp lib \<circ> snd) known_schemas)"

text \<open>What a catalogue has to say about one schema text.\<close>

definition cat_knows :: "'sc avro_lib \<Rightarrow> 'sc catalog \<Rightarrow> kind \<Rightarrow> string \<Rightarrow> bool" where
  "cat_knows lib c k json \<longleftrightarrow>
     (\<exists>sc. parse_str lib json = Inr sc \<and> kind_of c (fingerprint_of lib sc) = Some k \<and>
        writer_schema c (fingerprint_of lib sc) = Some sc)"

definition cat_current :: "'sc avro_lib \<Rightarrow> 'sc catalog \<Rightarrow> kind \<Rightarrow> bool" where
  "cat_current lib c k \<longleftrightarrow>
     (\<exists>sc. parse_str lib (schema_for k) = Inr sc \<and> cat_schema c k = Inr sc \<and>
        cat_fp c k = Inr (fingerprint_of lib sc))"

lemma avro_parse_Inr:
  "avro_parse lib json = Inr (sc, fp) \<longleftrightarrow> parse_str lib json = Inr sc \<and> fp = fingerprint_of lib sc"
  by (auto simp: avro_parse_def io_bind_Inr)

lemma json_fp_Some: "parse_str lib json = Inr sc \<Longrightarrow> json_fp lib json = Some (fingerprint_of lib sc)"
  by (simp add: json_fp_def avro_parse_def)

lemma add_kinds_keep:
  assumes "add_kinds lib ks c = Some c'" "Some f \<notin> json_fp lib ` schema_for ` set ks"
  shows "kind_of c' f = kind_of c f" "writer_schema c' f = writer_schema c f"
  using assms
  by (induction lib ks c rule: add_kinds.induct)
    (auto simp: kind_of_def writer_schema_def json_fp_def split: sum.splits prod.splits)

lemma add_kinds_keep_kind:
  assumes "add_kinds lib ks c = Some c'" "k \<notin> set ks"
  shows "cat_schema c' k = cat_schema c k" "cat_fp c' k = cat_fp c k"
  using assms
  by (induction lib ks c rule: add_kinds.induct)
    (auto simp: cat_schema_def cat_fp_def split: sum.splits prod.splits)

lemma add_legacy_same:
  assumes "add_legacy lib ls c = Some c'"
  shows "cat_schema c' = cat_schema c" "cat_fp c' = cat_fp c"
proof -
  have "cat_schemas c' = cat_schemas c \<and> cat_fps c' = cat_fps c"
    using assms by (induction lib ls c rule: add_legacy.induct) (auto split: sum.splits)
  then show "cat_schema c' = cat_schema c" "cat_fp c' = cat_fp c"
    by (simp_all add: cat_schema_def cat_fp_def fun_eq_iff)
qed

lemma add_legacy_kind:
  "add_legacy lib ls c = Some c' \<Longrightarrow> kind_of c f = Some k \<Longrightarrow> kind_of c' f = Some k"
  unfolding kind_of_def
  by (induction lib ls c rule: add_legacy.induct)
    (auto simp: hm_get_or_insert_keep simp del: hm_get_or_insert split: sum.splits)

lemma add_legacy_writer:
  "add_legacy lib ls c = Some c' \<Longrightarrow> writer_schema c f = Some sc \<Longrightarrow> writer_schema c' f = Some sc"
  unfolding writer_schema_def
  by (induction lib ls c rule: add_legacy.induct)
    (auto simp: hm_get_or_insert_keep simp del: hm_get_or_insert split: sum.splits)

lemmas add_legacy_keep = add_legacy_kind add_legacy_writer add_legacy_same

lemma add_kinds_knows:
  assumes "add_kinds lib ks c = Some c'" "distinct (map (json_fp lib \<circ> schema_for) ks)" "k \<in> set ks"
  shows "cat_knows lib c' k (schema_for k)"
  using assms
proof (induction lib ks c rule: add_kinds.induct)
  case (2 lib j ks c)
  then obtain sc where sc: "parse_str lib (schema_for j) = Inr sc"
    and rest: "add_kinds lib ks (c\<lparr>cat_writer_schemas := hm_insert (fingerprint_of lib sc) sc (cat_writer_schemas c),
       cat_schemas := hm_insert j sc (cat_schemas c), cat_fps := hm_insert j (fingerprint_of lib sc) (cat_fps c),
       cat_by_fp := hm_insert (fingerprint_of lib sc) j (cat_by_fp c)\<rparr>) = Some c'"
    by (auto simp: avro_parse_Inr split: sum.splits)
  show ?case
  proof (cases "k \<in> set ks")
    case True
    with 2 sc show ?thesis by (auto simp: avro_parse_Inr split: sum.splits)
  next
    case False
    then have "k = j" using "2.prems"(3) by simp
    moreover have "Some (fingerprint_of lib sc) \<notin> json_fp lib ` schema_for ` set ks"
      using "2.prems"(2) json_fp_Some [OF sc] by (simp add: image_comp)
    ultimately show ?thesis
      using add_kinds_keep [OF rest] sc
      by (auto simp: cat_knows_def kind_of_def writer_schema_def)
  qed
qed simp

lemma add_kinds_current:
  assumes "add_kinds lib ks c = Some c'" "k \<in> set ks" "distinct ks"
  shows "cat_current lib c' k"
  using assms
proof (induction lib ks c rule: add_kinds.induct)
  case (2 lib j ks c)
  show ?case
  proof (cases "k = j")
    case True
    with 2 show ?thesis
      using add_kinds_keep_kind [of lib ks _ c' j]
      by (auto simp: cat_current_def cat_schema_def cat_fp_def avro_parse_Inr split: sum.splits)
  next
    case False
    with 2 show ?thesis by (auto split: sum.splits prod.splits)
  qed
qed simp

lemma add_legacy_knows:
  assumes "add_legacy lib ls c = Some c'" "distinct (map (json_fp lib \<circ> snd) ls)" "(k, json) \<in> set ls"
    and "\<And>json sc. json \<in> snd ` set ls \<Longrightarrow> parse_str lib json = Inr sc \<Longrightarrow>
       kind_of c (fingerprint_of lib sc) = None \<and> writer_schema c (fingerprint_of lib sc) = None"
  shows "cat_knows lib c' k json"
  using assms
proof (induction lib ls c rule: add_legacy.induct)
  case (2 lib j js ls c)
  then obtain sc where sc: "parse_str lib js = Inr sc"
    and rest: "add_legacy lib ls (c\<lparr>cat_by_fp := hm_or_insert (fingerprint_of lib sc) j (cat_by_fp c),
       cat_writer_schemas := hm_or_insert (fingerprint_of lib sc) sc (cat_writer_schemas c)\<rparr>) = Some c'"
    by (auto simp: avro_parse_Inr split: sum.splits)
  have fresh: "kind_of c (fingerprint_of lib sc) = None" "writer_schema c (fingerprint_of lib sc) = None"
    using "2.prems"(4) [OF _ sc] by auto
  show ?case
  proof (cases "(k, json) = (j, js)")
    case True
    with sc fresh add_legacy_keep(1,2) [OF rest, of "fingerprint_of lib sc"] show ?thesis
      by (auto simp: cat_knows_def kind_of_def writer_schema_def)
  next
    case False
    let ?c = "c\<lparr>cat_by_fp := hm_or_insert (fingerprint_of lib sc) j (cat_by_fp c),
       cat_writer_schemas := hm_or_insert (fingerprint_of lib sc) sc (cat_writer_schemas c)\<rparr>"
    have step: "avro_parse lib js = Inr (sc, fingerprint_of lib sc)" using sc by (simp add: avro_parse_Inr)
    have "kind_of ?c (fingerprint_of lib sc') = None \<and> writer_schema ?c (fingerprint_of lib sc') = None"
      if "json' \<in> snd ` set ls" "parse_str lib json' = Inr sc'" for json' sc'
    proof -
      have "json_fp lib js \<noteq> json_fp lib json'" using "2.prems"(2) that(1) by force
      then have "fingerprint_of lib sc' \<noteq> fingerprint_of lib sc"
        using json_fp_Some [OF sc] json_fp_Some [OF that(2)] by simp
      with "2.prems"(4) [of json' sc'] that show ?thesis
        by (simp add: kind_of_def writer_schema_def)
    qed
    then show ?thesis
      using "2.IH" [OF step refl rest] "2.prems"(2,3) False by auto
  qed
qed simp

lemma all_kinds [simp]: "k \<in> set ALL_KINDS" "distinct ALL_KINDS"
  by (cases k) (simp_all add: ALL_KINDS_def)

lemma catalog_build_current:
  assumes "catalog_build lib = Some c"
  shows "cat_current lib c k"
proof -
  obtain c1 where c1: "add_kinds lib ALL_KINDS \<lparr>cat_schemas = hm_empty, cat_fps = hm_empty,
      cat_by_fp = hm_empty, cat_writer_schemas = hm_empty\<rparr> = Some c1" "add_legacy lib legacy_schemas c1 = Some c"
    using assms by (auto simp: catalog_build_def bind_eq_Some_conv)
  then show ?thesis
    using add_kinds_current [OF c1(1), of k] add_legacy_keep(3,4) [OF c1(2)]
    by (simp add: cat_current_def)
qed

lemma catalog_build_knows:
  assumes "catalog_build lib = Some c" "fps_distinct lib" "(k, json) \<in> set known_schemas"
  shows "cat_knows lib c k json"
proof -
  let ?c0 = "\<lparr>cat_schemas = hm_empty, cat_fps = hm_empty, cat_by_fp = hm_empty, cat_writer_schemas = hm_empty\<rparr>"
  obtain c1 where c1: "add_kinds lib ALL_KINDS ?c0 = Some c1" "add_legacy lib legacy_schemas c1 = Some c"
    using assms(1) by (auto simp: catalog_build_def bind_eq_Some_conv)
  have d: "distinct (map (json_fp lib \<circ> schema_for) ALL_KINDS)" "distinct (map (json_fp lib \<circ> snd) legacy_schemas)"
    and disj: "json_fp lib ` schema_for ` set ALL_KINDS \<inter> json_fp lib ` snd ` set legacy_schemas = {}"
    using assms(2) by (simp_all add: fps_distinct_def known_schemas_def comp_def image_image)
  show ?thesis
  proof (cases "(k, json) \<in> set legacy_schemas")
    case True
    have "kind_of c1 (fingerprint_of lib sc) = None \<and> writer_schema c1 (fingerprint_of lib sc) = None"
      if "js \<in> snd ` set legacy_schemas" "parse_str lib js = Inr sc" for js sc
    proof -
      have "Some (fingerprint_of lib sc) \<notin> json_fp lib ` schema_for ` set ALL_KINDS"
        using disj that json_fp_Some [OF that(2)] by (metis disjoint_iff image_eqI)
      from add_kinds_keep [OF c1(1) this] show ?thesis by (simp add: kind_of_def writer_schema_def)
    qed
    then show ?thesis using add_legacy_knows [OF c1(2) d(2) True] by blast
  next
    case False
    then have "json = schema_for k" using assms(3) by (auto simp: known_schemas_def)
    with add_kinds_knows [OF c1(1) d(1), of k] add_legacy_keep(1,2) [OF c1(2)] show ?thesis
      by (fastforce simp: cat_knows_def)
  qed
qed

section \<open>The contract of a message struct\<close>

locale message_codec =
  fixes k :: kind and to_v :: "'m \<Rightarrow> avro_value" and from_v :: "'sc avro_lib \<Rightarrow> avro_value \<Rightarrow> 'm option"
  assumes from_to: "avro_leaf_laws lib \<Longrightarrow> from_v lib (to_v m) = Some m"
begin

lemma frame_round_trip:
  assumes "avro_laws (set proto_types) lib" "catalog_build lib = Some c" "has_type (kind_type k) (to_v m)"
  shows "\<exists>f sc. to_frame lib c to_v k m = Inr f \<and> from_frame lib c from_v k f = Inr m \<and>
    parse_str lib (schema_for k) = Inr sc \<and> frame_schema_fp f = fingerprint_of lib sc"
proof -
  have leaf: "avro_leaf_laws lib" and law: "avro_schema_law lib (kind_type k)"
    using assms(1) by (simp_all add: avro_laws_def proto_types_def)
  obtain sc where sc: "parse_str lib (schema_for k) = Inr sc" "cat_schema c k = Inr sc"
    "cat_fp c k = Inr (fingerprint_of lib sc)"
    using catalog_build_current [OF assms(2), of k] by (auto simp: cat_current_def)
  obtain bs where "avro_encode lib (\<lambda>m. Inr (to_v m)) sc m = Inr bs"
    and "\<forall>from. avro_decode lib from sc bs =
      (case from (to_v m) of None \<Rightarrow> Inl (IoOther (de_error lib (to_v m))) | Some y \<Rightarrow> Inr (y :: 'm))"
    using avro_encode_ok [OF law sc(1) [unfolded schema_for_type] assms(3), of "\<lambda>m. Inr (to_v m)" m] by auto
  then show ?thesis
    using sc from_to [OF leaf, of m] by (simp add: to_frame_def from_frame_def frame_new_def)
qed

lemma frame_compat:
  assumes laws: "avro_laws (set proto_types) lib" and c: "catalog_build lib = Some c" "fps_distinct lib"
    and m: "has_type (kind_type k) (to_v m)"
  shows "\<exists>f. to_frame lib c to_v k m = Inr f \<and> kind_of c (frame_schema_fp f) = Some k \<and>
    from_frame_compat lib c from_v f = Inr m"
proof -
  obtain f sc where f: "to_frame lib c to_v k m = Inr f" "from_frame lib c from_v k f = Inr m"
    "parse_str lib (schema_for k) = Inr sc" "frame_schema_fp f = fingerprint_of lib sc"
    using frame_round_trip [OF laws c(1) m] by blast
  have "cat_knows lib c k (schema_for k)"
    by (rule catalog_build_knows [OF c]) (simp add: known_schemas_def)
  then have "kind_of c (frame_schema_fp f) = Some k" "writer_schema c (frame_schema_fp f) = Some sc"
    using f by (auto simp: cat_knows_def)
  moreover have "cat_schema c k = Inr sc"
    using catalog_build_current [OF c(1), of k] f(3) by (auto simp: cat_current_def)
  ultimately show ?thesis using f by (simp add: from_frame_def from_frame_compat_def)
qed

lemma frame_read_back:
  assumes "avro_laws (set proto_types) lib" "catalog_build lib = Some c" "has_type (kind_type k) (to_v m)"
  shows "\<exists>f sc. to_frame lib c to_v k m = Inr f \<and>
    io_bind (from_frame lib c from_v k f) (\<lambda>m. Inr (con m)) = Inr (con m) \<and>
    parse_str lib (schema_for k) = Inr sc \<and> frame_schema_fp f = fingerprint_of lib sc"
  using frame_round_trip [OF assms] by auto

end

lemma map_of_field [simp]:
  "de_field de (AvRecord ((nm', v) # fs)) nm = (if nm = nm' then de v else de_field de (AvRecord fs) nm)"
  "field_default de d (AvRecord ((nm', v) # fs)) nm =
     (if nm = nm' then de v else field_default de d (AvRecord fs) nm)"
  "de_field de (AvRecord []) nm = None" "field_default de d (AvRecord []) nm = Some d"
  by (simp_all add: de_field_def field_default_def)

lemma infos_round_trip [simp]:
  "avro_leaf_laws lib \<Longrightarrow> infos_from_value lib (AvArray (map channel_info_to_value is)) = Some is"
  unfolding infos_from_value_def
  by (induction "is") (simp_all add: channel_info_to_value_def channel_info_from_value_def)

interpretation m_reg: message_codec Register register_to_value register_from_value
  by unfold_locales (simp add: register_to_value_def register_from_value_def)

interpretation m_regr: message_codec RegisterReply register_reply_to_value register_reply_from_value
  by unfold_locales (simp add: register_reply_to_value_def register_reply_from_value_def)

interpretation m_unreg: message_codec Unregister unregister_to_value unregister_from_value
  by unfold_locales (simp add: unregister_to_value_def unregister_from_value_def)

interpretation m_pub: message_codec PublishChannel publish_channel_to_value publish_channel_from_value
  by unfold_locales (simp add: publish_channel_to_value_def publish_channel_from_value_def)

interpretation m_pubr: message_codec PublishReply publish_reply_to_value publish_reply_from_value
  by unfold_locales (simp add: publish_reply_to_value_def publish_reply_from_value_def)

interpretation m_unpub: message_codec Unpublish unpublish_to_value unpublish_from_value
  by unfold_locales (simp add: unpublish_to_value_def unpublish_from_value_def)

interpretation m_lst: message_codec ListChannels list_channels_to_value list_channels_from_value
  by unfold_locales (simp add: list_channels_to_value_def list_channels_from_value_def)

interpretation m_chl: message_codec ChannelList channel_list_to_value channel_list_from_value
  by unfold_locales (simp add: channel_list_to_value_def channel_list_from_value_def)

interpretation m_sub: message_codec Subscribe subscribe_to_value subscribe_from_value
  by unfold_locales (simp add: subscribe_to_value_def subscribe_from_value_def)

interpretation m_subr: message_codec SubscribeReply subscribe_reply_to_value subscribe_reply_from_value
  by unfold_locales (simp add: subscribe_reply_to_value_def subscribe_reply_from_value_def)

interpretation m_exp: message_codec ExposeFunction expose_function_to_value expose_function_from_value
  by unfold_locales (simp add: expose_function_to_value_def expose_function_from_value_def)

interpretation m_expr: message_codec ExposeReply expose_reply_to_value expose_reply_from_value
  by unfold_locales (simp add: expose_reply_to_value_def expose_reply_from_value_def)

interpretation m_lkp: message_codec LookupFunction lookup_function_to_value lookup_function_from_value
  by unfold_locales (simp add: lookup_function_to_value_def lookup_function_from_value_def)

interpretation m_lkpr: message_codec LookupReply lookup_reply_to_value lookup_reply_from_value
  by unfold_locales (simp add: lookup_reply_to_value_def lookup_reply_from_value_def)

interpretation m_hb: message_codec Heartbeat heartbeat_to_value heartbeat_from_value
  by unfold_locales (simp add: heartbeat_to_value_def heartbeat_from_value_def)

interpretation m_rq: message_codec RpcRequest rpc_request_to_value rpc_request_from_value
  by unfold_locales (simp add: rpc_request_to_value_def rpc_request_from_value_def)

interpretation m_rs: message_codec RpcResponse rpc_response_to_value rpc_response_from_value
  by unfold_locales (simp add: rpc_response_to_value_def rpc_response_from_value_def)

section \<open>All messages\<close>

datatype message =
    MRegister register
  | MRegisterReply register_reply
  | MUnregister unregister
  | MPublishChannel publish_channel
  | MPublishReply publish_reply
  | MUnpublish unpublish
  | MListChannels list_channels
  | MChannelList channel_list
  | MSubscribe subscribe
  | MSubscribeReply subscribe_reply
  | MExposeFunction expose_function
  | MExposeReply expose_reply
  | MLookupFunction lookup_function
  | MLookupReply lookup_reply
  | MHeartbeat heartbeat
  | MRpcRequest rpc_request
  | MRpcResponse rpc_response

fun message_kind :: "message \<Rightarrow> kind" where
  "message_kind (MRegister m) = Register"
| "message_kind (MRegisterReply m) = RegisterReply"
| "message_kind (MUnregister m) = Unregister"
| "message_kind (MPublishChannel m) = PublishChannel"
| "message_kind (MPublishReply m) = PublishReply"
| "message_kind (MUnpublish m) = Unpublish"
| "message_kind (MListChannels m) = ListChannels"
| "message_kind (MChannelList m) = ChannelList"
| "message_kind (MSubscribe m) = Subscribe"
| "message_kind (MSubscribeReply m) = SubscribeReply"
| "message_kind (MExposeFunction m) = ExposeFunction"
| "message_kind (MExposeReply m) = ExposeReply"
| "message_kind (MLookupFunction m) = LookupFunction"
| "message_kind (MLookupReply m) = LookupReply"
| "message_kind (MHeartbeat m) = Heartbeat"
| "message_kind (MRpcRequest m) = RpcRequest"
| "message_kind (MRpcResponse m) = RpcResponse"

fun message_value :: "message \<Rightarrow> avro_value" where
  "message_value (MRegister m) = register_to_value m"
| "message_value (MRegisterReply m) = register_reply_to_value m"
| "message_value (MUnregister m) = unregister_to_value m"
| "message_value (MPublishChannel m) = publish_channel_to_value m"
| "message_value (MPublishReply m) = publish_reply_to_value m"
| "message_value (MUnpublish m) = unpublish_to_value m"
| "message_value (MListChannels m) = list_channels_to_value m"
| "message_value (MChannelList m) = channel_list_to_value m"
| "message_value (MSubscribe m) = subscribe_to_value m"
| "message_value (MSubscribeReply m) = subscribe_reply_to_value m"
| "message_value (MExposeFunction m) = expose_function_to_value m"
| "message_value (MExposeReply m) = expose_reply_to_value m"
| "message_value (MLookupFunction m) = lookup_function_to_value m"
| "message_value (MLookupReply m) = lookup_reply_to_value m"
| "message_value (MHeartbeat m) = heartbeat_to_value m"
| "message_value (MRpcRequest m) = rpc_request_to_value m"
| "message_value (MRpcResponse m) = rpc_response_to_value m"

fun message_corr :: "message \<Rightarrow> i64" where
  "message_corr (MRegister m) = reg_correlation_id m"
| "message_corr (MRegisterReply m) = regr_correlation_id m"
| "message_corr (MUnregister m) = unreg_correlation_id m"
| "message_corr (MPublishChannel m) = pub_correlation_id m"
| "message_corr (MPublishReply m) = pubr_correlation_id m"
| "message_corr (MUnpublish m) = unpub_correlation_id m"
| "message_corr (MListChannels m) = lst_correlation_id m"
| "message_corr (MChannelList m) = chl_correlation_id m"
| "message_corr (MSubscribe m) = sub_correlation_id m"
| "message_corr (MSubscribeReply m) = subr_correlation_id m"
| "message_corr (MExposeFunction m) = exp_correlation_id m"
| "message_corr (MExposeReply m) = expr_correlation_id m"
| "message_corr (MLookupFunction m) = lkp_correlation_id m"
| "message_corr (MLookupReply m) = lkpr_correlation_id m"
| "message_corr (MHeartbeat m) = hb_correlation_id m"
| "message_corr (MRpcRequest m) = rq_correlation_id m"
| "message_corr (MRpcResponse m) = rs_correlation_id m"

fun message_frame :: "'sc avro_lib \<Rightarrow> 'sc catalog \<Rightarrow> message \<Rightarrow> frame io_result" where
  "message_frame lib c (MRegister m) = to_frame lib c register_to_value Register m"
| "message_frame lib c (MRegisterReply m) = to_frame lib c register_reply_to_value RegisterReply m"
| "message_frame lib c (MUnregister m) = to_frame lib c unregister_to_value Unregister m"
| "message_frame lib c (MPublishChannel m) = to_frame lib c publish_channel_to_value PublishChannel m"
| "message_frame lib c (MPublishReply m) = to_frame lib c publish_reply_to_value PublishReply m"
| "message_frame lib c (MUnpublish m) = to_frame lib c unpublish_to_value Unpublish m"
| "message_frame lib c (MListChannels m) = to_frame lib c list_channels_to_value ListChannels m"
| "message_frame lib c (MChannelList m) = to_frame lib c channel_list_to_value ChannelList m"
| "message_frame lib c (MSubscribe m) = to_frame lib c subscribe_to_value Subscribe m"
| "message_frame lib c (MSubscribeReply m) = to_frame lib c subscribe_reply_to_value SubscribeReply m"
| "message_frame lib c (MExposeFunction m) = to_frame lib c expose_function_to_value ExposeFunction m"
| "message_frame lib c (MExposeReply m) = to_frame lib c expose_reply_to_value ExposeReply m"
| "message_frame lib c (MLookupFunction m) = to_frame lib c lookup_function_to_value LookupFunction m"
| "message_frame lib c (MLookupReply m) = to_frame lib c lookup_reply_to_value LookupReply m"
| "message_frame lib c (MHeartbeat m) = to_frame lib c heartbeat_to_value Heartbeat m"
| "message_frame lib c (MRpcRequest m) = to_frame lib c rpc_request_to_value RpcRequest m"
| "message_frame lib c (MRpcResponse m) = to_frame lib c rpc_response_to_value RpcResponse m"

fun read_as :: "'sc avro_lib \<Rightarrow> 'sc catalog \<Rightarrow> kind \<Rightarrow> frame \<Rightarrow> message io_result" where
  "read_as lib c Register f = io_bind (from_frame lib c register_from_value Register f) (\<lambda>m. Inr (MRegister m))"
| "read_as lib c RegisterReply f = io_bind (from_frame lib c register_reply_from_value RegisterReply f) (\<lambda>m. Inr (MRegisterReply m))"
| "read_as lib c Unregister f = io_bind (from_frame lib c unregister_from_value Unregister f) (\<lambda>m. Inr (MUnregister m))"
| "read_as lib c PublishChannel f = io_bind (from_frame lib c publish_channel_from_value PublishChannel f) (\<lambda>m. Inr (MPublishChannel m))"
| "read_as lib c PublishReply f = io_bind (from_frame lib c publish_reply_from_value PublishReply f) (\<lambda>m. Inr (MPublishReply m))"
| "read_as lib c Unpublish f = io_bind (from_frame lib c unpublish_from_value Unpublish f) (\<lambda>m. Inr (MUnpublish m))"
| "read_as lib c ListChannels f = io_bind (from_frame lib c list_channels_from_value ListChannels f) (\<lambda>m. Inr (MListChannels m))"
| "read_as lib c ChannelList f = io_bind (from_frame lib c channel_list_from_value ChannelList f) (\<lambda>m. Inr (MChannelList m))"
| "read_as lib c Subscribe f = io_bind (from_frame lib c subscribe_from_value Subscribe f) (\<lambda>m. Inr (MSubscribe m))"
| "read_as lib c SubscribeReply f = io_bind (from_frame lib c subscribe_reply_from_value SubscribeReply f) (\<lambda>m. Inr (MSubscribeReply m))"
| "read_as lib c ExposeFunction f = io_bind (from_frame lib c expose_function_from_value ExposeFunction f) (\<lambda>m. Inr (MExposeFunction m))"
| "read_as lib c ExposeReply f = io_bind (from_frame lib c expose_reply_from_value ExposeReply f) (\<lambda>m. Inr (MExposeReply m))"
| "read_as lib c LookupFunction f = io_bind (from_frame lib c lookup_function_from_value LookupFunction f) (\<lambda>m. Inr (MLookupFunction m))"
| "read_as lib c LookupReply f = io_bind (from_frame lib c lookup_reply_from_value LookupReply f) (\<lambda>m. Inr (MLookupReply m))"
| "read_as lib c Heartbeat f = io_bind (from_frame lib c heartbeat_from_value Heartbeat f) (\<lambda>m. Inr (MHeartbeat m))"
| "read_as lib c RpcRequest f = io_bind (from_frame lib c rpc_request_from_value RpcRequest f) (\<lambda>m. Inr (MRpcRequest m))"
| "read_as lib c RpcResponse f = io_bind (from_frame lib c rpc_response_from_value RpcResponse f) (\<lambda>m. Inr (MRpcResponse m))"

definition message_of_frame :: "'sc avro_lib \<Rightarrow> 'sc catalog \<Rightarrow> frame \<Rightarrow> message io_result" where
  "message_of_frame lib c f =
     (case kind_of c (frame_schema_fp f) of
        None \<Rightarrow> Inl (IoOther ''unknown frame fingerprint'')
      | Some k \<Rightarrow> read_as lib c k f)"

text \<open>The replies a connector's dispatcher routes by their correlation id.\<close>

definition routable :: "kind set" where
  "routable = {RegisterReply, PublishReply, ChannelList, SubscribeReply, ExposeReply, LookupReply, RpcResponse}"

definition message_ok :: "message \<Rightarrow> bool" where
  "message_ok m = has_type (kind_type (message_kind m)) (message_value m)"

lemmas message_read_backs =
  m_reg.frame_read_back
  m_regr.frame_read_back
  m_unreg.frame_read_back
  m_pub.frame_read_back
  m_pubr.frame_read_back
  m_unpub.frame_read_back
  m_lst.frame_read_back
  m_chl.frame_read_back
  m_sub.frame_read_back
  m_subr.frame_read_back
  m_exp.frame_read_back
  m_expr.frame_read_back
  m_lkp.frame_read_back
  m_lkpr.frame_read_back
  m_hb.frame_read_back
  m_rq.frame_read_back
  m_rs.frame_read_back

lemma message_frame_round_trip:
  assumes "avro_laws (set proto_types) lib" "catalog_build lib = Some c" "message_ok m"
  shows "\<exists>f sc. message_frame lib c m = Inr f \<and> read_as lib c (message_kind m) f = Inr m \<and>
    parse_str lib (schema_for (message_kind m)) = Inr sc \<and> frame_schema_fp f = fingerprint_of lib sc"
  using assms(3)
  by (cases m) (simp_all only: message_frame.simps read_as.simps message_kind.simps message_value.simps
      message_ok_def message_read_backs [OF assms(1,2)])

text \<open>
  C17: every message of the protocol survives the wire. Its frame, with any bytes behind it, is
  decoded to the same frame, the fingerprint names the message's kind, and reading the body
  gives back every field of the message. A connector's dispatcher gets exactly the correlation id
  out of a reply, and refuses what is not a reply.
\<close>

theorem message_wire_round_trip:
  assumes "avro_laws (set proto_types) lib" "catalog_build lib = Some c" "fps_distinct lib" "message_ok m"
  shows "\<exists>f. message_frame lib c m = Inr f \<and>
    (if frame_ok f then frame_decode (frame_encode f @ rest) = Inr f else 2 ^ 32 \<le> length (frame_body f)) \<and>
    kind_of c (frame_schema_fp f) = Some (message_kind m) \<and> message_of_frame lib c f = Inr m \<and>
    correlation_id lib c f =
      (if message_kind m \<in> routable then Inr (message_corr m)
       else Inl (IoOther (''frame kind '' @ kind_name (message_kind m) @ '' is not a routable reply'')))"
proof -
  obtain f sc where f: "message_frame lib c m = Inr f" "read_as lib c (message_kind m) f = Inr m"
    and sc: "parse_str lib (schema_for (message_kind m)) = Inr sc" "frame_schema_fp f = fingerprint_of lib sc"
    using message_frame_round_trip [OF assms(1,2,4)] by blast
  have "cat_knows lib c (message_kind m) (schema_for (message_kind m))"
    by (rule catalog_build_knows [OF assms(2,3)]) (simp add: known_schemas_def)
  then have k: "kind_of c (frame_schema_fp f) = Some (message_kind m)"
    using sc by (auto simp: cat_knows_def)
  have "correlation_id lib c f =
      (if message_kind m \<in> routable then Inr (message_corr m)
       else Inl (IoOther (''frame kind '' @ kind_name (message_kind m) @ '' is not a routable reply'')))"
    using f(2) k by (cases m) (auto simp: correlation_id_def routable_def io_bind_Inr)
  moreover have "if frame_ok f then frame_decode (frame_encode f @ rest) = Inr f
      else 2 ^ 32 \<le> length (frame_body f)"
    using fc.dec_enc_rest [of f rest] by (auto simp: frame_ok_def)
  ultimately show ?thesis
    using f k by (simp add: message_of_frame_def)
qed

section \<open>Older connectors\<close>

text \<open>
  What a connector built before a field was added sends: the record without that (last) field,
  encoded with, and framed under, the schema of its time.
\<close>

fun legacy_value :: "avro_value \<Rightarrow> avro_value" where
  "legacy_value (AvRecord fs) = AvRecord (butlast fs)"
| "legacy_value v = v"

definition legacy_frame :: "'sc avro_lib \<Rightarrow> string \<Rightarrow> avro_value \<Rightarrow> frame io_result" where
  "legacy_frame lib json v =
     io_bind (avro_parse lib json) (\<lambda>(schema, fp).
     io_bind (avro_encode lib Inr schema v) (\<lambda>body. Inr (frame_new fp body)))"

lemma legacy_frame_read:
  assumes laws: "avro_laws (set proto_types) lib" and c: "catalog_build lib = Some c" "fps_distinct lib"
    and k: "k \<in> {Register, PublishChannel, ExposeFunction}" and v: "has_type (legacy_type k) v"
    and x: "from_v lib v = Some x"
  shows "\<exists>f. legacy_frame lib (type_json (legacy_type k)) v = Inr f \<and>
    kind_of c (frame_schema_fp f) = Some k \<and> from_frame_compat lib c from_v f = Inr x"
proof -
  have "legacy_type k \<in> set proto_types" using k by (auto simp: proto_types_def)
  then have law: "avro_schema_law lib (legacy_type k)" using laws by (simp add: avro_laws_def)
  have "(k, type_json (legacy_type k)) \<in> set legacy_schemas"
    unfolding legacy_schemas_type using k by (simp only: set_map image_iff) simp
  then have "(k, type_json (legacy_type k)) \<in> set known_schemas" by (simp add: known_schemas_def)
  from catalog_build_knows [OF c this] obtain sc where
    sc: "parse_str lib (type_json (legacy_type k)) = Inr sc" "kind_of c (fingerprint_of lib sc) = Some k"
      "writer_schema c (fingerprint_of lib sc) = Some sc"
    by (auto simp: cat_knows_def)
  obtain bs where "avro_encode lib Inr sc v = Inr bs" "avro_decode lib (from_v lib) sc bs = Inr x"
    using avro_encode_ok [OF law sc(1) v, of Inr v] x by (metis option.simps(5))
  with sc show ?thesis
    by (auto simp: legacy_frame_def avro_parse_def frame_new_def from_frame_compat_def)
qed

text \<open>
  C33: a newer broker reads what older connectors send: a registration, publication or exposure
  written with the superseded schema is routed to the same kind, and the tolerant reader returns
  the message with the missing field at its default, 0, and every other field as written.
\<close>

theorem legacy_frames_read:
  assumes "avro_laws (set proto_types) lib" "catalog_build lib = Some c" "fps_distinct lib"
    and "has_type (legacy_type Register) (legacy_value (register_to_value r))"
    and "has_type (legacy_type PublishChannel) (legacy_value (publish_channel_to_value p))"
    and "has_type (legacy_type ExposeFunction) (legacy_value (expose_function_to_value e))"
  shows "(\<exists>f. legacy_frame lib (type_json (legacy_type Register)) (legacy_value (register_to_value r)) = Inr f \<and>
      kind_of c (frame_schema_fp f) = Some Register \<and>
      from_frame_compat lib c register_from_value f = Inr (r\<lparr>reg_pid := 0\<rparr>)) \<and>
    (\<exists>f. legacy_frame lib (type_json (legacy_type PublishChannel)) (legacy_value (publish_channel_to_value p)) = Inr f \<and>
      kind_of c (frame_schema_fp f) = Some PublishChannel \<and>
      from_frame_compat lib c publish_channel_from_value f = Inr (p\<lparr>pub_arena_cap := 0\<rparr>)) \<and>
    (\<exists>f. legacy_frame lib (type_json (legacy_type ExposeFunction)) (legacy_value (expose_function_to_value e)) = Inr f \<and>
      kind_of c (frame_schema_fp f) = Some ExposeFunction \<and>
      from_frame_compat lib c expose_function_from_value f = Inr (e\<lparr>exp_req_arena_cap := 0\<rparr>))"
proof -
  have leaf: "avro_leaf_laws lib" using assms(1) by (simp add: avro_laws_def)
  have r: "register_from_value lib (legacy_value (register_to_value r)) = Some (r\<lparr>reg_pid := 0\<rparr>)"
    using leaf by (simp add: register_to_value_def register_from_value_def)
  have p: "publish_channel_from_value lib (legacy_value (publish_channel_to_value p)) =
      Some (p\<lparr>pub_arena_cap := 0\<rparr>)"
    using leaf by (simp add: publish_channel_to_value_def publish_channel_from_value_def)
  have e: "expose_function_from_value lib (legacy_value (expose_function_to_value e)) =
      Some (e\<lparr>exp_req_arena_cap := 0\<rparr>)"
    using leaf by (simp add: expose_function_to_value_def expose_function_from_value_def)
  note read = legacy_frame_read [OF assms(1-3)]
  show ?thesis
    by (intro conjI, rule read [where from_v = register_from_value, OF _ assms(4) r], simp,
        rule read [where from_v = publish_channel_from_value, OF _ assms(5) p], simp,
        rule read [where from_v = expose_function_from_value, OF _ assms(6) e], simp)
qed

section \<open>The reference library in use\<close>

lemma proto_types_distinct: "distinct (map type_json proto_types)"
  by (simp add: proto_types_def ALL_KINDS_def kind_type_def legacy_type_def default_json_def show_zero
      channel_info_type_def)

definition proto_lib :: "nat avro_lib" where
  "proto_lib = ref_lib proto_types"

lemma proto_lib_laws: "avro_laws (set proto_types) proto_lib"
  unfolding proto_lib_def by (rule ref_lib_laws) (simp_all add: proto_types_distinct)

lemma known_schemas_types: "map snd known_schemas = map type_json proto_types"
  by (simp add: known_schemas_def legacy_schemas_type proto_types_def schema_for_type comp_def)

lemma ref_fingerprint: "i < 2 ^ 64 \<Longrightarrow> fingerprint_of (ref_lib tys) i = word_of_nat i"
  by (simp add: fingerprint_of_def ref_lib_def le_defs le_val_le_bytes)

lemma proto_lib_distinct: "fps_distinct proto_lib"
proof -
  have len: "length proto_types = 20" by (simp add: proto_types_def ALL_KINDS_def)
  have fp: "json_fp proto_lib (type_json (proto_types ! i)) = Some (word_of_nat i)" if "i < 20" for i
    using ref_parse [OF proto_types_distinct, of i] that len
    by (simp add: json_fp_def avro_parse_def proto_lib_def ref_fingerprint)
  have "map (json_fp proto_lib \<circ> snd) known_schemas = map (json_fp proto_lib) (map snd known_schemas)"
    by (simp add: comp_def)
  also have "\<dots> = map (\<lambda>i. Some (word_of_nat i)) [0..<20]"
    unfolding known_schemas_types using fp len by (intro nth_equalityI) auto
  finally show ?thesis
    by (simp add: fps_distinct_def distinct_map inj_on_def) (simp add: word_of_nat_eq_iff take_bit_nat_eq_self)
qed

lemma catalog_build_ok:
  assumes "avro_laws (set proto_types) lib"
  shows "\<exists>c. catalog_build lib = Some c"
proof -
  have p: "\<exists>sc. parse_str lib (type_json t) = Inr sc" if "t \<in> set proto_types" for t
    using assms that by (auto simp: avro_laws_def avro_schema_law_def)
  have ks: "\<exists>c'. add_kinds lib ks c = Some c'" for ks c
  proof (induction ks arbitrary: c)
    case (Cons k ks)
    have "kind_type k \<in> set proto_types" by (simp add: proto_types_def)
    then obtain sc where "parse_str lib (schema_for k) = Inr sc" using p schema_for_type by metis
    with Cons show ?case by (simp add: avro_parse_def)
  qed simp
  have ls: "\<exists>c'. add_legacy lib ls c = Some c'" if "snd ` set ls \<subseteq> type_json ` set proto_types" for ls c
    using that
  proof (induction ls arbitrary: c)
    case (Cons l ls)
    then obtain t where "t \<in> set proto_types" "snd l = type_json t" by auto
    then obtain sc where "parse_str lib (snd l) = Inr sc" using p by metis
    with Cons show ?case by (cases l) (simp add: avro_parse_def)
  qed simp
  have "snd ` set legacy_schemas \<subseteq> type_json ` set proto_types"
    by (auto simp: legacy_schemas_type proto_types_def)
  with ks ls show ?thesis by (metis (no_types, lifting) catalog_build_def Option.bind.bind_lunit)
qed

definition proto_cat :: "nat catalog" where
  "proto_cat = the (catalog_build proto_lib)"

lemma proto_cat_build: "catalog_build proto_lib = Some proto_cat"
  using catalog_build_ok [OF proto_lib_laws] by (auto simp: proto_cat_def)

theorem message_wire_round_trip_witness:
  "\<exists>f. message_frame proto_lib proto_cat
      (MRpcResponse \<lparr>rs_correlation_id = 1, rs_status = STATUS_OK, rs_message = '''', rs_result_fp = -5,
        rs_result = [9, 8, 7, 6]\<rparr>) = Inr f \<and> correlation_id proto_lib proto_cat f = Inr 1"
  using message_wire_round_trip [OF proto_lib_laws proto_cat_build proto_lib_distinct,
      of "MRpcResponse \<lparr>rs_correlation_id = 1, rs_status = STATUS_OK, rs_message = '''', rs_result_fp = -5,
        rs_result = [9, 8, 7, 6]\<rparr>" "[]"]
  by (auto simp: message_ok_def kind_type_def rpc_response_to_value_def routable_def STATUS_OK_def)

theorem legacy_frames_read_witness:
  "\<exists>f. from_frame_compat proto_lib proto_cat register_from_value f =
     Inr \<lparr>reg_correlation_id = 7, reg_app_name = ''old-svc'', reg_nonce = 1,
       reg_reply_segment = ''/impulse-ring.cli.1.v1'', reg_heartbeat_ms = 1000, reg_pid = 0\<rparr>"
  using legacy_frames_read [OF proto_lib_laws proto_cat_build proto_lib_distinct,
      of "\<lparr>reg_correlation_id = 7, reg_app_name = ''old-svc'', reg_nonce = 1,
        reg_reply_segment = ''/impulse-ring.cli.1.v1'', reg_heartbeat_ms = 1000, reg_pid = 4242\<rparr>"
      "\<lparr>pub_correlation_id = 7, pub_client_id = 3, pub_channel = ''app:1:up'', pub_schema_json = ''{}'',
        pub_access_key = '''', pub_arena_cap = 5\<rparr>"
      "\<lparr>exp_correlation_id = 7, exp_client_id = 3, exp_fn_name = ''add'', exp_req_schema_json = ''{}'',
        exp_resp_schema_json = ''{}'', exp_access_key = '''', exp_req_arena_cap = 5\<rparr>"]
  by (auto simp: legacy_type_def register_to_value_def publish_channel_to_value_def expose_function_to_value_def)

text \<open>
  A 64-bit fingerprint survives its transport as a signed Avro \<^verbatim>\<open>long\<close>, in both
  directions, and stays within the range of that type.
\<close>

lemma fp_transport:
  "i64_to_fp (fp_to_i64 fp) = fp \<and> fp_to_i64 (i64_to_fp v) = wrap_i64 v \<and>
   has_type TLong (AvLong (fp_to_i64 fp))"
proof -
  have "- (2 ^ 63) \<le> sint fp \<and> sint fp < 2 ^ 63"
    using sint_range_size [of fp] by (simp add: word_size)
  then show ?thesis by (simp add: i64_to_fp_def fp_to_i64_def wrap_i64_def)
qed

section \<open>Types of messages\<close>

text \<open>The values that the fields of the program's structures can have: integers of their width, lengths that
  memory can have.\<close>

fun av_fits :: "avro_value \<Rightarrow> bool" where
  "av_fits (AvLong i) \<longleftrightarrow> - (2 ^ 63) \<le> i \<and> i < 2 ^ 63"
| "av_fits (AvInt i) \<longleftrightarrow> - (2 ^ 31) \<le> i \<and> i < 2 ^ 31"
| "av_fits (AvString s) \<longleftrightarrow> length s \<le> 2 ^ 29"
| "av_fits (AvBoolean b) \<longleftrightarrow> True"
| "av_fits (AvBytes bs) \<longleftrightarrow> length bs \<le> 2 ^ 29"
| "av_fits (AvArray vs) \<longleftrightarrow> length vs \<le> 2 ^ 22 \<and> (\<forall>v \<in> set vs. av_fits v)"
| "av_fits (AvRecord fs) \<longleftrightarrow> (\<forall>v \<in> set (map snd fs). av_fits v)"

lemmas message_value_defs =
  register_to_value_def register_reply_to_value_def unregister_to_value_def publish_channel_to_value_def
  publish_reply_to_value_def unpublish_to_value_def list_channels_to_value_def channel_list_to_value_def
  subscribe_to_value_def subscribe_reply_to_value_def expose_function_to_value_def expose_reply_to_value_def
  lookup_function_to_value_def lookup_reply_to_value_def heartbeat_to_value_def rpc_request_to_value_def
  rpc_response_to_value_def channel_info_to_value_def

text \<open>C18: Structures and schemas agree. Every message of the protocol, whatever its fields, is a value of the type that
  the published schema text of its kind declares, field by field in the same order and under the same names, as soon
  as its integers have the width they have in the program and its lengths stay below what the decoder allocates.\<close>

theorem message_typed:
  "has_type (kind_type (message_kind m)) (message_value m) = av_fits (message_value m) \<and>
   schema_for (message_kind m) = type_json (kind_type (message_kind m))"
proof
  show "has_type (kind_type (message_kind m)) (message_value m) = av_fits (message_value m)"
    by (cases m) (auto simp: kind_type_def message_value_defs channel_info_type_def)
qed (rule schema_for_type)

end
