(* ===== verification/Ring_Registry.thy ===== *)
theory Ring_Registry
  imports Ring_Catalog
begin

text \<open>
  The broker's registry (\<^verbatim>\<open>crates/impulsed/src/registry.rs\<close>): clients, channels and functions
  with their name indexes, release bookkeeping, access and schema checks. The two tables that are
  indexed by name keep the same contract, \<open>named_table\<close>. Instants are nanoseconds on the
  broker's monotonic clock, passed in where the code reads the clock.
\<close>

section \<open>State\<close>

record client_meta =
  cm_app_name :: string
  cm_pid :: i32

record channel_meta =
  ch_id :: i64
  ch_name :: string
  ch_owner :: i64
  ch_schema_fp :: fingerprint
  ch_key :: "bytes option"
  ch_arena :: string

record function_meta =
  fm_id :: i64
  fm_name :: string
  fm_owner :: i64
  fm_req_fp :: fingerprint
  fm_resp_fp :: fingerprint
  fm_key :: "bytes option"
  fm_req_arena :: string

datatype release = Now string | Deferred | Refused

record registry =
  rg_clients :: "(i64, client_meta) hash_map"
  rg_channels :: "(i64, channel_meta) hash_map"
  rg_chan_by_name :: "(string, i64) hash_map"
  rg_functions :: "(i64, function_meta) hash_map"
  rg_fn_by_name :: "(string, i64) hash_map"
  rg_subscribed :: "i64 set"
  rg_released :: "(i64, nat) hash_map"
  rg_next_client :: i64
  rg_next_channel :: i64
  rg_next_fn :: i64

definition registry_new :: registry where
  "registry_new =
     \<lparr>rg_clients = hm_empty, rg_channels = hm_empty, rg_chan_by_name = hm_empty,
      rg_functions = hm_empty, rg_fn_by_name = hm_empty, rg_subscribed = {},
      rg_released = hm_empty, rg_next_client = 1, rg_next_channel = 1, rg_next_fn = 1\<rparr>"

section \<open>Clients\<close>

definition add_client :: "string \<Rightarrow> i32 \<Rightarrow> registry \<Rightarrow> i64 \<times> registry" where
  "add_client app_name pid g =
     (let i = rg_next_client g in
      (i, g\<lparr>rg_next_client := wrap_i64 (rg_next_client g + 1),
            rg_clients := hm_insert i \<lparr>cm_app_name = app_name, cm_pid = pid\<rparr> (rg_clients g)\<rparr>))"

definition client_pid :: "registry \<Rightarrow> i64 \<Rightarrow> i32" where
  "client_pid g owner = (case hm_get (rg_clients g) owner of None \<Rightarrow> 0 | Some c \<Rightarrow> cm_pid c)"

definition dead_function_owner :: "string \<Rightarrow> (i32 \<Rightarrow> bool) \<Rightarrow> registry \<Rightarrow> i64 option" where
  "dead_function_owner nm alive g =
     do { fid \<leftarrow> hm_get (rg_fn_by_name g) nm;
          f \<leftarrow> hm_get (rg_functions g) fid;
          if alive (client_pid g (fm_owner f)) then None else Some (fm_owner f) }"

definition dead_channel_owner :: "string \<Rightarrow> (i32 \<Rightarrow> bool) \<Rightarrow> registry \<Rightarrow> i64 option" where
  "dead_channel_owner nm alive g =
     do { cid \<leftarrow> hm_get (rg_chan_by_name g) nm;
          c \<leftarrow> hm_get (rg_channels g) cid;
          if alive (client_pid g (ch_owner c)) then None else Some (ch_owner c) }"

definition remove_client :: "i64 \<Rightarrow> registry \<Rightarrow> registry" where
  "remove_client i g = g\<lparr>rg_clients := hm_remove i (rg_clients g)\<rparr>"

section \<open>Channels\<close>

definition drop_channel :: "i64 \<Rightarrow> registry \<Rightarrow> string option \<times> registry" where
  "drop_channel i g =
     (case hm_get (rg_channels g) i of
        None \<Rightarrow> (None, g)
      | Some c \<Rightarrow>
          (Some (ch_arena c),
           g\<lparr>rg_channels := hm_remove i (rg_channels g),
             rg_chan_by_name := hm_remove (ch_name c) (rg_chan_by_name g),
             rg_subscribed := rg_subscribed g - {i},
             rg_released := hm_remove i (rg_released g)\<rparr>))"

text \<open>The arenas of the channels dropped, in the order of the identifiers.\<close>

fun drop_channels :: "i64 list \<Rightarrow> registry \<Rightarrow> string list \<times> registry" where
  "drop_channels [] g = ([], g)"
| "drop_channels (i # is) g =
     (case drop_channel i g of
        (None, g1) \<Rightarrow> drop_channels is g1
      | (Some arena, g1) \<Rightarrow> (let (arenas, g2) = drop_channels is g1 in (arena # arenas, g2)))"

definition remove_client_channels :: "i64 \<Rightarrow> registry \<Rightarrow> string list \<times> registry" where
  "remove_client_channels owner g =
     drop_channels (hm_keys_where (\<lambda>c. ch_owner c = owner) (rg_channels g)) g"

definition mark_subscribed :: "i64 \<Rightarrow> registry \<Rightarrow> registry" where
  "mark_subscribed channel_id g = g\<lparr>rg_subscribed := insert channel_id (rg_subscribed g)\<rparr>"

definition release_channel :: "nat \<Rightarrow> string \<Rightarrow> i64 \<Rightarrow> registry \<Rightarrow> release \<times> registry" where
  "release_channel now nm owner g =
     (case hm_get (rg_chan_by_name g) nm of
        None \<Rightarrow> (Refused, g)
      | Some i \<Rightarrow>
          if map_option ch_owner (hm_get (rg_channels g) i) \<noteq> Some owner then (Refused, g)
          else if i \<in> rg_subscribed g
          then (case drop_channel i g of
                  (Some arena, g1) \<Rightarrow> (Now arena, g1)
                | (None, g1) \<Rightarrow> (Refused, g1))
          else (Deferred, g\<lparr>rg_released := hm_insert i now (rg_released g)\<rparr>))"

definition reap_released :: "nat \<Rightarrow> nat \<Rightarrow> registry \<Rightarrow> string list \<times> registry" where
  "reap_released now grace g =
     drop_channels (hm_keys_where (\<lambda>at. grace \<le> now - at) (rg_released g)) g"

definition reap_if_released :: "string \<Rightarrow> registry \<Rightarrow> string option \<times> registry" where
  "reap_if_released nm g =
     (case hm_get (rg_chan_by_name g) nm of
        None \<Rightarrow> (None, g)
      | Some i \<Rightarrow> if hm_contains (rg_released g) i then drop_channel i g else (None, g))"

definition alloc_channel_id :: "registry \<Rightarrow> i64 \<times> registry" where
  "alloc_channel_id g =
     (rg_next_channel g, g\<lparr>rg_next_channel := wrap_i64 (rg_next_channel g + 1)\<rparr>)"

definition channel_name_taken :: "string \<Rightarrow> registry \<Rightarrow> bool" where
  "channel_name_taken nm g = hm_contains (rg_chan_by_name g) nm"

definition insert_channel :: "channel_meta \<Rightarrow> registry \<Rightarrow> registry" where
  "insert_channel c g =
     g\<lparr>rg_chan_by_name := hm_insert (ch_name c) (ch_id c) (rg_chan_by_name g),
       rg_channels := hm_insert (ch_id c) c (rg_channels g)\<rparr>"

section \<open>Functions\<close>

text \<open>The body of the loop that removes a client's functions.\<close>

definition drop_function :: "i64 \<Rightarrow> registry \<Rightarrow> string option \<times> registry" where
  "drop_function i g =
     (case hm_get (rg_functions g) i of
        None \<Rightarrow> (None, g)
      | Some f \<Rightarrow>
          (Some (fm_req_arena f),
           g\<lparr>rg_functions := hm_remove i (rg_functions g),
             rg_fn_by_name := hm_remove (fm_name f) (rg_fn_by_name g)\<rparr>))"

fun drop_functions :: "i64 list \<Rightarrow> registry \<Rightarrow> string list \<times> registry" where
  "drop_functions [] g = ([], g)"
| "drop_functions (i # is) g =
     (case drop_function i g of
        (None, g1) \<Rightarrow> drop_functions is g1
      | (Some arena, g1) \<Rightarrow> (let (arenas, g2) = drop_functions is g1 in (arena # arenas, g2)))"

definition remove_client_functions :: "i64 \<Rightarrow> registry \<Rightarrow> string list \<times> registry" where
  "remove_client_functions owner g =
     drop_functions (hm_keys_where (\<lambda>f. fm_owner f = owner) (rg_functions g)) g"

definition alloc_fn_id :: "registry \<Rightarrow> i64 \<times> registry" where
  "alloc_fn_id g = (rg_next_fn g, g\<lparr>rg_next_fn := wrap_i64 (rg_next_fn g + 1)\<rparr>)"

definition function_name_taken :: "string \<Rightarrow> registry \<Rightarrow> bool" where
  "function_name_taken nm g = hm_contains (rg_fn_by_name g) nm"

definition insert_function :: "function_meta \<Rightarrow> registry \<Rightarrow> registry" where
  "insert_function f g =
     g\<lparr>rg_fn_by_name := hm_insert (fm_name f) (fm_id f) (rg_fn_by_name g),
       rg_functions := hm_insert (fm_id f) f (rg_functions g)\<rparr>"

definition find_function_by_name :: "string \<Rightarrow> registry \<Rightarrow> function_meta option" where
  "find_function_by_name nm g = Option.bind (hm_get (rg_fn_by_name g) nm) (hm_get (rg_functions g))"

section \<open>Queries\<close>

definition show_channel :: "registry \<Rightarrow> channel_meta \<Rightarrow> channel_info" where
  "show_channel g c =
     \<lparr>ci_channel_id = ch_id c, ci_name = ch_name c,
      ci_owner_app = (case hm_get (rg_clients g) (ch_owner c) of None \<Rightarrow> [] | Some m \<Rightarrow> cm_app_name m),
      ci_schema_fp = fp_to_i64 (ch_schema_fp c), ci_requires_key = (ch_key c \<noteq> None)\<rparr>"

definition registry_list_channels :: "registry \<Rightarrow> channel_info list" where
  "registry_list_channels g = map (\<lambda>(i, c). show_channel g c) (hm_entries (rg_channels g))"

definition check_key :: "(bytes \<Rightarrow> bytes) \<Rightarrow> bytes option \<Rightarrow> string \<Rightarrow> (i32 \<times> string) + unit" where
  "check_key sha policy presented =
     (case policy of
        None \<Rightarrow> Inr ()
      | Some h \<Rightarrow> if key_matches sha presented h then Inr ()
                  else Inl (ERR_DENIED, ''invalid access key''))"

definition check_fp :: "fingerprint \<Rightarrow> fingerprint \<Rightarrow> (i32 \<times> string) + unit" where
  "check_fp expected actual =
     (if expected = 0 \<or> expected = actual then Inr ()
      else Inl (ERR_SCHEMA_MISMATCH,
        ''schema mismatch: expected 0x'' @ show_hex (unat expected) @ '', got 0x'' @ show_hex (unat actual)))"

definition resolve_subscribe ::
  "(bytes \<Rightarrow> bytes) \<Rightarrow> i64 \<Rightarrow> string \<Rightarrow> fingerprint \<Rightarrow> registry \<Rightarrow> (i32 \<times> string) + (string \<times> fingerprint)" where
  "resolve_subscribe sha channel_id access_key expected_fp g =
     (case hm_get (rg_channels g) channel_id of
        None \<Rightarrow> Inl (ERR_NOT_FOUND, ''no such channel'')
      | Some c \<Rightarrow>
          (case check_key sha (ch_key c) access_key of
             Inl e \<Rightarrow> Inl e
           | Inr _ \<Rightarrow>
               (case check_fp expected_fp (ch_schema_fp c) of
                  Inl e \<Rightarrow> Inl e
                | Inr _ \<Rightarrow> Inr (ch_arena c, ch_schema_fp c))))"

definition resolve_lookup ::
  "(bytes \<Rightarrow> bytes) \<Rightarrow> string \<Rightarrow> string \<Rightarrow> registry \<Rightarrow>
     (i32 \<times> string) + (i64 \<times> fingerprint \<times> fingerprint \<times> string)" where
  "resolve_lookup sha nm access_key g =
     (case find_function_by_name nm g of
        None \<Rightarrow> Inl (ERR_NOT_FOUND, ''no such function'')
      | Some f \<Rightarrow>
          (case check_key sha (fm_key f) access_key of
             Inl e \<Rightarrow> Inl e
           | Inr _ \<Rightarrow> Inr (fm_id f, fm_req_fp f, fm_resp_fp f, fm_req_arena f)))"

section \<open>Tables indexed by name\<close>

text \<open>
  A table and its name index agree: every entry is found under its own identifier and its name
  leads to it, and every name in the index leads to an entry of that name.
\<close>

definition index_ok ::
  "('e \<Rightarrow> i64) \<Rightarrow> ('e \<Rightarrow> string) \<Rightarrow> (i64 \<Rightarrow> 'e option) \<Rightarrow> (string \<Rightarrow> i64 option) \<Rightarrow> bool" where
  "index_ok id_of nm_of table index \<longleftrightarrow>
     (\<forall>i e. table i = Some e \<longrightarrow> id_of e = i \<and> index (nm_of e) = Some i) \<and>
     (\<forall>n i. index n = Some i \<longrightarrow> (\<exists>e. table i = Some e \<and> nm_of e = n))"

lemma index_okI:
  assumes "\<And>i e. table i = Some e \<Longrightarrow> id_of e = i \<and> index (nm_of e) = Some i"
    and "\<And>n i. index n = Some i \<Longrightarrow> \<exists>e. table i = Some e \<and> nm_of e = n"
  shows "index_ok id_of nm_of table index"
  using assms by (simp add: index_ok_def)

lemma index_okD:
  assumes "index_ok id_of nm_of table index"
  shows "table i = Some e \<Longrightarrow> id_of e = i" "table i = Some e \<Longrightarrow> index (nm_of e) = Some i"
    and "index n = Some i \<Longrightarrow> \<exists>e. table i = Some e \<and> nm_of e = n"
  using assms by (simp_all add: index_ok_def)

locale named_table =
  fixes id_of :: "'e \<Rightarrow> i64" and nm_of :: "'e \<Rightarrow> string" and arena_of :: "'e \<Rightarrow> string"
    and table :: "'s \<Rightarrow> i64 \<Rightarrow> 'e option" and index :: "'s \<Rightarrow> string \<Rightarrow> i64 option"
    and ins :: "'e \<Rightarrow> 's \<Rightarrow> 's" and del :: "i64 \<Rightarrow> 's \<Rightarrow> string option \<times> 's"
    and dels :: "i64 list \<Rightarrow> 's \<Rightarrow> string list \<times> 's"
  assumes table_ins: "table (ins e s) i = (if i = id_of e then Some e else table s i)"
    and index_ins: "index (ins e s) n = (if n = nm_of e then Some (id_of e) else index s n)"
    and table_del: "table (snd (del i s)) j = (if j = i then None else table s j)"
    and index_del: "index (snd (del i s)) n =
        (case table s i of None \<Rightarrow> index s n | Some e \<Rightarrow> if n = nm_of e then None else index s n)"
    and del_arena: "fst (del i s) = map_option arena_of (table s i)"
    and dels_Nil: "dels [] s = ([], s)"
    and dels_Cons: "dels (i # is) s =
        (case del i s of
           (None, t) \<Rightarrow> dels is t
         | (Some a, t) \<Rightarrow> (a # fst (dels is t), snd (dels is t)))"
begin

lemma ok_ins:
  assumes ok: "index_ok id_of nm_of (table s) (index s)"
    and fresh: "table s (id_of e) = None" "index s (nm_of e) = None"
  shows "index_ok id_of nm_of (table (ins e s)) (index (ins e s))"
proof (rule index_okI)
  fix i e' assume "table (ins e s) i = Some e'"
  then consider "i = id_of e" "e' = e" | "i \<noteq> id_of e" "table s i = Some e'"
    by (auto simp: table_ins split: if_splits)
  then show "id_of e' = i \<and> index (ins e s) (nm_of e') = Some i"
    using index_okD(1,2) [OF ok, of i e'] fresh(2) by cases (auto simp: index_ins)
next
  fix n i assume "index (ins e s) n = Some i"
  then consider "n = nm_of e" "i = id_of e" | "n \<noteq> nm_of e" "index s n = Some i"
    by (auto simp: index_ins split: if_splits)
  then show "\<exists>e'. table (ins e s) i = Some e' \<and> nm_of e' = n"
    using index_okD(3) [OF ok, of n i] fresh(1) by cases (auto simp: table_ins)
qed

lemma ok_del:
  assumes ok: "index_ok id_of nm_of (table s) (index s)"
  shows "index_ok id_of nm_of (table (snd (del i s))) (index (snd (del i s)))"
proof (rule index_okI)
  fix j e assume "table (snd (del i s)) j = Some e"
  then have j: "j \<noteq> i" "table s j = Some e" by (simp_all add: table_del split: if_splits)
  have "nm_of e \<noteq> nm_of e'" if "table s i = Some e'" for e'
    using index_okD(2) [OF ok j(2)] index_okD(2) [OF ok that] j(1) by auto
  with j index_okD(1,2) [OF ok j(2)] show "id_of e = j \<and> index (snd (del i s)) (nm_of e) = Some j"
    by (auto simp: index_del split: option.splits)
next
  fix n j assume n: "index (snd (del i s)) n = Some j"
  then have "index s n = Some j" by (auto simp: index_del split: option.splits if_splits)
  then obtain e where e: "table s j = Some e" "nm_of e = n" using index_okD(3) [OF ok] by blast
  with n have "j \<noteq> i" by (auto simp: index_del split: if_splits)
  with e show "\<exists>e. table (snd (del i s)) j = Some e \<and> nm_of e = n" by (simp add: table_del)
qed

lemma snd_dels: "snd (dels is s) = fold (\<lambda>i t. snd (del i t)) is s"
proof (induction "is" arbitrary: s)
  case (Cons i "is")
  then show ?case by (cases "del i s"; cases "fst (del i s)") (auto simp: dels_Cons)
qed (simp add: dels_Nil)

lemma table_dels: "table (snd (dels is s)) j = (if j \<in> set is then None else table s j)"
  unfolding snd_dels by (induction "is" arbitrary: s) (auto simp: table_del)

lemma ok_dels:
  "index_ok id_of nm_of (table s) (index s) \<Longrightarrow>
     index_ok id_of nm_of (table (snd (dels is s))) (index (snd (dels is s)))"
  unfolding snd_dels by (induction "is" arbitrary: s) (auto intro: ok_del)

lemma dels_arenas:
  "distinct is \<Longrightarrow> set (fst (dels is s)) = {arena_of e | e i. i \<in> set is \<and> table s i = Some e}"
proof (induction "is" arbitrary: s)
  case (Cons i "is")
  have tab: "table (snd (del i s)) j = table s j" if "j \<in> set is" for j
    using that Cons.prems by (auto simp: table_del)
  have IH: "set (fst (dels is (snd (del i s)))) = {arena_of e | e j. j \<in> set is \<and> table s j = Some e}"
    using Cons tab by (auto; metis)
  show ?case
  proof (cases "table s i")
    case None
    then have "fst (del i s) = None" by (simp add: del_arena)
    then have "fst (dels (i # is) s) = fst (dels is (snd (del i s)))"
      by (cases "del i s") (simp add: dels_Cons)
    with IH None show ?thesis by auto
  next
    case (Some e)
    then have "fst (del i s) = Some (arena_of e)" by (simp add: del_arena)
    then have "fst (dels (i # is) s) = arena_of e # fst (dels is (snd (del i s)))"
      by (cases "del i s") (simp add: dels_Cons)
    with IH Some show ?thesis by auto
  qed
qed (simp add: dels_Nil)

lemma index_dels_None:
  assumes ok: "index_ok id_of nm_of (table s) (index s)" and i: "i \<in> set is" "table s i = Some e"
  shows "index (snd (dels is s)) (nm_of e) = None"
proof (rule ccontr)
  assume "index (snd (dels is s)) (nm_of e) \<noteq> None"
  then obtain j e' where j: "table (snd (dels is s)) j = Some e'" "nm_of e' = nm_of e"
    using index_okD(3) [OF ok_dels [OF ok]] by blast
  then have "table s j = Some e'" "j \<notin> set is" by (simp_all add: table_dels split: if_splits)
  with index_okD(2) [OF ok this(1)] index_okD(2) [OF ok i(2)] j(2) i(1) show False by simp
qed

end

interpretation chan: named_table ch_id ch_name ch_arena "\<lambda>g. hm_get (rg_channels g)" "\<lambda>g. hm_get (rg_chan_by_name g)"
  insert_channel drop_channel drop_channels
  by unfold_locales
    (auto simp: insert_channel_def drop_channel_def case_prod_beta Let_def split: option.splits prod.splits)

interpretation func: named_table fm_id fm_name fm_req_arena "\<lambda>g. hm_get (rg_functions g)" "\<lambda>g. hm_get (rg_fn_by_name g)"
  insert_function drop_function drop_functions
  by unfold_locales
    (auto simp: insert_function_def drop_function_def case_prod_beta Let_def split: option.splits prod.splits)

section \<open>The invariant\<close>

text \<open>
  The registry is consistent: tables and name indexes agree, arenas carry the name of their
  channel's or function's identifier, identifiers were handed out, release bookkeeping only
  speaks of channels that exist.
\<close>

definition channels_ok :: "registry \<Rightarrow> bool" where
  "channels_ok g \<longleftrightarrow> hm_ok (rg_channels g) \<and>
     index_ok ch_id ch_name (hm_get (rg_channels g)) (hm_get (rg_chan_by_name g)) \<and>
     (\<forall>i c. hm_get (rg_channels g) i = Some c \<longrightarrow>
        0 < i \<and> i < rg_next_channel g \<and> ch_arena c = channel_arena (word_of_int i))"

definition functions_ok :: "registry \<Rightarrow> bool" where
  "functions_ok g \<longleftrightarrow> hm_ok (rg_functions g) \<and>
     index_ok fm_id fm_name (hm_get (rg_functions g)) (hm_get (rg_fn_by_name g)) \<and>
     (\<forall>i f. hm_get (rg_functions g) i = Some f \<longrightarrow>
        0 < i \<and> i < rg_next_fn g \<and> fm_req_arena f = function_arena (word_of_int i))"

definition releases_ok :: "registry \<Rightarrow> bool" where
  "releases_ok g \<longleftrightarrow> hm_ok (rg_released g) \<and>
     (\<forall>i \<in> rg_subscribed g. hm_contains (rg_channels g) i) \<and>
     (\<forall>i. hm_contains (rg_released g) i \<longrightarrow> hm_contains (rg_channels g) i)"

definition counters_ok :: "registry \<Rightarrow> bool" where
  "counters_ok g \<longleftrightarrow> 0 < rg_next_client g \<and> 0 < rg_next_channel g \<and> 0 < rg_next_fn g \<and>
     rg_next_client g < 2 ^ 63 \<and> rg_next_channel g < 2 ^ 63 \<and> rg_next_fn g < 2 ^ 63 \<and>
     hm_ok (rg_clients g) \<and> (\<forall>i. hm_contains (rg_clients g) i \<longrightarrow> 0 < i \<and> i < rg_next_client g)"

definition reg_ok :: "registry \<Rightarrow> bool" where
  "reg_ok g \<longleftrightarrow> channels_ok g \<and> functions_ok g \<and> releases_ok g \<and> counters_ok g"

lemmas reg_ok_defs = reg_ok_def channels_ok_def functions_ok_def releases_ok_def counters_ok_def

text \<open>The largest identifier counter.\<close>

definition reg_count :: "registry \<Rightarrow> i64" where
  "reg_count g = max (rg_next_client g) (max (rg_next_channel g) (rg_next_fn g))"

lemma reg_ok_new [simp]: "reg_ok registry_new"
  by (simp add: reg_ok_defs registry_new_def index_ok_def)

lemma wrap_i64_succ: "0 < n \<Longrightarrow> n < 2 ^ 63 - 1 \<Longrightarrow> wrap_i64 (n + 1) = n + 1"
  by (rule wrap_i64_id) simp_all

lemma reg_ok_add_client:
  assumes "reg_ok g" "rg_next_client g < 2 ^ 63 - 1"
  shows "reg_ok (snd (add_client app pid g))"
  using assms wrap_i64_succ [of "rg_next_client g"]
  by (auto simp: reg_ok_defs add_client_def Let_def)

lemma reg_ok_remove_client: "reg_ok g \<Longrightarrow> reg_ok (remove_client i g)"
  by (auto simp: reg_ok_defs remove_client_def)

lemma drop_channel_frame [simp]:
  "rg_clients (snd (drop_channel i g)) = rg_clients g" "rg_functions (snd (drop_channel i g)) = rg_functions g"
  "rg_fn_by_name (snd (drop_channel i g)) = rg_fn_by_name g"
  "rg_next_client (snd (drop_channel i g)) = rg_next_client g"
  "rg_next_channel (snd (drop_channel i g)) = rg_next_channel g" "rg_next_fn (snd (drop_channel i g)) = rg_next_fn g"
  "hm_ok (rg_channels g) \<Longrightarrow> hm_ok (rg_channels (snd (drop_channel i g)))"
  by (auto simp: drop_channel_def split: option.splits)

lemma drop_function_frame [simp]:
  "rg_clients (snd (drop_function i g)) = rg_clients g" "rg_channels (snd (drop_function i g)) = rg_channels g"
  "rg_chan_by_name (snd (drop_function i g)) = rg_chan_by_name g"
  "rg_subscribed (snd (drop_function i g)) = rg_subscribed g" "rg_released (snd (drop_function i g)) = rg_released g"
  "rg_next_client (snd (drop_function i g)) = rg_next_client g"
  "rg_next_channel (snd (drop_function i g)) = rg_next_channel g" "rg_next_fn (snd (drop_function i g)) = rg_next_fn g"
  "hm_ok (rg_functions g) \<Longrightarrow> hm_ok (rg_functions (snd (drop_function i g)))"
  by (auto simp: drop_function_def split: option.splits)

lemma reg_ok_drop_channel:
  assumes "reg_ok g"
  shows "reg_ok (snd (drop_channel i g))"
proof -
  have "releases_ok (snd (drop_channel i g))"
    using assms by (auto simp: reg_ok_defs drop_channel_def hm_contains_def split: option.splits)
  moreover have "channels_ok (snd (drop_channel i g))"
    using assms chan.ok_del [of g i] by (auto simp: reg_ok_def channels_ok_def chan.table_del split: if_splits)
  ultimately show ?thesis using assms by (simp add: reg_ok_def functions_ok_def counters_ok_def)
qed

lemma reg_ok_drop_function:
  assumes "reg_ok g"
  shows "reg_ok (snd (drop_function i g))"
proof -
  have "functions_ok (snd (drop_function i g))"
    using assms func.ok_del [of g i] by (auto simp: reg_ok_def functions_ok_def func.table_del split: if_splits)
  then show ?thesis using assms by (simp add: reg_ok_def channels_ok_def releases_ok_def counters_ok_def)
qed

lemma reg_ok_drop_channels: "reg_ok g \<Longrightarrow> reg_ok (snd (drop_channels is g))"
  unfolding chan.snd_dels by (induction "is" arbitrary: g) (auto intro: reg_ok_drop_channel)

lemma reg_ok_drop_functions: "reg_ok g \<Longrightarrow> reg_ok (snd (drop_functions is g))"
  unfolding func.snd_dels by (induction "is" arbitrary: g) (auto intro: reg_ok_drop_function)

lemma drop_channels_frame [simp]:
  "rg_clients (snd (drop_channels is g)) = rg_clients g" "rg_functions (snd (drop_channels is g)) = rg_functions g"
  "rg_fn_by_name (snd (drop_channels is g)) = rg_fn_by_name g"
  "rg_next_client (snd (drop_channels is g)) = rg_next_client g"
  "rg_next_channel (snd (drop_channels is g)) = rg_next_channel g" "rg_next_fn (snd (drop_channels is g)) = rg_next_fn g"
  unfolding chan.snd_dels by (induction "is" arbitrary: g) simp_all

lemma drop_functions_frame [simp]:
  "rg_clients (snd (drop_functions is g)) = rg_clients g" "rg_channels (snd (drop_functions is g)) = rg_channels g"
  "rg_chan_by_name (snd (drop_functions is g)) = rg_chan_by_name g"
  "rg_subscribed (snd (drop_functions is g)) = rg_subscribed g" "rg_released (snd (drop_functions is g)) = rg_released g"
  "rg_next_client (snd (drop_functions is g)) = rg_next_client g"
  "rg_next_channel (snd (drop_functions is g)) = rg_next_channel g" "rg_next_fn (snd (drop_functions is g)) = rg_next_fn g"
  unfolding func.snd_dels by (induction "is" arbitrary: g) simp_all

lemma reg_ok_mark_subscribed:
  "reg_ok g \<Longrightarrow> hm_contains (rg_channels g) i \<Longrightarrow> reg_ok (mark_subscribed i g)"
  by (auto simp: reg_ok_defs mark_subscribed_def)

text \<open>The outcomes of a release, each with what it found and what it leaves.\<close>

lemma release_channel_cases:
  assumes "release_channel now nm owner g = (rel, g')"
  obtains (refused) "rel = Refused" "g' = g"
      "\<nexists>i c. hm_get (rg_chan_by_name g) nm = Some i \<and> hm_get (rg_channels g) i = Some c \<and> ch_owner c = owner"
    | (now) i c where "hm_get (rg_chan_by_name g) nm = Some i" "hm_get (rg_channels g) i = Some c"
      "ch_owner c = owner" "i \<in> rg_subscribed g" "rel = Now (ch_arena c)" "g' = snd (drop_channel i g)"
    | (deferred) i c where "hm_get (rg_chan_by_name g) nm = Some i" "hm_get (rg_channels g) i = Some c"
      "ch_owner c = owner" "i \<notin> rg_subscribed g" "rel = Deferred"
      "g' = g\<lparr>rg_released := hm_insert i now (rg_released g)\<rparr>"
proof (cases "hm_get (rg_chan_by_name g) nm")
  case None
  with assms refused show ?thesis by (simp add: release_channel_def)
next
  case (Some i)
  show ?thesis
  proof (cases "\<exists>c. hm_get (rg_channels g) i = Some c \<and> ch_owner c = owner")
    case False
    with assms Some refused show ?thesis by (auto simp: release_channel_def split: if_splits)
  next
    case True
    then obtain c where c: "hm_get (rg_channels g) i = Some c" "ch_owner c = owner" by blast
    show ?thesis
    proof (cases "i \<in> rg_subscribed g")
      case True
      with assms Some c now [of i c] show ?thesis by (simp add: release_channel_def drop_channel_def)
    next
      case False
      with assms Some c deferred [of i c] show ?thesis by (simp add: release_channel_def)
    qed
  qed
qed

lemma reg_ok_release:
  assumes "reg_ok g" "release_channel now nm owner g = (rel, g')"
  shows "reg_ok g'"
  using assms(2)
proof (cases rule: release_channel_cases)
  case (now i c)
  then show ?thesis using reg_ok_drop_channel [OF assms(1)] by simp
next
  case (deferred i c)
  then show ?thesis using assms(1) by (auto simp: reg_ok_defs hm_contains_def)
qed (use assms in simp)

lemma reg_ok_reap_if: "reg_ok g \<Longrightarrow> reg_ok (snd (reap_if_released nm g))"
  by (auto simp: reap_if_released_def reg_ok_drop_channel split: option.splits)

lemma reg_ok_alloc_channel:
  "reg_ok g \<Longrightarrow> rg_next_channel g < 2 ^ 63 - 1 \<Longrightarrow> reg_ok (snd (alloc_channel_id g))"
  using wrap_i64_succ [of "rg_next_channel g"]
  by (fastforce simp: reg_ok_defs alloc_channel_id_def)

lemma reg_ok_alloc_fn:
  "reg_ok g \<Longrightarrow> rg_next_fn g < 2 ^ 63 - 1 \<Longrightarrow> reg_ok (snd (alloc_fn_id g))"
  using wrap_i64_succ [of "rg_next_fn g"]
  by (fastforce simp: reg_ok_defs alloc_fn_id_def)

lemma reg_ok_insert_channel:
  assumes "reg_ok g" "hm_get (rg_channels g) (ch_id c) = None" "\<not> channel_name_taken (ch_name c) g"
    and "0 < ch_id c" "ch_id c < rg_next_channel g" "ch_arena c = channel_arena (word_of_int (ch_id c))"
  shows "reg_ok (insert_channel c g)"
proof -
  have "channels_ok (insert_channel c g)"
    using assms chan.ok_ins [of g c]
    by (auto simp: reg_ok_def channels_ok_def chan.table_ins channel_name_taken_def hm_contains_def)
      (auto simp: insert_channel_def)
  with assms show ?thesis
    by (auto simp: reg_ok_def functions_ok_def releases_ok_def counters_ok_def insert_channel_def)
qed

lemma reg_ok_insert_function:
  assumes "reg_ok g" "hm_get (rg_functions g) (fm_id f) = None" "\<not> function_name_taken (fm_name f) g"
    and "0 < fm_id f" "fm_id f < rg_next_fn g" "fm_req_arena f = function_arena (word_of_int (fm_id f))"
  shows "reg_ok (insert_function f g)"
proof -
  have "functions_ok (insert_function f g)"
    using assms func.ok_ins [of g f]
    by (auto simp: reg_ok_def functions_ok_def func.table_ins function_name_taken_def hm_contains_def)
      (auto simp: insert_function_def)
  with assms show ?thesis
    by (auto simp: reg_ok_def channels_ok_def releases_ok_def counters_ok_def insert_function_def)
qed

section \<open>Properties\<close>

text \<open>
  a release is honoured for the channel's own publisher only. When somebody has subscribed,
  the channel and its name are gone at once and its arena is handed back for reclaiming;
  when nobody has, the channel stays as it is, found by its name and open to subscribers, and only
  the moment of release is noted. Any other request changes nothing at all. No other channel
  is ever affected.
\<close>

lemma release_channel_spec:
  assumes "reg_ok g" and "release_channel now nm owner g = (rel, g')"
  shows "reg_ok g' \<and>
    (\<forall>i c. hm_get (rg_chan_by_name g) nm = Some i \<and> hm_get (rg_channels g) i = Some c \<and> ch_owner c = owner \<longrightarrow>
       (if i \<in> rg_subscribed g
        then rel = Now (ch_arena c) \<and> \<not> channel_name_taken nm g' \<and>
          (\<forall>j. hm_get (rg_channels g') j = (if j = i then None else hm_get (rg_channels g) j))
        else rel = Deferred \<and> rg_channels g' = rg_channels g \<and> rg_chan_by_name g' = rg_chan_by_name g \<and>
          hm_get (rg_released g') i = Some now)) \<and>
    ((\<nexists>i c. hm_get (rg_chan_by_name g) nm = Some i \<and> hm_get (rg_channels g) i = Some c \<and> ch_owner c = owner) \<longrightarrow>
       rel = Refused \<and> g' = g)"
  using assms(2)
proof (cases rule: release_channel_cases)
  case refused
  with assms(1) show ?thesis by blast
next
  case (now i c)
  have ok: "index_ok ch_id ch_name (hm_get (rg_channels g)) (hm_get (rg_chan_by_name g))"
    using assms(1) by (simp add: reg_ok_def channels_ok_def)
  have "ch_name c = nm" using index_okD(3) [OF ok now(1)] now(2) by auto
  with now have "\<not> channel_name_taken nm g'"
    by (simp add: channel_name_taken_def hm_contains_def chan.index_del)
  with now reg_ok_release [OF assms] show ?thesis by (simp add: chan.table_del)
next
  case (deferred i c)
  with reg_ok_release [OF assms] show ?thesis by simp
qed

text \<open>
  the sweep takes back exactly the channels whose release lies at least the grace period in the
  past: it returns their arenas and no others, forgets these channels and their names, and leaves
  every other channel, also one released more recently, as it was.
\<close>

lemma reap_released_spec:
  assumes "reg_ok g" and "reap_released now grace g = (arenas, g')"
  shows "reg_ok g' \<and>
    set arenas = {ch_arena c | c i at. hm_get (rg_channels g) i = Some c \<and>
       hm_get (rg_released g) i = Some at \<and> grace \<le> now - at} \<and>
    (\<forall>i. hm_get (rg_channels g') i =
       (case hm_get (rg_released g) i of
          Some at \<Rightarrow> if grace \<le> now - at then None else hm_get (rg_channels g) i
        | None \<Rightarrow> hm_get (rg_channels g) i)) \<and>
    (\<forall>i c. hm_get (rg_channels g) i = Some c \<and> hm_get (rg_channels g') i = None \<longrightarrow>
       \<not> channel_name_taken (ch_name c) g')"
proof -
  let ?is = "hm_keys_where (\<lambda>at. grace \<le> now - at) (rg_released g)"
  have rok: "hm_ok (rg_released g)" using assms(1) by (simp add: reg_ok_defs)
  have ok: "index_ok ch_id ch_name (hm_get (rg_channels g)) (hm_get (rg_chan_by_name g))"
    using assms(1) by (simp add: reg_ok_def channels_ok_def)
  have ids: "i \<in> set ?is \<longleftrightarrow> (\<exists>at. hm_get (rg_released g) i = Some at \<and> grace \<le> now - at)" for i
    using rok by simp
  have r: "arenas = fst (drop_channels ?is g)" "g' = snd (drop_channels ?is g)"
    using assms(2) by (simp_all add: reap_released_def)
  have "set arenas = {ch_arena c | c i. i \<in> set ?is \<and> hm_get (rg_channels g) i = Some c}"
    unfolding r(1) by (rule chan.dels_arenas) (simp add: rok)
  then have "set arenas = {ch_arena c | c i at. hm_get (rg_channels g) i = Some c \<and>
       hm_get (rg_released g) i = Some at \<and> grace \<le> now - at}"
    unfolding ids by blast
  moreover have "hm_get (rg_channels g') i =
       (case hm_get (rg_released g) i of
          Some at \<Rightarrow> if grace \<le> now - at then None else hm_get (rg_channels g) i
        | None \<Rightarrow> hm_get (rg_channels g) i)" for i
    unfolding r(2) chan.table_dels ids by (auto split: option.splits)
  moreover have "\<not> channel_name_taken (ch_name c) g'"
    if "hm_get (rg_channels g) i = Some c" "hm_get (rg_channels g') i = None" for i c
  proof -
    have "i \<in> set ?is" using that by (auto simp: r(2) chan.table_dels split: if_splits)
    from chan.index_dels_None [OF ok this that(1)] show ?thesis
      by (simp add: channel_name_taken_def hm_contains_def r(2))
  qed
  ultimately show ?thesis using reg_ok_drop_channels [OF assms(1), of ?is] r(2) by blast
qed

text \<open>
  the decision on a subscription. The key is checked first, then the schema: a channel
  published with a key opens to exactly those keys with the same hash; a subscriber that expects a
  schema other than the publisher's is refused, one that expects none is not; and a granted
  request gets the arena and fingerprint of that very channel.
\<close>

lemma resolve_subscribe_spec:
  assumes "\<And>bs. length (sha bs) = 32"
    and "hm_get (rg_channels g) cid = Some c" and "ch_key c = (if locked = [] then None else Some (key_hash sha locked))"
  shows "resolve_subscribe sha cid presented expected g =
    (if locked \<noteq> [] \<and> key_hash sha presented \<noteq> key_hash sha locked
     then Inl (ERR_DENIED, ''invalid access key'')
     else if expected \<noteq> 0 \<and> expected \<noteq> ch_schema_fp c
     then Inl (ERR_SCHEMA_MISMATCH,
       ''schema mismatch: expected 0x'' @ show_hex (unat expected) @ '', got 0x'' @ show_hex (unat (ch_schema_fp c)))
     else Inr (ch_arena c, ch_schema_fp c))"
proof -
  have "length (key_hash sha k) = 32" for k by (simp add: key_hash_def assms(1))
  then show ?thesis
    using assms(2,3) by (simp add: resolve_subscribe_def check_key_def check_fp_def key_matches_eq)
qed

text \<open>
  looking a function up answers for the function of that name and no other: its key is
  enforced as a channel's is, and the identifier, fingerprints and request arena returned are
  that function's. Nothing is found under a name nobody exposes.
\<close>

lemma resolve_lookup_spec:
  assumes "\<And>bs. length (sha bs) = 32" and "reg_ok g"
    and "\<And>i f. hm_get (rg_functions g) i = Some f \<Longrightarrow> fm_key f = map_option (key_hash sha) (locks (fm_name f))"
  shows "resolve_lookup sha nm presented g =
    (case hm_get (rg_fn_by_name g) nm of
       None \<Rightarrow> Inl (ERR_NOT_FOUND, ''no such function'')
     | Some i \<Rightarrow>
         (let f = the (hm_get (rg_functions g) i) in
          if (case locks nm of None \<Rightarrow> True | Some k \<Rightarrow> key_hash sha presented = key_hash sha k)
          then Inr (i, fm_req_fp f, fm_resp_fp f, function_arena (word_of_int i))
          else Inl (ERR_DENIED, ''invalid access key'')))"
proof (cases "hm_get (rg_fn_by_name g) nm")
  case None
  then show ?thesis by (simp add: resolve_lookup_def find_function_by_name_def)
next
  case (Some i)
  have ok: "index_ok fm_id fm_name (hm_get (rg_functions g)) (hm_get (rg_fn_by_name g))"
    using assms(2) by (simp add: reg_ok_def functions_ok_def)
  obtain f where f: "hm_get (rg_functions g) i = Some f" "fm_name f = nm"
    using index_okD(3) [OF ok Some] by blast
  have "fm_id f = i" "fm_req_arena f = function_arena (word_of_int i)"
    using index_okD(1) [OF ok f(1)] assms(2) f(1) by (simp_all add: reg_ok_def functions_ok_def)
  moreover have "length (key_hash sha k) = 32" for k by (simp add: key_hash_def assms(1))
  ultimately show ?thesis
    using Some f assms(3) [OF f(1)]
    by (simp add: resolve_lookup_def find_function_by_name_def check_key_def key_matches_eq split: option.splits)
qed

text \<open>
  The channel list names every channel exactly once, with its own identifier, name,
  fingerprint, the application that owns it and whether it needs a key; its order is the hash
  map's and not promised.
\<close>

lemma list_channels_spec:
  assumes "reg_ok g"
  shows "distinct (map ci_channel_id (registry_list_channels g)) \<and>
    set (registry_list_channels g) = {show_channel g c | c i. hm_get (rg_channels g) i = Some c} \<and>
    set (map ci_channel_id (registry_list_channels g)) = {i. hm_contains (rg_channels g) i} \<and>
    distinct (map ci_name (registry_list_channels g))"
proof -
  let ?es = "hm_entries (rg_channels g)"
  have hok: "hm_ok (rg_channels g)"
    and ok: "index_ok ch_id ch_name (hm_get (rg_channels g)) (hm_get (rg_chan_by_name g))"
    using assms by (simp_all add: reg_ok_def channels_ok_def)
  have ent: "(i, c) \<in> set ?es \<longleftrightarrow> hm_get (rg_channels g) i = Some c" for i c
    by (rule hm.entries_get [OF hok])
  have id: "ch_id c = i" if "(i, c) \<in> set ?es" for i c using index_okD(1) [OF ok] that ent by blast
  have ids: "map ci_channel_id (registry_list_channels g) = map fst ?es"
    using id by (auto simp: registry_list_channels_def show_channel_def)
  have "map ci_name (registry_list_channels g) = map (ch_name \<circ> snd) ?es"
    by (auto simp: registry_list_channels_def show_channel_def)
  moreover have "inj_on (ch_name \<circ> snd) (set ?es)"
  proof (rule inj_onI)
    fix x y assume x: "x \<in> set ?es" and y: "y \<in> set ?es" and "(ch_name \<circ> snd) x = (ch_name \<circ> snd) y"
    then have n: "ch_name (snd x) = ch_name (snd y)" by simp
    have gx: "hm_get (rg_channels g) (fst x) = Some (snd x)" and gy: "hm_get (rg_channels g) (fst y) = Some (snd y)"
      using x y ent [of "fst x" "snd x"] ent [of "fst y" "snd y"] by simp_all
    have "fst x = fst y" using index_okD(2) [OF ok gx] index_okD(2) [OF ok gy] n by simp
    with gx gy show "x = y" by (simp add: prod_eq_iff)
  qed
  moreover have "distinct ?es" using hm.entries_distinct [OF hok] by (simp add: distinct_map)
  ultimately have names: "distinct (map ci_name (registry_list_channels g))" by (simp add: distinct_map)
  have list: "set (registry_list_channels g) = {show_channel g c | c i. hm_get (rg_channels g) i = Some c}"
    unfolding registry_list_channels_def using ent by fastforce
  have "set (map fst ?es) = {i. hm_contains (rg_channels g) i}"
    using ent by (force simp: hm_contains_def)
  with names list ids hm.entries_distinct [OF hok] show ?thesis by simp
qed

section \<open>A small registry\<close>

definition demo_chan :: channel_meta where
  "demo_chan = \<lparr>ch_id = 1, ch_name = ''metrics'', ch_owner = 7, ch_schema_fp = 5,
     ch_key = Some (key_hash demo_sha ''secret''), ch_arena = channel_arena 1\<rparr>"

definition demo_fun :: function_meta where
  "demo_fun = \<lparr>fm_id = 1, fm_name = ''add'', fm_owner = 7, fm_req_fp = 5, fm_resp_fp = 6,
     fm_key = None, fm_req_arena = function_arena 1\<rparr>"

definition demo_reg :: registry where
  "demo_reg = insert_function demo_fun (snd (alloc_fn_id
     (insert_channel demo_chan (snd (alloc_channel_id registry_new)))))"

lemma demo_reg_ok: "reg_ok demo_reg"
proof -
  let ?a = "snd (alloc_channel_id registry_new)"
  have "reg_ok ?a" by (rule reg_ok_alloc_channel [OF reg_ok_new]) (simp add: registry_new_def)
  then have "reg_ok (insert_channel demo_chan ?a)"
    by (rule reg_ok_insert_channel)
      (simp_all add: demo_chan_def alloc_channel_id_def registry_new_def channel_name_taken_def wrap_i64_id)
  then have "reg_ok (snd (alloc_fn_id (insert_channel demo_chan ?a)))"
    by (rule reg_ok_alloc_fn) (simp add: insert_channel_def alloc_channel_id_def registry_new_def)
  then show ?thesis
    unfolding demo_reg_def
    by (rule reg_ok_insert_function)
      (simp_all add: demo_fun_def alloc_fn_id_def alloc_channel_id_def insert_channel_def registry_new_def
        function_name_taken_def wrap_i64_id)
qed

lemma demo_reg_simps:
  "hm_get (rg_chan_by_name demo_reg) nm = (if nm = ''metrics'' then Some 1 else None)"
  "hm_get (rg_channels demo_reg) i = (if i = 1 then Some demo_chan else None)"
  "hm_get (rg_fn_by_name demo_reg) nm = (if nm = ''add'' then Some 1 else None)"
  "hm_get (rg_functions demo_reg) i = (if i = 1 then Some demo_fun else None)"
  "rg_subscribed demo_reg = {}" "rg_released demo_reg = hm_empty"
  by (simp_all add: demo_reg_def insert_function_def insert_channel_def alloc_fn_id_def alloc_channel_id_def
      registry_new_def demo_chan_def demo_fun_def)

end
