(* ===== verification/Ring_Buffer.thy ===== *)
theory Ring_Buffer
  imports Ring_Shm
begin

text \<open>
  The ring buffer of length-prefixed records (\<^verbatim>\<open>crates/core/src/ring.rs\<close>), on the bytes of the
  segment it lives in: header words at their offsets, 64-bit cursors that wrap, the two-part
  copies around the end of the data region. Operations run between other processes' accesses;
  a blocking operation takes a schedule of what other processes do to the segment while it is
  parked. The contract \<open>record_queue\<close> says what a ring promises (a bounded FIFO of records),
  and the ring is shown to keep it.
\<close>

section \<open>Powers of two\<close>

fun is_power_of_two :: "usize \<Rightarrow> bool" where
  "is_power_of_two n =
     (if n = 0 then False else if n = 1 then True else even n \<and> is_power_of_two (n div 2))"

declare is_power_of_two.simps [simp del]

lemma is_power_of_two_power [simp]: "is_power_of_two (2 ^ k)"
  by (induction k) (simp_all add: is_power_of_two.simps)

lemma is_power_of_twoE: "is_power_of_two n \<Longrightarrow> \<exists>k. n = 2 ^ k"
proof (induction n rule: is_power_of_two.induct)
  case (1 n)
  then consider "n = 1" | "even n" "n \<noteq> 0" "is_power_of_two (n div 2)" "n \<noteq> 1"
    by (metis is_power_of_two.simps)
  then show ?case
  proof cases
    case 1
    then show ?thesis by (intro exI [of _ 0]) simp
  next
    case 2
    then obtain k where "n div 2 = 2 ^ k" using "1.IH" by blast
    then have "n = 2 ^ Suc k" using \<open>even n\<close> by auto
    then show ?thesis by blast
  qed
qed

section \<open>Layout\<close>

definition MAGIC :: u32 where "MAGIC = 0x474e4952"

definition OFF_MAGIC :: usize where "OFF_MAGIC = 0"
definition OFF_CAP :: usize where "OFF_CAP = 4"
definition OFF_HEAD :: usize where "OFF_HEAD = 64"
definition OFF_PRODLOCK :: usize where "OFF_PRODLOCK = 72"
definition OFF_SPACE_SEQ :: usize where "OFF_SPACE_SEQ = 76"
definition OFF_TAIL :: usize where "OFF_TAIL = 128"
definition OFF_DATA_SEQ :: usize where "OFF_DATA_SEQ = 136"
definition RING_HEADER :: usize where "RING_HEADER = 192"
definition SPIN_LIMIT :: nat where "SPIN_LIMIT = 256"

lemmas ring_layout [simp] =
  OFF_MAGIC_def OFF_CAP_def OFF_HEAD_def OFF_PRODLOCK_def OFF_SPACE_SEQ_def OFF_TAIL_def
  OFF_DATA_SEQ_def RING_HEADER_def

definition ring_bytes :: "usize \<Rightarrow> usize" where
  "ring_bytes capacity = RING_HEADER + capacity"

record ring =
  ring_seg :: segment
  ring_base :: usize
  ring_cap :: usize
  ring_mask :: u64

section \<open>Header words\<close>

definition magic_word :: "ring \<Rightarrow> bytes \<Rightarrow> u32" where
  "magic_word r m = u32_at m (ring_base r + OFF_MAGIC)"
definition cap_word :: "ring \<Rightarrow> bytes \<Rightarrow> u32" where
  "cap_word r m = u32_at m (ring_base r + OFF_CAP)"
definition head :: "ring \<Rightarrow> bytes \<Rightarrow> u64" where
  "head r m = u64_at m (ring_base r + OFF_HEAD)"
definition tail :: "ring \<Rightarrow> bytes \<Rightarrow> u64" where
  "tail r m = u64_at m (ring_base r + OFF_TAIL)"
definition prod_lock :: "ring \<Rightarrow> bytes \<Rightarrow> u32" where
  "prod_lock r m = u32_at m (ring_base r + OFF_PRODLOCK)"
definition space_seq :: "ring \<Rightarrow> bytes \<Rightarrow> u32" where
  "space_seq r m = u32_at m (ring_base r + OFF_SPACE_SEQ)"
definition data_seq :: "ring \<Rightarrow> bytes \<Rightarrow> u32" where
  "data_seq r m = u32_at m (ring_base r + OFF_DATA_SEQ)"

definition set_head :: "ring \<Rightarrow> u64 \<Rightarrow> bytes \<Rightarrow> bytes" where
  "set_head r v m = set_u64 m (ring_base r + OFF_HEAD) v"
definition set_tail :: "ring \<Rightarrow> u64 \<Rightarrow> bytes \<Rightarrow> bytes" where
  "set_tail r v m = set_u64 m (ring_base r + OFF_TAIL) v"
definition set_prod_lock :: "ring \<Rightarrow> u32 \<Rightarrow> bytes \<Rightarrow> bytes" where
  "set_prod_lock r v m = set_u32 m (ring_base r + OFF_PRODLOCK) v"
definition set_space_seq :: "ring \<Rightarrow> u32 \<Rightarrow> bytes \<Rightarrow> bytes" where
  "set_space_seq r v m = set_u32 m (ring_base r + OFF_SPACE_SEQ) v"
definition set_data_seq :: "ring \<Rightarrow> u32 \<Rightarrow> bytes \<Rightarrow> bytes" where
  "set_data_seq r v m = set_u32 m (ring_base r + OFF_DATA_SEQ) v"

lemmas word_defs =
  magic_word_def cap_word_def head_def tail_def prod_lock_def space_seq_def data_seq_def
  set_head_def set_tail_def set_prod_lock_def set_space_seq_def set_data_seq_def

section \<open>Formatting and attaching\<close>

definition ring_format :: "segment \<Rightarrow> usize \<Rightarrow> usize \<Rightarrow> bytes \<Rightarrow> ring io_result \<times> bytes" where
  "ring_format seg base capacity m =
     (if \<not> is_power_of_two capacity then (Inl (IoPanic ''capacity must be power of two''), m)
      else if base mod 64 \<noteq> 0 then (Inl (IoPanic ''ring base must be 64-byte aligned''), m)
      else if base + ring_bytes capacity > seg_len seg
      then (Inl (IoOther ''segment too small for ring''), m)
      else
        (let r = \<lparr>ring_seg = seg, ring_base = base, ring_cap = capacity,
                  ring_mask = word_of_nat capacity - 1\<rparr>;
             m1 = set_head r 0 m;
             m2 = set_tail r 0 m1;
             m3 = set_prod_lock r 0 m2;
             m4 = set_space_seq r 0 m3;
             m5 = set_data_seq r 0 m4;
             m6 = set_u32 m5 (base + OFF_CAP) (word_of_nat capacity);
             m7 = set_u32 m6 (base + OFF_MAGIC) MAGIC
         in (Inr r, m7)))"

definition ring_attach :: "segment \<Rightarrow> usize \<Rightarrow> bytes \<Rightarrow> ring io_result" where
  "ring_attach seg base m =
     (if u32_at m (base + OFF_MAGIC) \<noteq> MAGIC
      then Inl (IoOther ''ring magic mismatch / not formatted'')
      else
        (let capacity = unat (u32_at m (base + OFF_CAP)) in
         if \<not> is_power_of_two capacity \<or> base + ring_bytes capacity > seg_len seg
         then Inl (IoOther ''ring capacity invalid'')
         else Inr \<lparr>ring_seg = seg, ring_base = base, ring_cap = capacity,
                   ring_mask = word_of_nat capacity - 1\<rparr>))"

section \<open>The data region\<close>

definition data_off :: "ring \<Rightarrow> usize" where
  "data_off r = ring_base r + RING_HEADER"

definition write_wrapped :: "ring \<Rightarrow> u64 \<Rightarrow> bytes \<Rightarrow> bytes \<Rightarrow> bytes" where
  "write_wrapped r pos src m =
     (let idx = unat (pos AND ring_mask r);
          first = min (length src) (ring_cap r - idx);
          m1 = store_bytes m (data_off r + idx) (take first src)
      in if first < length src then store_bytes m1 (data_off r) (drop first src) else m1)"

text \<open>
  A read is of no more than the ring's capacity as long as the length words in the ring are those a push wrote, which
  \<open>ring_holds\<close> says. With another length the code copies from beyond the mapping; \<open>load_bytes\<close> has zeros there.
\<close>

definition read_wrapped :: "ring \<Rightarrow> u64 \<Rightarrow> usize \<Rightarrow> bytes \<Rightarrow> bytes" where
  "read_wrapped r pos len m =
     (let idx = unat (pos AND ring_mask r);
          first = min len (ring_cap r - idx)
      in load_bytes m (data_off r + idx) first @
         (if first < len then load_bytes m (data_off r) (len - first) else []))"

section \<open>Producers\<close>

definition push_locked :: "ring \<Rightarrow> bytes \<Rightarrow> bytes \<Rightarrow> bool \<times> bytes" where
  "push_locked r data m =
     (let need = 4 + length data in
      if need > ring_cap r then (False, m)
      else
        (let used = unat (head r m - tail r m) in
         if usize_sub (ring_cap r) used < need then (False, m)
         else
           (let m1 = write_wrapped r (head r m) (u32_to_le_bytes (word_of_nat (length data))) m;
                m2 = write_wrapped r (head r m + 4) data m1
            in (True, set_head r (head r m + word_of_nat need) m2))))"

text \<open>
  A schedule lists what the other processes do to the segment during each park; when it is
  used up the operation is still waiting, and the result is \<open>None\<close>.
\<close>

type_synonym schedule = "(bytes \<Rightarrow> bytes) list"

fun lock_slow :: "ring \<Rightarrow> schedule \<Rightarrow> bytes \<Rightarrow> (bytes \<times> schedule) option" where
  "lock_slow r [] m =
     (if prod_lock r m = 0 then Some (set_prod_lock r 2 m, []) else None)"
| "lock_slow r (e # es) m =
     (if prod_lock r m = 0 then Some (set_prod_lock r 2 m, e # es)
      else lock_slow r es (e (set_prod_lock r 2 m)))"

definition lock_producer :: "ring \<Rightarrow> schedule \<Rightarrow> bytes \<Rightarrow> (bytes \<times> schedule) option" where
  "lock_producer r es m =
     (if prod_lock r m = 0 then Some (set_prod_lock r 1 m, es) else lock_slow r es m)"

definition unlock_producer :: "ring \<Rightarrow> bytes \<Rightarrow> bytes" where
  "unlock_producer r m = set_prod_lock r 0 m"

definition try_push :: "ring \<Rightarrow> bytes \<Rightarrow> schedule \<Rightarrow> bytes \<Rightarrow> (bool \<times> bytes \<times> schedule) option" where
  "try_push r data es m =
     (case lock_producer r es m of
        None \<Rightarrow> None
      | Some (m1, es1) \<Rightarrow>
          (let (ok, m2) = push_locked r data m1;
               m3 = unlock_producer r m2
           in Some (ok, if ok then set_data_seq r (data_seq r m3 + 1) m3 else m3, es1)))"

lemma lock_slow_schedule: "lock_slow r es m = Some (m', es') \<Longrightarrow> length es' \<le> length es"
  by (induction r es m rule: lock_slow.induct) (auto split: if_splits)

lemma lock_producer_schedule: "lock_producer r es m = Some (m', es') \<Longrightarrow> length es' \<le> length es"
  by (auto simp: lock_producer_def dest: lock_slow_schedule split: if_splits)

text \<open>
  \<open>push_blocking r data deadline es m\<close>: \<open>deadline\<close> is the number of parks on
  \<^verbatim>\<open>space_seq\<close> after which the clock has passed the deadline (\<open>None\<close>: no timeout).
\<close>

function push_blocking ::
  "ring \<Rightarrow> bytes \<Rightarrow> nat option \<Rightarrow> schedule \<Rightarrow> bytes \<Rightarrow> (bool \<times> bytes \<times> schedule) option" where
  "push_blocking r data deadline es m =
     (case lock_producer r es m of
        None \<Rightarrow> None
      | Some (m1, es1) \<Rightarrow>
          (let (ok, m2) = push_locked r data m1;
               m3 = unlock_producer r m2
           in if ok then Some (True, set_data_seq r (data_seq r m3 + 1) m3, es1)
              else if deadline = Some 0 then Some (False, m3, es1)
              else case es1 of
                [] \<Rightarrow> None
              | e # es2 \<Rightarrow> push_blocking r data (map_option (\<lambda>n. n - 1) deadline) es2 (e m3)))"
  by pat_completeness auto
termination
  by (relation "measure (\<lambda>(r, data, deadline, es, m). length es)")
    (auto dest: lock_producer_schedule)

declare push_blocking.simps [simp del]

section \<open>The consumer\<close>

definition try_pop :: "ring \<Rightarrow> bytes \<Rightarrow> bytes option \<times> bytes" where
  "try_pop r m =
     (if head r m = tail r m then (None, m)
      else
        (let len_bytes = read_wrapped r (tail r m) 4 m;
             len = unat (u32_from_le_bytes len_bytes);
             payload = read_wrapped r (tail r m + 4) len m;
             m1 = set_tail r (tail r m + 4 + word_of_nat len) m;
             m2 = set_space_seq r (space_seq r m1 + 1) m1
         in (Some payload, m2)))"

fun spin_pop :: "ring \<Rightarrow> nat \<Rightarrow> bytes \<Rightarrow> bytes option \<times> bytes" where
  "spin_pop r 0 m = (None, m)"
| "spin_pop r (Suc n) m =
     (case try_pop r m of
        (Some v, m') \<Rightarrow> (Some v, m')
      | (None, m') \<Rightarrow> spin_pop r n m')"

text \<open>As for pushing; \<open>None\<close> when the schedule ends while the consumer is still parked.\<close>

fun pop_blocking :: "ring \<Rightarrow> nat option \<Rightarrow> schedule \<Rightarrow> bytes \<Rightarrow> (bytes option \<times> bytes \<times> schedule) option" where
  "pop_blocking r deadline es m =
     (case spin_pop r SPIN_LIMIT m of
        (Some v, m1) \<Rightarrow> Some (Some v, m1, es)
      | (None, m1) \<Rightarrow>
          (case try_pop r m1 of
             (Some v, m2) \<Rightarrow> Some (Some v, m2, es)
           | (None, m2) \<Rightarrow>
               if deadline = Some 0 then Some (None, m2, es)
               else case es of
                 [] \<Rightarrow> None
               | e # es' \<Rightarrow> pop_blocking r (map_option (\<lambda>n. n - 1) deadline) es' (e m2)))"

declare pop_blocking.simps [simp del]

section \<open>The records in flight\<close>

text \<open>
  What a ring holds, read off its memory: the bytes between \<^verbatim>\<open>tail\<close> and \<^verbatim>\<open>head\<close>, index
  by index modulo the capacity, cut into records.
\<close>

definition ring_geom :: "ring \<Rightarrow> bytes \<Rightarrow> bool" where
  "ring_geom r m \<longleftrightarrow> is_power_of_two (ring_cap r) \<and> ring_cap r < 2 ^ 32 \<and>
     ring_mask r = word_of_nat (ring_cap r) - 1 \<and> ring_base r + ring_bytes (ring_cap r) \<le> length m"

definition ring_byte :: "ring \<Rightarrow> bytes \<Rightarrow> nat \<Rightarrow> u8" where
  "ring_byte r m p = m ! (data_off r + p mod ring_cap r)"

definition window :: "ring \<Rightarrow> bytes \<Rightarrow> nat \<Rightarrow> nat \<Rightarrow> bytes" where
  "window r m p n = map (\<lambda>i. ring_byte r m (p + i)) [0..<n]"

definition ring_used :: "ring \<Rightarrow> bytes \<Rightarrow> nat" where
  "ring_used r m = unat (head r m - tail r m)"

definition ring_stored :: "ring \<Rightarrow> bytes \<Rightarrow> bytes" where
  "ring_stored r m = window r m (unat (tail r m)) (ring_used r m)"

definition record_bytes :: "bytes \<Rightarrow> bytes" where
  "record_bytes d = u32_to_le_bytes (word_of_nat (length d)) @ d"

function parse_records :: "bytes \<Rightarrow> bytes list" where
  "parse_records bs =
     (if length bs < 4 then []
      else let n = unat (u32_from_le_bytes (take 4 bs))
           in take n (drop 4 bs) # parse_records (drop (4 + n) bs))"
  by pat_completeness auto
termination
  by (relation "measure length") auto

declare parse_records.simps [simp del]

definition ring_list :: "ring \<Rightarrow> bytes \<Rightarrow> bytes list" where
  "ring_list r m = parse_records (ring_stored r m)"

definition ring_inv :: "ring \<Rightarrow> bytes \<Rightarrow> bool" where
  "ring_inv r m \<longleftrightarrow> ring_geom r m \<and> ring_used r m \<le> ring_cap r \<and>
     ring_stored r m = concat (map record_bytes (ring_list r m))"

subsection \<open>Records\<close>

definition records_size :: "bytes list \<Rightarrow> nat" where
  "records_size q = sum_list (map (\<lambda>d. 4 + length d) q)"

lemma records_size_simps [simp]:
  "records_size [] = 0" "records_size (d # q) = 4 + length d + records_size q"
  "records_size (q @ q') = records_size q + records_size q'"
  by (simp_all add: records_size_def)

lemma length_record_bytes [simp]: "length (record_bytes d) = 4 + length d"
  by (simp add: record_bytes_def)

lemma length_concat_records [simp]: "length (concat (map record_bytes q)) = records_size q"
  by (induction q) auto

lemma records_size_member: "d \<in> set q \<Longrightarrow> 4 + length d \<le> records_size q"
  by (induction q) auto

lemma word_nat_of_unat: "word_of_nat (unat (w :: 'a::len word)) = w"
  by simp

lemma unat_u32_of_nat: "n < 2 ^ 32 \<Longrightarrow> unat (word_of_nat n :: u32) = n"
  by (simp add: unat_of_nat)

lemma unat_u64_of_nat: "n < 2 ^ 64 \<Longrightarrow> unat (word_of_nat n :: u64) = n"
  by (simp add: unat_of_nat)

lemma parse_record_bytes:
  "length d < 2 ^ 32 \<Longrightarrow> parse_records (record_bytes d @ bs) = d # parse_records bs"
  by (subst parse_records.simps) (simp add: record_bytes_def unat_u32_of_nat Let_def)

lemma parse_concat_records:
  "\<forall>d \<in> set q. length d < 2 ^ 32 \<Longrightarrow> parse_records (concat (map record_bytes q)) = q"
  by (induction q) (simp_all add: parse_record_bytes parse_records.simps [of "[]"])

subsection \<open>Indexing modulo the capacity\<close>

lemma mod_shift_inject:
  fixes c :: nat
  assumes "(a + n) mod c = (a + k) mod c" "n \<le> k" "k < n + c"
  shows "n = k"
proof -
  have "(a + k) - (a + n) = k - n" by simp
  moreover have "c dvd (a + k) - (a + n)"
    using assms by (metis mod_eq_dvd_iff_nat add_le_cancel_left)
  ultimately have "c dvd k - n" by simp
  then show ?thesis using assms(2,3) by (auto dest: dvd_imp_le)
qed

lemma mod_shift_cong: "a mod c = b mod c \<Longrightarrow> (a + k) mod c = (b + k) mod c" for a b c k :: nat
  by (metis mod_add_left_eq)

lemma ring_geom_cap:
  assumes "ring_geom r m"
  obtains k where "k < 32" "ring_cap r = 2 ^ k"
proof -
  from assms obtain k where k: "ring_cap r = 2 ^ k" "ring_cap r < 2 ^ 32"
    unfolding ring_geom_def using is_power_of_twoE by blast
  then have "k < 32" using power_less_imp_less_exp [of 2 k 32] by simp
  with k that show ?thesis by blast
qed

lemma ring_cap_pos: "ring_geom r m \<Longrightarrow> 0 < ring_cap r"
  by (erule ring_geom_cap) simp

lemma unat_and_mask:
  assumes "ring_geom r m"
  shows "unat (pos AND ring_mask r) = unat pos mod ring_cap r"
proof -
  from assms obtain k where k: "k < 32" "ring_cap r = 2 ^ k" by (rule ring_geom_cap)
  with assms have "ring_mask r = mask k"
    by (simp add: ring_geom_def mask_eq_decr_exp)
  then have "pos AND ring_mask r = take_bit k pos"
    by (simp add: take_bit_eq_mask)
  then have "unat (pos AND ring_mask r) = take_bit k (unat pos)"
    by (simp only: unsigned_take_bit_eq)
  with k show ?thesis
    by (simp only: take_bit_eq_mod)
qed

lemma unat_add_mod_cap:
  assumes "ring_geom r m"
  shows "unat (a + b :: u64) mod ring_cap r = (unat a + unat b) mod ring_cap r"
proof -
  from assms obtain k where k: "k < 32" "ring_cap r = 2 ^ k" by (rule ring_geom_cap)
  then have "ring_cap r dvd 2 ^ 64" by (simp only: le_imp_power_dvd)
  moreover have "unat (a + b) = (unat a + unat b) mod 2 ^ 64"
    by (simp add: unat_word_ariths)
  ultimately show ?thesis
    by (simp only: mod_mod_cancel)
qed

lemma window_cong: "p mod ring_cap r = q mod ring_cap r \<Longrightarrow> window r m p n = window r m q n"
  unfolding window_def ring_byte_def
  by (intro map_cong refl arg_cong [where f = "\<lambda>x. m ! (data_off r + x)"]) (metis mod_add_left_eq)

lemma length_window [simp]: "length (window r m p n) = n"
  by (simp add: window_def)

lemma nth_window [simp]: "i < n \<Longrightarrow> window r m p n ! i = ring_byte r m (p + i)"
  by (simp add: window_def)

lemma window_append: "window r m p (a + b) = window r m p a @ window r m (p + a) b"
  by (rule nth_equalityI) (auto simp: nth_append add.assoc)

subsection \<open>The wrapped copies\<close>

lemma data_in_bounds:
  "ring_geom r m \<Longrightarrow> j < ring_cap r \<Longrightarrow> data_off r + j < length m"
  by (simp add: ring_geom_def ring_bytes_def data_off_def)

lemma length_write_wrapped [simp]: "length (write_wrapped r pos src m) = length m"
  by (simp add: write_wrapped_def Let_def)

lemma wrapped_index:
  fixes c :: nat
  assumes "i < c"
  shows "(p + i) mod c = (if p mod c + i < c then p mod c + i else p mod c + i - c)"
proof -
  have "(p + i) mod c = (p mod c + i) mod c" by (simp add: mod_add_left_eq)
  moreover have "p mod c < c" using assms by simp
  then have "p mod c + i - c < c" using assms by linarith
  ultimately show ?thesis
    by (simp add: le_mod_geq)
qed

text \<open>The two-part store and load around the end of a region of \<open>c\<close> bytes at offset \<open>d\<close>.\<close>

lemma circular_store:
  fixes a c d :: nat
  assumes "a < c" "j < c" "length src \<le> c" "d + c \<le> length m"
    and "first = min (length src) (c - a)"
  shows "(if first < length src
          then store_bytes (store_bytes m (d + a) (take first src)) d (drop first src)
          else store_bytes m (d + a) (take first src)) ! (d + j) =
     (if a \<le> j \<and> j < a + length src then src ! (j - a)
      else if j + c < a + length src then src ! (j + c - a) else m ! (d + j))"
proof (cases "length src \<le> c - a")
  case True
  with assms show ?thesis by (auto simp: nth_store_bytes min_def)
next
  case False
  then have first: "first = c - a" "first < length src" using assms by auto
  have "drop (c - a) src ! j = src ! (j + c - a)" if "j + c < a + length src"
    using assms that by (auto simp: nth_drop algebra_simps)
  with False assms(1-4) show ?thesis
    unfolding first by (auto simp: nth_store_bytes)
qed

lemma circular_load:
  fixes a c d :: nat
  assumes "a < c" "i < n" "n \<le> c" "d + c \<le> length m" and "first = min n (c - a)"
  shows "(load_bytes m (d + a) first @ (if first < n then load_bytes m d (n - first) else [])) ! i =
     m ! (d + (if a + i < c then a + i else a + i - c))"
proof (cases "i < first")
  case True
  with assms show ?thesis by (auto simp: nth_append load_bytes_def add.assoc)
next
  case False
  then have first: "first = c - a" "first < n" using assms by auto
  have "i - first < n - first" "d + (n - first) \<le> length m" using assms False by auto
  then have "load_bytes m d (n - first) ! (i - first) = m ! (d + (i - first))"
    by (rule nth_load_bytes)
  moreover have "i - first = a + i - c" "\<not> a + i < c" using first assms False by auto
  ultimately show ?thesis
    using False first(2) by (simp add: nth_append)
qed

lemma data_region: "ring_geom r m \<Longrightarrow> data_off r + ring_cap r \<le> length m"
  by (simp add: ring_geom_def ring_bytes_def data_off_def)

lemma mod_cap_less: "ring_geom r m \<Longrightarrow> p mod ring_cap r < ring_cap r"
  by (simp add: ring_cap_pos)

lemma read_wrapped_window:
  assumes g: "ring_geom r m" and n: "n \<le> ring_cap r"
  shows "read_wrapped r pos n m = window r m (unat pos) n"
proof (rule nth_equalityI)
  show len: "length (read_wrapped r pos n m) = length (window r m (unat pos) n)"
    by (simp add: read_wrapped_def Let_def)
  fix i assume "i < length (read_wrapped r pos n m)"
  then have i: "i < n" using len by simp
  have "read_wrapped r pos n m ! i = m ! (data_off r + (unat pos + i) mod ring_cap r)"
    unfolding read_wrapped_def unat_and_mask [OF g] Let_def
    using circular_load [OF mod_cap_less [OF g, of "unat pos"] i n data_region [OF g] refl]
      wrapped_index [of i "ring_cap r" "unat pos"] i n by simp
  then show "read_wrapped r pos n m ! i = window r m (unat pos) n ! i"
    using i by (simp add: ring_byte_def)
qed

lemma write_wrapped_nth:
  assumes g: "ring_geom r m" and n: "length src \<le> ring_cap r" and j: "j < ring_cap r"
  shows "write_wrapped r pos src m ! (data_off r + j) =
     (let a = unat pos mod ring_cap r in
      if a \<le> j \<and> j < a + length src then src ! (j - a)
      else if j + ring_cap r < a + length src then src ! (j + ring_cap r - a)
      else m ! (data_off r + j))"
  unfolding write_wrapped_def unat_and_mask [OF g] Let_def
  by (rule circular_store [OF mod_cap_less [OF g] j n data_region [OF g] refl])

lemma write_wrapped_byte:
  assumes g: "ring_geom r m" and n: "length src \<le> ring_cap r" and i: "i < length src"
  shows "ring_byte r (write_wrapped r pos src m) (unat pos + i) = src ! i"
  using wrapped_index [of i "ring_cap r" "unat pos"] i n mod_cap_less [OF g, of "unat pos"]
  unfolding ring_byte_def write_wrapped_nth [OF g n mod_cap_less [OF g]] Let_def
  by (simp split: if_splits)

lemma write_wrapped_byte_other:
  assumes g: "ring_geom r m" and n: "length src \<le> ring_cap r"
    and j: "\<And>i. i < length src \<Longrightarrow> (unat pos + i) mod ring_cap r \<noteq> p mod ring_cap r"
  shows "ring_byte r (write_wrapped r pos src m) p = ring_byte r m p"
proof -
  define c a k where "c = ring_cap r" and "a = unat pos mod c" and "k = p mod c"
  have ak: "a < c" "k < c"
    using mod_cap_less [OF g] by (simp_all add: c_def a_def k_def)
  have idx: "(unat pos + i) mod c = (if a + i < c then a + i else a + i - c)" if "i < c" for i
    using wrapped_index [OF that] by (simp add: a_def)
  note jk = j [folded c_def, folded k_def]
  have "\<not> (a \<le> k \<and> k < a + length src)"
  proof
    assume i: "a \<le> k \<and> k < a + length src"
    then have "k - a < length src" "k - a < c" "a + (k - a) = k" using ak by auto
    then show False using jk [of "k - a"] idx [of "k - a"] ak by presburger
  qed
  moreover have "\<not> k + c < a + length src"
  proof
    assume "k + c < a + length src"
    then have "k + c - a < length src" "k + c - a < c" "a + (k + c - a) = k + c"
      using ak n by (auto simp: c_def)
    then show False using jk [of "k + c - a"] idx [of "k + c - a"] ak by simp
  qed
  ultimately show ?thesis
    unfolding ring_byte_def write_wrapped_nth [OF g n mod_cap_less [OF g]] Let_def
    by (auto simp: c_def a_def k_def)
qed

lemma window_write_same:
  assumes "ring_geom r m" "length src \<le> ring_cap r"
  shows "window r (write_wrapped r pos src m) (unat pos) (length src) = src"
  by (rule nth_equalityI) (use write_wrapped_byte [OF assms] in auto)

lemma window_write_before:
  assumes g: "ring_geom r m" and n: "n + length src \<le> ring_cap r"
    and pos: "unat pos mod ring_cap r = (p + n) mod ring_cap r"
  shows "window r (write_wrapped r pos src m) p n = window r m p n"
proof (rule nth_equalityI)
  fix i assume "i < length (window r (write_wrapped r pos src m) p n)"
  then have i: "i < n" by simp
  have "(unat pos + k) mod ring_cap r \<noteq> (p + i) mod ring_cap r" if "k < length src" for k
  proof
    assume "(unat pos + k) mod ring_cap r = (p + i) mod ring_cap r"
    then have "(p + i) mod ring_cap r = (p + (n + k)) mod ring_cap r"
      using pos by (metis mod_add_left_eq add.assoc)
    then have "i = n + k" by (rule mod_shift_inject) (use i n that in auto)
    with i show False by simp
  qed
  then show "window r (write_wrapped r pos src m) p n ! i = window r m p n ! i"
    using i n by (simp add: write_wrapped_byte_other [OF g])
qed simp

subsection \<open>Header words and the data region do not interfere\<close>

lemma ring_geom_length: "length m' = length m \<Longrightarrow> ring_geom r m' = ring_geom r m"
  by (simp add: ring_geom_def)

lemma ring_geom_header: "ring_geom r m \<Longrightarrow> ring_base r + 192 \<le> length m"
  by (simp add: ring_geom_def ring_bytes_def)

lemma length_set_header [simp]:
  "length (set_head r v m) = length m" "length (set_tail r v m) = length m"
  "length (set_prod_lock r w m) = length m" "length (set_space_seq r w m) = length m"
  "length (set_data_seq r w m) = length m"
  by (simp_all add: word_defs)

lemma ring_geom_set [simp]:
  "ring_geom r (set_head r v m) = ring_geom r m" "ring_geom r (set_tail r v m) = ring_geom r m"
  "ring_geom r (set_prod_lock r w m) = ring_geom r m"
  "ring_geom r (set_space_seq r w m) = ring_geom r m"
  "ring_geom r (set_data_seq r w m) = ring_geom r m"
  "ring_geom r (write_wrapped r pos src m) = ring_geom r m"
  by (simp_all add: ring_geom_def)

lemma load_write_wrapped:
  "off + n \<le> data_off r \<Longrightarrow> load_bytes (write_wrapped r pos src m) off n = load_bytes m off n"
  by (simp add: write_wrapped_def Let_def mem_simps)

lemma words_write_wrapped [simp]:
  "head r (write_wrapped r pos src m) = head r m" "tail r (write_wrapped r pos src m) = tail r m"
  "prod_lock r (write_wrapped r pos src m) = prod_lock r m"
  "space_seq r (write_wrapped r pos src m) = space_seq r m"
  "data_seq r (write_wrapped r pos src m) = data_seq r m"
  by (simp_all add: word_defs u32_at_def u64_at_def load_write_wrapped data_off_def)

lemma head_set [simp]:
  "ring_geom r m \<Longrightarrow> head r (set_head r v m) = v"
  "head r (set_tail r v m) = head r m" "head r (set_prod_lock r w m) = head r m"
  "head r (set_space_seq r w m) = head r m" "head r (set_data_seq r w m) = head r m"
  by (simp_all add: word_defs mem_simps ring_geom_def ring_bytes_def)

lemma tail_set [simp]:
  "ring_geom r m \<Longrightarrow> tail r (set_tail r v m) = v"
  "tail r (set_head r v m) = tail r m" "tail r (set_prod_lock r w m) = tail r m"
  "tail r (set_space_seq r w m) = tail r m" "tail r (set_data_seq r w m) = tail r m"
  by (simp_all add: word_defs mem_simps ring_geom_def ring_bytes_def)

lemma prod_lock_set [simp]:
  "ring_geom r m \<Longrightarrow> prod_lock r (set_prod_lock r w m) = w"
  "prod_lock r (set_head r v m) = prod_lock r m" "prod_lock r (set_tail r v m) = prod_lock r m"
  "prod_lock r (set_space_seq r w m) = prod_lock r m" "prod_lock r (set_data_seq r w m) = prod_lock r m"
  by (simp_all add: word_defs mem_simps ring_geom_def ring_bytes_def)

lemma seq_set [simp]:
  "ring_geom r m \<Longrightarrow> data_seq r (set_data_seq r w m) = w"
  "ring_geom r m \<Longrightarrow> space_seq r (set_space_seq r w m) = w"
  "data_seq r (set_head r v m) = data_seq r m" "data_seq r (set_tail r v m) = data_seq r m"
  "data_seq r (set_prod_lock r w m) = data_seq r m" "data_seq r (set_space_seq r w m) = data_seq r m"
  "space_seq r (set_head r v m) = space_seq r m" "space_seq r (set_tail r v m) = space_seq r m"
  "space_seq r (set_prod_lock r w m) = space_seq r m" "space_seq r (set_data_seq r w m) = space_seq r m"
  by (simp_all add: word_defs mem_simps ring_geom_def ring_bytes_def)

lemma ring_byte_store:
  "ring_geom r m \<Longrightarrow> off + length bs \<le> data_off r \<Longrightarrow>
     ring_byte r (store_bytes m off bs) p = ring_byte r m p"
  using data_in_bounds [OF _ mod_cap_less]
  by (auto simp: ring_byte_def nth_store_bytes)

lemma window_set [simp]:
  "ring_geom r m \<Longrightarrow> window r (set_head r v m) p n = window r m p n"
  "ring_geom r m \<Longrightarrow> window r (set_tail r v m) p n = window r m p n"
  "ring_geom r m \<Longrightarrow> window r (set_prod_lock r w m) p n = window r m p n"
  "ring_geom r m \<Longrightarrow> window r (set_space_seq r w m) p n = window r m p n"
  "ring_geom r m \<Longrightarrow> window r (set_data_seq r w m) p n = window r m p n"
  by (simp_all add: window_def word_defs set_u32_def set_u64_def ring_byte_store data_off_def)

section \<open>Refinement: a ring is a bounded FIFO of records\<close>

definition ring_holds :: "ring \<Rightarrow> bytes \<Rightarrow> bytes list \<Rightarrow> bool" where
  "ring_holds r m q \<longleftrightarrow> ring_geom r m \<and> ring_used r m \<le> ring_cap r \<and>
     ring_stored r m = concat (map record_bytes q)"

lemma ring_holds_used: "ring_holds r m q \<Longrightarrow> ring_used r m = records_size q"
  unfolding ring_holds_def ring_stored_def by (metis length_window length_concat_records)

lemma ring_holds_list: "ring_holds r m q \<Longrightarrow> ring_list r m = q"
proof -
  assume h: "ring_holds r m q"
  have "\<forall>d \<in> set q. length d < 2 ^ 32"
  proof
    fix d assume "d \<in> set q"
    then have "4 + length d \<le> ring_used r m"
      using records_size_member h ring_holds_used by fastforce
    also have "\<dots> < 2 ^ 32" using h by (simp add: ring_holds_def ring_geom_def)
    finally show "length d < 2 ^ 32" by simp
  qed
  with h show ?thesis
    by (simp add: ring_list_def ring_holds_def parse_concat_records)
qed

lemma ring_inv_holds: "ring_inv r m \<longleftrightarrow> ring_holds r m (ring_list r m)"
  by (simp add: ring_inv_def ring_holds_def)

lemma ring_holdsD: "ring_holds r m q \<Longrightarrow> ring_inv r m \<and> ring_list r m = q"
  using ring_holds_list ring_inv_holds by metis

lemma ring_holds_set [simp]:
  "ring_holds r (set_prod_lock r w m) q = ring_holds r m q"
  "ring_holds r (set_space_seq r w m) q = ring_holds r m q"
  "ring_holds r (set_data_seq r w m) q = ring_holds r m q"
  by (auto simp: ring_holds_def ring_used_def ring_stored_def)

lemma push_locked_fits:
  assumes "ring_geom r m" "ring_used r m \<le> ring_cap r"
  shows "fst (push_locked r d m) \<longleftrightarrow> ring_used r m + 4 + length d \<le> ring_cap r"
proof -
  have "ring_cap r < 2 ^ 64" using assms(1) by (simp add: ring_geom_def)
  then have "usize_sub (ring_cap r) (ring_used r m) = ring_cap r - ring_used r m"
    using assms(2) by (rule usize_sub_ge [rotated])
  with assms show ?thesis
    by (auto simp: push_locked_def Let_def ring_used_def)
qed

lemma push_locked_full: "fst (push_locked r d m) = False \<Longrightarrow> snd (push_locked r d m) = m"
  by (auto simp: push_locked_def Let_def split: if_splits)

lemma cursor_distance:
  assumes g: "ring_geom r m" and u: "ring_used r m = n"
  shows "unat (head r m) mod ring_cap r = (unat (tail r m) + n) mod ring_cap r"
proof -
  have "head r m = tail r m + (head r m - tail r m)" by simp
  then show ?thesis
    using unat_add_mod_cap [OF g, of "tail r m" "head r m - tail r m"] u
    by (simp add: ring_used_def)
qed

lemma push_locked_holds:
  assumes h: "ring_holds r m q" and fits: "records_size q + 4 + length d \<le> ring_cap r"
  shows "ring_holds r (snd (push_locked r d m)) (q @ [d])"
proof -
  let ?n = "records_size q" and ?t = "unat (tail r m)" and ?len = "u32_to_le_bytes (word_of_nat (length d))"
  let ?m1 = "write_wrapped r (head r m) ?len m"
  let ?m2 = "write_wrapped r (head r m + 4) d ?m1"
  let ?h = "head r m + word_of_nat (4 + length d)"
  from h have g: "ring_geom r m" and u: "ring_used r m = ?n"
    by (simp_all add: ring_holds_def ring_holds_used [OF h])
  have cap: "ring_cap r < 2 ^ 32" using g by (simp add: ring_geom_def)
  have pos: "unat (head r m) mod ring_cap r = (?t + ?n) mod ring_cap r"
    by (rule cursor_distance [OF g u])
  then have pos4: "unat (head r m + 4) mod ring_cap r = (?t + (?n + 4)) mod ring_cap r"
    unfolding unat_add_mod_cap [OF g] using mod_shift_cong [of _ _ _ 4] by (simp add: add.assoc)
  have "snd (push_locked r d m) = set_head r ?h ?m2"
    using push_locked_fits [of r m d] h fits u
    by (auto simp: push_locked_def Let_def ring_holds_def ring_used_def split: if_splits)
  moreover have used: "ring_used r (set_head r ?h ?m2) = ?n + (4 + length d)"
  proof -
    have "head r m - tail r m = word_of_nat ?n"
      using u unfolding ring_used_def by (metis word_nat_of_unat)
    then have "?h - tail r m = word_of_nat (?n + (4 + length d))"
      by (simp add: add_diff_eq [symmetric] diff_add_eq [symmetric])
    moreover have "ring_used r (set_head r ?h ?m2) = unat (?h - tail r m)"
      using g by (simp add: ring_used_def)
    moreover have "?n + (4 + length d) < 2 ^ 64" using fits cap by simp
    ultimately show ?thesis by (simp only: unat_u64_of_nat)
  qed
  moreover have "window r ?m2 ?t (?n + (4 + length d)) =
      window r m ?t ?n @ ?len @ d"
  proof -
    have "window r ?m2 ?t (?n + 4) = window r ?m1 ?t (?n + 4)"
      by (rule window_write_before) (use g fits pos4 in auto)
    also have "\<dots> = window r ?m1 ?t ?n @ window r ?m1 (?t + ?n) 4"
      by (rule window_append)
    also have "window r ?m1 ?t ?n = window r m ?t ?n"
      by (rule window_write_before) (use g fits pos in auto)
    also have "window r ?m1 (?t + ?n) 4 = window r ?m1 (unat (head r m)) (length ?len)"
      using window_cong [OF pos [symmetric]] by simp
    also have "\<dots> = ?len"
      by (rule window_write_same) (use g fits in auto)
    finally have first: "window r ?m2 ?t (?n + 4) = window r m ?t ?n @ ?len" .
    have "window r ?m2 (?t + (?n + 4)) (length d) = window r ?m2 (unat (head r m + 4)) (length d)"
      by (rule window_cong [OF pos4 [symmetric]])
    also have "\<dots> = d"
      by (rule window_write_same) (use g fits in auto)
    finally show ?thesis
      using first window_append [of r ?m2 ?t "?n + 4" "length d"] by (simp add: add.assoc)
  qed
  ultimately show ?thesis
    using h g fits u
    by (simp add: ring_holds_def ring_stored_def record_bytes_def)
qed

lemma try_pop_empty: "ring_holds r m [] \<Longrightarrow> try_pop r m = (None, m)"
  using ring_holds_used [of r m "[]"]
  by (simp add: try_pop_def ring_used_def unat_eq_zero)

lemma try_pop_holds:
  assumes h: "ring_holds r m (d # q)"
  shows "fst (try_pop r m) = Some d" and "ring_holds r (snd (try_pop r m)) q"
proof -
  let ?t = "unat (tail r m)" and ?n = "records_size q"
  from h have g: "ring_geom r m" by (simp add: ring_holds_def)
  have u: "ring_used r m = 4 + length d + ?n" using ring_holds_used [OF h] by simp
  have cap: "4 + length d + ?n \<le> ring_cap r" "ring_cap r < 2 ^ 32"
    using h u by (simp_all add: ring_holds_def ring_geom_def)
  have st: "window r m ?t (4 + length d + ?n) = record_bytes d @ concat (map record_bytes q)"
    using h u by (simp add: ring_holds_def ring_stored_def)
  have w: "window r m ?t 4 = u32_to_le_bytes (word_of_nat (length d))"
    "window r m (?t + 4) (length d) = d"
    "window r m (?t + (4 + length d)) ?n = concat (map record_bytes q)"
    using st unfolding window_append record_bytes_def
    by (simp_all add: add.assoc)
  have ne: "head r m \<noteq> tail r m" using u by (auto simp: ring_used_def)
  have len: "unat (u32_from_le_bytes (read_wrapped r (tail r m) 4 m)) = length d"
    using cap w(1) by (simp add: read_wrapped_window [OF g] unat_u32_of_nat)
  have pay: "read_wrapped r (tail r m + 4) (length d) m = d"
  proof -
    have "read_wrapped r (tail r m + 4) (length d) m = window r m (unat (tail r m + 4)) (length d)"
      using cap by (intro read_wrapped_window [OF g]) simp
    also have "\<dots> = window r m (?t + 4) (length d)"
      by (rule window_cong) (simp add: unat_add_mod_cap [OF g])
    finally show ?thesis using w(2) by simp
  qed
  show "fst (try_pop r m) = Some d"
    using ne by (simp add: try_pop_def Let_def len pay)
  let ?t' = "tail r m + 4 + word_of_nat (length d)"
  have adv: "?t' = tail r m + word_of_nat (4 + length d)" by simp
  have "unat (head r m - ?t') = ?n"
  proof -
    have "head r m - ?t' = (head r m - tail r m) - word_of_nat (4 + length d)" by simp
    moreover have "head r m - tail r m = word_of_nat (4 + length d + ?n)"
      using u unfolding ring_used_def by (metis word_nat_of_unat)
    ultimately have "head r m - ?t' = word_of_nat ?n" by simp
    then show ?thesis using cap by (simp add: unat_u64_of_nat)
  qed
  moreover have "window r m (unat ?t') ?n = concat (map record_bytes q)"
  proof -
    have "unat ?t' mod ring_cap r = (?t + (4 + length d)) mod ring_cap r"
      unfolding adv unat_add_mod_cap [OF g] using cap by (subst unat_u64_of_nat) simp_all
    then have "window r m (unat ?t') ?n = window r m (?t + (4 + length d)) ?n"
      by (rule window_cong)
    with w(3) show ?thesis by simp
  qed
  moreover have "snd (try_pop r m) = set_space_seq r (space_seq r (set_tail r ?t' m) + 1) (set_tail r ?t' m)"
    unfolding try_pop_def Let_def len using ne by simp
  ultimately show "ring_holds r (snd (try_pop r m)) q"
    using g cap by (simp add: ring_holds_def ring_used_def ring_stored_def)
qed

section \<open>The contract of a record queue\<close>

datatype ring_op = Push bytes | Pop

text \<open>Running operations in order: what was popped, which pushes were accepted, the final state.\<close>

fun run_queue ::
  "(bytes \<Rightarrow> 'm \<Rightarrow> bool \<times> 'm) \<Rightarrow> ('m \<Rightarrow> bytes option \<times> 'm) \<Rightarrow> ring_op list \<Rightarrow> 'm \<Rightarrow>
     bytes list \<times> bytes list \<times> 'm" where
  "run_queue push pop [] m = ([], [], m)"
| "run_queue push pop (Push d # ops) m =
     (let (ok, m1) = push d m; (out, acc, m2) = run_queue push pop ops m1
      in (out, if ok then d # acc else acc, m2))"
| "run_queue push pop (Pop # ops) m =
     (let (v, m1) = pop m; (out, acc, m2) = run_queue push pop ops m1
      in (case v of Some x \<Rightarrow> x # out | None \<Rightarrow> out, acc, m2))"

locale record_queue =
  fixes invar :: "'m \<Rightarrow> bool" and contents :: "'m \<Rightarrow> bytes list" and capacity :: nat
    and push :: "bytes \<Rightarrow> 'm \<Rightarrow> bool \<times> 'm" and pop :: "'m \<Rightarrow> bytes option \<times> 'm"
  assumes push_accepts:
      "invar m \<Longrightarrow> fst (push d m) \<longleftrightarrow> records_size (contents m) + 4 + length d \<le> capacity"
    and push_contents:
      "invar m \<Longrightarrow> contents (snd (push d m)) =
         (if fst (push d m) then contents m @ [d] else contents m)"
    and push_invar: "invar m \<Longrightarrow> invar (snd (push d m))"
    and pop_result: "invar m \<Longrightarrow> fst (pop m) = (case contents m of [] \<Rightarrow> None | d # q \<Rightarrow> Some d)"
    and pop_contents: "invar m \<Longrightarrow> contents (snd (pop m)) = tl (contents m)"
    and pop_invar: "invar m \<Longrightarrow> invar (snd (pop m))"
begin

lemma run_invar: "invar m \<Longrightarrow> invar (snd (snd (run_queue push pop ops m)))"
proof (induction ops arbitrary: m)
  case (Cons opr ops)
  then show ?case
    using push_invar pop_invar by (cases opr) (simp_all add: case_prod_beta Let_def)
qed simp

lemma run_fifo:
  "invar m \<Longrightarrow> run_queue push pop ops m = (out, acc, m') \<Longrightarrow> out @ contents m' = contents m @ acc"
proof (induction ops arbitrary: m out acc m')
  case (Cons opr ops)
  show ?case
  proof (cases opr)
    case (Push d)
    obtain out1 acc1 m1 where r: "run_queue push pop ops (snd (push d m)) = (out1, acc1, m1)"
      by (metis prod_cases3)
    with Cons.prems Push have "out = out1" "m' = m1" "acc = (if fst (push d m) then d # acc1 else acc1)"
      by (auto split: prod.splits)
    with Cons.IH [OF push_invar [OF Cons.prems(1)] r] show ?thesis
      by (simp add: push_contents [OF Cons.prems(1)] split: if_splits)
  next
    case Pop
    obtain out1 acc1 m1 where r: "run_queue push pop ops (snd (pop m)) = (out1, acc1, m1)"
      by (metis prod_cases3)
    with Cons.prems Pop have
      "out = (case fst (pop m) of Some x \<Rightarrow> x # out1 | None \<Rightarrow> out1)" "m' = m1" "acc = acc1"
      by (auto split: prod.splits)
    with Cons.IH [OF pop_invar [OF Cons.prems(1)] r] show ?thesis
      by (simp add: pop_contents [OF Cons.prems(1)] pop_result [OF Cons.prems(1)] split: list.splits)
  qed
qed simp

lemma contents_bounded:
  "invar m \<Longrightarrow> fst (push d m) \<Longrightarrow> records_size (contents (snd (push d m))) \<le> capacity"
  using push_accepts push_contents by simp

end

text \<open>A ring at rest: its memory is well formed and no producer holds the lock.\<close>

definition ring_idle :: "ring \<Rightarrow> bytes \<Rightarrow> bool" where
  "ring_idle r m \<longleftrightarrow> ring_inv r m \<and> prod_lock r m = 0"

text \<open>The attempt of a producer that finds the lock free.\<close>

definition push_now :: "ring \<Rightarrow> bytes \<Rightarrow> bytes \<Rightarrow> bool \<times> bytes" where
  "push_now r d m = (case try_push r d [] m of Some (ok, m', es) \<Rightarrow> (ok, m') | None \<Rightarrow> (False, m))"

lemma ring_idleI: "ring_holds r m q \<Longrightarrow> prod_lock r m = 0 \<Longrightarrow> ring_idle r m"
  by (simp add: ring_idle_def ring_holdsD)

lemma ring_idle_holds: "ring_idle r m \<Longrightarrow> ring_holds r m (ring_list r m)"
  by (simp add: ring_idle_def ring_inv_holds)

lemma ring_holds_geom: "ring_holds r m q \<Longrightarrow> ring_geom r m"
  by (simp add: ring_holds_def)

lemma push_locked_other [simp]:
  "prod_lock r (snd (push_locked r d m)) = prod_lock r m"
  "data_seq r (snd (push_locked r d m)) = data_seq r m"
  "ring_geom r (snd (push_locked r d m)) = ring_geom r m"
  by (auto simp: push_locked_def Let_def)

text \<open>One critical section: lock, push, unlock.\<close>

lemma push_locked_step:
  assumes "ring_holds r m q"
  shows "fst (push_locked r d m) \<longleftrightarrow> records_size q + 4 + length d \<le> ring_cap r"
    and "ring_holds r (snd (push_locked r d m)) (if fst (push_locked r d m) then q @ [d] else q)"
  using push_locked_fits [of r m d] push_locked_holds [OF assms, of d] push_locked_full [of r d m]
    ring_holds_used [OF assms] assms
  by (auto simp: ring_holds_def)

lemma try_push_free:
  assumes h: "ring_holds r m q" and free: "prod_lock r m = 0"
  obtains ok m' where "try_push r d es m = Some (ok, m', es)"
    and "ok \<longleftrightarrow> records_size q + 4 + length d \<le> ring_cap r"
    and "ring_holds r m' (if ok then q @ [d] else q)" "prod_lock r m' = 0"
proof -
  let ?m1 = "set_prod_lock r 1 m"
  obtain ok m2 where p: "push_locked r d ?m1 = (ok, m2)" by fastforce
  have h1: "ring_holds r ?m1 q" using h by simp
  from push_locked_step [OF h1, of d] p
  have "ok \<longleftrightarrow> records_size q + 4 + length d \<le> ring_cap r"
    and h2: "ring_holds r m2 (if ok then q @ [d] else q)" by auto
  moreover have g: "ring_geom r m2" using h2 by (rule ring_holds_geom)
  ultimately show ?thesis
    using that [of ok "if ok then set_data_seq r (data_seq r (unlock_producer r m2) + 1)
        (unlock_producer r m2) else unlock_producer r m2"] free p
    by (auto simp: try_push_def lock_producer_def unlock_producer_def)
qed

lemma push_now_spec:
  assumes "ring_idle r m"
  shows "fst (push_now r d m) \<longleftrightarrow> records_size (ring_list r m) + 4 + length d \<le> ring_cap r"
    and "ring_idle r (snd (push_now r d m))"
    and "ring_list r (snd (push_now r d m)) =
      (if fst (push_now r d m) then ring_list r m @ [d] else ring_list r m)"
proof -
  from assms have h: "ring_holds r m (ring_list r m)" and free: "prod_lock r m = 0"
    by (simp_all add: ring_idle_holds ring_idle_def)
  obtain ok m' where p: "try_push r d [] m = Some (ok, m', [])"
    and ok: "ok \<longleftrightarrow> records_size (ring_list r m) + 4 + length d \<le> ring_cap r"
    and h': "ring_holds r m' (if ok then ring_list r m @ [d] else ring_list r m)"
    and free': "prod_lock r m' = 0"
    by (rule try_push_free [OF h free, of d "[]"])
  from p have "push_now r d m = (ok, m')" by (simp add: push_now_def)
  with ok ring_holdsD [OF h'] ring_idleI [OF h' free'] show
    "fst (push_now r d m) \<longleftrightarrow> records_size (ring_list r m) + 4 + length d \<le> ring_cap r"
    "ring_idle r (snd (push_now r d m))"
    "ring_list r (snd (push_now r d m)) =
      (if fst (push_now r d m) then ring_list r m @ [d] else ring_list r m)"
    by simp_all
qed

lemma try_pop_lock [simp]: "prod_lock r (snd (try_pop r m)) = prod_lock r m"
  by (simp add: try_pop_def Let_def)

lemma try_pop_spec:
  assumes "ring_inv r m"
  shows "fst (try_pop r m) = (case ring_list r m of [] \<Rightarrow> None | d # q \<Rightarrow> Some d)"
    and "ring_holds r (snd (try_pop r m)) (tl (ring_list r m))"
proof -
  from assms have h: "ring_holds r m (ring_list r m)" by (simp add: ring_inv_holds)
  show "fst (try_pop r m) = (case ring_list r m of [] \<Rightarrow> None | d # q \<Rightarrow> Some d)"
    using h by (cases "ring_list r m") (simp_all add: try_pop_empty try_pop_holds(1))
  show "ring_holds r (snd (try_pop r m)) (tl (ring_list r m))"
    using h by (cases "ring_list r m") (simp_all add: try_pop_empty try_pop_holds(2))
qed

interpretation rq: record_queue "ring_idle r" "ring_list r" "ring_cap r" "push_now r" "try_pop r" for r
proof (unfold_locales, goal_cases)
  case (1 m d) then show ?case by (rule push_now_spec)
next
  case (2 m d) then show ?case by (rule push_now_spec)
next
  case (3 m d) then show ?case by (rule push_now_spec)
next
  case (4 m) then show ?case by (simp add: try_pop_spec ring_idle_def)
next
  case (5 m) then show ?case using try_pop_spec(2) [of r m] ring_holds_list by (auto simp: ring_idle_def)
next
  case (6 m) then show ?case using try_pop_spec(2) [of r m] ring_holdsD by (auto simp: ring_idle_def)
qed

section \<open>Formatting and attaching\<close>

lemma ring_format_Inr:
  assumes "ring_format seg base cap m = (Inr r, m')" and len: "length m = seg_len seg" and cap: "cap < 2 ^ 32"
  shows "ring_holds r m' []" and "prod_lock r m' = 0" and "length m' = length m"
    and "ring_cap r = cap" and "ring_seg r = seg" and "ring_base r = base"
    and "ring_attach seg base m' = Inr r"
proof -
  from assms have r: "r = \<lparr>ring_seg = seg, ring_base = base, ring_cap = cap, ring_mask = word_of_nat cap - 1\<rparr>"
    and pow: "is_power_of_two cap" and fit: "base + ring_bytes cap \<le> length m"
    by (auto simp: ring_format_def Let_def split: if_splits)
  have m': "m' = set_u32 (set_u32 (set_data_seq r 0 (set_space_seq r 0 (set_prod_lock r 0
      (set_tail r 0 (set_head r 0 m))))) (base + OFF_CAP) (word_of_nat cap)) (base + OFF_MAGIC) MAGIC"
    using assms(1) r by (auto simp: ring_format_def Let_def split: if_splits)
  have fit': "base + 192 \<le> length m" using fit by (simp add: ring_bytes_def)
  show l: "length m' = length m" by (simp add: m')
  have g: "ring_geom r m'" using pow fit cap by (simp add: ring_geom_def r l)
  have "head r m' = 0" "tail r m' = 0" "prod_lock r m' = 0"
    using fit' by (simp_all add: m' r word_defs mem_simps)
  with g show "ring_holds r m' []" "prod_lock r m' = 0"
    by (simp_all add: ring_holds_def ring_used_def ring_stored_def window_def)
  show "ring_cap r = cap" "ring_seg r = seg" "ring_base r = base" by (simp_all add: r)
  have "u32_at m' (base + OFF_MAGIC) = MAGIC" "u32_at m' (base + OFF_CAP) = word_of_nat cap"
    using fit' by (simp_all add: m' mem_simps)
  then show "ring_attach seg base m' = Inr r"
    using pow fit cap len by (simp add: ring_attach_def unat_u32_of_nat r Let_def)
qed

lemma ring_attach_Inr:
  assumes "ring_attach seg base m = Inr r"
  shows "ring_base r = base" "ring_seg r = seg" "base + ring_bytes (ring_cap r) \<le> seg_len seg"
    and "seg_len seg = length m \<Longrightarrow> ring_geom r m"
    and "ring_cap r = unat (u32_at m (base + OFF_CAP))" "u32_at m (base + OFF_MAGIC) = MAGIC"
  using assms unat_bound [of "u32_at m (base + OFF_CAP)"]
  by (auto simp: ring_attach_def ring_geom_def Let_def split: if_splits)

section \<open>Frame: a ring only touches its own bytes\<close>

text \<open>The first line of the header, with the magic word and the capacity, is written once and counts as outside.\<close>

definition outside_ring :: "ring \<Rightarrow> nat \<Rightarrow> bool" where
  "outside_ring r i \<longleftrightarrow> i < ring_base r + OFF_HEAD \<or> ring_base r + ring_bytes (ring_cap r) \<le> i"

definition same_outside :: "ring \<Rightarrow> bytes \<Rightarrow> bytes \<Rightarrow> bool" where
  "same_outside r m m' \<longleftrightarrow> length m' = length m \<and> (\<forall>i < length m. outside_ring r i \<longrightarrow> m' ! i = m ! i)"

lemma same_outside_refl [simp]: "same_outside r m m"
  by (simp add: same_outside_def)

lemma same_outside_trans: "same_outside r a b \<Longrightarrow> same_outside r b c \<Longrightarrow> same_outside r a c"
  by (simp add: same_outside_def)

lemma same_outside_store:
  "ring_base r + OFF_HEAD \<le> off \<Longrightarrow> off + length bs \<le> ring_base r + ring_bytes (ring_cap r) \<Longrightarrow>
     same_outside r m (store_bytes m off bs)"
  by (auto simp: same_outside_def outside_ring_def nth_store_bytes)

lemma same_outside_set [simp]:
  "same_outside r m (set_head r v m)" "same_outside r m (set_tail r v m)"
  "same_outside r m (set_prod_lock r w m)" "same_outside r m (set_space_seq r w m)"
  "same_outside r m (set_data_seq r w m)"
  by (simp_all add: word_defs set_u32_def set_u64_def same_outside_store ring_bytes_def ring_layout)

lemma same_outside_write:
  assumes g: "ring_geom r m" and n: "length src \<le> ring_cap r"
  shows "same_outside r m (write_wrapped r pos src m)"
proof -
  let ?a = "unat pos mod ring_cap r" and ?f = "min (length src) (ring_cap r - unat pos mod ring_cap r)"
  have a: "?a < ring_cap r" using g by (rule mod_cap_less)
  have 1: "same_outside r m (store_bytes m (data_off r + ?a) (take ?f src))"
    by (rule same_outside_store) (use a n in \<open>auto simp: data_off_def ring_bytes_def ring_layout\<close>)
  have 2: "same_outside r m' (store_bytes m' (data_off r) (drop ?f src))" for m'
    by (rule same_outside_store) (use a n in \<open>auto simp: data_off_def ring_bytes_def ring_layout\<close>)
  show ?thesis
    unfolding write_wrapped_def unat_and_mask [OF g] Let_def
    using 1 same_outside_trans [OF 1 2] by (intro if_split [where P = "same_outside r m", THEN iffD2]) blast
qed

lemma push_locked_frame:
  assumes "ring_geom r m"
  shows "same_outside r m (snd (push_locked r d m))"
proof (cases "fst (push_locked r d m)")
  case False
  then show ?thesis by (simp add: push_locked_full)
next
  case True
  let ?m1 = "write_wrapped r (head r m) (u32_to_le_bytes (word_of_nat (length d))) m"
  let ?m2 = "write_wrapped r (head r m + 4) d ?m1"
  from True have need: "4 + length d \<le> ring_cap r"
    and eq: "snd (push_locked r d m) = set_head r (head r m + word_of_nat (4 + length d)) ?m2"
    by (auto simp: push_locked_def Let_def split: if_splits)
  have "same_outside r m ?m1" by (rule same_outside_write) (use assms need in auto)
  moreover have "same_outside r ?m1 ?m2" by (rule same_outside_write) (use assms need in auto)
  ultimately show ?thesis
    unfolding eq using same_outside_trans same_outside_set(1) by blast
qed

lemma try_pop_frame: "same_outside r m (snd (try_pop r m))"
  by (auto simp: try_pop_def Let_def intro: same_outside_trans [OF same_outside_set(2) same_outside_set(4)])

lemma push_now_frame:
  assumes "ring_geom r m"
  shows "same_outside r m (snd (push_now r d m))"
proof (cases "prod_lock r m = 0")
  case False
  then show ?thesis by (simp add: push_now_def try_push_def lock_producer_def)
next
  case True
  let ?m1 = "set_prod_lock r 1 m"
  let ?m2 = "snd (push_locked r d ?m1)"
  let ?m3 = "set_prod_lock r 0 ?m2"
  have "same_outside r ?m1 ?m2" by (rule push_locked_frame) (use assms in simp)
  then have 3: "same_outside r m ?m3" using same_outside_trans same_outside_set(3) by blast
  then have "same_outside r m (set_data_seq r (data_seq r ?m3 + 1) ?m3)"
    using same_outside_trans same_outside_set(5) by blast
  with 3 True show ?thesis
    by (simp add: push_now_def try_push_def lock_producer_def unlock_producer_def case_prod_beta Let_def)
qed

text \<open>The same for the blocking operations that do not have to wait, and what it means for others who attach.\<close>

lemma push_blocking_frame:
  assumes "ring_geom r m" "prod_lock r m = 0" "push_blocking r d dl [] m = Some (ok, m', es')"
  shows "same_outside r m m'"
proof -
  let ?m1 = "set_prod_lock r 1 m"
  let ?m2 = "snd (push_locked r d ?m1)"
  let ?m3 = "set_prod_lock r 0 ?m2"
  have "same_outside r ?m1 ?m2" by (rule push_locked_frame) (use assms in simp)
  then have 3: "same_outside r m ?m3" using same_outside_trans same_outside_set(3) by blast
  then have "same_outside r m (set_data_seq r (data_seq r ?m3 + 1) ?m3)"
    using same_outside_trans same_outside_set(5) by blast
  with 3 assms(2,3) show ?thesis
    unfolding push_blocking.simps [of r d dl "[]" m]
    by (auto simp: lock_producer_def unlock_producer_def case_prod_beta Let_def split: if_splits)
qed

lemma spin_pop_frame: "same_outside r m (snd (spin_pop r n m))"
proof (induction n arbitrary: m)
  case (Suc n)
  show ?case
    using try_pop_frame [of r m] same_outside_trans [OF _ Suc] by (auto split: prod.split option.split)
qed simp

lemma pop_blocking_frame:
  assumes "pop_blocking r dl [] m = Some (v, m', es')"
  shows "same_outside r m m'"
  using assms spin_pop_frame [of r m SPIN_LIMIT] same_outside_trans [OF _ try_pop_frame]
  by (subst (asm) pop_blocking.simps) (auto split: prod.splits option.splits if_splits, (metis snd_conv)+)

lemma ring_attach_same:
  assumes "same_outside r m m'"
  shows "ring_attach sg (ring_base r) m' = ring_attach sg (ring_base r) m"
proof -
  have "load_bytes m' (ring_base r + k) 4 = load_bytes m (ring_base r + k) 4" if "k + 4 \<le> OFF_HEAD" for k
    using assms that by (intro nth_equalityI) (auto simp: load_bytes_def same_outside_def outside_ring_def)
  from this [of OFF_MAGIC] this [of OFF_CAP] show ?thesis by (simp add: ring_attach_def u32_at_def)
qed

section \<open>Blocking operations\<close>

lemma lock_stuck:
  assumes "prod_lock r m \<noteq> 0" "ring_geom r m"
    and "\<And>e m. e \<in> set es \<Longrightarrow> prod_lock r m \<noteq> 0 \<Longrightarrow> ring_geom r m \<Longrightarrow>
           prod_lock r (e m) \<noteq> 0 \<and> ring_geom r (e m)"
  shows "lock_producer r es m = None"
proof -
  from assms have "lock_slow r es m = None"
  proof (induction es arbitrary: m)
    case (Cons e es)
    have "prod_lock r (e (set_prod_lock r 2 m)) \<noteq> 0 \<and> ring_geom r (e (set_prod_lock r 2 m))"
      by (rule Cons.prems(3)) (use Cons.prems(1,2) in auto)
    with Cons show ?case by simp
  qed simp
  with assms(1) show ?thesis by (simp add: lock_producer_def)
qed

lemma push_blocking_accept:
  assumes h: "ring_holds r m q" and free: "prod_lock r m = 0"
    and fits: "records_size q + 4 + length d \<le> ring_cap r"
  shows "\<exists>m'. prod_lock r m' = 0 \<and> ring_holds r m' (q @ [d]) \<and>
     push_blocking r d dl es m = Some (True, m', es)"
proof -
  have h1: "ring_holds r (set_prod_lock r 1 m) q" using h by simp
  obtain ok m2 where pl: "push_locked r d (set_prod_lock r 1 m) = (ok, m2)" by fastforce
  with push_locked_step [OF h1, of d] fits have p: "ok" "ring_holds r m2 (q @ [d])" by simp_all
  then have "ring_geom r m2" using ring_holds_geom by blast
  with p pl free show ?thesis
    by (intro exI [of _ "set_data_seq r (data_seq r (set_prod_lock r 0 m2) + 1) (set_prod_lock r 0 m2)"])
      (simp add: push_blocking.simps [of r d dl es m] lock_producer_def unlock_producer_def)
qed

lemma push_blocking_wait:
  assumes h: "ring_holds r m q" and free: "prod_lock r m = 0"
    and full: "ring_cap r < records_size q + 4 + length d"
  shows "\<exists>m'. prod_lock r m' = 0 \<and> ring_holds r m' q \<and>
     push_blocking r d dl es m =
       (if dl = Some 0 then Some (False, m', es)
        else case es of [] \<Rightarrow> None
          | e # es' \<Rightarrow> push_blocking r d (map_option (\<lambda>n. n - 1) dl) es' (e m'))"
proof -
  have h1: "ring_holds r (set_prod_lock r 1 m) q" using h by simp
  obtain ok m2 where pl: "push_locked r d (set_prod_lock r 1 m) = (ok, m2)" by fastforce
  with push_locked_step [OF h1, of d] full have p: "\<not> ok" "ring_holds r m2 q" by simp_all
  then have "ring_geom r m2" using ring_holds_geom by blast
  with p pl free show ?thesis
    by (intro exI [of _ "set_prod_lock r 0 m2"])
      (simp add: push_blocking.simps [of r d dl es m] lock_producer_def unlock_producer_def)
qed

lemma push_blocking_done:
  assumes "ring_idle r m" and "\<forall>e \<in> set es. \<forall>m. ring_idle r m \<longrightarrow> ring_idle r (e m)"
    and "n \<le> length es"
  shows "\<exists>ok m' es'. push_blocking r d (Some n) es m = Some (ok, m', es') \<and> ring_idle r m' \<and>
     (if ok then \<exists>q. ring_list r m' = q @ [d]
      else ring_cap r < records_size (ring_list r m') + 4 + length d)"
  using assms
proof (induction es arbitrary: n m)
  case Nil
  then have h: "ring_holds r m (ring_list r m)" "prod_lock r m = 0" and n: "n = 0"
    by (simp_all add: ring_idle_def ring_inv_holds)
  show ?case
  proof (cases "records_size (ring_list r m) + 4 + length d \<le> ring_cap r")
    case True
    from push_blocking_accept [OF h True, of "Some n" "[]"] show ?thesis
      using ring_idleI ring_holdsD by fastforce
  next
    case False
    then have "ring_cap r < records_size (ring_list r m) + 4 + length d" by simp
    from push_blocking_wait [OF h this, of "Some n" "[]"] show ?thesis
      using n ring_idleI ring_holdsD False by fastforce
  qed
next
  case (Cons e es)
  then have h: "ring_holds r m (ring_list r m)" "prod_lock r m = 0"
    by (simp_all add: ring_idle_def ring_inv_holds)
  show ?case
  proof (cases "records_size (ring_list r m) + 4 + length d \<le> ring_cap r")
    case True
    from push_blocking_accept [OF h True, of "Some n" "e # es"] show ?thesis
      using ring_idleI ring_holdsD by fastforce
  next
    case False
    then have full: "ring_cap r < records_size (ring_list r m) + 4 + length d" by simp
    obtain m' where m': "prod_lock r m' = 0" "ring_holds r m' (ring_list r m)"
      and eq: "push_blocking r d (Some n) (e # es) m =
        (if n = 0 then Some (False, m', e # es) else push_blocking r d (Some (n - 1)) es (e m'))"
      using push_blocking_wait [OF h full, of "Some n" "e # es"] by auto
    have idle: "ring_idle r m'" "ring_list r m' = ring_list r m"
      using m' ring_idleI ring_holdsD by blast+
    show ?thesis
    proof (cases "n = 0")
      case True
      with eq idle full show ?thesis by (intro exI [of _ False] exI [of _ m'] exI [of _ "e # es"]) simp
    next
      case False
      have "ring_idle r (e m')" using idle Cons.prems(2) by simp
      with False eq show ?thesis
        using Cons.IH [of "e m'" "n - 1"] Cons.prems(2,3) by simp
    qed
  qed
qed

text \<open>C23: A push with a timeout always returns once the deadline's parks are over, as long as
  the other processes leave the ring well formed and its lock free whenever the producer wakes. It
  returns \<^verbatim>\<open>true\<close> exactly with the record appended last, and \<^verbatim>\<open>false\<close> only when the record does
  not fit next to what the ring then holds.\<close>

theorem push_blocking_returns:
  assumes "ring_idle r m" and "\<forall>e \<in> set es. \<forall>m. ring_idle r m \<longrightarrow> ring_idle r (e m)"
    and "n \<le> length es"
  shows "\<exists>ok m' es'. push_blocking r d (Some n) es m = Some (ok, m', es') \<and> ring_idle r m' \<and>
     (if ok then \<exists>q. ring_list r m' = q @ [d]
      else ring_cap r < records_size (ring_list r m') + 4 + length d)"
  using assms by (rule push_blocking_done)

text \<open>The timeout of a push does not bound the wait for the producer lock. When the lock
  word stays non-zero (its holder died), the push is still waiting at the end of every schedule,
  whatever its deadline.\<close>

lemma push_blocking_lock_stuck:
  assumes "prod_lock r m \<noteq> 0" "ring_geom r m"
    and "\<forall>e \<in> set es. \<forall>m. prod_lock r m \<noteq> 0 \<and> ring_geom r m \<longrightarrow>
           prod_lock r (e m) \<noteq> 0 \<and> ring_geom r (e m)"
  shows "push_blocking r d deadline es m = None"
  using lock_stuck [of r m es] assms by (subst push_blocking.simps) simp

lemma spin_pop_empty: "ring_holds r m [] \<Longrightarrow> spin_pop r n m = (None, m)"
  by (induction n) (simp_all add: try_pop_empty)

lemma spin_pop_nonempty: "ring_holds r m (d # q) \<Longrightarrow> 0 < n \<Longrightarrow> spin_pop r n m = (Some d, snd (try_pop r m))"
  using try_pop_holds(1) [of r m d q] by (cases n) (auto split: prod.splits option.splits)

lemma pop_blocking_done:
  assumes "ring_idle r m" and "\<forall>e \<in> set es. \<forall>m. ring_idle r m \<longrightarrow> ring_idle r (e m)"
    and "n \<le> length es"
  shows "\<exists>v m' es'. pop_blocking r (Some n) es m = Some (v, m', es') \<and> ring_idle r m' \<and>
     (v = None \<longrightarrow> ring_list r m' = []) \<and>
     (\<forall>d q. ring_list r m = d # q \<longrightarrow> v = Some d \<and> ring_list r m' = q \<and> es' = es)"
  using assms
proof (induction es arbitrary: n m)
  case Nil
  then show ?case
  proof (cases "ring_list r m")
    case Nil
    with \<open>ring_idle r m\<close> have "ring_holds r m []" using ring_idle_holds by metis
    with \<open>ring_idle r m\<close> \<open>n \<le> length []\<close> show ?thesis
      by (subst pop_blocking.simps) (simp add: spin_pop_empty try_pop_empty ring_holds_list)
  next
    case (Cons d q)
    with \<open>ring_idle r m\<close> have "ring_holds r m (d # q)" using ring_idle_holds by metis
    with \<open>ring_idle r m\<close> Cons show ?thesis
      using rq.pop_invar [of r m] rq.pop_contents [of r m]
      by (subst pop_blocking.simps) (simp add: spin_pop_nonempty SPIN_LIMIT_def)
  qed
next
  case (Cons e es)
  show ?case
  proof (cases "ring_list r m")
    case Nil
    with Cons.prems(1) have h: "ring_holds r m []" using ring_idle_holds by metis
    show ?thesis
    proof (cases "n = 0")
      case True
      with h Cons.prems(1) show ?thesis
        by (subst pop_blocking.simps) (simp add: spin_pop_empty try_pop_empty ring_holds_list)
    next
      case False
      then have "pop_blocking r (Some n) (e # es) m = pop_blocking r (Some (n - 1)) es (e m)"
        using h by (subst pop_blocking.simps) (simp add: spin_pop_empty try_pop_empty)
      with False Nil show ?thesis
        using Cons.IH [of "e m" "n - 1"] Cons.prems by fastforce
    qed
  next
    case (Cons d q)
    with \<open>ring_idle r m\<close> have "ring_holds r m (d # q)" using ring_idle_holds by metis
    with \<open>ring_idle r m\<close> Cons show ?thesis
      using rq.pop_invar [of r m] rq.pop_contents [of r m]
      by (subst pop_blocking.simps) (simp add: spin_pop_nonempty SPIN_LIMIT_def)
  qed
qed

text \<open>C24: A pop with a timeout returns the oldest record at once when there is one, waits at
  most until its deadline otherwise, and returns nothing only from an empty ring.\<close>

theorem pop_blocking_returns:
  assumes "ring_idle r m" and "\<forall>e \<in> set es. \<forall>m. ring_idle r m \<longrightarrow> ring_idle r (e m)"
    and "n \<le> length es"
  shows "\<exists>v m' es'. pop_blocking r (Some n) es m = Some (v, m', es') \<and> ring_idle r m' \<and>
     (v = None \<longrightarrow> ring_list r m' = []) \<and>
     (\<forall>d q. ring_list r m = d # q \<longrightarrow> v = Some d \<and> ring_list r m' = q \<and> es' = es)"
  using assms by (rule pop_blocking_done)

section \<open>Properties of the ring\<close>

lemma try_push_frame:
  assumes "ring_geom r m" "prod_lock r m = 0" "try_push r d es m = Some (ok, m', es')"
  shows "same_outside r m m'"
proof -
  have "snd (push_now r d m) = m'"
    using assms(2,3) by (auto simp: push_now_def try_push_def lock_producer_def Let_def split: prod.splits)
  with push_now_frame [OF assms(1), of d] show ?thesis by simp
qed

lemma run_queue_frame:
  assumes "ring_idle r m"
  shows "same_outside r m (snd (snd (run_queue (push_now r) (try_pop r) ops m)))"
  using assms
proof (induction ops arbitrary: m)
  case (Cons opr ops)
  have g: "ring_geom r m" using Cons.prems ring_idle_holds ring_holds_geom by blast
  show ?case
  proof (cases opr)
    case (Push d)
    have "same_outside r (snd (push_now r d m))
        (snd (snd (run_queue (push_now r) (try_pop r) ops (snd (push_now r d m)))))"
      by (rule Cons.IH) (rule rq.push_invar [OF Cons.prems])
    with push_now_frame [OF g, of d] Push show ?thesis
      by (auto simp: case_prod_beta Let_def intro: same_outside_trans)
  next
    case Pop
    have "same_outside r (snd (try_pop r m))
        (snd (snd (run_queue (push_now r) (try_pop r) ops (snd (try_pop r m)))))"
      by (rule Cons.IH) (rule rq.pop_invar [OF Cons.prems])
    with try_pop_frame [of r m] Pop show ?thesis
      by (auto simp: case_prod_beta Let_def intro: same_outside_trans)
  qed
qed simp

text \<open>A ring of 16 bytes in a fresh segment, used by the witnesses.\<close>

definition demo_seg :: segment where
  "demo_seg = \<lparr>seg_name = ''/impulse-ring.demo'', seg_ptr = 0, seg_len = 208, owns_unlink = True\<rparr>"

definition demo_ring :: ring where
  "demo_ring = \<lparr>ring_seg = demo_seg, ring_base = 0, ring_cap = 16, ring_mask = 15\<rparr>"

definition demo_mem :: bytes where
  "demo_mem = snd (ring_format demo_seg 0 16 (replicate 208 0))"

lemma demo_format: "ring_format demo_seg 0 16 (replicate 208 0) = (Inr demo_ring, demo_mem)"
proof -
  have "is_power_of_two 16" using is_power_of_two_power [of 4] by simp
  then show ?thesis
    unfolding demo_mem_def
    by (simp add: ring_format_def Let_def demo_seg_def demo_ring_def ring_bytes_def)
qed

lemma demo_holds: "ring_holds demo_ring demo_mem []" "prod_lock demo_ring demo_mem = 0"
  using ring_format_Inr [OF demo_format] by (simp_all add: demo_seg_def)

lemma demo_idle: "ring_idle demo_ring demo_mem" "ring_list demo_ring demo_mem = []"
  using demo_holds ring_idleI ring_holdsD by blast+

text \<open>C1: First in, first out, for any sequence of push and pop attempts on a ring at rest, across
  any number of wraps of the data region and of the 64-bit cursors: what was popped, followed by
  what is still in the ring, is what was in it before followed by the accepted pushes, in order and
  byte for byte. The ring stays at rest, never holds more than its capacity, and no byte of the
  segment outside the ring changes, nor its magic word and capacity.\<close>

theorem ring_fifo:
  assumes "ring_idle r m" and "run_queue (push_now r) (try_pop r) ops m = (out, acc, m')"
  shows "out @ ring_list r m' = ring_list r m @ acc \<and> ring_idle r m' \<and>
    records_size (ring_list r m') \<le> ring_cap r \<and> same_outside r m m'"
proof -
  have "ring_idle r m'" using rq.run_invar [OF assms(1), of ops] assms(2) by simp
  moreover from this have "records_size (ring_list r m') \<le> ring_cap r"
    using ring_idle_holds ring_holds_used by (metis ring_holds_def)
  ultimately show ?thesis
    using rq.run_fifo [OF assms] run_queue_frame [OF assms(1), of ops] assms(2) by simp
qed

theorem ring_fifo_witness:
  "\<exists>out acc m'. run_queue (push_now demo_ring) (try_pop demo_ring) [Push [7, 8], Push [9], Pop] demo_mem =
     (out, acc, m') \<and> out @ ring_list demo_ring m' = acc"
proof -
  obtain out acc m' where
    "run_queue (push_now demo_ring) (try_pop demo_ring) [Push [7, 8], Push [9], Pop] demo_mem = (out, acc, m')"
    by (metis prod_cases3)
  with ring_fifo [OF demo_idle(1) this] demo_idle(2) show ?thesis by auto
qed

text \<open>A non-blocking push on a ring at rest always completes. It accepts the record exactly
  when its four length bytes and its payload fit into the free space, then appends it behind what
  the ring holds; otherwise it changes nothing of what the ring holds. It leaves the lock free and
  every byte outside the ring alone.\<close>

lemma try_push_spec:
  assumes "ring_idle r m"
  shows "\<exists>ok m'. try_push r d es m = Some (ok, m', es) \<and>
    (ok \<longleftrightarrow> records_size (ring_list r m) + 4 + length d \<le> ring_cap r) \<and>
    ring_list r m' = (if ok then ring_list r m @ [d] else ring_list r m) \<and>
    ring_idle r m' \<and> same_outside r m m'"
proof -
  from assms have h: "ring_holds r m (ring_list r m)" and free: "prod_lock r m = 0"
    by (simp_all add: ring_idle_holds ring_idle_def)
  obtain ok m' where p: "try_push r d es m = Some (ok, m', es)"
    and "ok \<longleftrightarrow> records_size (ring_list r m) + 4 + length d \<le> ring_cap r"
    and h': "ring_holds r m' (if ok then ring_list r m @ [d] else ring_list r m)" "prod_lock r m' = 0"
    by (rule try_push_free [OF h free, of d es])
  then show ?thesis
    using ring_holdsD [OF h'(1)] ring_idleI [OF h'] try_push_frame [OF ring_holds_geom [OF h] free p]
    by auto
qed

text \<open>A non-blocking pop on a well-formed ring returns the oldest record, byte for byte, and
  removes exactly that one; on an empty ring it returns nothing and changes nothing.\<close>

lemma try_pop_spec_inv:
  assumes "ring_inv r m"
  shows "(ring_list r m = [] \<longrightarrow> try_pop r m = (None, m)) \<and>
    (\<forall>d q. ring_list r m = d # q \<longrightarrow>
       (\<exists>m'. try_pop r m = (Some d, m') \<and> ring_inv r m' \<and> ring_list r m' = q \<and> same_outside r m m'))"
proof (intro conjI impI allI)
  from assms have h: "ring_holds r m (ring_list r m)" by (simp add: ring_inv_holds)
  show "try_pop r m = (None, m)" if "ring_list r m = []"
    using h that by (simp add: try_pop_empty)
  fix d q assume "ring_list r m = d # q"
  with h have "ring_holds r m (d # q)" by simp
  from try_pop_holds [OF this] ring_holdsD try_pop_frame [of r m]
  show "\<exists>m'. try_pop r m = (Some d, m') \<and> ring_inv r m' \<and> ring_list r m' = q \<and> same_outside r m m'"
    by (metis prod.collapse)
qed

text \<open>Formatting a segment gives an empty ring at rest, and attaching to the formatted segment
  gives the same ring: capacity and mask are read back from the header.\<close>

lemma ring_format_attach:
  assumes "ring_format seg base cap m = (Inr r, m')" and "length m = seg_len seg" and "cap < 2 ^ 32"
  shows "ring_attach seg base m' = Inr r \<and> ring_cap r = cap \<and> ring_idle r m' \<and> ring_list r m' = []"
  using ring_format_Inr [OF assms] ring_idleI ring_holdsD by blast

text \<open>Witnesses of the blocking operations.\<close>

theorem push_blocking_returns_witness:
  "\<exists>ok m' es'. push_blocking demo_ring [7, 8] (Some 1) [id] demo_mem = Some (ok, m', es') \<and> ring_idle demo_ring m'"
  using push_blocking_returns [OF demo_idle(1), of "[id]" 1 "[7, 8]"] by fastforce

theorem pop_blocking_returns_witness:
  "\<exists>v m' es'. pop_blocking demo_ring (Some 1) [id] demo_mem = Some (v, m', es') \<and> ring_idle demo_ring m'"
  using pop_blocking_returns [OF demo_idle(1), of "[id]" 1] by fastforce

end
