(* ===== verification/Ring_Control.thy ===== *)
theory Ring_Control
  imports Ring_Buffer Ring_Util
begin

text \<open>
  The control segment (\<^verbatim>\<open>crates/core/src/control.rs\<close>): a superblock with magic, version,
  broker pid and epoch, and the submission ring behind it; and the rule that turns a requested
  arena size into a legal ring capacity.
\<close>

section \<open>Layout\<close>

definition CTL_MAGIC :: u64 where
  "CTL_MAGIC = u64_from_le_bytes (string_bytes ''IMPRING'' @ [0])"

definition CTL_VERSION :: u32 where "CTL_VERSION = 1"

definition CTL_OFF_MAGIC :: usize where "CTL_OFF_MAGIC = 0"
definition CTL_OFF_VERSION :: usize where "CTL_OFF_VERSION = 8"
definition CTL_OFF_PID :: usize where "CTL_OFF_PID = 12"
definition CTL_OFF_EPOCH :: usize where "CTL_OFF_EPOCH = 16"
definition SUBMISSION_BASE :: usize where "SUBMISSION_BASE = 64"
definition SUBMISSION_CAP :: usize where "SUBMISSION_CAP = 2 ^ 18"
definition REPLY_CAP :: usize where "REPLY_CAP = 2 ^ 19"
definition ARENA_CAP :: usize where "ARENA_CAP = 2 ^ 19"
definition MIN_ARENA_CAP :: usize where "MIN_ARENA_CAP = 2 ^ 18"
definition MAX_ARENA_CAP :: usize where "MAX_ARENA_CAP = 2 ^ 27"

lemmas ctl_layout =
  CTL_OFF_MAGIC_def CTL_OFF_VERSION_def CTL_OFF_PID_def CTL_OFF_EPOCH_def SUBMISSION_BASE_def

lemmas arena_consts = ARENA_CAP_def MIN_ARENA_CAP_def MAX_ARENA_CAP_def

text \<open>\<^verbatim>\<open>next_power_of_two\<close>: doubling from \<open>p\<close> until the value is reached.\<close>

function double_until :: "usize \<Rightarrow> usize \<Rightarrow> usize" where
  "double_until p n = (if p = 0 \<or> n \<le> p then p else double_until (2 * p) n)"
  by pat_completeness auto
termination
  by (relation "measure (\<lambda>(p, n). n - p)") auto

declare double_until.simps [simp del]

definition next_power_of_two :: "usize \<Rightarrow> usize" where
  "next_power_of_two n = double_until 1 n"

definition clamp_arena_cap :: "usize \<Rightarrow> usize" where
  "clamp_arena_cap requested =
     (if requested = 0 then ARENA_CAP
      else next_power_of_two (min (max requested MIN_ARENA_CAP) MAX_ARENA_CAP))"

definition control_segment_bytes :: usize where
  "control_segment_bytes = SUBMISSION_BASE + ring_bytes SUBMISSION_CAP"

section \<open>The superblock\<close>

definition format_control :: "segment \<Rightarrow> i32 \<Rightarrow> u64 \<Rightarrow> bytes \<Rightarrow> ring io_result \<times> bytes" where
  "format_control seg pid epoch m =
     (case ring_format seg SUBMISSION_BASE SUBMISSION_CAP m of
        (Inl e, m1) \<Rightarrow> (Inl e, m1)
      | (Inr r, m1) \<Rightarrow>
          (let m2 = set_u32 m1 CTL_OFF_VERSION CTL_VERSION;
               m3 = set_u32 m2 CTL_OFF_PID (word_of_int pid);
               m4 = set_u64 m3 CTL_OFF_EPOCH epoch;
               m5 = set_u64 m4 CTL_OFF_MAGIC CTL_MAGIC
           in (Inr r, m5)))"

definition attach_control :: "segment \<Rightarrow> bytes \<Rightarrow> ring io_result" where
  "attach_control seg m =
     (if u64_at m CTL_OFF_MAGIC \<noteq> CTL_MAGIC
      then Inl (IoOther ''control magic mismatch (broker not running?)'')
      else
        (let version = u32_at m CTL_OFF_VERSION in
         if version \<noteq> CTL_VERSION
         then Inl (IoOther (''control version '' @ show_nat (unat version) @ '' unsupported''))
         else ring_attach seg SUBMISSION_BASE m))"

definition broker_pid :: "bytes \<Rightarrow> i32" where
  "broker_pid m = sint (u32_at m CTL_OFF_PID)"

definition broker_epoch :: "bytes \<Rightarrow> u64" where
  "broker_epoch m = u64_at m CTL_OFF_EPOCH"

section \<open>Capacities\<close>

lemma double_until_power:
  "p = 2 ^ k \<Longrightarrow> \<exists>j. double_until p n = 2 ^ j \<and> k \<le> j \<and> n \<le> 2 ^ j \<and> (j = k \<or> 2 ^ j < 2 * n)"
proof (induction p n arbitrary: k rule: double_until.induct)
  case (1 p n)
  show ?case
  proof (cases "n \<le> p")
    case True
    then show ?thesis using "1.prems" by (subst double_until.simps) auto
  next
    case False
    then obtain j where j: "double_until (2 * p) n = 2 ^ j" "Suc k \<le> j" "n \<le> 2 ^ j"
      "j = Suc k \<or> 2 ^ j < 2 * n"
      using "1.IH" [of "Suc k"] "1.prems" by auto
    have "(2 :: nat) ^ j < 2 * n" using j(4) False "1.prems" by auto
    with j False "1.prems" show ?thesis
      by (subst double_until.simps) (auto intro!: exI [of _ j])
  qed
qed

lemma next_power_of_two_spec:
  "0 < n \<Longrightarrow> \<exists>j. next_power_of_two n = 2 ^ j \<and> n \<le> 2 ^ j \<and> 2 ^ j < 2 * n"
  using double_until_power [of 1 0 n] by (auto simp: next_power_of_two_def)

lemma next_power_of_two_le_power: "n \<le> 2 ^ k \<Longrightarrow> 0 < n \<Longrightarrow> next_power_of_two n \<le> 2 ^ k"
proof -
  assume n: "n \<le> 2 ^ k" "0 < n"
  obtain j where j: "next_power_of_two n = 2 ^ j" "2 ^ j < 2 * n"
    using next_power_of_two_spec [OF n(2)] by blast
  have "(2 :: nat) ^ j < 2 ^ Suc k" using j(2) n(1) by simp
  then have "j \<le> k" by (simp del: power_Suc)
  then show ?thesis using j(1) by simp
qed

lemma clamp_arena_cap_bounds:
  "is_power_of_two (clamp_arena_cap n) \<and>
   MIN_ARENA_CAP \<le> clamp_arena_cap n \<and> clamp_arena_cap n \<le> MAX_ARENA_CAP \<and>
   min n MAX_ARENA_CAP \<le> clamp_arena_cap n \<and>
   (if n = 0 then clamp_arena_cap n = ARENA_CAP else clamp_arena_cap n < 2 * max n MIN_ARENA_CAP)"
proof (cases "n = 0")
  case True
  have "is_power_of_two (2 ^ 19)" by (rule is_power_of_two_power)
  with True show ?thesis by (simp add: clamp_arena_cap_def arena_consts)
next
  case False
  define k where "k = min (max n MIN_ARENA_CAP) MAX_ARENA_CAP"
  have cap: "clamp_arena_cap n = next_power_of_two k" using False by (simp add: clamp_arena_cap_def k_def)
  have k: "0 < k" "k \<le> 2 ^ 27" "MIN_ARENA_CAP \<le> k" "min n MAX_ARENA_CAP \<le> k" "k \<le> max n MIN_ARENA_CAP"
    using False by (auto simp: k_def arena_consts)
  obtain j where "next_power_of_two k = 2 ^ j" "k \<le> 2 ^ j" "2 ^ j < 2 * k"
    using next_power_of_two_spec [OF k(1)] by blast
  then show ?thesis
    using k False next_power_of_two_le_power [OF k(2,1)] unfolding cap by (auto simp: MAX_ARENA_CAP_def)
qed

text \<open>
  whatever size a service asks for, the capacity it gets is a power of two (so that formatting
  a ring of that capacity never aborts the broker), lies between 256 KiB and 128 MiB (so that
  it fits the ring header's 32-bit field), is at least the request up to that maximum, and is
  less than twice the request raised to the minimum; no request gives the default.
\<close>

lemma clamp_arena_cap_spec:
  "is_power_of_two (clamp_arena_cap n) \<and>
   MIN_ARENA_CAP \<le> clamp_arena_cap n \<and> clamp_arena_cap n \<le> MAX_ARENA_CAP \<and>
   min n MAX_ARENA_CAP \<le> clamp_arena_cap n \<and>
   (if n = 0 then clamp_arena_cap n = ARENA_CAP else clamp_arena_cap n < 2 * max n MIN_ARENA_CAP)"
  by (rule clamp_arena_cap_bounds)

section \<open>Formatting and attaching\<close>

lemma ring_below [simp]:
  assumes "off + length bs \<le> ring_base r"
  shows "ring_holds r (store_bytes m off bs) q = ring_holds r m q"
    and "prod_lock r (store_bytes m off bs) = prod_lock r m"
proof -
  have "ring_stored r (store_bytes m off bs) = ring_stored r m" if "ring_geom r m"
  proof -
    have "ring_byte r (store_bytes m off bs) p = ring_byte r m p" for p
    proof -
      have "p mod ring_cap r < ring_cap r" using that by (rule mod_cap_less)
      then have "data_off r + p mod ring_cap r < length m"
        using that by (simp add: ring_geom_def ring_bytes_def data_off_def)
      with assms show ?thesis by (simp add: ring_byte_def nth_store_bytes data_off_def)
    qed
    moreover have "head r (store_bytes m off bs) = head r m" "tail r (store_bytes m off bs) = tail r m"
      using assms by (simp_all add: word_defs mem_simps)
    ultimately show ?thesis by (simp add: ring_stored_def window_def ring_used_def)
  qed
  moreover have "ring_geom r (store_bytes m off bs) = ring_geom r m" by (simp add: ring_geom_def)
  moreover have "ring_used r (store_bytes m off bs) = ring_used r m"
    using assms by (simp add: ring_used_def word_defs mem_simps)
  ultimately show "ring_holds r (store_bytes m off bs) q = ring_holds r m q"
    by (auto simp: ring_holds_def)
  show "prod_lock r (store_bytes m off bs) = prod_lock r m"
    using assms by (simp add: word_defs mem_simps)
qed

lemma ring_attach_below [simp]:
  "off + length bs \<le> base \<Longrightarrow> ring_attach seg base (store_bytes m off bs) = ring_attach seg base m"
  by (simp add: ring_attach_def mem_simps)

lemma control_fits: "SUBMISSION_CAP < 2 ^ 32" "is_power_of_two SUBMISSION_CAP" "64 \<le> control_segment_bytes"
  using is_power_of_two_power [of 18] by (simp_all add: SUBMISSION_CAP_def control_segment_bytes_def ctl_layout)

lemma ring_format_ok:
  assumes "is_power_of_two cap" "base mod 64 = 0" "base + ring_bytes cap \<le> seg_len seg"
  shows "\<exists>r m'. ring_format seg base cap m = (Inr r, m')"
  using assms by (simp add: ring_format_def Let_def)

lemma format_control_ok:
  assumes "length m = seg_len seg" and "control_segment_bytes \<le> seg_len seg"
    and "- (2 ^ 31) \<le> pid" "pid < 2 ^ 31"
  shows "\<exists>r m'. format_control seg pid epoch m = (Inr r, m') \<and>
    attach_control seg m' = Inr r \<and> ring_idle r m' \<and> ring_list r m' = [] \<and>
    ring_cap r = SUBMISSION_CAP \<and> broker_pid m' = pid \<and> broker_epoch m' = epoch"
proof -
  obtain r m1 where f: "ring_format seg SUBMISSION_BASE SUBMISSION_CAP m = (Inr r, m1)"
    using ring_format_ok [of SUBMISSION_CAP SUBMISSION_BASE seg m] assms(2) control_fits
    by (auto simp: control_segment_bytes_def ctl_layout)
  note r = ring_format_Inr [OF f assms(1) control_fits(1)]
  have base: "ring_base r = 64" using r(6) by (simp add: ctl_layout)
  have len: "64 \<le> length m1" using r(3) assms(1,2) control_fits(3) by simp
  define m' where "m' = set_u64 (set_u64 (set_u32 (set_u32 m1 CTL_OFF_VERSION CTL_VERSION)
    CTL_OFF_PID (word_of_int pid)) CTL_OFF_EPOCH epoch) CTL_OFF_MAGIC CTL_MAGIC"
  have "ring_holds r m' []" "prod_lock r m' = 0" "ring_attach seg SUBMISSION_BASE m' = Inr r"
    using r(1,2,7) base by (simp_all add: m'_def set_u32_def set_u64_def ctl_layout)
  moreover have "u64_at m' CTL_OFF_MAGIC = CTL_MAGIC" "u32_at m' CTL_OFF_VERSION = CTL_VERSION"
    "u64_at m' CTL_OFF_EPOCH = epoch" "u32_at m' CTL_OFF_PID = word_of_int pid"
    using len by (simp_all add: m'_def ctl_layout mem_simps)
  moreover have "sint (word_of_int pid :: u32) = pid"
    using wrap_i32_id [OF assms(3,4)] by (simp add: wrap_i32_def)
  moreover have "format_control seg pid epoch m = (Inr r, m')"
    by (simp add: format_control_def f m'_def)
  ultimately show ?thesis
    using ring_idleI ring_holdsD r(4)
    by (fastforce simp: attach_control_def broker_pid_def broker_epoch_def)
qed

text \<open>
  Formatting the control segment always succeeds on a segment of the computed size, whatever
  the segment held before; a connector that attaches afterwards gets the submission ring the
  broker has, empty and unlocked, and reads the broker's pid and epoch.
\<close>

lemma format_attach_control:
  assumes "length m = seg_len seg" and "control_segment_bytes \<le> seg_len seg"
    and "- (2 ^ 31) \<le> pid" "pid < 2 ^ 31"
  shows "\<exists>r m'. format_control seg pid epoch m = (Inr r, m') \<and>
    attach_control seg m' = Inr r \<and> ring_idle r m' \<and> ring_list r m' = [] \<and>
    ring_cap r = SUBMISSION_CAP \<and> broker_pid m' = pid \<and> broker_epoch m' = epoch"
  using assms by (rule format_control_ok)

lemma superblock_word:
  assumes "same_outside r m m'" "ring_base r = SUBMISSION_BASE" "off + n \<le> SUBMISSION_BASE"
  shows "load_bytes m' off n = load_bytes m off n"
  using assms
  by (intro nth_equalityI) (auto simp: load_bytes_def same_outside_def outside_ring_def)

text \<open>
  The traffic on the submission ring never damages the superblock: after any sequence of
  pushes and pops by any number of clients and the broker, magic, version, pid and epoch read
  as before.
\<close>

lemma superblock_stable:
  assumes "attach_control seg m = Inr r" and "ring_idle r m"
    and "run_queue (push_now r) (try_pop r) ops m = (out, acc, m')"
  shows "u64_at m' CTL_OFF_MAGIC = CTL_MAGIC \<and> u32_at m' CTL_OFF_VERSION = CTL_VERSION \<and>
    broker_pid m' = broker_pid m \<and> broker_epoch m' = broker_epoch m"
proof -
  have head: "u64_at m CTL_OFF_MAGIC = CTL_MAGIC" "u32_at m CTL_OFF_VERSION = CTL_VERSION"
    and att: "ring_attach seg SUBMISSION_BASE m = Inr r"
    using assms(1) by (auto simp: attach_control_def Let_def split: if_splits)
  have "same_outside r m m'" using run_queue_frame [OF assms(2), of ops] assms(3) by simp
  note w = superblock_word [OF this ring_attach_Inr(1) [OF att]]
  show ?thesis
    using head w [of CTL_OFF_MAGIC 8] w [of CTL_OFF_VERSION 4] w [of CTL_OFF_PID 4] w [of CTL_OFF_EPOCH 8]
    by (simp add: u64_at_def u32_at_def broker_pid_def broker_epoch_def ctl_layout)
qed

end
