(* ===== verification/Ring_Broker.thy ===== *)
theory Ring_Broker
  imports Ring_Registry Ring_Control
begin

text \<open>
  The broker (\<^verbatim>\<open>crates/impulsed/src/broker.rs\<close>): start-up with its singleton guard and sweep
  of stale segments, the dispatch of control messages, one definition per handler, replies, arenas
  and the clean-up when it goes down. The state is the broker's record and the shared memory;
  everything that comes from outside (the kernel, the Avro library and the catalogue built from it,
  the hash, process id, clocks, and what other processes do to a reply ring while the broker is
  parked on it) is a \<open>broker_env\<close>, given anew for every message. A result \<open>None\<close> says that
  the handler is still waiting for a reply ring's lock when the schedule ends. Logging is left out.
\<close>

section \<open>State\<close>

definition RELEASE_GRACE :: nat where "RELEASE_GRACE = 30 * 10 ^ 9"
definition SWEEP_INTERVAL :: nat where "SWEEP_INTERVAL = 10 ^ 9"

record 'sc broker_env =
  be_os :: os_env
  be_lib :: "'sc avro_lib"
  be_cat :: "'sc catalog"
  be_sha :: "bytes \<Rightarrow> bytes"
  be_pid :: i32
  be_epoch :: u64
  be_now :: nat
  be_parks :: nat
  be_others :: schedule

record broker =
  br_control_seg :: segment
  br_submission :: ring
  br_reg :: registry
  br_reply_rings :: "(i64, ring) hash_map"
  br_reply_segs :: "(i64, segment) hash_map"
  br_arenas :: "(string, segment) hash_map"
  br_reply_names :: "string list"

type_synonym outcome = "(unit io_result \<times> broker \<times> shm) option"

datatype start_error = AlreadyRunning | StartIo io_error

fun show_io_error :: "os_env \<Rightarrow> io_error \<Rightarrow> string" where
  "show_io_error os (IoOther m) = m"
| "show_io_error os (IoNew k m) = m"
| "show_io_error os (IoPanic m) = m"
| "show_io_error os (IoOs n) = os_strerror os n @ '' (os error '' @ show_int n @ '')''"

definition ring_mem :: "ring \<Rightarrow> shm \<Rightarrow> bytes" where
  "ring_mem r w = shm_obj w (seg_ptr (ring_seg r))"

definition set_ring_mem :: "ring \<Rightarrow> bytes \<Rightarrow> shm \<Rightarrow> shm" where
  "set_ring_mem r m w = set_obj (seg_ptr (ring_seg r)) m w"

section \<open>Starting and stopping\<close>

definition guard_singleton :: "os_env \<Rightarrow> shm \<Rightarrow> (start_error + unit) \<times> shm" where
  "guard_singleton os w =
     (case segment_open os CONTROL_SEGMENT w of
        Inr seg \<Rightarrow>
          (let m = shm_obj w (seg_ptr seg) in
           if is_ok (attach_control seg m) \<and> pid_alive os (broker_pid m) then (Inl AlreadyRunning, w)
           else (Inr (), snd (unlink os CONTROL_SEGMENT (segment_drop os seg w))))
      | Inl e \<Rightarrow>
          if err_kind e = NotFound then (Inr (), w)
          else if raw_os_error e = Some EACCES then (Inl AlreadyRunning, w)
          else (Inl (StartIo e), w))"

definition cleanup_stale :: "os_env \<Rightarrow> shm \<Rightarrow> shm" where
  "cleanup_stale os w =
     (case list_segments os w of
        Inl e \<Rightarrow> w
      | Inr names \<Rightarrow> fold (\<lambda>n w. snd (unlink os n w)) names w)"

definition start :: "'sc broker_env \<Rightarrow> shm \<Rightarrow> (start_error + broker) \<times> shm" where
  "start env w =
     (case guard_singleton (be_os env) w of
        (Inl e, w1) \<Rightarrow> (Inl e, w1)
      | (Inr _, w1) \<Rightarrow>
          (case segment_create (be_os env) CONTROL_SEGMENT control_segment_bytes
                  (cleanup_stale (be_os env) w1) of
             (Inl e, w2) \<Rightarrow> (Inl (StartIo e), w2)
           | (Inr seg, w2) \<Rightarrow>
               (case format_control seg (be_pid env) (be_epoch env) (shm_obj w2 (seg_ptr seg)) of
                  (Inl e, m) \<Rightarrow> (Inl (StartIo e), segment_drop (be_os env) seg (set_obj (seg_ptr seg) m w2))
                | (Inr submission, m) \<Rightarrow>
                    (Inr \<lparr>br_control_seg = seg, br_submission = submission, br_reg = registry_new,
                          br_reply_rings = hm_empty, br_reply_segs = hm_empty, br_arenas = hm_empty,
                          br_reply_names = []\<rparr>,
                     set_obj (seg_ptr seg) m w2))))"

text \<open>\<^verbatim>\<open>Drop for Broker\<close>, then the drops of its fields in the order of their declaration.\<close>

definition broker_drop :: "os_env \<Rightarrow> broker \<Rightarrow> shm \<Rightarrow> shm" where
  "broker_drop os b w =
     (let w1 = fold (\<lambda>n w. snd (unlink os n w)) (br_reply_names b) w;
          w2 = segment_drop os (br_control_seg b) w1;
          w3 = fold (\<lambda>(i, seg). segment_drop os seg) (hm_entries (br_reply_segs b)) w2
      in fold (\<lambda>(n, seg). segment_drop os seg) (hm_entries (br_arenas b)) w3)"

section \<open>Replies and arenas\<close>

definition reply ::
  "'sc broker_env \<Rightarrow> ('m \<Rightarrow> avro_value) \<Rightarrow> i64 \<Rightarrow> kind \<Rightarrow> 'm \<Rightarrow> broker \<Rightarrow> shm \<Rightarrow> outcome" where
  "reply env to_v client_id k msg b w =
     (case hm_get (br_reply_rings b) client_id of
        None \<Rightarrow> Some (Inl (IoOther ''reply ring for client not found''), b, w)
      | Some r \<Rightarrow>
          (case to_frame (be_lib env) (be_cat env) to_v k msg of
             Inl e \<Rightarrow> Some (Inl e, b, w)
           | Inr f \<Rightarrow>
               (case push_blocking r (frame_encode f) (Some (be_parks env)) (be_others env) (ring_mem r w) of
                  None \<Rightarrow> None
                | Some (ok, m, _) \<Rightarrow>
                    Some (if ok then Inr () else Inl (IoOther ''reply ring full (client stuck?)''),
                          b, set_ring_mem r m w))))"

definition owner_alive :: "os_env \<Rightarrow> i32 \<Rightarrow> bool" where
  "owner_alive os pid = (pid = 0 \<or> pid_alive os pid)"

definition reclaim_arena :: "os_env \<Rightarrow> string \<Rightarrow> broker \<times> shm \<Rightarrow> broker \<times> shm" where
  "reclaim_arena os nm s =
     (case s of (b, w) \<Rightarrow>
        (case hm_get (br_arenas b) nm of
           None \<Rightarrow> (b, w)
         | Some seg \<Rightarrow> (b\<lparr>br_arenas := hm_remove nm (br_arenas b)\<rparr>, segment_drop os seg w)))"

definition make_arena :: "os_env \<Rightarrow> string \<Rightarrow> usize \<Rightarrow> broker \<Rightarrow> shm \<Rightarrow> string io_result \<times> broker \<times> shm" where
  "make_arena os nm cap b w =
     (case segment_create os nm (ring_bytes cap) w of
        (Inl e, w1) \<Rightarrow> (Inl e, b, w1)
      | (Inr seg, w1) \<Rightarrow>
          (case ring_format seg 0 cap (shm_obj w1 (seg_ptr seg)) of
             (Inl e, m) \<Rightarrow> (Inl e, b, segment_drop os seg (set_obj (seg_ptr seg) m w1))
           | (Inr r, m) \<Rightarrow>
               (let w2 = set_obj (seg_ptr seg) m w1;
                    w3 = (case hm_get (br_arenas b) nm of None \<Rightarrow> w2 | Some old \<Rightarrow> segment_drop os old w2)
                in (Inr nm, b\<lparr>br_arenas := hm_insert nm seg (br_arenas b)\<rparr>, w3))))"

definition release_client :: "os_env \<Rightarrow> i64 \<Rightarrow> broker \<Rightarrow> shm \<Rightarrow> broker \<times> shm" where
  "release_client os client_id b w =
     (let (as1, g1) = remove_client_channels client_id (br_reg b);
          (b1, w1) = fold (reclaim_arena os) as1 (b\<lparr>br_reg := g1\<rparr>, w);
          (as2, g2) = remove_client_functions client_id (br_reg b1);
          (b2, w2) = fold (reclaim_arena os) as2 (b1\<lparr>br_reg := g2\<rparr>, w1)
      in (b2\<lparr>br_reg := remove_client client_id (br_reg b2),
             br_reply_rings := hm_remove client_id (br_reply_rings b2),
             br_reply_segs := hm_remove client_id (br_reply_segs b2)\<rparr>, w2))"

section \<open>Handlers\<close>

definition on_register :: "'sc broker_env \<Rightarrow> frame \<Rightarrow> broker \<Rightarrow> shm \<Rightarrow> outcome" where
  "on_register env f b w =
     (case from_frame_compat (be_lib env) (be_cat env) register_from_value f of
        Inl e \<Rightarrow> Some (Inl e, b, w)
      | Inr m \<Rightarrow>
          (case segment_open (be_os env) (reg_reply_segment m) w of
             Inl e \<Rightarrow> Some (Inl e, b, w)
           | Inr seg \<Rightarrow>
               (case ring_attach seg 0 (shm_obj w (seg_ptr seg)) of
                  Inl e \<Rightarrow> Some (Inl e, b, w)
                | Inr r \<Rightarrow>
                    (let (client_id, g) = add_client (reg_app_name m) (wrap_i32 (reg_pid m)) (br_reg b);
                         b' = b\<lparr>br_reg := g,
                                br_reply_rings := hm_insert client_id r (br_reply_rings b),
                                br_reply_segs := hm_insert client_id seg (br_reply_segs b),
                                br_reply_names := br_reply_names b @ [reg_reply_segment m]\<rparr>
                     in reply env register_reply_to_value client_id RegisterReply
                          \<lparr>regr_correlation_id = reg_correlation_id m, regr_client_id = client_id,
                           regr_status = STATUS_OK, regr_message = []\<rparr> b' w))))"

definition on_unregister :: "'sc broker_env \<Rightarrow> frame \<Rightarrow> broker \<Rightarrow> shm \<Rightarrow> outcome" where
  "on_unregister env f b w =
     (case from_frame (be_lib env) (be_cat env) unregister_from_value Unregister f of
        Inl e \<Rightarrow> Some (Inl e, b, w)
      | Inr m \<Rightarrow> (let (b', w') = release_client (be_os env) (unreg_client_id m) b w in Some (Inr (), b', w')))"

definition err_publish :: "i64 \<Rightarrow> i32 \<Rightarrow> string \<Rightarrow> publish_reply" where
  "err_publish corr code msg =
     \<lparr>pubr_correlation_id = corr, pubr_channel_id = 0, pubr_schema_fp = 0, pubr_arena = [],
      pubr_status = code, pubr_message = msg\<rparr>"

definition access_policy :: "(bytes \<Rightarrow> bytes) \<Rightarrow> string \<Rightarrow> bytes option" where
  "access_policy sha key = (if key = [] then None else Some (key_hash sha key))"

text \<open>The second half of \<^verbatim>\<open>on_publish\<close>, once the name is free.\<close>

definition publish_new :: "'sc broker_env \<Rightarrow> publish_channel \<Rightarrow> broker \<Rightarrow> shm \<Rightarrow> outcome" where
  "publish_new env m b w =
     (case avro_parse (be_lib env) (pub_schema_json m) of
        Inl e \<Rightarrow>
          reply env publish_reply_to_value (pub_client_id m) PublishReply
            (err_publish (pub_correlation_id m) ERR_INTERNAL (''bad schema: '' @ show_io_error (be_os env) e)) b w
      | Inr (schema, fp) \<Rightarrow>
          (let (channel_id, g) = alloc_channel_id (br_reg b);
               arena_cap = clamp_arena_cap (nat (max (pub_arena_cap m) 0))
           in case make_arena (be_os env) (channel_arena (word_of_int channel_id)) arena_cap (b\<lparr>br_reg := g\<rparr>) w of
                (Inl e, b1, w1) \<Rightarrow>
                  reply env publish_reply_to_value (pub_client_id m) PublishReply
                    (err_publish (pub_correlation_id m) ERR_INTERNAL
                       (''cannot allocate a channel arena: '' @ show_io_error (be_os env) e)) b1 w1
              | (Inr arena, b1, w1) \<Rightarrow>
                  reply env publish_reply_to_value (pub_client_id m) PublishReply
                    \<lparr>pubr_correlation_id = pub_correlation_id m, pubr_channel_id = channel_id,
                     pubr_schema_fp = fp_to_i64 fp, pubr_arena = arena, pubr_status = STATUS_OK,
                     pubr_message = []\<rparr>
                    (b1\<lparr>br_reg := insert_channel
                       \<lparr>ch_id = channel_id, ch_name = pub_channel m, ch_owner = pub_client_id m,
                        ch_schema_fp = fp, ch_key = access_policy (be_sha env) (pub_access_key m),
                        ch_arena = arena\<rparr> (br_reg b1)\<rparr>) w1))"

definition on_publish :: "'sc broker_env \<Rightarrow> frame \<Rightarrow> broker \<Rightarrow> shm \<Rightarrow> outcome" where
  "on_publish env f b w =
     (case from_frame_compat (be_lib env) (be_cat env) publish_channel_from_value f of
        Inl e \<Rightarrow> Some (Inl e, b, w)
      | Inr m \<Rightarrow>
          if channel_name_taken (pub_channel m) (br_reg b)
          then (case reap_if_released (pub_channel m) (br_reg b) of
                  (Some arena, g) \<Rightarrow>
                    (let (b1, w1) = reclaim_arena (be_os env) arena (b\<lparr>br_reg := g\<rparr>, w)
                     in publish_new env m b1 w1)
                | (None, g) \<Rightarrow>
                    (case dead_channel_owner (pub_channel m) (owner_alive (be_os env)) g of
                       Some dead \<Rightarrow>
                         (let (b1, w1) = release_client (be_os env) dead (b\<lparr>br_reg := g\<rparr>) w
                          in publish_new env m b1 w1)
                     | None \<Rightarrow>
                         reply env publish_reply_to_value (pub_client_id m) PublishReply
                           (err_publish (pub_correlation_id m) ERR_EXISTS ''channel already exists'')
                           (b\<lparr>br_reg := g\<rparr>) w))
          else publish_new env m b w)"

definition on_unpublish :: "'sc broker_env \<Rightarrow> frame \<Rightarrow> broker \<Rightarrow> shm \<Rightarrow> outcome" where
  "on_unpublish env f b w =
     (case from_frame (be_lib env) (be_cat env) unpublish_from_value Unpublish f of
        Inl e \<Rightarrow> Some (Inl e, b, w)
      | Inr m \<Rightarrow>
          (case release_channel (be_now env) (unpub_channel m) (unpub_client_id m) (br_reg b) of
             (Now arena, g) \<Rightarrow>
               (let (b', w') = reclaim_arena (be_os env) arena (b\<lparr>br_reg := g\<rparr>, w) in Some (Inr (), b', w'))
           | (_, g) \<Rightarrow> Some (Inr (), b\<lparr>br_reg := g\<rparr>, w)))"

definition on_list :: "'sc broker_env \<Rightarrow> frame \<Rightarrow> broker \<Rightarrow> shm \<Rightarrow> outcome" where
  "on_list env f b w =
     (case from_frame (be_lib env) (be_cat env) list_channels_from_value ListChannels f of
        Inl e \<Rightarrow> Some (Inl e, b, w)
      | Inr m \<Rightarrow>
          reply env channel_list_to_value (lst_client_id m) ChannelList
            \<lparr>chl_correlation_id = lst_correlation_id m, chl_channels = registry_list_channels (br_reg b)\<rparr> b w)"

definition on_subscribe :: "'sc broker_env \<Rightarrow> frame \<Rightarrow> broker \<Rightarrow> shm \<Rightarrow> outcome" where
  "on_subscribe env f b w =
     (case from_frame (be_lib env) (be_cat env) subscribe_from_value Subscribe f of
        Inl e \<Rightarrow> Some (Inl e, b, w)
      | Inr m \<Rightarrow>
          (case resolve_subscribe (be_sha env) (sub_channel_id m) (sub_access_key m)
                  (i64_to_fp (sub_expected_fp m)) (br_reg b) of
             Inr (arena, fp) \<Rightarrow>
               reply env subscribe_reply_to_value (sub_client_id m) SubscribeReply
                 \<lparr>subr_correlation_id = sub_correlation_id m, subr_arena = arena,
                  subr_schema_fp = fp_to_i64 fp, subr_status = STATUS_OK, subr_message = []\<rparr>
                 (b\<lparr>br_reg := mark_subscribed (sub_channel_id m) (br_reg b)\<rparr>) w
           | Inl (code, msg) \<Rightarrow>
               reply env subscribe_reply_to_value (sub_client_id m) SubscribeReply
                 \<lparr>subr_correlation_id = sub_correlation_id m, subr_arena = [],
                  subr_schema_fp = 0, subr_status = code, subr_message = msg\<rparr> b w))"

definition err_expose :: "i64 \<Rightarrow> i32 \<Rightarrow> string \<Rightarrow> expose_reply" where
  "err_expose corr code msg =
     \<lparr>expr_correlation_id = corr, expr_fn_id = 0, expr_req_fp = 0, expr_resp_fp = 0,
      expr_req_arena = [], expr_status = code, expr_message = msg\<rparr>"

text \<open>The second half of \<^verbatim>\<open>on_expose\<close>, once the name is free.\<close>

definition expose_new :: "'sc broker_env \<Rightarrow> expose_function \<Rightarrow> broker \<Rightarrow> shm \<Rightarrow> outcome" where
  "expose_new env m b w =
     (case (avro_parse (be_lib env) (exp_req_schema_json m), avro_parse (be_lib env) (exp_resp_schema_json m)) of
        (Inr (_, req_fp), Inr (_, resp_fp)) \<Rightarrow>
          (let (fid, g) = alloc_fn_id (br_reg b);
               arena_cap = clamp_arena_cap (nat (max (exp_req_arena_cap m) 0))
           in case make_arena (be_os env) (function_arena (word_of_int fid)) arena_cap (b\<lparr>br_reg := g\<rparr>) w of
                (Inl e, b1, w1) \<Rightarrow>
                  reply env expose_reply_to_value (exp_client_id m) ExposeReply
                    (err_expose (exp_correlation_id m) ERR_INTERNAL
                       (''cannot allocate a request arena: '' @ show_io_error (be_os env) e)) b1 w1
              | (Inr req_arena, b1, w1) \<Rightarrow>
                  reply env expose_reply_to_value (exp_client_id m) ExposeReply
                    \<lparr>expr_correlation_id = exp_correlation_id m, expr_fn_id = fid,
                     expr_req_fp = fp_to_i64 req_fp, expr_resp_fp = fp_to_i64 resp_fp,
                     expr_req_arena = req_arena, expr_status = STATUS_OK, expr_message = []\<rparr>
                    (b1\<lparr>br_reg := insert_function
                       \<lparr>fm_id = fid, fm_name = exp_fn_name m, fm_owner = exp_client_id m,
                        fm_req_fp = req_fp, fm_resp_fp = resp_fp,
                        fm_key = access_policy (be_sha env) (exp_access_key m),
                        fm_req_arena = req_arena\<rparr> (br_reg b1)\<rparr>) w1)
      | _ \<Rightarrow>
          reply env expose_reply_to_value (exp_client_id m) ExposeReply
            (err_expose (exp_correlation_id m) ERR_INTERNAL ''bad schema'') b w)"

definition on_expose :: "'sc broker_env \<Rightarrow> frame \<Rightarrow> broker \<Rightarrow> shm \<Rightarrow> outcome" where
  "on_expose env f b w =
     (case from_frame_compat (be_lib env) (be_cat env) expose_function_from_value f of
        Inl e \<Rightarrow> Some (Inl e, b, w)
      | Inr m \<Rightarrow>
          if function_name_taken (exp_fn_name m) (br_reg b)
          then (case dead_function_owner (exp_fn_name m) (owner_alive (be_os env)) (br_reg b) of
                  Some dead \<Rightarrow>
                    (let (b1, w1) = release_client (be_os env) dead b w in expose_new env m b1 w1)
                | None \<Rightarrow>
                    reply env expose_reply_to_value (exp_client_id m) ExposeReply
                      (err_expose (exp_correlation_id m) ERR_EXISTS ''function exists'') b w)
          else expose_new env m b w)"

definition on_lookup :: "'sc broker_env \<Rightarrow> frame \<Rightarrow> broker \<Rightarrow> shm \<Rightarrow> outcome" where
  "on_lookup env f b w =
     (case from_frame (be_lib env) (be_cat env) lookup_function_from_value LookupFunction f of
        Inl e \<Rightarrow> Some (Inl e, b, w)
      | Inr m \<Rightarrow>
          reply env lookup_reply_to_value (lkp_client_id m) LookupReply
            (case resolve_lookup (be_sha env) (lkp_fn_name m) (lkp_access_key m) (br_reg b) of
               Inr (fid, req_fp, resp_fp, req_arena) \<Rightarrow>
                 \<lparr>lkpr_correlation_id = lkp_correlation_id m, lkpr_fn_id = fid,
                  lkpr_req_fp = fp_to_i64 req_fp, lkpr_resp_fp = fp_to_i64 resp_fp,
                  lkpr_req_arena = req_arena, lkpr_status = STATUS_OK, lkpr_message = []\<rparr>
             | Inl (code, msg) \<Rightarrow>
                 \<lparr>lkpr_correlation_id = lkp_correlation_id m, lkpr_fn_id = 0,
                  lkpr_req_fp = 0, lkpr_resp_fp = 0, lkpr_req_arena = [],
                  lkpr_status = code, lkpr_message = msg\<rparr>) b w)"

section \<open>The control loop\<close>

definition handle :: "'sc broker_env \<Rightarrow> bytes \<Rightarrow> broker \<Rightarrow> shm \<Rightarrow> outcome" where
  "handle env bs b w =
     (case frame_decode bs of
        Inl e \<Rightarrow> Some (Inl e, b, w)
      | Inr f \<Rightarrow>
          (case kind_of (be_cat env) (frame_schema_fp f) of
             None \<Rightarrow> Some (Inl (IoOther ''unknown control schema fingerprint''), b, w)
           | Some k \<Rightarrow>
               (case k of
                  Register \<Rightarrow> on_register env f b w
                | Unregister \<Rightarrow> on_unregister env f b w
                | PublishChannel \<Rightarrow> on_publish env f b w
                | Unpublish \<Rightarrow> on_unpublish env f b w
                | ListChannels \<Rightarrow> on_list env f b w
                | Subscribe \<Rightarrow> on_subscribe env f b w
                | ExposeFunction \<Rightarrow> on_expose env f b w
                | LookupFunction \<Rightarrow> on_lookup env f b w
                | Heartbeat \<Rightarrow> Some (Inr (), b, w)
                | _ \<Rightarrow> Some (Inl (IoOther (''unexpected control kind '' @ kind_name k)), b, w))))"

definition sweep :: "'sc broker_env \<Rightarrow> broker \<Rightarrow> shm \<Rightarrow> broker \<times> shm" where
  "sweep env b w =
     (let (arenas, g) = reap_released (be_now env) RELEASE_GRACE (br_reg b)
      in fold (reclaim_arena (be_os env)) arenas (b\<lparr>br_reg := g\<rparr>, w))"

text \<open>
  \<open>run\<close> has one environment per turn of the loop, with what the other processes have done to the shared
  memory since the turn before (they create and remove segments of their own, and write into those they
  share with the broker) and the schedule of the wait for a message; the loop ends when the environments
  do (\<^verbatim>\<open>should_run\<close> turns false). \<open>None\<close>: the loop is stuck in a turn.
\<close>

fun run :: "('sc broker_env \<times> (shm \<Rightarrow> shm) \<times> nat \<times> schedule) list \<Rightarrow> nat \<Rightarrow> broker \<Rightarrow> shm \<Rightarrow> (broker \<times> shm) option" where
  "run [] last_sweep b w = Some (b, w)"
| "run ((env, others, parks, es) # turns) last_sweep b w =
     (case pop_blocking (br_submission b) (Some parks) es (ring_mem (br_submission b) (others w)) of
        None \<Rightarrow> None
      | Some (v, m, _) \<Rightarrow>
          (let w1 = set_ring_mem (br_submission b) m (others w) in
           case (case v of None \<Rightarrow> Some (Inr (), b, w1) | Some bs \<Rightarrow> handle env bs b w1) of
             None \<Rightarrow> None
           | Some (res, b2, w2) \<Rightarrow>
               if SWEEP_INTERVAL \<le> be_now env - last_sweep
               then (let (b3, w3) = sweep env b2 w2 in run turns (be_now env) b3 w3)
               else run turns last_sweep b2 w2))"

end
