(* ===== verification/Ring_Client.thy ===== *)
theory Ring_Client
  imports Ring_Broker
begin

text \<open>
  The connector's shared state and control-plane round trips (\<^verbatim>\<open>crates/connector/src/client.rs\<close>):
  reply slots, the transport of one broker generation, bootstrap, the control calls, the cache of
  resolved callees, reconnection with replay, the dispatcher and the watcher.

  The state \<open>conn\<close> is the connection's \<^verbatim>\<open>Inner\<close> and the shared memory. What an \<^verbatim>\<open>Arc\<close> points to
  and two owners share (a slot, a ring cell, a waker's flag) lives in a table of \<open>inner\<close> under a
  number. An operation that can block takes a list of turns, one for each blocking call it makes:
  a turn says what others do to a ring while a push is parked on it, after how many parks the push
  gives up, and what happens to the connection and the shared memory during a wait for a
  reply (the broker answers, the dispatcher routes, another thread reconnects). The result
  \<open>None\<close> means that the operation is still blocked when its turns are over. Between two blocking
  calls an operation runs by itself, as it does under the connection's locks.
\<close>

section \<open>Slots\<close>

record slot =
  sl_frame :: "frame option"
  sl_waker :: "nat option"

definition slot_new :: slot where
  "slot_new = \<lparr>sl_frame = None, sl_waker = None\<rparr>"

text \<open>The waker that is woken, if there is one, is returned beside the slot.\<close>

definition slot_complete :: "frame \<Rightarrow> slot \<Rightarrow> slot \<times> nat option" where
  "slot_complete f s = (s\<lparr>sl_frame := Some f, sl_waker := None\<rparr>, sl_waker s)"

definition slot_take :: "slot \<Rightarrow> frame option \<times> slot" where
  "slot_take s = (sl_frame s, s\<lparr>sl_frame := None\<rparr>)"

definition slot_poll :: "nat \<Rightarrow> slot \<Rightarrow> frame option \<times> slot" where
  "slot_poll waker s =
     (case sl_frame s of
        Some f \<Rightarrow> (Some f, s\<lparr>sl_frame := None\<rparr>)
      | None \<Rightarrow> (None, s\<lparr>sl_waker := Some waker\<rparr>))"

section \<open>State\<close>

record transport =
  tp_submission :: ring
  tp_reply_ring :: ring
  tp_reply_segment :: string
  tp_nonce :: u64
  tp_client_id :: i64
  tp_epoch :: u64
  tp_control_seg :: segment
  tp_reply_seg :: segment

datatype reg =
    RegChannel (re_name: string) (re_schema_json: string) (re_key: "string option") (re_arena_cap: i64) (re_ring: nat)
  | RegFunction (re_name: string) (re_req_schema_json: string) (re_resp_schema_json: string)
      (re_key: "string option") (re_arena_cap: i64) (re_ring: nat)

record callee =
  ca_req_fp :: fingerprint
  ca_resp_fp :: fingerprint
  ca_ring :: ring

record inner =
  in_transport :: transport
  in_pending :: "(i64, nat) hash_map"
  in_callees :: "(string \<times> string, callee) hash_map"
  in_app_name :: string
  in_reply_cap :: usize
  in_running :: bool
  in_auto_reconnect :: bool
  in_registry :: "(u64, reg) hash_map"
  in_reg_seq :: u64
  in_slots :: "nat \<Rightarrow> slot"
  in_next_slot :: nat
  in_cells :: "nat \<Rightarrow> ring"
  in_next_cell :: nat
  in_notified :: "nat \<Rightarrow> bool"

record conn =
  cn_inner :: inner
  cn_shm :: shm
  cn_draws :: nat

record 'sc client_env =
  ce_os :: os_env
  ce_lib :: "'sc avro_lib"
  ce_cat :: "'sc catalog"
  ce_pid :: nat
  ce_random :: "nat \<Rightarrow> bytes"

record turn =
  tn_parks :: nat
  tn_push :: schedule
  tn_wait :: "(bool \<times> (conn \<Rightarrow> conn)) list"

type_synonym 'a act = "turn list \<Rightarrow> conn \<Rightarrow> ('a io_result \<times> turn list \<times> conn) option"

definition act_return :: "'a \<Rightarrow> 'a act" where
  "act_return x ts c = Some (Inr x, ts, c)"

definition act_fail :: "io_error \<Rightarrow> 'a act" where
  "act_fail e ts c = Some (Inl e, ts, c)"

definition act_bind :: "'a act \<Rightarrow> ('a \<Rightarrow> 'b act) \<Rightarrow> 'b act" where
  "act_bind m k ts c =
     (case m ts c of
        None \<Rightarrow> None
      | Some (Inl e, ts1, c1) \<Rightarrow> Some (Inl e, ts1, c1)
      | Some (Inr x, ts1, c1) \<Rightarrow> k x ts1 c1)"

definition act_result :: "'a io_result \<Rightarrow> 'a act" where
  "act_result r ts c = Some (r, ts, c)"

definition upd_inner :: "(inner \<Rightarrow> inner) \<Rightarrow> conn \<Rightarrow> conn" where
  "upd_inner f c = c\<lparr>cn_inner := f (cn_inner c)\<rparr>"

definition upd_slot :: "nat \<Rightarrow> slot \<Rightarrow> conn \<Rightarrow> conn" where
  "upd_slot i s = upd_inner (\<lambda>n. n\<lparr>in_slots := (in_slots n)(i := s)\<rparr>)"

definition set_pending :: "((i64, nat) hash_map \<Rightarrow> (i64, nat) hash_map) \<Rightarrow> conn \<Rightarrow> conn" where
  "set_pending f = upd_inner (\<lambda>n. n\<lparr>in_pending := f (in_pending n)\<rparr>)"

definition next_corr :: "'sc client_env \<Rightarrow> conn \<Rightarrow> i64 \<times> conn" where
  "next_corr env c = (sint (random_u64 (ce_random env (cn_draws c))), c\<lparr>cn_draws := Suc (cn_draws c)\<rparr>)"

section \<open>Bootstrap\<close>

definition bootstrap :: "'sc client_env \<Rightarrow> usize \<Rightarrow> nat \<Rightarrow> shm \<Rightarrow> transport io_result \<times> nat \<times> shm" where
  "bootstrap env reply_cap draws w =
     (case segment_open (ce_os env) CONTROL_SEGMENT w of
        Inl e \<Rightarrow>
          (Inl (IoNew (err_kind e)
             (''cannot open control segment (is impulsed running?): '' @ show_io_error (ce_os env) e)), draws, w)
      | Inr control_seg \<Rightarrow>
          (let m = shm_obj w (seg_ptr control_seg) in
           case attach_control control_seg m of
             Inl e \<Rightarrow> (Inl e, draws, w)
           | Inr submission \<Rightarrow>
               (let epoch = broker_epoch m;
                    nonce = random_u64 (ce_random env draws);
                    reply_name = client_segment nonce;
                    cap = clamp_arena_cap (if reply_cap = 0 then REPLY_CAP else reply_cap)
                in case segment_create (ce_os env) reply_name (ring_bytes cap) w of
                     (Inl e, w1) \<Rightarrow> (Inl e, Suc draws, w1)
                   | (Inr reply_seg, w1) \<Rightarrow>
                       (case ring_format reply_seg 0 cap (shm_obj w1 (seg_ptr reply_seg)) of
                          (Inl e, m1) \<Rightarrow>
                            (Inl e, Suc draws,
                             segment_drop (ce_os env) reply_seg (set_obj (seg_ptr reply_seg) m1 w1))
                        | (Inr reply_ring, m1) \<Rightarrow>
                            (Inr \<lparr>tp_submission = submission, tp_reply_ring = reply_ring,
                                  tp_reply_segment = reply_name, tp_nonce = nonce, tp_client_id = 0,
                                  tp_epoch = epoch, tp_control_seg = control_seg, tp_reply_seg = reply_seg\<rparr>,
                             Suc draws, set_obj (seg_ptr reply_seg) m1 w1)))))"

definition live_broker_epoch :: "os_env \<Rightarrow> shm \<Rightarrow> u64 io_result" where
  "live_broker_epoch os w =
     io_bind (segment_open os CONTROL_SEGMENT w) (\<lambda>seg.
     io_bind (attach_control seg (shm_obj w (seg_ptr seg))) (\<lambda>_.
     Inr (broker_epoch (shm_obj w (seg_ptr seg)))))"

fun contains_text :: "string \<Rightarrow> string \<Rightarrow> bool" where
  "contains_text [] t = (t = [])"
| "contains_text (c # s) t = (starts_with (c # s) t \<or> contains_text s t)"

definition broker_unreachable :: "os_env \<Rightarrow> io_error \<Rightarrow> bool" where
  "broker_unreachable os e =
     (err_kind e = TimedOut \<or> err_kind e = NotFound \<or>
      contains_text (show_io_error os e) ''submission ring full'')"

section \<open>Accessors\<close>

definition client_id :: "conn \<Rightarrow> i64" where
  "client_id c = tp_client_id (in_transport (cn_inner c))"

definition reply_segment :: "conn \<Rightarrow> string" where
  "reply_segment c = tp_reply_segment (in_transport (cn_inner c))"

definition reply_capacity :: "conn \<Rightarrow> usize" where
  "reply_capacity c = ring_cap (tp_reply_ring (in_transport (cn_inner c)))"

definition epoch_of :: "conn \<Rightarrow> u64" where
  "epoch_of c = tp_epoch (in_transport (cn_inner c))"

definition set_auto_reconnect :: "bool \<Rightarrow> conn \<Rightarrow> conn" where
  "set_auto_reconnect on = upd_inner (\<lambda>n. n\<lparr>in_auto_reconnect := on\<rparr>)"

definition auto_reconnect :: "conn \<Rightarrow> bool" where
  "auto_reconnect c = in_auto_reconnect (cn_inner c)"

section \<open>Control calls\<close>

text \<open>A slot in the table of slots, registered under a correlation id.\<close>

definition register_pending :: "i64 \<Rightarrow> conn \<Rightarrow> nat \<times> conn" where
  "register_pending corr c =
     (let sid = in_next_slot (cn_inner c) in
      (sid, upd_inner (\<lambda>n. n\<lparr>in_pending := hm_insert corr sid (in_pending n),
               in_slots := (in_slots n)(sid := slot_new), in_next_slot := Suc sid\<rparr>) c))"

definition drop_pending :: "i64 \<Rightarrow> conn \<Rightarrow> conn" where
  "drop_pending corr = set_pending (hm_remove corr)"

text \<open>
  \<^verbatim>\<open>Slot::wait\<close>: each event is one return of \<^verbatim>\<open>wait_timeout\<close>, with its flag \<^verbatim>\<open>timed_out\<close> and what
  happened until then.
\<close>

fun slot_wait :: "nat \<Rightarrow> (bool \<times> (conn \<Rightarrow> conn)) list \<Rightarrow> conn \<Rightarrow> (frame option \<times> conn) option" where
  "slot_wait sid evs c =
     (case slot_take (in_slots (cn_inner c) sid) of
        (Some f, s) \<Rightarrow> Some (Some f, upd_slot sid s c)
      | (None, _) \<Rightarrow>
          (case evs of
             [] \<Rightarrow> None
           | (timed_out, e) # evs' \<Rightarrow>
               (let c1 = e c in
                if timed_out
                then (case slot_take (in_slots (cn_inner c1) sid) of (r, s) \<Rightarrow> Some (r, upd_slot sid s c1))
                else slot_wait sid evs' c1)))"

declare slot_wait.simps [simp del]

text \<open>A push onto a ring of the shared memory, during one turn.\<close>

definition push_ring :: "turn \<Rightarrow> ring \<Rightarrow> bytes \<Rightarrow> conn \<Rightarrow> (bool \<times> conn) option" where
  "push_ring t r bs c =
     (case push_blocking r bs (Some (tn_parks t)) (tn_push t) (ring_mem r (cn_shm c)) of
        None \<Rightarrow> None
      | Some (ok, m, _) \<Rightarrow> Some (ok, c\<lparr>cn_shm := set_ring_mem r m (cn_shm c)\<rparr>))"

fun call_control :: "i64 \<Rightarrow> frame \<Rightarrow> frame act" where
  "call_control corr f [] c = None"
| "call_control corr f (t # ts) c =
     (let (sid, c1) = register_pending corr c;
          submission = tp_submission (in_transport (cn_inner c1))
      in case push_ring t submission (frame_encode f) c1 of
           None \<Rightarrow> None
         | Some (False, c2) \<Rightarrow>
             Some (Inl (IoOther ''submission ring full (broker stuck?)''), ts, drop_pending corr c2)
         | Some (True, c2) \<Rightarrow>
             (case slot_wait sid (tn_wait t) c2 of
                None \<Rightarrow> None
              | Some (Some answer, c3) \<Rightarrow> Some (Inr answer, ts, c3)
              | Some (None, c3) \<Rightarrow>
                  Some (Inl (IoNew TimedOut ''timed out waiting for broker reply''), ts, drop_pending corr c3)))"

text \<open>\<^verbatim>\<open>submit\<close>: the caller takes the result as a boolean.\<close>

fun client_submit :: "frame \<Rightarrow> bool act" where
  "client_submit f [] c = None"
| "client_submit f (t # ts) c =
     (case push_ring t (tp_submission (in_transport (cn_inner c))) (frame_encode f) c of
        None \<Rightarrow> None
      | Some (ok, c1) \<Rightarrow> Some (Inr ok, ts, c1))"

text \<open>
  What every control request does: draw a correlation id, build the message with it and the
  current client id, frame it, send it, wait for the reply and read it.
\<close>

definition control_round_trip ::
  "'sc client_env \<Rightarrow> ('m \<Rightarrow> avro_value) \<Rightarrow> kind \<Rightarrow> (i64 \<Rightarrow> conn \<Rightarrow> 'm) \<Rightarrow>
   ('sc avro_lib \<Rightarrow> avro_value \<Rightarrow> 'r option) \<Rightarrow> kind \<Rightarrow> 'r act" where
  "control_round_trip env to_v k msg from_v rk ts c =
     (let (corr, c1) = next_corr env c in
      case to_frame (ce_lib env) (ce_cat env) to_v k (msg corr c1) of
        Inl e \<Rightarrow> Some (Inl e, ts, c1)
      | Inr f \<Rightarrow>
          act_bind (call_control corr f)
            (\<lambda>reply. act_result (from_frame (ce_lib env) (ce_cat env) from_v rk reply)) ts c1)"

definition attach_arena :: "'sc client_env \<Rightarrow> string \<Rightarrow> ring act" where
  "attach_arena env nm ts c =
     Some (io_bind (segment_open (ce_os env) nm (cn_shm c)) (\<lambda>seg.
             ring_attach seg 0 (shm_obj (cn_shm c) (seg_ptr seg))), ts, c)"

definition key_str :: "string option \<Rightarrow> string" where
  "key_str key = (case key of None \<Rightarrow> [] | Some k \<Rightarrow> k)"

definition do_register :: "'sc client_env \<Rightarrow> i64 act" where
  "do_register env =
     act_bind
       (control_round_trip env register_to_value Register
          (\<lambda>corr c. \<lparr>reg_correlation_id = corr, reg_app_name = in_app_name (cn_inner c),
             reg_nonce = sint (tp_nonce (in_transport (cn_inner c))),
             reg_reply_segment = reply_segment c, reg_heartbeat_ms = 1000, reg_pid = int (ce_pid env)\<rparr>)
          register_reply_from_value RegisterReply)
       (\<lambda>rr ts c.
          if regr_status rr \<noteq> STATUS_OK
          then Some (Inl (IoOther (''register rejected: '' @ regr_message rr)), ts, c)
          else Some (Inr (regr_client_id rr), ts,
                 upd_inner (\<lambda>n. n\<lparr>in_transport := (in_transport n)\<lparr>tp_client_id := regr_client_id rr\<rparr>\<rparr>) c))"

definition do_publish ::
  "'sc client_env \<Rightarrow> string \<Rightarrow> string \<Rightarrow> string option \<Rightarrow> i64 \<Rightarrow> (ring \<times> fingerprint) act" where
  "do_publish env nm schema key arena_cap =
     act_bind
       (control_round_trip env publish_channel_to_value PublishChannel
          (\<lambda>corr c. \<lparr>pub_correlation_id = corr, pub_client_id = client_id c, pub_channel = nm,
             pub_schema_json = schema, pub_access_key = key_str key, pub_arena_cap = arena_cap\<rparr>)
          publish_reply_from_value PublishReply)
       (\<lambda>pr. if pubr_status pr \<noteq> STATUS_OK then act_fail (IoOther (''publish failed: '' @ pubr_message pr))
             else act_bind (attach_arena env (pubr_arena pr))
               (\<lambda>r. act_return (r, i64_to_fp (pubr_schema_fp pr))))"

definition client_list_channels :: "'sc client_env \<Rightarrow> channel_info list act" where
  "client_list_channels env =
     act_bind
       (control_round_trip env list_channels_to_value ListChannels
          (\<lambda>corr c. \<lparr>lst_correlation_id = corr, lst_client_id = client_id c\<rparr>)
          channel_list_from_value ChannelList)
       (\<lambda>list. act_return (chl_channels list))"

definition do_subscribe ::
  "'sc client_env \<Rightarrow> i64 \<Rightarrow> string option \<Rightarrow> fingerprint \<Rightarrow> (ring \<times> fingerprint) act" where
  "do_subscribe env channel_id key expected_fp =
     act_bind
       (control_round_trip env subscribe_to_value Subscribe
          (\<lambda>corr c. \<lparr>sub_correlation_id = corr, sub_client_id = client_id c, sub_channel_id = channel_id,
             sub_access_key = key_str key, sub_expected_fp = fp_to_i64 expected_fp\<rparr>)
          subscribe_reply_from_value SubscribeReply)
       (\<lambda>sr. if subr_status sr \<noteq> STATUS_OK then act_fail (IoOther (''subscribe failed: '' @ subr_message sr))
             else act_bind (attach_arena env (subr_arena sr))
               (\<lambda>r. act_return (r, i64_to_fp (subr_schema_fp sr))))"

definition do_expose ::
  "'sc client_env \<Rightarrow> string \<Rightarrow> string \<Rightarrow> string \<Rightarrow> string option \<Rightarrow> i64 \<Rightarrow>
   (ring \<times> fingerprint \<times> fingerprint) act" where
  "do_expose env nm req_schema_json resp_schema_json key arena_cap =
     act_bind
       (control_round_trip env expose_function_to_value ExposeFunction
          (\<lambda>corr c. \<lparr>exp_correlation_id = corr, exp_client_id = client_id c, exp_fn_name = nm,
             exp_req_schema_json = req_schema_json, exp_resp_schema_json = resp_schema_json,
             exp_access_key = key_str key, exp_req_arena_cap = arena_cap\<rparr>)
          expose_reply_from_value ExposeReply)
       (\<lambda>er. if expr_status er \<noteq> STATUS_OK then act_fail (IoOther (''expose failed: '' @ expr_message er))
             else act_bind (attach_arena env (expr_req_arena er))
               (\<lambda>r. act_return (r, i64_to_fp (expr_req_fp er), i64_to_fp (expr_resp_fp er))))"

definition do_lookup :: "'sc client_env \<Rightarrow> string \<Rightarrow> string option \<Rightarrow> lookup_reply act" where
  "do_lookup env fn_name key =
     act_bind
       (control_round_trip env lookup_function_to_value LookupFunction
          (\<lambda>corr c. \<lparr>lkp_correlation_id = corr, lkp_client_id = client_id c, lkp_fn_name = fn_name,
             lkp_access_key = key_str key\<rparr>)
          lookup_reply_from_value LookupReply)
       (\<lambda>lr. if lkpr_status lr \<noteq> STATUS_OK then act_fail (IoOther (''lookup failed: '' @ lkpr_message lr))
             else act_return lr)"

section \<open>Callees\<close>

definition callee_key :: "string \<Rightarrow> string option \<Rightarrow> string \<times> string" where
  "callee_key fn_name key = (fn_name, key_str key)"

definition resolve_callee :: "'sc client_env \<Rightarrow> string \<Rightarrow> string option \<Rightarrow> callee act" where
  "resolve_callee env fn_name key ts c =
     (case hm_get (in_callees (cn_inner c)) (callee_key fn_name key) of
        Some ca \<Rightarrow> Some (Inr ca, ts, c)
      | None \<Rightarrow>
          act_bind (do_lookup env fn_name key)
            (\<lambda>lr. act_bind (attach_arena env (lkpr_req_arena lr))
               (\<lambda>r ts c.
                  let ca = \<lparr>ca_req_fp = i64_to_fp (lkpr_req_fp lr), ca_resp_fp = i64_to_fp (lkpr_resp_fp lr),
                            ca_ring = r\<rparr>
                  in Some (Inr ca, ts,
                       upd_inner (\<lambda>n. n\<lparr>in_callees := hm_insert (callee_key fn_name key) ca (in_callees n)\<rparr>) c)))
            ts c)"

definition function_arena_capacity :: "'sc client_env \<Rightarrow> string \<Rightarrow> string option \<Rightarrow> usize act" where
  "function_arena_capacity env fn_name key =
     act_bind (resolve_callee env fn_name key) (\<lambda>ca. act_return (ring_cap (ca_ring ca)))"

definition forget_callee :: "string \<Rightarrow> string option \<Rightarrow> conn \<Rightarrow> conn" where
  "forget_callee fn_name key =
     upd_inner (\<lambda>n. n\<lparr>in_callees := hm_remove (callee_key fn_name key) (in_callees n)\<rparr>)"

definition matching_callee ::
  "'sc client_env \<Rightarrow> string \<Rightarrow> string option \<Rightarrow> fingerprint \<Rightarrow> fingerprint \<Rightarrow> callee act" where
  "matching_callee env fn_name key req_fp resp_fp =
     act_bind (resolve_callee env fn_name key)
       (\<lambda>ca ts c.
          if ca_req_fp ca = req_fp \<and> ca_resp_fp ca = resp_fp then Some (Inr ca, ts, c)
          else act_bind (resolve_callee env fn_name key)
            (\<lambda>ca'. if ca_req_fp ca' \<noteq> req_fp then act_fail (IoOther ''call rejected: request schema mismatch'')
                   else if ca_resp_fp ca' \<noteq> resp_fp then act_fail (IoOther ''call rejected: response schema mismatch'')
                   else act_return ca') ts (forget_callee fn_name key c))"

section \<open>Registrations to replay\<close>

definition register_entry :: "reg \<Rightarrow> conn \<Rightarrow> u64 \<times> conn" where
  "register_entry r c =
     (let i = in_reg_seq (cn_inner c) in
      (i, upd_inner (\<lambda>n. n\<lparr>in_reg_seq := i + 1, in_registry := hm_insert i r (in_registry n)\<rparr>) c))"

definition deregister :: "u64 \<Rightarrow> conn \<Rightarrow> conn" where
  "deregister i = upd_inner (\<lambda>n. n\<lparr>in_registry := hm_remove i (in_registry n)\<rparr>)"

definition new_cell :: "ring \<Rightarrow> conn \<Rightarrow> nat \<times> conn" where
  "new_cell r c =
     (let i = in_next_cell (cn_inner c) in
      (i, upd_inner (\<lambda>n. n\<lparr>in_cells := (in_cells n)(i := r), in_next_cell := Suc i\<rparr>) c))"

definition set_cell :: "nat \<Rightarrow> ring \<Rightarrow> conn \<Rightarrow> conn" where
  "set_cell i r = upd_inner (\<lambda>n. n\<lparr>in_cells := (in_cells n)(i := r)\<rparr>)"

section \<open>Reconnecting\<close>

fun replay_channels :: "'sc client_env \<Rightarrow> reg list \<Rightarrow> unit act" where
  "replay_channels env (RegChannel nm schema key cap cell # rs) ts c =
     (case do_publish env nm schema key cap ts c of
        None \<Rightarrow> None
      | Some (Inr (r, _), ts1, c1) \<Rightarrow> replay_channels env rs ts1 (set_cell cell r c1)
      | Some (Inl e, ts1, c1) \<Rightarrow> replay_channels env rs ts1 c1)"
| "replay_channels env (RegFunction _ _ _ _ _ _ # rs) ts c = replay_channels env rs ts c"
| "replay_channels env [] ts c = Some (Inr (), ts, c)"

fun replay_functions :: "'sc client_env \<Rightarrow> reg list \<Rightarrow> unit act" where
  "replay_functions env (RegFunction nm req resp key cap cell # rs) ts c =
     (case do_expose env nm req resp key cap ts c of
        None \<Rightarrow> None
      | Some (Inr (r, _), ts1, c1) \<Rightarrow> replay_functions env rs ts1 (set_cell cell r c1)
      | Some (Inl e, ts1, c1) \<Rightarrow> replay_functions env rs ts1 c1)"
| "replay_functions env (RegChannel _ _ _ _ _ # rs) ts c = replay_functions env rs ts c"
| "replay_functions env [] ts c = Some (Inr (), ts, c)"

definition replay :: "'sc client_env \<Rightarrow> unit act" where
  "replay env ts c =
     (let rs = map snd (hm_entries (in_registry (cn_inner c)))
      in act_bind (replay_channels env rs) (\<lambda>_. replay_functions env rs) ts c)"

text \<open>
  The old transport is dropped when the new one takes its place, and its reply segment is
  unlinked with it.
\<close>

definition install_transport :: "os_env \<Rightarrow> transport \<Rightarrow> conn \<Rightarrow> conn" where
  "install_transport os tp c =
     c\<lparr>cn_inner := (cn_inner c)\<lparr>in_pending := hm_empty, in_callees := hm_empty, in_transport := tp\<rparr>,
       cn_shm := segment_drop os (tp_reply_seg (in_transport (cn_inner c))) (cn_shm c)\<rparr>"

definition reconnect :: "'sc client_env \<Rightarrow> u64 \<Rightarrow> unit act" where
  "reconnect env failed_epoch ts c =
     (if epoch_of c \<noteq> failed_epoch then Some (Inr (), ts, c)
      else case bootstrap env (in_reply_cap (cn_inner c)) (cn_draws c) (cn_shm c) of
        (Inl e, d, w) \<Rightarrow> Some (Inl e, ts, c\<lparr>cn_draws := d, cn_shm := w\<rparr>)
      | (Inr tp, d, w) \<Rightarrow>
          act_bind (do_register env) (\<lambda>_. replay env) ts
            (install_transport (ce_os env) tp (c\<lparr>cn_draws := d, cn_shm := w\<rparr>)))"

definition with_reconnect :: "'sc client_env \<Rightarrow> 'a act \<Rightarrow> 'a act" where
  "with_reconnect env oper ts c =
     (case oper ts c of
        None \<Rightarrow> None
      | Some (Inr v, ts1, c1) \<Rightarrow> Some (Inr v, ts1, c1)
      | Some (Inl e, ts1, c1) \<Rightarrow>
          if \<not> auto_reconnect c1 \<or> \<not> broker_unreachable (ce_os env) e then Some (Inl e, ts1, c1)
          else (let observed = epoch_of c1 in
                case live_broker_epoch (ce_os env) (cn_shm c1) of
                  Inr live \<Rightarrow>
                    if live \<noteq> observed then act_bind (reconnect env observed) (\<lambda>_. oper) ts1 c1
                    else Some (Inl e, ts1, c1)
                | Inl _ \<Rightarrow> Some (Inl e, ts1, c1)))"

definition send_unpublish :: "'sc client_env \<Rightarrow> string \<Rightarrow> unit act" where
  "send_unpublish env channel ts c =
     (let (corr, c1) = next_corr env c in
      case to_frame (ce_lib env) (ce_cat env) unpublish_to_value Unpublish
             \<lparr>unpub_correlation_id = corr, unpub_client_id = client_id c1, unpub_channel = channel\<rparr> of
        Inl e \<Rightarrow> Some (Inr (), ts, c1)
      | Inr f \<Rightarrow> act_bind (client_submit f) (\<lambda>_. act_return ()) ts c1)"

definition send_unregister :: "'sc client_env \<Rightarrow> unit act" where
  "send_unregister env ts c =
     (let (corr, c1) = next_corr env c in
      case to_frame (ce_lib env) (ce_cat env) unregister_to_value Unregister
             \<lparr>unreg_correlation_id = corr, unreg_client_id = client_id c1\<rparr> of
        Inl e \<Rightarrow> Some (Inr (), ts, c1)
      | Inr f \<Rightarrow> act_bind (client_submit f) (\<lambda>_. act_return ()) ts c1)"

section \<open>Connecting\<close>

definition client_start :: "string \<Rightarrow> usize \<Rightarrow> transport \<Rightarrow> inner" where
  "client_start app_name reply_cap tp =
     \<lparr>in_transport = tp, in_pending = hm_empty, in_callees = hm_empty, in_app_name = app_name,
      in_reply_cap = reply_cap, in_running = True, in_auto_reconnect = True, in_registry = hm_empty,
      in_reg_seq = 1, in_slots = (\<lambda>_. slot_new), in_next_slot = 0,
      in_cells = (\<lambda>_. tp_reply_ring tp), in_next_cell = 0, in_notified = (\<lambda>_. False)\<rparr>"

text \<open>When the registration fails the state is dropped, and the reply segment is unlinked with it.\<close>

definition client_connect ::
  "'sc client_env \<Rightarrow> string \<Rightarrow> usize \<Rightarrow> turn list \<Rightarrow> nat \<Rightarrow> shm \<Rightarrow> ((io_error \<times> shm) + (turn list \<times> conn)) option" where
  "client_connect env app_name reply_cap ts draws w =
     (case bootstrap env reply_cap draws w of
        (Inl e, d, w1) \<Rightarrow> Some (Inl (e, w1))
      | (Inr tp, d, w1) \<Rightarrow>
          (case do_register env ts \<lparr>cn_inner = client_start app_name reply_cap tp, cn_shm = w1, cn_draws = d\<rparr> of
             None \<Rightarrow> None
           | Some (Inl e, ts1, c) \<Rightarrow>
               Some (Inl (e, segment_drop (ce_os env) (tp_reply_seg (in_transport (cn_inner c))) (cn_shm c)))
           | Some (Inr _, ts1, c) \<Rightarrow> Some (Inr (ts1, c))))"

section \<open>The dispatcher and the watcher\<close>

definition complete_slot :: "nat \<Rightarrow> frame \<Rightarrow> conn \<Rightarrow> conn" where
  "complete_slot sid f c =
     (let (s, waker) = slot_complete f (in_slots (cn_inner c) sid);
          c1 = upd_slot sid s c
      in case waker of
           None \<Rightarrow> c1
         | Some w \<Rightarrow> upd_inner (\<lambda>n. n\<lparr>in_notified := (in_notified n)(w := True)\<rparr>) c1)"

definition route_frame :: "'sc client_env \<Rightarrow> bytes \<Rightarrow> conn \<Rightarrow> conn" where
  "route_frame env bs c =
     (case frame_decode bs of
        Inl e \<Rightarrow> c
      | Inr f \<Rightarrow>
          (case correlation_id (ce_lib env) (ce_cat env) f of
             Inl e \<Rightarrow> c
           | Inr corr \<Rightarrow>
               (case hm_get (in_pending (cn_inner c)) corr of
                  None \<Rightarrow> c
                | Some sid \<Rightarrow> complete_slot sid f (set_pending (hm_remove corr) c))))"

text \<open>One turn of the dispatcher's loop, with the schedule of its wait on the reply ring.\<close>

definition dispatch_turn :: "'sc client_env \<Rightarrow> nat \<Rightarrow> schedule \<Rightarrow> conn \<Rightarrow> conn option" where
  "dispatch_turn env parks es c =
     (let r = tp_reply_ring (in_transport (cn_inner c)) in
      case pop_blocking r (Some parks) es (ring_mem r (cn_shm c)) of
        None \<Rightarrow> None
      | Some (v, m, _) \<Rightarrow>
          (let c1 = c\<lparr>cn_shm := set_ring_mem r m (cn_shm c)\<rparr> in
           case v of None \<Rightarrow> Some c1 | Some bs \<Rightarrow> Some (route_frame env bs c1)))"

fun run_dispatcher :: "'sc client_env \<Rightarrow> (nat \<times> schedule) list \<Rightarrow> conn \<Rightarrow> conn option" where
  "run_dispatcher env [] c = Some c"
| "run_dispatcher env ((parks, es) # turns) c =
     (if in_running (cn_inner c)
      then (case dispatch_turn env parks es c of None \<Rightarrow> None | Some c1 \<Rightarrow> run_dispatcher env turns c1)
      else Some c)"

definition watch_turn :: "'sc client_env \<Rightarrow> turn list \<Rightarrow> conn \<Rightarrow> (turn list \<times> conn) option" where
  "watch_turn env ts c =
     (if \<not> in_running (cn_inner c) \<or> \<not> auto_reconnect c then Some (ts, c)
      else (let observed = epoch_of c in
            case live_broker_epoch (ce_os env) (cn_shm c) of
              Inl _ \<Rightarrow> Some (ts, c)
            | Inr live \<Rightarrow>
                if live \<noteq> observed
                then (case reconnect env observed ts c of None \<Rightarrow> None | Some (_, ts1, c1) \<Rightarrow> Some (ts1, c1))
                else Some (ts, c)))"

text \<open>The watcher sleeps between its turns; \<open>naps\<close> is what happens to the connection meanwhile.\<close>

fun run_watcher :: "'sc client_env \<Rightarrow> (conn \<Rightarrow> conn) list \<Rightarrow> turn list \<Rightarrow> conn \<Rightarrow> (turn list \<times> conn) option" where
  "run_watcher env [] ts c = Some (ts, c)"
| "run_watcher env (nap # naps) ts c =
     (if in_running (cn_inner c)
      then (case watch_turn env ts (nap c) of None \<Rightarrow> None | Some (ts1, c1) \<Rightarrow> run_watcher env naps ts1 c1)
      else Some (ts, c))"

end
