(* ===== verification/Ring_Broker_Inv.thy ===== *)
theory Ring_Broker_Inv
  imports Ring_Broker
begin

text \<open>
  The invariant of the broker and its preservation by every handler: the registry is consistent,
  the arenas the broker keeps are exactly those of the channels and functions it has registered,
  every client has its reply ring; and, as long as the kernel does not fail half way, the arena
  names in the shared memory directory are exactly the broker's arenas.
\<close>

section \<open>Arena names\<close>

definition arena_names :: "registry \<Rightarrow> string set" where
  "arena_names g = {ch_arena c | c i. hm_get (rg_channels g) i = Some c} \<union>
     {fm_req_arena f | f i. hm_get (rg_functions g) i = Some f}"

lemma word_of_int_inject_pos:
  assumes "0 < i" "i < 2 ^ 63" "0 < j" "j < 2 ^ 63" "(word_of_int i :: u64) = word_of_int j"
  shows "i = j"
  using assms wrap_i64_id [of i] wrap_i64_id [of j] by (simp add: wrap_i64_def)

lemma channel_arena_inject:
  assumes "reg_ok g" "hm_get (rg_channels g) i = Some c" "hm_get (rg_channels g) j = Some d" "ch_arena c = ch_arena d"
  shows "i = j"
proof (rule word_of_int_inject_pos)
  have c: "0 < i" "i < rg_next_channel g" "ch_arena c = channel_arena (word_of_int i)"
    and d: "0 < j" "j < rg_next_channel g" "ch_arena d = channel_arena (word_of_int j)"
    and n: "rg_next_channel g < 2 ^ 63"
    using assms(1-3) by (auto simp: reg_ok_def channels_ok_def counters_ok_def)
  show "0 < i" "i < 2 ^ 63" "0 < j" "j < 2 ^ 63" using c d n by simp_all
  show "(word_of_int i :: u64) = word_of_int j" using c(3) d(3) assms(4) by simp
qed

lemma function_arena_inject:
  assumes "reg_ok g" "hm_get (rg_functions g) i = Some c" "hm_get (rg_functions g) j = Some d"
    "fm_req_arena c = fm_req_arena d"
  shows "i = j"
proof (rule word_of_int_inject_pos)
  have c: "0 < i" "i < rg_next_fn g" "fm_req_arena c = function_arena (word_of_int i)"
    and d: "0 < j" "j < rg_next_fn g" "fm_req_arena d = function_arena (word_of_int j)"
    and n: "rg_next_fn g < 2 ^ 63"
    using assms(1-3) by (auto simp: reg_ok_def functions_ok_def counters_ok_def)
  show "0 < i" "i < 2 ^ 63" "0 < j" "j < 2 ^ 63" using c d n by simp_all
  show "(word_of_int i :: u64) = word_of_int j" using c(3) d(3) assms(4) by simp
qed

lemma arena_kinds:
  assumes "reg_ok g" "hm_get (rg_channels g) i = Some c" "hm_get (rg_functions g) j = Some f"
  shows "ch_arena c \<noteq> fm_req_arena f"
  using assms by (simp add: reg_ok_def channels_ok_def functions_ok_def)

lemma arena_names_drop_channels:
  assumes "reg_ok g" "distinct is"
  shows "arena_names (snd (drop_channels is g)) = arena_names g - set (fst (drop_channels is g))"
  unfolding arena_names_def chan.table_dels chan.dels_arenas [OF assms(2)] drop_channels_frame
  using channel_arena_inject [OF assms(1)] arena_kinds [OF assms(1)]
  by (auto split: if_splits) metis+

lemma arena_names_drop_functions:
  assumes "reg_ok g" "distinct is"
  shows "arena_names (snd (drop_functions is g)) = arena_names g - set (fst (drop_functions is g))"
  unfolding arena_names_def func.table_dels func.dels_arenas [OF assms(2)] drop_functions_frame
  using function_arena_inject [OF assms(1)] arena_kinds [OF assms(1)]
  by (auto split: if_splits) metis+

lemma arena_names_drop_channel:
  assumes "reg_ok g" "drop_channel i g = (Some a, g')"
  shows "arena_names g' = arena_names g - {a}"
  using arena_names_drop_channels [OF assms(1), of "[i]"] assms(2) by simp

lemma arena_names_same [simp]:
  "arena_names (remove_client i g) = arena_names g" "arena_names (mark_subscribed i g) = arena_names g"
  "arena_names (snd (add_client app pid g)) = arena_names g" "arena_names (snd (alloc_channel_id g)) = arena_names g"
  "arena_names (snd (alloc_fn_id g)) = arena_names g" "arena_names (g\<lparr>rg_released := rl\<rparr>) = arena_names g"
  "arena_names (g\<lparr>rg_subscribed := ss\<rparr>) = arena_names g" "arena_names (g\<lparr>rg_next_channel := n\<rparr>) = arena_names g"
  "arena_names (g\<lparr>rg_next_fn := n\<rparr>) = arena_names g"
  by (simp_all add: arena_names_def remove_client_def mark_subscribed_def add_client_def alloc_channel_id_def
      alloc_fn_id_def Let_def)

lemma image_table_insert:
  assumes "t k = None"
  shows "{f e | e i. (if i = k then Some c else t i) = Some e} = insert (f c) {f e | e i. t i = Some e}"
proof (intro set_eqI iffI)
  fix x assume "x \<in> insert (f c) {f e | e i. t i = Some e}"
  then consider "x = f c" | e i where "x = f e" "t i = Some e" by auto
  then show "x \<in> {f e | e i. (if i = k then Some c else t i) = Some e}"
  proof cases
    case 1
    then show ?thesis by (auto intro!: exI [of _ c] exI [of _ k])
  next
    case (2 e i)
    with assms have "i \<noteq> k" by auto
    with 2 show ?thesis by (auto intro!: exI [of _ e] exI [of _ i])
  qed
qed (auto split: if_splits)

lemma arena_names_insert_channel:
  "hm_get (rg_channels g) (ch_id c) = None \<Longrightarrow> arena_names (insert_channel c g) = insert (ch_arena c) (arena_names g)"
  unfolding arena_names_def chan.table_ins using image_table_insert [of "hm_get (rg_channels g)" "ch_id c" ch_arena c]
  by (simp add: insert_channel_def)

lemma arena_names_insert_function:
  "hm_get (rg_functions g) (fm_id f) = None \<Longrightarrow> arena_names (insert_function f g) = insert (fm_req_arena f) (arena_names g)"
  unfolding arena_names_def func.table_ins using image_table_insert [of "hm_get (rg_functions g)" "fm_id f" fm_req_arena f]
  by (simp add: insert_function_def)

section \<open>The invariant\<close>

definition broker_inv :: "broker \<Rightarrow> bool" where
  "broker_inv b \<longleftrightarrow> reg_ok (br_reg b) \<and> hm_ok (br_arenas b) \<and> hm_ok (br_reply_segs b) \<and>
     (\<forall>n s. hm_get (br_arenas b) n = Some s \<longrightarrow> seg_name s = n \<and> owns_unlink s) \<and>
     (\<forall>i s. hm_get (br_reply_segs b) i = Some s \<longrightarrow> \<not> owns_unlink s) \<and>
     (\<forall>n. hm_contains (br_arenas b) n \<longleftrightarrow> n \<in> arena_names (br_reg b)) \<and>
     (\<forall>i. hm_contains (br_reply_rings b) i \<longleftrightarrow> hm_contains (rg_clients (br_reg b)) i) \<and>
     (\<forall>i. hm_contains (br_reply_segs b) i \<longleftrightarrow> hm_contains (rg_clients (br_reg b)) i)"

text \<open>The names reserved for arenas, and the agreement of the shared memory directory with the broker.\<close>

definition arena_space :: "string set" where
  "arena_space = range channel_arena \<union> range function_arena"

definition world_ok :: "broker \<Rightarrow> shm \<Rightarrow> bool" where
  "world_ok b w \<longleftrightarrow> shm_ok w \<and>
     (\<forall>n \<in> arena_space. sys_open n w = map_option seg_ptr (hm_get (br_arenas b) n))"

text \<open>
  A kernel that refuses a segment when it is opened or not at all: the calls that follow a
  successful \<^verbatim>\<open>shm_open\<close> and the removal of a name succeed.
\<close>

definition os_steady :: "os_env \<Rightarrow> bool" where
  "os_steady os \<longleftrightarrow> (\<forall>n. os_fchmod os n = None \<and> os_shm_unlink os n = None \<and>
     (\<forall>sz. os_ftruncate os n sz = None \<and> os_mmap os n sz = None))"

lemma arena_space_bus: "n \<in> arena_space \<Longrightarrow> n \<in> bus_names"
  by (auto simp: arena_space_def)

lemma arena_names_space: "reg_ok g \<Longrightarrow> arena_names g \<subseteq> arena_space"
  by (auto simp: arena_names_def arena_space_def reg_ok_def channels_ok_def functions_ok_def)

lemma world_ok_mem:
  "shm_dir w' = shm_dir w \<Longrightarrow> shm_next w' = shm_next w \<Longrightarrow> world_ok b w' = world_ok b w"
  by (simp add: world_ok_def shm_ok_def sys_open_def)

section \<open>Reclaiming arenas\<close>

lemma reclaim_arena_frame [simp]:
  "br_reg (fst (reclaim_arena os nm s)) = br_reg (fst s)"
  "br_reply_rings (fst (reclaim_arena os nm s)) = br_reply_rings (fst s)"
  "br_reply_segs (fst (reclaim_arena os nm s)) = br_reply_segs (fst s)"
  "br_control_seg (fst (reclaim_arena os nm s)) = br_control_seg (fst s)"
  "br_submission (fst (reclaim_arena os nm s)) = br_submission (fst s)"
  "hm_get (br_arenas (fst (reclaim_arena os nm s))) n = (if n = nm then None else hm_get (br_arenas (fst s)) n)"
  "hm_ok (br_arenas (fst s)) \<Longrightarrow> hm_ok (br_arenas (fst (reclaim_arena os nm s)))"
  by (auto simp: reclaim_arena_def split: prod.splits option.splits)

lemma reclaim_arenas_frame [simp]:
  "br_reg (fst (fold (reclaim_arena os) ns s)) = br_reg (fst s)"
  "br_reply_rings (fst (fold (reclaim_arena os) ns s)) = br_reply_rings (fst s)"
  "br_reply_segs (fst (fold (reclaim_arena os) ns s)) = br_reply_segs (fst s)"
  "hm_get (br_arenas (fst (fold (reclaim_arena os) ns s))) n =
     (if n \<in> set ns then None else hm_get (br_arenas (fst s)) n)"
  "hm_ok (br_arenas (fst s)) \<Longrightarrow> hm_ok (br_arenas (fst (fold (reclaim_arena os) ns s)))"
  by (induction ns arbitrary: s) auto

text \<open>The invariant with the registry ahead of the arenas by the names still to be reclaimed.\<close>

lemma broker_inv_reclaims:
  assumes inv: "broker_inv b" and g: "reg_ok g" "arena_names g = arena_names (br_reg b) - set ns"
    and cl: "rg_clients g = rg_clients (br_reg b)"
  shows "broker_inv (fst (fold (reclaim_arena os) ns (b\<lparr>br_reg := g\<rparr>, w)))"
  using assms by (auto simp: broker_inv_def hm_contains_def)

lemma unlink_steady:
  assumes "os_steady os" "n \<in> bus_names" "n' \<in> bus_names"
  shows "sys_open n' (snd (unlink os n w)) = (if n' = n then None else sys_open n' w)"
proof (cases "n' = n")
  case True
  then show ?thesis
    using assms bus_name_nul [OF assms(2)]
    by (auto simp: unlink_def os_steady_def sys_open_def split: option.splits)
next
  case False
  then have "shm_path n' \<noteq> shm_path n" using bus_name_path_inject assms by blast
  with False show ?thesis by (simp add: unlink_dir(2))
qed

lemma world_ok_reclaim:
  assumes "os_steady os" "world_ok b w" "nm \<in> arena_space"
    and "\<And>n s. hm_get (br_arenas b) n = Some s \<Longrightarrow> seg_name s = n \<and> owns_unlink s"
  shows "world_ok (fst (reclaim_arena os nm (b, w))) (snd (reclaim_arena os nm (b, w)))"
proof (cases "hm_get (br_arenas b) nm")
  case None
  with assms(2) show ?thesis by (simp add: reclaim_arena_def)
next
  case (Some seg)
  then have "segment_drop os seg w = snd (unlink os nm w)" using assms(4) by (simp add: segment_drop_def)
  moreover have "sys_open n (snd (unlink os nm w)) = (if n = nm then None else sys_open n w)" if "n \<in> arena_space" for n
    by (rule unlink_steady) (use assms that arena_space_bus in auto)
  ultimately show ?thesis
    using Some assms(2) shm_ok_unlink by (auto simp: reclaim_arena_def world_ok_def)
qed

lemma world_ok_reclaims:
  assumes "os_steady os" "world_ok (fst s) (snd s)" "set ns \<subseteq> arena_space"
    and "\<And>n seg. hm_get (br_arenas (fst s)) n = Some seg \<Longrightarrow> seg_name seg = n \<and> owns_unlink seg"
  shows "world_ok (fst (fold (reclaim_arena os) ns s)) (snd (fold (reclaim_arena os) ns s))"
  using assms
proof (induction ns arbitrary: s)
  case (Cons nm ns)
  have "world_ok (fst (reclaim_arena os nm s)) (snd (reclaim_arena os nm s))"
    using world_ok_reclaim [of os "fst s" "snd s" nm] Cons.prems by simp
  moreover have "seg_name seg = n \<and> owns_unlink seg" if "hm_get (br_arenas (fst (reclaim_arena os nm s))) n = Some seg" for n seg
    using that Cons.prems(4) by (simp split: if_splits)
  ultimately show ?case
    using Cons.IH [of "reclaim_arena os nm s"] Cons.prems(1,3) by simp
qed simp

lemma world_ok_reg [simp]: "world_ok (b\<lparr>br_reg := g\<rparr>) w = world_ok b w"
  by (simp add: world_ok_def)

section \<open>A departing client\<close>

text \<open>What \<^verbatim>\<open>release_client\<close> does, in one line per part of the state.\<close>

definition owned_channels :: "i64 \<Rightarrow> registry \<Rightarrow> i64 list" where
  "owned_channels cid g = hm_keys_where (\<lambda>c. ch_owner c = cid) (rg_channels g)"

definition owned_functions :: "i64 \<Rightarrow> registry \<Rightarrow> i64 list" where
  "owned_functions cid g = hm_keys_where (\<lambda>f. fm_owner f = cid) (rg_functions g)"

definition released_reg :: "i64 \<Rightarrow> registry \<Rightarrow> registry" where
  "released_reg cid g =
     remove_client cid (snd (drop_functions (owned_functions cid g) (snd (drop_channels (owned_channels cid g) g))))"

definition released_arenas :: "i64 \<Rightarrow> registry \<Rightarrow> string list" where
  "released_arenas cid g =
     fst (drop_channels (owned_channels cid g) g) @
     fst (drop_functions (owned_functions cid g) (snd (drop_channels (owned_channels cid g) g)))"

lemma fold_reclaim_reg:
  "fold (reclaim_arena os) ns (b\<lparr>br_reg := g\<rparr>, w) =
     ((fst (fold (reclaim_arena os) ns (b, w)))\<lparr>br_reg := g\<rparr>, snd (fold (reclaim_arena os) ns (b, w)))"
proof (induction ns arbitrary: b w)
  case (Cons nm ns)
  have "reclaim_arena os nm (b\<lparr>br_reg := g\<rparr>, w) =
      ((fst (reclaim_arena os nm (b, w)))\<lparr>br_reg := g\<rparr>, snd (reclaim_arena os nm (b, w)))"
    by (simp add: reclaim_arena_def split: option.splits)
  with Cons show ?case by (metis fold_simps(2) prod.collapse)
qed simp

lemma release_client_eq:
  assumes "release_client os cid b w = (b', w')"
  defines "s \<equiv> fold (reclaim_arena os) (released_arenas cid (br_reg b)) (b, w)"
  shows "b' = (fst s)\<lparr>br_reg := released_reg cid (br_reg b),
      br_reply_rings := hm_remove cid (br_reply_rings b), br_reply_segs := hm_remove cid (br_reply_segs b)\<rparr>"
    and "w' = snd s"
proof -
  let ?as1 = "fst (drop_channels (owned_channels cid (br_reg b)) (br_reg b))"
  let ?g1 = "snd (drop_channels (owned_channels cid (br_reg b)) (br_reg b))"
  let ?fs = "owned_functions cid (br_reg b)"
  let ?s1 = "fold (reclaim_arena os) ?as1 (b, w)"
  have r1: "remove_client_channels cid (br_reg b) = (?as1, ?g1)"
    by (simp add: remove_client_channels_def owned_channels_def)
  have r2: "remove_client_functions cid ?g1 = (fst (drop_functions ?fs ?g1), snd (drop_functions ?fs ?g1))"
    by (simp add: remove_client_functions_def owned_functions_def)
  have f1: "fold (reclaim_arena os) ?as1 (b\<lparr>br_reg := ?g1\<rparr>, w) = ((fst ?s1)\<lparr>br_reg := ?g1\<rparr>, snd ?s1)"
    by (rule fold_reclaim_reg)
  have f2: "fold (reclaim_arena os) (fst (drop_functions ?fs ?g1))
      ((fst ?s1)\<lparr>br_reg := snd (drop_functions ?fs ?g1)\<rparr>, snd ?s1) =
      ((fst s)\<lparr>br_reg := snd (drop_functions ?fs ?g1)\<rparr>, snd s)"
    using fold_reclaim_reg [where b = "fst ?s1" and w = "snd ?s1"] by (simp add: s_def released_arenas_def)
  have rc: "release_client os cid b w =
      ((fst s)\<lparr>br_reg := released_reg cid (br_reg b),
        br_reply_rings := hm_remove cid (br_reply_rings b), br_reply_segs := hm_remove cid (br_reply_segs b)\<rparr>, snd s)"
    unfolding release_client_def r1 Let_def split_conv f1
    by (simp add: case_prod_beta r2 f2 released_reg_def)
  with assms(1) show "b' = (fst s)\<lparr>br_reg := released_reg cid (br_reg b),
      br_reply_rings := hm_remove cid (br_reply_rings b), br_reply_segs := hm_remove cid (br_reply_segs b)\<rparr>" "w' = snd s"
    by simp_all
qed

lemma reg_ok_released: "reg_ok g \<Longrightarrow> reg_ok (released_reg cid g)"
  by (simp add: released_reg_def reg_ok_remove_client reg_ok_drop_functions reg_ok_drop_channels)

lemma distinct_owned: "reg_ok g \<Longrightarrow> distinct (owned_channels cid g)" "reg_ok g \<Longrightarrow> distinct (owned_functions cid g)"
  by (simp_all add: owned_channels_def owned_functions_def reg_ok_def channels_ok_def functions_ok_def)

lemma arena_names_released:
  assumes "reg_ok g"
  shows "arena_names (released_reg cid g) = arena_names g - set (released_arenas cid g)"
  unfolding released_reg_def released_arenas_def
  using arena_names_drop_channels [OF assms distinct_owned(1) [OF assms, of cid]]
    arena_names_drop_functions [OF reg_ok_drop_channels [OF assms], of "owned_functions cid g"]
    distinct_owned(2) [OF assms, of cid]
  by (auto simp: owned_functions_def)

lemma released_reg_clients [simp]: "rg_clients (released_reg cid g) = hm_remove cid (rg_clients g)"
  by (simp add: released_reg_def remove_client_def)

lemma released_reg_next [simp]:
  "rg_next_client (released_reg cid g) = rg_next_client g"
  "rg_next_channel (released_reg cid g) = rg_next_channel g" "rg_next_fn (released_reg cid g) = rg_next_fn g"
  by (simp_all add: released_reg_def remove_client_def)

lemma released_reg_channels:
  assumes "reg_ok g"
  shows "hm_get (rg_channels (released_reg cid g)) i =
    (case hm_get (rg_channels g) i of Some c \<Rightarrow> if ch_owner c = cid then None else Some c | None \<Rightarrow> None)"
proof -
  have "i \<in> set (owned_channels cid g) \<longleftrightarrow> (\<exists>c. hm_get (rg_channels g) i = Some c \<and> ch_owner c = cid)"
    using assms by (simp add: owned_channels_def reg_ok_def channels_ok_def)
  then show ?thesis
    by (auto simp: released_reg_def remove_client_def chan.table_dels split: option.splits)
qed

lemma released_reg_functions:
  assumes "reg_ok g"
  shows "hm_get (rg_functions (released_reg cid g)) i =
    (case hm_get (rg_functions g) i of Some f \<Rightarrow> if fm_owner f = cid then None else Some f | None \<Rightarrow> None)"
proof -
  have "i \<in> set (owned_functions cid g) \<longleftrightarrow> (\<exists>f. hm_get (rg_functions g) i = Some f \<and> fm_owner f = cid)"
    using assms by (simp add: owned_functions_def reg_ok_def functions_ok_def)
  then show ?thesis
    by (auto simp: released_reg_def remove_client_def func.table_dels split: option.splits)
qed

lemma released_arenas_space:
  assumes "reg_ok g"
  shows "set (released_arenas cid g) \<subseteq> arena_space"
proof -
  have "set (fst (drop_channels (owned_channels cid g) g)) \<subseteq> arena_names g"
    unfolding chan.dels_arenas [OF distinct_owned(1) [OF assms]] by (auto simp: arena_names_def)
  moreover have "set (fst (drop_functions (owned_functions cid g) (snd (drop_channels (owned_channels cid g) g)))) \<subseteq> arena_names g"
    unfolding func.dels_arenas [OF distinct_owned(2) [OF assms]] by (auto simp: arena_names_def)
  ultimately show ?thesis
    using arena_names_space [OF assms] by (auto simp: released_arenas_def)
qed

lemma broker_inv_release_client:
  assumes "broker_inv b" "release_client os cid b w = (b', w')"
  shows "broker_inv b'"
proof -
  have g: "reg_ok (br_reg b)" using assms(1) by (simp add: broker_inv_def)
  show ?thesis
    using assms(1) reg_ok_released [OF g, of cid] arena_names_released [OF g, of cid]
    unfolding release_client_eq(1) [OF assms(2)] broker_inv_def
    by (auto simp: hm_contains_def)
qed

lemma world_ok_release_client:
  assumes "os_steady os" "broker_inv b" "world_ok b w" "release_client os cid b w = (b', w')"
  shows "world_ok b' w'"
proof -
  let ?s = "fold (reclaim_arena os) (released_arenas cid (br_reg b)) (b, w)"
  have g: "reg_ok (br_reg b)" using assms(2) by (simp add: broker_inv_def)
  have "world_ok (fst ?s) (snd ?s)"
    by (rule world_ok_reclaims) (use assms released_arenas_space [OF g] in \<open>auto simp: broker_inv_def\<close>)
  then show ?thesis
    unfolding release_client_eq [OF assms(4)] by (simp add: world_ok_def)
qed

section \<open>Replies\<close>

lemma reply_same:
  assumes "reply env to_v cid k msg b w = Some (res, b', w')"
  shows "b' = b" "shm_dir w' = shm_dir w" "shm_next w' = shm_next w"
  using assms by (auto simp: reply_def set_ring_mem_def split: option.splits sum.splits prod.splits)

section \<open>Creating arenas\<close>

lemma clamp_bounds:
  "is_power_of_two (clamp_arena_cap n)" "clamp_arena_cap n < 2 ^ 32"
  using clamp_arena_cap_bounds [of n] by (auto simp: MAX_ARENA_CAP_def)

lemma make_arena_inv:
  assumes "make_arena os nm cap b w = (res, b', w')"
  obtains (failed) e where "res = Inl e" "b' = b"
    | (made) seg where "res = Inr nm" "b' = b\<lparr>br_arenas := hm_insert nm seg (br_arenas b)\<rparr>"
      "seg_name seg = nm" "owns_unlink seg"
proof (cases "segment_create os nm (ring_bytes cap) w")
  case (Pair r w1)
  show ?thesis
  proof (cases r)
    case (Inl e)
    with Pair assms have "res = Inl e" "b' = b" by (simp_all add: make_arena_def)
    then show ?thesis by (rule failed)
  next
    case (Inr seg)
    have seg: "seg_name seg = nm" "owns_unlink seg" using segment_create_Inr [of os nm _ w seg w1] Pair Inr by auto
    show ?thesis
    proof (cases "ring_format seg 0 cap (shm_obj w1 (seg_ptr seg))")
      case F: (Pair fr m)
      with Pair Inr assms failed made [of seg] seg show ?thesis
        by (cases fr) (auto simp: make_arena_def Let_def)
    qed
  qed
qed

lemma segment_create_steady:
  assumes "os_steady os" "0 < sz" "segment_create os nm sz w = (res, w')"
  obtains (refused) e where "res = Inl e" "w' = w"
    | (created) seg where "res = Inr seg" "seg_ptr seg = fst (sys_creat nm w)"
      "w' = set_obj (seg_ptr seg) (resize sz (shm_obj (snd (sys_creat nm w)) (seg_ptr seg))) (snd (sys_creat nm w))"
proof (cases "has_nul nm \<or> os_shm_open os nm True \<noteq> None")
  case True
  with assms(3) have "(\<exists>e. res = Inl e) \<and> w' = w"
    by (cases "has_nul nm") (auto simp: segment_create_def)
  with refused show ?thesis by blast
next
  case False
  have "os_fchmod os nm = None" "os_ftruncate os nm sz = None" "sys_mmap os nm sz = None"
    using assms(1,2) by (simp_all add: os_steady_def sys_mmap_def)
  with False assms(3) have "res = Inr \<lparr>seg_name = nm, seg_ptr = fst (sys_creat nm w), seg_len = sz, owns_unlink = True\<rparr>"
    "w' = set_obj (fst (sys_creat nm w)) (resize sz (shm_obj (snd (sys_creat nm w)) (fst (sys_creat nm w))))
      (snd (sys_creat nm w))"
    by (simp_all add: segment_create_def Let_def case_prod_beta)
  then show ?thesis using created by simp
qed

lemma make_arena_world:
  assumes steady: "os_steady os" and w: "world_ok b w" and nm: "nm \<in> arena_space"
    and fresh: "hm_get (br_arenas b) nm = None" and cap: "is_power_of_two cap" "cap < 2 ^ 32"
    and m: "make_arena os nm cap b w = (res, b', w')"
  shows "world_ok b' w'"
    and "res = Inl e \<Longrightarrow> b' = b \<and> w' = w"
    and "res = Inr n \<Longrightarrow> n = nm \<and> (\<exists>seg r. hm_get (br_arenas b') nm = Some seg \<and>
      ring_attach seg 0 (shm_obj w' (seg_ptr seg)) = Inr r \<and> ring_cap r = cap)"
proof -
  have pos: "0 < ring_bytes cap" by (simp add: ring_bytes_def)
  obtain r w1 where c: "segment_create os nm (ring_bytes cap) w = (r, w1)" by fastforce
  have "world_ok b' w' \<and> (case res of Inl e \<Rightarrow> b' = b \<and> w' = w
    | Inr n \<Rightarrow> n = nm \<and> (\<exists>seg r. hm_get (br_arenas b') nm = Some seg \<and>
        ring_attach seg 0 (shm_obj w' (seg_ptr seg)) = Inr r \<and> ring_cap r = cap))"
    using steady pos c
  proof (cases rule: segment_create_steady)
    case (refused e)
    with c m w show ?thesis by (auto simp: make_arena_def)
  next
    case (created seg)
    have ptr: "sys_open nm w1 = Some (seg_ptr seg)" and len: "seg_len seg = ring_bytes cap"
      "length (shm_obj w1 (seg_ptr seg)) = ring_bytes cap"
      using segment_create_Inr [of os nm "ring_bytes cap" w seg w1] c created(1) by auto
    obtain ring m' where f: "ring_format seg 0 cap (shm_obj w1 (seg_ptr seg)) = (Inr ring, m')"
      using ring_format_ok [of cap 0 seg "shm_obj w1 (seg_ptr seg)"] cap len by auto
    have eq: "res = Inr nm" "b' = b\<lparr>br_arenas := hm_insert nm seg (br_arenas b)\<rparr>" "w' = set_obj (seg_ptr seg) m' w1"
      using m c created(1) f fresh by (simp_all add: make_arena_def)
    have dir: "sys_open n w' = (if n = nm then Some (seg_ptr seg) else sys_open n w)" if "n \<in> arena_space" for n
    proof (cases "n = nm")
      case False
      then have "shm_path n \<noteq> shm_path nm" using that nm bus_name_path_inject arena_space_bus by blast
      with False show ?thesis by (simp add: eq(3) created(3) sys_creat_open_other)
    qed (simp add: eq(3) ptr)
    have "shm_ok w'" using w by (simp add: eq(3) created(3) shm_ok_creat world_ok_def)
    with dir w have "world_ok b' w'" by (auto simp: world_ok_def eq(2))
    moreover have "ring_attach seg 0 (shm_obj w' (seg_ptr seg)) = Inr ring" "ring_cap ring = cap"
      using ring_format_Inr(4,7) [OF f _ cap(2)] len by (simp_all add: eq(3))
    ultimately show ?thesis by (auto simp: eq)
  qed
  then show "world_ok b' w'" "res = Inl e \<Longrightarrow> b' = b \<and> w' = w"
    "res = Inr n \<Longrightarrow> n = nm \<and> (\<exists>seg r. hm_get (br_arenas b') nm = Some seg \<and>
      ring_attach seg 0 (shm_obj w' (seg_ptr seg)) = Inr r \<and> ring_cap r = cap)"
    by auto
qed

section \<open>Handlers keep the invariant\<close>

lemma fresh_channel:
  "reg_ok g \<Longrightarrow> hm_get (rg_channels g) (rg_next_channel g) = None"
  by (cases "hm_get (rg_channels g) (rg_next_channel g)") (auto simp: reg_ok_def channels_ok_def)

lemma fresh_function:
  "reg_ok g \<Longrightarrow> hm_get (rg_functions g) (rg_next_fn g) = None"
  by (cases "hm_get (rg_functions g) (rg_next_fn g)") (auto simp: reg_ok_def functions_ok_def)

lemma fresh_channel_arena:
  assumes "reg_ok g"
  shows "channel_arena (word_of_int (rg_next_channel g)) \<notin> arena_names g"
proof
  assume "channel_arena (word_of_int (rg_next_channel g)) \<in> arena_names g"
  then obtain i c where c: "hm_get (rg_channels g) i = Some c" "ch_arena c = channel_arena (word_of_int (rg_next_channel g))"
    using assms by (auto simp: arena_names_def reg_ok_def functions_ok_def)
  have "0 < i" "i < rg_next_channel g" "ch_arena c = channel_arena (word_of_int i)" "rg_next_channel g < 2 ^ 63"
    using assms c by (auto simp: reg_ok_def channels_ok_def counters_ok_def)
  then show False
    using word_of_int_inject_pos [of i "rg_next_channel g"] c(2) by simp
qed

lemma fresh_function_arena:
  assumes "reg_ok g"
  shows "function_arena (word_of_int (rg_next_fn g)) \<notin> arena_names g"
proof
  assume "function_arena (word_of_int (rg_next_fn g)) \<in> arena_names g"
  then obtain i f where f: "hm_get (rg_functions g) i = Some f" "fm_req_arena f = function_arena (word_of_int (rg_next_fn g))"
    using assms by (auto simp: arena_names_def reg_ok_def channels_ok_def)
  have "0 < i" "i < rg_next_fn g" "fm_req_arena f = function_arena (word_of_int i)" "rg_next_fn g < 2 ^ 63"
    using assms f by (auto simp: reg_ok_def functions_ok_def counters_ok_def)
  then show False
    using word_of_int_inject_pos [of i "rg_next_fn g"] f(2) by simp
qed

text \<open>One message advances the identifier counters by one at most.\<close>

definition counted :: "broker \<Rightarrow> broker \<Rightarrow> bool" where
  "counted b b' \<longleftrightarrow> reg_count (br_reg b') \<le> reg_count (br_reg b) + 1"

lemma reg_count_bounds:
  "rg_next_client g \<le> reg_count g" "rg_next_channel g \<le> reg_count g" "rg_next_fn g \<le> reg_count g"
  by (auto simp: reg_count_def)

lemma broker_inv_reg:
  "broker_inv b \<Longrightarrow> reg_ok g \<Longrightarrow> arena_names g = arena_names (br_reg b) \<Longrightarrow> rg_clients g = rg_clients (br_reg b) \<Longrightarrow>
     broker_inv (b\<lparr>br_reg := g\<rparr>)"
  by (simp add: broker_inv_def)

text \<open>What every handler keeps: the invariant, and the agreement with the directory.\<close>

definition keeps :: "os_env \<Rightarrow> broker \<Rightarrow> shm \<Rightarrow> broker \<Rightarrow> shm \<Rightarrow> bool" where
  "keeps os b w b' w' \<longleftrightarrow> broker_inv b' \<and> counted b b' \<and>
     (os_steady os \<longrightarrow> world_ok b w \<longrightarrow> world_ok b' w')"

lemma keeps_same: "broker_inv b \<Longrightarrow> keeps os b w b w"
  by (simp add: keeps_def counted_def)

lemma keeps_reply:
  assumes "keeps os b w b1 w1" "reply env to_v cid k msg b1 w1 = Some (res, b', w')"
  shows "keeps os b w b' w'"
  using assms(1) reply_same [OF assms(2)] world_ok_mem [of w' w1 b1] by (simp add: keeps_def)

lemma keeps_trans:
  assumes "keeps os b w b1 w1" "reg_count (br_reg b1) = reg_count (br_reg b)" "keeps os b1 w1 b2 w2"
  shows "keeps os b w b2 w2"
  using assms by (auto simp: keeps_def counted_def)

lemma keeps_release_client:
  assumes "broker_inv b" "release_client os cid b w = (b', w')"
  shows "keeps os b w b' w'" "reg_count (br_reg b') = reg_count (br_reg b)"
proof -
  show cnt: "reg_count (br_reg b') = reg_count (br_reg b)"
    unfolding release_client_eq(1) [OF assms(2)] by (simp add: reg_count_def)
  show "keeps os b w b' w'"
    using broker_inv_release_client [OF assms] world_ok_release_client [OF _ assms(1) _ assms(2)] cnt
    by (simp add: keeps_def counted_def)
qed

lemma keeps_reclaims:
  assumes "broker_inv b" "reg_ok g" "arena_names g = arena_names (br_reg b) - set ns" "set ns \<subseteq> arena_space"
    and "rg_clients g = rg_clients (br_reg b)" "reg_count g = reg_count (br_reg b)"
    and "fold (reclaim_arena os) ns (b\<lparr>br_reg := g\<rparr>, w) = (b', w')"
  shows "keeps os b w b' w'" "br_reg b' = g"
proof -
  have b': "b' = fst (fold (reclaim_arena os) ns (b\<lparr>br_reg := g\<rparr>, w))" "w' = snd (fold (reclaim_arena os) ns (b\<lparr>br_reg := g\<rparr>, w))"
    using assms(7) by simp_all
  show r: "br_reg b' = g" by (simp add: b')
  have "broker_inv b'" unfolding b' by (rule broker_inv_reclaims [OF assms(1,2,3,5)])
  moreover have "world_ok b' w'" if "os_steady os" "world_ok b w"
    unfolding b' by (rule world_ok_reclaims) (use that assms(1,4) in \<open>auto simp: broker_inv_def\<close>)
  ultimately show "keeps os b w b' w'" using r assms(6) by (simp add: keeps_def counted_def)
qed

lemma keeps_on_unregister:
  assumes "broker_inv b" "on_unregister env f b w = Some (res, b', w')"
  shows "keeps (be_os env) b w b' w'"
  using assms keeps_same keeps_release_client(1)
  by (auto simp: on_unregister_def split: sum.splits prod.splits)

text \<open>The broker after a registration, before its reply.\<close>

definition registered :: "register \<Rightarrow> segment \<Rightarrow> ring \<Rightarrow> broker \<Rightarrow> broker" where
  "registered m seg r b =
     b\<lparr>br_reg := snd (add_client (reg_app_name m) (wrap_i32 (reg_pid m)) (br_reg b)),
       br_reply_rings := hm_insert (rg_next_client (br_reg b)) r (br_reply_rings b),
       br_reply_segs := hm_insert (rg_next_client (br_reg b)) seg (br_reply_segs b),
       br_reply_names := br_reply_names b @ [reg_reply_segment m]\<rparr>"

definition register_ok :: "i64 \<Rightarrow> register \<Rightarrow> register_reply" where
  "register_ok cid m = \<lparr>regr_correlation_id = reg_correlation_id m, regr_client_id = cid,
     regr_status = STATUS_OK, regr_message = []\<rparr>"

lemma on_register_cases:
  assumes "on_register env f b w = out"
  obtains (failed) e where "out = Some (Inl e, b, w)"
    | (ok) m seg r where "from_frame_compat (be_lib env) (be_cat env) register_from_value f = Inr m"
      "segment_open (be_os env) (reg_reply_segment m) w = Inr seg"
      "ring_attach seg 0 (shm_obj w (seg_ptr seg)) = Inr r"
      "out = reply env register_reply_to_value (rg_next_client (br_reg b)) RegisterReply
         (register_ok (rg_next_client (br_reg b)) m) (registered m seg r b) w"
proof (cases "from_frame_compat (be_lib env) (be_cat env) register_from_value f")
  case (Inl e)
  then show ?thesis using assms [symmetric] failed by (simp add: on_register_def)
next
  case m: (Inr m)
  show ?thesis
  proof (cases "segment_open (be_os env) (reg_reply_segment m) w")
    case (Inl e)
    then show ?thesis using m assms [symmetric] failed by (simp add: on_register_def)
  next
    case seg: (Inr seg)
    show ?thesis
    proof (cases "ring_attach seg 0 (shm_obj w (seg_ptr seg))")
      case (Inl e)
      then show ?thesis using m seg assms [symmetric] failed by (simp add: on_register_def)
    next
      case r: (Inr r)
      have "fst (add_client a p g) = rg_next_client g" for a p g by (simp add: add_client_def Let_def)
      with m seg r assms ok [OF m seg r] show ?thesis
        by (simp add: on_register_def registered_def register_ok_def Let_def case_prod_beta)
    qed
  qed
qed

lemma keeps_registered:
  assumes inv: "broker_inv b" and cnt: "reg_count (br_reg b) < 2 ^ 63 - 1" and seg: "\<not> owns_unlink seg"
  shows "keeps os b w (registered m seg r b) w"
proof -
  let ?g = "snd (add_client (reg_app_name m) (wrap_i32 (reg_pid m)) (br_reg b))"
  have g: "reg_ok (br_reg b)" using inv by (simp add: broker_inv_def)
  have lt: "rg_next_client (br_reg b) < 2 ^ 63 - 1" using cnt reg_count_bounds(1) [of "br_reg b"] by linarith
  have "reg_ok ?g" by (rule reg_ok_add_client [OF g lt])
  then have "broker_inv (registered m seg r b)"
    using inv seg by (auto simp: broker_inv_def registered_def) (auto simp: add_client_def Let_def)
  moreover have "rg_next_client ?g = rg_next_client (br_reg b) + 1"
    using wrap_i64_succ [OF _ lt] g by (simp add: add_client_def Let_def reg_ok_def counters_ok_def)
  then have "counted b (registered m seg r b)"
    by (auto simp: counted_def reg_count_def registered_def) (auto simp: add_client_def Let_def)
  moreover have "world_ok (registered m seg r b) w = world_ok b w" by (simp add: world_ok_def registered_def)
  ultimately show ?thesis by (simp add: keeps_def)
qed

lemma keeps_on_register:
  assumes inv: "broker_inv b" and cnt: "reg_count (br_reg b) < 2 ^ 63 - 1"
    and h: "on_register env f b w = Some (res, b', w')"
  shows "keeps (be_os env) b w b' w'"
  using h
proof (cases rule: on_register_cases)
  case (ok m seg r)
  have "\<not> owns_unlink seg" using segment_open_Inr [OF ok(2)] by simp
  from keeps_reply [OF keeps_registered [OF inv cnt this] ok(4) [symmetric]] show ?thesis .
qed (use inv keeps_same in auto)

lemma keeps_reg:
  assumes "broker_inv b" "reg_ok g" "arena_names g = arena_names (br_reg b)" "rg_clients g = rg_clients (br_reg b)"
    and "reg_count g \<le> reg_count (br_reg b) + 1"
  shows "keeps os b w (b\<lparr>br_reg := g\<rparr>) w"
  using assms by (simp add: keeps_def counted_def broker_inv_reg)

lemma keeps_on_unpublish:
  assumes inv: "broker_inv b" and h: "on_unpublish env f b w = Some (res, b', w')"
  shows "keeps (be_os env) b w b' w'"
proof (cases "from_frame (be_lib env) (be_cat env) unpublish_from_value Unpublish f")
  case (Inl e)
  with h inv keeps_same show ?thesis by (auto simp: on_unpublish_def)
next
  case (Inr m)
  have g: "reg_ok (br_reg b)" using inv by (simp add: broker_inv_def)
  obtain rel g' where r: "release_channel (be_now env) (unpub_channel m) (unpub_client_id m) (br_reg b) = (rel, g')"
    by fastforce
  have ok: "reg_ok g'" by (rule reg_ok_release [OF g r])
  from r show ?thesis
  proof (cases rule: release_channel_cases)
    case refused
    with Inr r h inv keeps_same show ?thesis by (auto simp: on_unpublish_def)
  next
    case (now i c)
    have d: "drop_channel i (br_reg b) = (Some (ch_arena c), g')"
      using now by (simp add: drop_channel_def)
    have a: "ch_arena c \<in> arena_space" using g now(2) by (simp add: reg_ok_def channels_ok_def arena_space_def)
    have f: "fold (reclaim_arena (be_os env)) [ch_arena c] (b\<lparr>br_reg := g'\<rparr>, w) = (b', w')"
      using Inr r now(5) h by (auto simp: on_unpublish_def split: prod.splits)
    show ?thesis
      by (rule keeps_reclaims(1) [OF inv ok _ _ _ _ f])
        (use arena_names_drop_channel [OF g d] a now(6) in \<open>auto simp: reg_count_def\<close>)
  next
    case (deferred i c)
    then have "b' = b\<lparr>br_reg := g'\<rparr>" "w' = w" using Inr r h by (simp_all add: on_unpublish_def)
    moreover have "keeps (be_os env) b w (b\<lparr>br_reg := g'\<rparr>) w"
      by (rule keeps_reg [OF inv ok]) (simp_all add: deferred(6) reg_count_def)
    ultimately show ?thesis by simp
  qed
qed

lemma keeps_on_list:
  assumes "broker_inv b" "on_list env f b w = Some (res, b', w')"
  shows "keeps (be_os env) b w b' w'"
  using assms keeps_same keeps_reply by (fastforce simp: on_list_def split: sum.splits)

lemma keeps_on_lookup:
  assumes "broker_inv b" "on_lookup env f b w = Some (res, b', w')"
  shows "keeps (be_os env) b w b' w'"
proof (cases "from_frame (be_lib env) (be_cat env) lookup_function_from_value LookupFunction f")
  case (Inl e)
  with assms keeps_same show ?thesis by (auto simp: on_lookup_def)
next
  case (Inr m)
  with assms(2) show ?thesis
    unfolding on_lookup_def by (simp only: sum.case) (rule keeps_reply [OF keeps_same [OF assms(1)]])
qed

lemma resolve_subscribe_channel:
  "resolve_subscribe sha cid key fp g = Inr x \<Longrightarrow> hm_contains (rg_channels g) cid"
  by (auto simp: resolve_subscribe_def hm_contains_def split: option.splits)

lemma keeps_on_subscribe:
  assumes inv: "broker_inv b" and h: "on_subscribe env f b w = Some (res, b', w')"
  shows "keeps (be_os env) b w b' w'"
proof (cases "from_frame (be_lib env) (be_cat env) subscribe_from_value Subscribe f")
  case (Inl e)
  with h inv keeps_same show ?thesis by (auto simp: on_subscribe_def)
next
  case (Inr m)
  let ?rs = "resolve_subscribe (be_sha env) (sub_channel_id m) (sub_access_key m)
     (i64_to_fp (sub_expected_fp m)) (br_reg b)"
  have g: "reg_ok (br_reg b)" using inv by (simp add: broker_inv_def)
  show ?thesis
  proof (cases ?rs)
    case rs: (Inl e)
    with Inr h keeps_reply [OF keeps_same [OF inv]] show ?thesis
      by (auto simp: on_subscribe_def split: prod.splits)
  next
    case rs: (Inr x)
    let ?g = "mark_subscribed (sub_channel_id m) (br_reg b)"
    have "keeps (be_os env) b w (b\<lparr>br_reg := ?g\<rparr>) w"
      by (rule keeps_reg [OF inv reg_ok_mark_subscribed [OF g resolve_subscribe_channel [OF rs]]])
        (simp_all add: mark_subscribed_def reg_count_def)
    with rs Inr h keeps_reply show ?thesis
      by (cases x) (auto simp: on_subscribe_def)
  qed
qed

section \<open>Publishing and exposing\<close>

lemma publish_new_inserted:
  assumes inv: "broker_inv b" and cnt: "reg_count (br_reg b) < 2 ^ 63 - 1" and free: "\<not> channel_name_taken (ch_name c) (br_reg b)"
    and c: "ch_id c = rg_next_channel (br_reg b)" "ch_arena c = channel_arena (word_of_int (ch_id c))"
    and seg: "seg_name seg = ch_arena c" "owns_unlink seg"
  shows "broker_inv (b\<lparr>br_reg := insert_channel c (snd (alloc_channel_id (br_reg b))),
      br_arenas := hm_insert (ch_arena c) seg (br_arenas b)\<rparr>)"
proof -
  let ?g = "snd (alloc_channel_id (br_reg b))"
  have g: "reg_ok (br_reg b)" using inv by (simp add: broker_inv_def)
  have lt: "rg_next_channel (br_reg b) < 2 ^ 63 - 1" using cnt reg_count_bounds(2) [of "br_reg b"] by linarith
  have pos: "0 < rg_next_channel (br_reg b)" using g by (simp add: reg_ok_def counters_ok_def)
  have nx: "rg_next_channel ?g = rg_next_channel (br_reg b) + 1"
    using wrap_i64_succ [OF pos lt] by (simp add: alloc_channel_id_def)
  have fresh: "hm_get (rg_channels ?g) (ch_id c) = None"
    using fresh_channel [OF g] c(1) by (simp add: alloc_channel_id_def)
  have "reg_ok (insert_channel c ?g)"
    by (rule reg_ok_insert_channel [OF reg_ok_alloc_channel [OF g lt] fresh])
      (use free pos nx c in \<open>simp_all add: channel_name_taken_def alloc_channel_id_def\<close>)
  moreover have "arena_names (insert_channel c ?g) = insert (ch_arena c) (arena_names (br_reg b))"
    using arena_names_insert_channel [OF fresh] by simp
  moreover have "rg_clients (insert_channel c ?g) = rg_clients (br_reg b)"
    by (simp add: insert_channel_def alloc_channel_id_def)
  ultimately show ?thesis using inv seg by (auto simp: broker_inv_def)
qed

lemma expose_new_inserted:
  assumes inv: "broker_inv b" and cnt: "reg_count (br_reg b) < 2 ^ 63 - 1" and free: "\<not> function_name_taken (fm_name f) (br_reg b)"
    and f: "fm_id f = rg_next_fn (br_reg b)" "fm_req_arena f = function_arena (word_of_int (fm_id f))"
    and seg: "seg_name seg = fm_req_arena f" "owns_unlink seg"
  shows "broker_inv (b\<lparr>br_reg := insert_function f (snd (alloc_fn_id (br_reg b))),
      br_arenas := hm_insert (fm_req_arena f) seg (br_arenas b)\<rparr>)"
proof -
  let ?g = "snd (alloc_fn_id (br_reg b))"
  have g: "reg_ok (br_reg b)" using inv by (simp add: broker_inv_def)
  have lt: "rg_next_fn (br_reg b) < 2 ^ 63 - 1" using cnt reg_count_bounds(3) [of "br_reg b"] by linarith
  have pos: "0 < rg_next_fn (br_reg b)" using g by (simp add: reg_ok_def counters_ok_def)
  have nx: "rg_next_fn ?g = rg_next_fn (br_reg b) + 1"
    using wrap_i64_succ [OF pos lt] by (simp add: alloc_fn_id_def)
  have fresh: "hm_get (rg_functions ?g) (fm_id f) = None"
    using fresh_function [OF g] f(1) by (simp add: alloc_fn_id_def)
  have "reg_ok (insert_function f ?g)"
    by (rule reg_ok_insert_function [OF reg_ok_alloc_fn [OF g lt] fresh])
      (use free pos nx f in \<open>simp_all add: function_name_taken_def alloc_fn_id_def\<close>)
  moreover have "arena_names (insert_function f ?g) = insert (fm_req_arena f) (arena_names (br_reg b))"
    using arena_names_insert_function [OF fresh] by simp
  moreover have "rg_clients (insert_function f ?g) = rg_clients (br_reg b)"
    by (simp add: insert_function_def alloc_fn_id_def)
  ultimately show ?thesis using inv seg by (auto simp: broker_inv_def)
qed

lemma alloc_counts:
  assumes "reg_ok g" "reg_count g < 2 ^ 63 - 1"
  shows "reg_count (snd (alloc_channel_id g)) \<le> reg_count g + 1" "reg_count (snd (alloc_fn_id g)) \<le> reg_count g + 1"
    and "reg_ok (snd (alloc_channel_id g))" "reg_ok (snd (alloc_fn_id g))"
proof -
  have pos: "0 < rg_next_channel g" "0 < rg_next_fn g" using assms(1) by (simp_all add: reg_ok_def counters_ok_def)
  have lt: "rg_next_channel g < 2 ^ 63 - 1" "rg_next_fn g < 2 ^ 63 - 1"
    using assms(2) reg_count_bounds(2,3) [of g] by linarith+
  show "reg_count (snd (alloc_channel_id g)) \<le> reg_count g + 1" "reg_count (snd (alloc_fn_id g)) \<le> reg_count g + 1"
    using wrap_i64_succ [OF pos(1) lt(1)] wrap_i64_succ [OF pos(2) lt(2)]
    by (auto simp: reg_count_def alloc_channel_id_def alloc_fn_id_def)
  show "reg_ok (snd (alloc_channel_id g))" by (rule reg_ok_alloc_channel [OF assms(1) lt(1)])
  show "reg_ok (snd (alloc_fn_id g))" by (rule reg_ok_alloc_fn [OF assms(1) lt(2)])
qed

lemma keeps_publish_new:
  assumes inv: "broker_inv b" and cnt: "reg_count (br_reg b) < 2 ^ 63 - 1"
    and free: "\<not> channel_name_taken (pub_channel m) (br_reg b)"
    and h: "publish_new env m b w = Some (res, b', w')"
  shows "keeps (be_os env) b w b' w'"
proof (cases "avro_parse (be_lib env) (pub_schema_json m)")
  case (Inl e)
  with h keeps_reply [OF keeps_same [OF inv]] show ?thesis by (auto simp: publish_new_def)
next
  case (Inr x)
  let ?g = "snd (alloc_channel_id (br_reg b))" and ?id = "rg_next_channel (br_reg b)"
  let ?nm = "channel_arena (word_of_int ?id)" and ?cap = "clamp_arena_cap (nat (max (pub_arena_cap m) 0))"
  have g: "reg_ok (br_reg b)" using inv by (simp add: broker_inv_def)
  note cts = alloc_counts [OF g cnt]
  have id: "fst (alloc_channel_id (br_reg b)) = ?id" by (simp add: alloc_channel_id_def)
  obtain sc fp where x: "x = (sc, fp)" by fastforce
  obtain ar b1 w1 where mk: "make_arena (be_os env) ?nm ?cap (b\<lparr>br_reg := ?g\<rparr>) w = (ar, b1, w1)"
    by (metis prod_cases3)
  have keep1: "keeps (be_os env) b w (b\<lparr>br_reg := ?g\<rparr>) w"
    by (rule keeps_reg [OF inv cts(3) _ _ cts(1)]) (simp_all add: alloc_channel_id_def)
  have none: "hm_get (br_arenas (b\<lparr>br_reg := ?g\<rparr>)) ?nm = None"
    using inv fresh_channel_arena [OF g] by (auto simp: broker_inv_def hm_contains_def)
  have world: "world_ok b1 w1" if "os_steady (be_os env)" "world_ok b w"
    using make_arena_world(1) [OF that(1) _ _ none clamp_bounds mk] that(2) by (simp add: arena_space_def)
  from mk show ?thesis
  proof (cases rule: make_arena_inv)
    case (failed e)
    have "keeps (be_os env) b w b1 w1"
      using keep1 failed(2) world by (simp add: keeps_def)
    with Inr x mk id failed(1) h keeps_reply show ?thesis
      by (fastforce simp: publish_new_def Let_def case_prod_beta)
  next
    case (made seg)
    let ?c = "\<lparr>ch_id = ?id, ch_name = pub_channel m, ch_owner = pub_client_id m, ch_schema_fp = fp,
        ch_key = access_policy (be_sha env) (pub_access_key m), ch_arena = ?nm\<rparr>"
    have b2: "b1\<lparr>br_reg := insert_channel ?c (br_reg b1)\<rparr> =
        b\<lparr>br_reg := insert_channel ?c ?g, br_arenas := hm_insert (ch_arena ?c) seg (br_arenas b)\<rparr>"
      by (simp add: made(2))
    have "broker_inv (b1\<lparr>br_reg := insert_channel ?c (br_reg b1)\<rparr>)"
      unfolding b2 by (rule publish_new_inserted [OF inv cnt]) (use free made(3,4) in simp_all)
    moreover have "counted b (b1\<lparr>br_reg := insert_channel ?c (br_reg b1)\<rparr>)"
      using cts(1) by (simp add: counted_def made(2) insert_channel_def reg_count_def)
    ultimately have "keeps (be_os env) b w (b1\<lparr>br_reg := insert_channel ?c (br_reg b1)\<rparr>) w1"
      using world by (simp add: keeps_def)
    from keeps_reply [OF this] show ?thesis
      using Inr x mk id made(1) h by (auto simp: publish_new_def Let_def case_prod_beta)
  qed
qed

lemma keeps_expose_new:
  assumes inv: "broker_inv b" and cnt: "reg_count (br_reg b) < 2 ^ 63 - 1"
    and free: "\<not> function_name_taken (exp_fn_name m) (br_reg b)"
    and h: "expose_new env m b w = Some (res, b', w')"
  shows "keeps (be_os env) b w b' w'"
proof (cases "\<exists>x y. avro_parse (be_lib env) (exp_req_schema_json m) = Inr x \<and>
    avro_parse (be_lib env) (exp_resp_schema_json m) = Inr y")
  case False
  with h have "reply env expose_reply_to_value (exp_client_id m) ExposeReply
      (err_expose (exp_correlation_id m) ERR_INTERNAL ''bad schema'') b w = Some (res, b', w')"
    by (auto simp: expose_new_def split: sum.splits)
  from keeps_reply [OF keeps_same [OF inv] this] show ?thesis .
next
  case True
  then obtain s1 fp1 s2 fp2 where x: "avro_parse (be_lib env) (exp_req_schema_json m) = Inr (s1, fp1)"
    "avro_parse (be_lib env) (exp_resp_schema_json m) = Inr (s2, fp2)" by auto
  let ?g = "snd (alloc_fn_id (br_reg b))" and ?id = "rg_next_fn (br_reg b)"
  let ?nm = "function_arena (word_of_int ?id)" and ?cap = "clamp_arena_cap (nat (max (exp_req_arena_cap m) 0))"
  have g: "reg_ok (br_reg b)" using inv by (simp add: broker_inv_def)
  note cts = alloc_counts [OF g cnt]
  have id: "fst (alloc_fn_id (br_reg b)) = ?id" by (simp add: alloc_fn_id_def)
  obtain ar b1 w1 where mk: "make_arena (be_os env) ?nm ?cap (b\<lparr>br_reg := ?g\<rparr>) w = (ar, b1, w1)"
    by (metis prod_cases3)
  have keep1: "keeps (be_os env) b w (b\<lparr>br_reg := ?g\<rparr>) w"
    by (rule keeps_reg [OF inv cts(4) _ _ cts(2)]) (simp_all add: alloc_fn_id_def)
  have none: "hm_get (br_arenas (b\<lparr>br_reg := ?g\<rparr>)) ?nm = None"
    using inv fresh_function_arena [OF g] by (auto simp: broker_inv_def hm_contains_def)
  have world: "world_ok b1 w1" if "os_steady (be_os env)" "world_ok b w"
    using make_arena_world(1) [OF that(1) _ _ none clamp_bounds mk] that(2) by (simp add: arena_space_def)
  from mk show ?thesis
  proof (cases rule: make_arena_inv)
    case (failed e)
    have "keeps (be_os env) b w b1 w1"
      using keep1 failed(2) world by (simp add: keeps_def)
    with x mk id failed(1) h keeps_reply show ?thesis
      by (fastforce simp: expose_new_def Let_def case_prod_beta)
  next
    case (made seg)
    let ?f = "\<lparr>fm_id = ?id, fm_name = exp_fn_name m, fm_owner = exp_client_id m, fm_req_fp = fp1, fm_resp_fp = fp2,
        fm_key = access_policy (be_sha env) (exp_access_key m), fm_req_arena = ?nm\<rparr>"
    have b2: "b1\<lparr>br_reg := insert_function ?f (br_reg b1)\<rparr> =
        b\<lparr>br_reg := insert_function ?f ?g, br_arenas := hm_insert (fm_req_arena ?f) seg (br_arenas b)\<rparr>"
      by (simp add: made(2))
    have "broker_inv (b1\<lparr>br_reg := insert_function ?f (br_reg b1)\<rparr>)"
      unfolding b2 by (rule expose_new_inserted [OF inv cnt]) (use free made(3,4) in simp_all)
    moreover have "counted b (b1\<lparr>br_reg := insert_function ?f (br_reg b1)\<rparr>)"
      using cts(2) by (simp add: counted_def made(2) insert_function_def reg_count_def)
    ultimately have "keeps (be_os env) b w (b1\<lparr>br_reg := insert_function ?f (br_reg b1)\<rparr>) w1"
      using world by (simp add: keeps_def)
    from keeps_reply [OF this] show ?thesis
      using x mk id made(1) h by (auto simp: expose_new_def Let_def case_prod_beta)
  qed
qed

lemma reap_if_released_Some:
  assumes "reg_ok g" "reap_if_released nm g = (Some a, g')"
  obtains i c where "hm_get (rg_chan_by_name g) nm = Some i" "hm_get (rg_channels g) i = Some c"
    "hm_contains (rg_released g) i" "drop_channel i g = (Some a, g')" "\<not> channel_name_taken nm g'" "a = ch_arena c"
proof -
  obtain i where i: "hm_get (rg_chan_by_name g) nm = Some i" "hm_contains (rg_released g) i" "drop_channel i g = (Some a, g')"
    using assms(2) by (auto simp: reap_if_released_def split: option.splits if_splits)
  have ok: "index_ok ch_id ch_name (hm_get (rg_channels g)) (hm_get (rg_chan_by_name g))"
    using assms(1) by (simp add: reg_ok_def channels_ok_def)
  obtain c where c: "hm_get (rg_channels g) i = Some c" "ch_name c = nm" using index_okD(3) [OF ok i(1)] by blast
  have "g' = snd (drop_channel i g)" using i(3) by simp
  then have "\<not> channel_name_taken nm g'"
    using c by (simp add: channel_name_taken_def hm_contains_def chan.index_del)
  moreover have "a = ch_arena c" using i(3) c(1) by (simp add: drop_channel_def)
  ultimately show ?thesis using that i c by blast
qed

lemma reap_if_released_None: "reap_if_released nm g = (None, g') \<Longrightarrow> g' = g"
  by (auto simp: reap_if_released_def drop_channel_def split: option.splits if_splits)

lemma dead_channel_owner_freed:
  assumes "reg_ok g" "dead_channel_owner nm alive g = Some dead"
  shows "\<not> channel_name_taken nm (released_reg dead g)"
proof
  assume "channel_name_taken nm (released_reg dead g)"
  then obtain i where i: "hm_get (rg_chan_by_name (released_reg dead g)) nm = Some i"
    by (auto simp: channel_name_taken_def hm_contains_def)
  have ok: "index_ok ch_id ch_name (hm_get (rg_channels g)) (hm_get (rg_chan_by_name g))"
    and ok': "index_ok ch_id ch_name (hm_get (rg_channels (released_reg dead g))) (hm_get (rg_chan_by_name (released_reg dead g)))"
    using assms(1) reg_ok_released [OF assms(1), of dead] by (simp_all add: reg_ok_def channels_ok_def)
  obtain c where c: "hm_get (rg_channels (released_reg dead g)) i = Some c" "ch_name c = nm"
    using index_okD(3) [OF ok' i] by blast
  then have c': "hm_get (rg_channels g) i = Some c" "ch_owner c \<noteq> dead"
    by (auto simp: released_reg_channels [OF assms(1)] split: option.splits if_splits)
  obtain j d where "hm_get (rg_chan_by_name g) nm = Some j" "hm_get (rg_channels g) j = Some d" "ch_owner d = dead"
    using assms(2) by (auto simp: dead_channel_owner_def bind_eq_Some_conv split: if_splits)
  with index_okD(2) [OF ok c'(1)] c(2) c' show False by auto
qed

lemma dead_function_owner_freed:
  assumes "reg_ok g" "dead_function_owner nm alive g = Some dead"
  shows "\<not> function_name_taken nm (released_reg dead g)"
proof
  assume "function_name_taken nm (released_reg dead g)"
  then obtain i where i: "hm_get (rg_fn_by_name (released_reg dead g)) nm = Some i"
    by (auto simp: function_name_taken_def hm_contains_def)
  have ok: "index_ok fm_id fm_name (hm_get (rg_functions g)) (hm_get (rg_fn_by_name g))"
    and ok': "index_ok fm_id fm_name (hm_get (rg_functions (released_reg dead g))) (hm_get (rg_fn_by_name (released_reg dead g)))"
    using assms(1) reg_ok_released [OF assms(1), of dead] by (simp_all add: reg_ok_def functions_ok_def)
  obtain c where c: "hm_get (rg_functions (released_reg dead g)) i = Some c" "fm_name c = nm"
    using index_okD(3) [OF ok' i] by blast
  then have c': "hm_get (rg_functions g) i = Some c" "fm_owner c \<noteq> dead"
    by (auto simp: released_reg_functions [OF assms(1)] split: option.splits if_splits)
  obtain j d where "hm_get (rg_fn_by_name g) nm = Some j" "hm_get (rg_functions g) j = Some d" "fm_owner d = dead"
    using assms(2) by (auto simp: dead_function_owner_def bind_eq_Some_conv split: if_splits)
  with index_okD(2) [OF ok c'(1)] c(2) c' show False by auto
qed

text \<open>The ways a publication can go, each with the state in which the channel is then made.\<close>

lemma on_publish_cases:
  assumes g: "reg_ok (br_reg b)" and h: "on_publish env f b w = out"
  obtains (unread) e where "from_frame_compat (be_lib env) (be_cat env) publish_channel_from_value f = Inl e"
      "out = Some (Inl e, b, w)"
    | (free) m where "from_frame_compat (be_lib env) (be_cat env) publish_channel_from_value f = Inr m"
      "\<not> channel_name_taken (pub_channel m) (br_reg b)" "out = publish_new env m b w"
    | (reaped) m i c b1 w1 where "from_frame_compat (be_lib env) (be_cat env) publish_channel_from_value f = Inr m"
      "hm_get (rg_chan_by_name (br_reg b)) (pub_channel m) = Some i" "hm_get (rg_channels (br_reg b)) i = Some c"
      "hm_contains (rg_released (br_reg b)) i" "fst (reap_if_released (pub_channel m) (br_reg b)) \<noteq> None"
      "fold (reclaim_arena (be_os env)) [ch_arena c] (b\<lparr>br_reg := snd (drop_channel i (br_reg b))\<rparr>, w) = (b1, w1)"
      "\<not> channel_name_taken (pub_channel m) (snd (drop_channel i (br_reg b)))" "out = publish_new env m b1 w1"
    | (dead) m d b1 w1 where "from_frame_compat (be_lib env) (be_cat env) publish_channel_from_value f = Inr m"
      "dead_channel_owner (pub_channel m) (owner_alive (be_os env)) (br_reg b) = Some d"
      "release_client (be_os env) d b w = (b1, w1)" "out = publish_new env m b1 w1"
    | (taken) m where "from_frame_compat (be_lib env) (be_cat env) publish_channel_from_value f = Inr m"
      "channel_name_taken (pub_channel m) (br_reg b)"
      "fst (reap_if_released (pub_channel m) (br_reg b)) = None"
      "dead_channel_owner (pub_channel m) (owner_alive (be_os env)) (br_reg b) = None"
      "out = reply env publish_reply_to_value (pub_client_id m) PublishReply
         (err_publish (pub_correlation_id m) ERR_EXISTS ''channel already exists'') b w"
proof (cases "from_frame_compat (be_lib env) (be_cat env) publish_channel_from_value f")
  case (Inl e)
  then show ?thesis using h [symmetric] unread by (simp add: on_publish_def)
next
  case m: (Inr m)
  show ?thesis
  proof (cases "channel_name_taken (pub_channel m) (br_reg b)")
    case False
    then show ?thesis using m h [symmetric] free by (simp add: on_publish_def)
  next
    case True
    obtain ra g' where r: "reap_if_released (pub_channel m) (br_reg b) = (ra, g')" by fastforce
    show ?thesis
    proof (cases ra)
      case (Some a)
      with r have "reap_if_released (pub_channel m) (br_reg b) = (Some a, g')" by simp
      then obtain i c where i: "hm_get (rg_chan_by_name (br_reg b)) (pub_channel m) = Some i"
        "hm_get (rg_channels (br_reg b)) i = Some c" "hm_contains (rg_released (br_reg b)) i"
        "drop_channel i (br_reg b) = (Some a, g')" "\<not> channel_name_taken (pub_channel m) g'" "a = ch_arena c"
        by (rule reap_if_released_Some [OF g])
      obtain b1 w1 where s: "reclaim_arena (be_os env) a (b\<lparr>br_reg := g'\<rparr>, w) = (b1, w1)" by fastforce
      have "out = publish_new env m b1 w1" using m True r Some s h by (simp add: on_publish_def)
      then show ?thesis using reaped [OF m i(1,2,3), of b1 w1] i s r Some by simp
    next
      case None
      then have g': "g' = br_reg b" using r reap_if_released_None by simp
      show ?thesis
      proof (cases "dead_channel_owner (pub_channel m) (owner_alive (be_os env)) (br_reg b)")
        case (Some d)
        obtain b1 w1 where s: "release_client (be_os env) d b w = (b1, w1)" by fastforce
        have "out = publish_new env m b1 w1" using m True r None g' Some s h by (simp add: on_publish_def)
        then show ?thesis using dead [OF m Some s] by simp
      next
        case N: None
        have "out = reply env publish_reply_to_value (pub_client_id m) PublishReply
           (err_publish (pub_correlation_id m) ERR_EXISTS ''channel already exists'') b w"
          using m True r None g' N h by (simp add: on_publish_def)
        then show ?thesis using taken [OF m True] r None N by simp
      qed
    qed
  qed
qed

lemma keeps_dropped:
  assumes inv: "broker_inv b" and c: "hm_get (rg_channels (br_reg b)) i = Some c"
    and f: "fold (reclaim_arena os) [ch_arena c] (b\<lparr>br_reg := snd (drop_channel i (br_reg b))\<rparr>, w) = (b1, w1)"
  shows "keeps os b w b1 w1" "br_reg b1 = snd (drop_channel i (br_reg b))"
    "reg_count (br_reg b1) = reg_count (br_reg b)"
proof -
  have g: "reg_ok (br_reg b)" using inv by (simp add: broker_inv_def)
  have d: "drop_channel i (br_reg b) = (Some (ch_arena c), snd (drop_channel i (br_reg b)))"
    using c by (simp add: drop_channel_def)
  have a: "ch_arena c \<in> arena_space" using g c by (simp add: reg_ok_def channels_ok_def arena_space_def)
  note k = keeps_reclaims [OF inv reg_ok_drop_channel [OF g] _ _ _ _ f]
  show "keeps os b w b1 w1" by (rule k(1)) (use arena_names_drop_channel [OF g d] a in \<open>auto simp: reg_count_def\<close>)
  show "br_reg b1 = snd (drop_channel i (br_reg b))"
    by (rule k(2)) (use arena_names_drop_channel [OF g d] a in \<open>auto simp: reg_count_def\<close>)
  then show "reg_count (br_reg b1) = reg_count (br_reg b)" by (simp add: reg_count_def)
qed

lemma keeps_on_publish:
  assumes inv: "broker_inv b" and cnt: "reg_count (br_reg b) < 2 ^ 63 - 1"
    and h: "on_publish env f b w = Some (res, b', w')"
  shows "keeps (be_os env) b w b' w'"
proof -
  have g: "reg_ok (br_reg b)" using inv by (simp add: broker_inv_def)
  from g h show ?thesis
  proof (cases rule: on_publish_cases)
    case (unread e)
    then show ?thesis using keeps_same [OF inv] by simp
  next
    case (free m)
    then show ?thesis using keeps_publish_new [OF inv cnt] by metis
  next
    case (reaped m i c b1 w1)
    note k = keeps_dropped [OF inv reaped(3,6)]
    have "keeps (be_os env) b1 w1 b' w'"
      by (rule keeps_publish_new [OF _ _ _ reaped(8) [symmetric]])
        (use k reaped(7) cnt in \<open>simp_all add: keeps_def\<close>)
    with k show ?thesis using keeps_trans by blast
  next
    case (dead m d b1 w1)
    note k = keeps_release_client [OF inv dead(3)]
    have "br_reg b1 = released_reg d (br_reg b)" using release_client_eq(1) [OF dead(3)] by simp
    then have "\<not> channel_name_taken (pub_channel m) (br_reg b1)"
      using dead_channel_owner_freed [OF g dead(2)] by simp
    then have "keeps (be_os env) b1 w1 b' w'"
      by (rule keeps_publish_new [OF _ _ _ dead(4) [symmetric], rotated 2])
        (use k cnt in \<open>simp_all add: keeps_def\<close>)
    with k show ?thesis using keeps_trans by blast
  next
    case (taken m)
    from keeps_reply [OF keeps_same [OF inv] taken(5) [symmetric]] show ?thesis .
  qed
qed

lemma keeps_on_expose:
  assumes inv: "broker_inv b" and cnt: "reg_count (br_reg b) < 2 ^ 63 - 1"
    and h: "on_expose env f b w = Some (res, b', w')"
  shows "keeps (be_os env) b w b' w'"
proof (cases "from_frame_compat (be_lib env) (be_cat env) expose_function_from_value f")
  case (Inl e)
  with h inv keeps_same show ?thesis by (auto simp: on_expose_def)
next
  case (Inr m)
  have g: "reg_ok (br_reg b)" using inv by (simp add: broker_inv_def)
  consider "\<not> function_name_taken (exp_fn_name m) (br_reg b)"
    | "function_name_taken (exp_fn_name m) (br_reg b)"
      "dead_function_owner (exp_fn_name m) (owner_alive (be_os env)) (br_reg b) = None"
    | d where "function_name_taken (exp_fn_name m) (br_reg b)"
      "dead_function_owner (exp_fn_name m) (owner_alive (be_os env)) (br_reg b) = Some d" by fastforce
  then show ?thesis
  proof cases
    case 1
    with Inr h keeps_expose_new [OF inv cnt 1] show ?thesis by (simp add: on_expose_def)
  next
    case 2
    with Inr h keeps_reply [OF keeps_same [OF inv]] show ?thesis by (simp add: on_expose_def)
  next
    case (3 d)
    obtain b1 w1 where s: "release_client (be_os env) d b w = (b1, w1)" by fastforce
    note k = keeps_release_client [OF inv s]
    have "br_reg b1 = released_reg d (br_reg b)" using release_client_eq(1) [OF s] by simp
    then have "\<not> function_name_taken (exp_fn_name m) (br_reg b1)"
      using dead_function_owner_freed [OF g 3(2)] by simp
    then have "keeps (be_os env) b1 w1 b' w'"
      by (rule keeps_expose_new [rotated 2]) (use k cnt Inr 3 s h in \<open>simp_all add: keeps_def on_expose_def\<close>)
    with k show ?thesis using keeps_trans by blast
  qed
qed

lemma keeps_handle:
  assumes inv: "broker_inv b" and cnt: "reg_count (br_reg b) < 2 ^ 63 - 1"
    and h: "handle env bs b w = Some (res, b', w')"
  shows "keeps (be_os env) b w b' w'"
  using h keeps_same [OF inv, of "be_os env" w] keeps_on_register [OF inv cnt] keeps_on_unregister [OF inv]
    keeps_on_publish [OF inv cnt] keeps_on_unpublish [OF inv] keeps_on_list [OF inv] keeps_on_subscribe [OF inv]
    keeps_on_expose [OF inv cnt] keeps_on_lookup [OF inv]
  unfolding handle_def by (auto split: sum.splits option.splits kind.splits)

lemma keeps_sweep:
  assumes inv: "broker_inv b" and s: "sweep env b w = (b', w')"
  shows "keeps (be_os env) b w b' w'"
proof -
  let ?is = "hm_keys_where (\<lambda>at. RELEASE_GRACE \<le> be_now env - at) (rg_released (br_reg b))"
  have g: "reg_ok (br_reg b)" using inv by (simp add: broker_inv_def)
  then have d: "distinct ?is" by (simp add: reg_ok_def releases_ok_def)
  have f: "fold (reclaim_arena (be_os env)) (fst (drop_channels ?is (br_reg b)))
      (b\<lparr>br_reg := snd (drop_channels ?is (br_reg b))\<rparr>, w) = (b', w')"
    using s by (simp add: sweep_def reap_released_def case_prod_beta Let_def)
  have "set (fst (drop_channels ?is (br_reg b))) \<subseteq> arena_space"
    unfolding chan.dels_arenas [OF d] using g by (auto simp: reg_ok_def channels_ok_def arena_space_def)
  then show ?thesis
    by (rule keeps_reclaims(1) [OF inv reg_ok_drop_channels [OF g] arena_names_drop_channels [OF g d] _ _ _ f])
      (simp_all add: reg_count_def)
qed

end
