(* ===== verification/Ring_Broker_Props.thy ===== *)
theory Ring_Broker_Props
  imports Ring_Broker_Inv
begin

text \<open>
  What the broker promises: it starts only where no live broker is, every state it can reach is
  consistent and leaks no arena, a request is answered once and under its own correlation id, a
  name is given to one owner at a time, and a departing client leaves nothing behind.
\<close>

section \<open>Starting\<close>

lemma unlink_keeps_None: "sys_open n w = None \<Longrightarrow> sys_open n (snd (unlink os m w)) = None"
  using unlink_dir(1) [of n os m w] by auto

lemma unlinks_keep_None: "sys_open n w = None \<Longrightarrow> sys_open n (fold (\<lambda>m w. snd (unlink os m w)) ms w) = None"
  by (induction ms arbitrary: w) (simp_all add: unlink_keeps_None)

lemma shm_ok_unlinks: "shm_ok w \<Longrightarrow> shm_ok (fold (\<lambda>m w. snd (unlink os m w)) ms w)"
  by (induction ms arbitrary: w) (auto intro: shm_ok_unlink)

lemma unlink_gone: "os_steady os \<Longrightarrow> \<not> has_nul n \<Longrightarrow> sys_open n (snd (unlink os n w)) = None"
  by (auto simp: unlink_def os_steady_def sys_open_def split: option.splits)

lemma unlinks_gone:
  assumes "os_steady os" "\<not> has_nul n" "n \<in> set ms"
  shows "sys_open n (fold (\<lambda>m w. snd (unlink os m w)) ms w) = None"
  using assms(3)
proof (induction ms arbitrary: w)
  case (Cons m ms)
  show ?case
  proof (cases "n = m")
    case True
    then have "sys_open n (snd (unlink os m w)) = None"
      using unlink_gone [OF assms(1,2)] by simp
    then show ?thesis by (simp add: unlinks_keep_None)
  next
    case False
    with Cons show ?thesis by simp
  qed
qed simp

lemma cleanup_stale_gone:
  assumes "os_steady os" "os_read_dir os = None" "n \<in> bus_names" "shm_ok w"
  shows "sys_open n (cleanup_stale os w) = None"
proof (cases "sys_open n w")
  case None
  then show ?thesis by (simp add: cleanup_stale_def unlinks_keep_None split: sum.splits)
next
  case (Some ob)
  let ?ns = "map (\<lambda>fname. CHR ''/'' # fname)
      (filter (\<lambda>fname. starts_with fname NAME_PREFIX) (map fst (hm_entries (shm_dir w))))"
  have "(shm_path n, ob) \<in> set (hm_entries (shm_dir w))"
    using Some assms(4) hm.entries_get [of "shm_dir w"] by (simp add: sys_open_def shm_ok_def)
  then have "shm_path n \<in> set (map fst (hm_entries (shm_dir w)))" by force
  then have "CHR ''/'' # shm_path n \<in> set ?ns" using bus_name_prefix [OF assms(3)] by auto
  then have "n \<in> set ?ns" using bus_name_path [OF assms(3)] by simp
  from unlinks_gone [OF assms(1) bus_name_nul [OF assms(3)] this] show ?thesis
    by (simp add: cleanup_stale_def list_segments_def assms(2))
qed

lemma shm_ok_cleanup: "shm_ok w \<Longrightarrow> shm_ok (cleanup_stale os w)"
  by (simp add: cleanup_stale_def shm_ok_unlinks split: sum.splits)

lemma shm_ok_guard: "shm_ok w \<Longrightarrow> shm_ok (snd (guard_singleton os w))"
  by (auto simp: guard_singleton_def Let_def shm_ok_unlink shm_ok_drop split: sum.splits)

lemma start_cases:
  assumes "start env w = (Inr b, w')"
  obtains w1 seg w2 m r where "guard_singleton (be_os env) w = (Inr (), w1)"
    "segment_create (be_os env) CONTROL_SEGMENT control_segment_bytes (cleanup_stale (be_os env) w1) = (Inr seg, w2)"
    "format_control seg (be_pid env) (be_epoch env) (shm_obj w2 (seg_ptr seg)) = (Inr r, m)"
    "b = \<lparr>br_control_seg = seg, br_submission = r, br_reg = registry_new, br_reply_rings = hm_empty,
      br_reply_segs = hm_empty, br_arenas = hm_empty, br_reply_names = []\<rparr>"
    "w' = set_obj (seg_ptr seg) m w2"
proof -
  obtain g w1 where g: "guard_singleton (be_os env) w = (g, w1)" by fastforce
  obtain c w2 where c: "segment_create (be_os env) CONTROL_SEGMENT control_segment_bytes (cleanup_stale (be_os env) w1) = (c, w2)"
    by fastforce
  show ?thesis
  proof (cases g)
    case (Inl e)
    with assms g show ?thesis by (simp add: start_def)
  next
    case G: (Inr u)
    show ?thesis
    proof (cases c)
      case (Inl e)
      with assms g G c show ?thesis by (simp add: start_def)
    next
      case (Inr seg)
      obtain f m where f: "format_control seg (be_pid env) (be_epoch env) (shm_obj w2 (seg_ptr seg)) = (f, m)" by fastforce
      show ?thesis
        using assms g G c Inr f that by (cases f) (auto simp: start_def)
    qed
  qed
qed

lemma start_inv:
  assumes "start env w = (Inr b, w')" "shm_ok w"
  shows "broker_inv b" "reg_count (br_reg b) = 1" "shm_ok w'"
    and "os_steady (be_os env) \<Longrightarrow> os_read_dir (be_os env) = None \<Longrightarrow> world_ok b w'"
proof -
  obtain w1 seg w2 m r where s: "guard_singleton (be_os env) w = (Inr (), w1)"
    "segment_create (be_os env) CONTROL_SEGMENT control_segment_bytes (cleanup_stale (be_os env) w1) = (Inr seg, w2)"
    "b = \<lparr>br_control_seg = seg, br_submission = r, br_reg = registry_new, br_reply_rings = hm_empty,
      br_reply_segs = hm_empty, br_arenas = hm_empty, br_reply_names = []\<rparr>"
    "w' = set_obj (seg_ptr seg) m w2"
    using start_cases [OF assms(1)] by metis
  show "broker_inv b"
    by (simp add: s(3) broker_inv_def arena_names_def) (simp add: registry_new_def)
  show "reg_count (br_reg b) = 1" by (simp add: s(3) reg_count_def registry_new_def)
  have w1: "shm_ok w1" using shm_ok_guard [OF assms(2), of "be_os env"] s(1) by simp
  have w2: "shm_ok w2"
    using shm_ok_create [OF shm_ok_cleanup [OF w1], of "be_os env" CONTROL_SEGMENT control_segment_bytes "be_os env"] s(2) by simp
  then show "shm_ok w'" by (simp add: s(4))
  assume steady: "os_steady (be_os env)" and dir: "os_read_dir (be_os env) = None"
  have "sys_open n w' = None" if "n \<in> arena_space" for n
  proof -
    have gone: "sys_open n (cleanup_stale (be_os env) w1) = None"
      by (rule cleanup_stale_gone [OF steady dir arena_space_bus [OF that] w1])
    have "n \<noteq> CONTROL_SEGMENT" using that by (auto simp: arena_space_def)
    then have "shm_path n \<noteq> shm_path CONTROL_SEGMENT"
      using bus_name_path_inject [OF arena_space_bus [OF that]] by blast
    have pos: "0 < control_segment_bytes" by (simp add: control_segment_bytes_def ring_bytes_def)
    from steady pos s(2) show ?thesis
    proof (cases rule: segment_create_steady)
      case (created seg')
      with gone \<open>shm_path n \<noteq> shm_path CONTROL_SEGMENT\<close> show ?thesis by (simp add: s(4) sys_creat_open_other)
    qed simp
  qed
  then show "world_ok b w'" using w2 by (simp add: world_ok_def s(3,4))
qed

section \<open>The reachable states of the bus\<close>

type_synonym bus_state = "nat \<times> broker \<times> shm"

text \<open>
  The steps of the bus, for one Avro library and the catalogue built from it: the broker handles a
  message, or sweeps, or other processes act, which may write into any segment and create and
  remove segments, but leave the names reserved for arenas to the broker. The number counts
  messages; a run is shorter than \<open>2 ^ 63\<close> of them, so that identifiers are not used twice.
\<close>

definition bus_init :: "'sc avro_lib \<Rightarrow> 'sc catalog \<Rightarrow> bus_state \<Rightarrow> bool" where
  "bus_init lib cat s \<longleftrightarrow> (\<exists>env w0 b w. s = (0, b, w) \<and> shm_ok w0 \<and> be_lib env = lib \<and> be_cat env = cat \<and>
     os_steady (be_os env) \<and> os_read_dir (be_os env) = None \<and> start env w0 = (Inr b, w))"

inductive bus_step :: "'sc avro_lib \<Rightarrow> 'sc catalog \<Rightarrow> bus_state \<Rightarrow> bus_state \<Rightarrow> bool"
  for lib :: "'sc avro_lib" and cat :: "'sc catalog" where
  step_message: "n < 2 ^ 63 - 2 \<Longrightarrow> be_lib env = lib \<Longrightarrow> be_cat env = cat \<Longrightarrow> os_steady (be_os env) \<Longrightarrow>
     handle env bs b w = Some (res, b', w') \<Longrightarrow> bus_step lib cat (n, b, w) (Suc n, b', w')"
| step_sweep: "be_lib env = lib \<Longrightarrow> be_cat env = cat \<Longrightarrow> os_steady (be_os env) \<Longrightarrow>
     sweep env b w = (b', w') \<Longrightarrow> bus_step lib cat (n, b, w) (n, b', w')"
| step_others: "shm_ok w' \<Longrightarrow> (\<And>nm. nm \<in> arena_space \<Longrightarrow> sys_open nm w' = sys_open nm w) \<Longrightarrow>
     bus_step lib cat (n, b, w) (n, b, w')"

inductive_cases bus_stepE: "bus_step lib cat (n, b, w) t"

definition bus_inv :: "bus_state \<Rightarrow> bool" where
  "bus_inv s \<longleftrightarrow> (case s of (n, b, w) \<Rightarrow>
     broker_inv b \<and> world_ok b w \<and> reg_count (br_reg b) \<le> int n + 1 \<and> n \<le> 2 ^ 63 - 2)"

lemma sweep_count: "reg_count (br_reg (fst (sweep env b w))) = reg_count (br_reg b)"
  by (simp add: sweep_def reap_released_def reg_count_def case_prod_beta Let_def)

interpretation bus: invariant_system "bus_init lib cat" "bus_step lib cat" bus_inv for lib cat
proof unfold_locales
  fix s assume "bus_init lib cat s"
  then show "bus_inv s"
    using start_inv by (fastforce simp: bus_init_def bus_inv_def)
next
  fix s t assume inv: "bus_inv s" and "bus_step lib cat s t"
  from this(2) show "bus_inv t"
  proof cases
    case (step_message n env bs b w res b' w')
    have k: "broker_inv b" "world_ok b w" "reg_count (br_reg b) \<le> int n + 1"
      using inv step_message(1) by (simp_all add: bus_inv_def)
    have "int n < 2 ^ 63 - 2" using step_message(3) by simp
    then have "reg_count (br_reg b) < 2 ^ 63 - 1" using k(3) by linarith
    from keeps_handle [OF k(1) this step_message(7)] k step_message show ?thesis
      by (simp add: keeps_def counted_def bus_inv_def)
  next
    case (step_sweep env b w b' w' n)
    have k: "broker_inv b" "world_ok b w" "reg_count (br_reg b) \<le> int n + 1" "n \<le> 2 ^ 63 - 2"
      using inv step_sweep(1) by (simp_all add: bus_inv_def)
    have c: "reg_count (br_reg b') = reg_count (br_reg b)"
      using sweep_count [of env b w] step_sweep(6) by simp
    from keeps_sweep [OF k(1) step_sweep(6)] k c step_sweep show ?thesis
      by (simp add: keeps_def counted_def bus_inv_def)
  next
    case (step_others w' w n b)
    with inv show ?thesis by (simp add: bus_inv_def world_ok_def)
  qed
qed


text \<open>
  C12: on a kernel that, once it has created a name, also sizes and maps it, that removes names when told to, and
  whose directory could be listed when the broker started, and as long as fewer than \<open>2^63 - 2\<close> messages have been
  handled: in every state the bus can reach, whatever messages arrive, in whatever order, well formed or not, whether
  or not the kernel refuses to create or open a name, and whatever other processes write into the segments and whatever
  names other than those of arenas they create and remove in between: the tables of the broker
  agree with their name indexes; the arenas it keeps are exactly those of the registered channels and
  functions; every registered client has a reply ring and no other ring is kept; and an arena name
  exists in the shared memory directory if and only if it belongs to a registered channel or
  function, so on such a kernel no arena leaks and none is missing.
\<close>

theorem bus_invariant:
  assumes "reach (bus_init lib cat) (bus_step lib cat) (n, b, w)"
  shows "reg_ok (br_reg b) \<and>
    (\<forall>nm. hm_contains (br_arenas b) nm \<longleftrightarrow> nm \<in> arena_names (br_reg b)) \<and>
    (\<forall>i. hm_contains (br_reply_rings b) i \<longleftrightarrow> hm_contains (rg_clients (br_reg b)) i) \<and>
    (\<forall>nm \<in> arena_space. sys_open nm w \<noteq> None \<longleftrightarrow> nm \<in> arena_names (br_reg b))"
proof -
  have inv: "broker_inv b" "world_ok b w" using bus.inv_reach [OF assms] by (simp_all add: bus_inv_def)
  have "sys_open nm w \<noteq> None \<longleftrightarrow> nm \<in> arena_names (br_reg b)" if "nm \<in> arena_space" for nm
  proof -
    have "sys_open nm w \<noteq> None \<longleftrightarrow> hm_contains (br_arenas b) nm"
      using inv(2) that by (simp add: world_ok_def hm_contains_def)
    also have "\<dots> \<longleftrightarrow> nm \<in> arena_names (br_reg b)" using inv(1) by (simp add: broker_inv_def)
    finally show ?thesis .
  qed
  with inv(1) show ?thesis by (simp add: broker_inv_def)
qed

section \<open>The control loop\<close>

lemma bus_reach_mem:
  assumes "reach (bus_init lib cat) (bus_step lib cat) (n, b, w)"
  shows "reach (bus_init lib cat) (bus_step lib cat) (n, b, set_obj ob m w)"
proof -
  have "shm_ok w" using bus.inv_reach [OF assms] by (simp add: bus_inv_def world_ok_def)
  then have "bus_step lib cat (n, b, w) (n, b, set_obj ob m w)" by (intro step_others) simp_all
  with assms show ?thesis by (rule reach_step)
qed

text \<open>Other processes that keep the directory in order and leave the arenas' names to the broker.\<close>

definition keeps_names :: "(shm \<Rightarrow> shm) \<Rightarrow> bool" where
  "keeps_names f \<longleftrightarrow> (\<forall>w. shm_ok w \<longrightarrow> shm_ok (f w) \<and> (\<forall>nm \<in> arena_space. sys_open nm (f w) = sys_open nm w))"

lemma run_reach:
  assumes "reach (bus_init lib cat) (bus_step lib cat) (n, b, w)"
    and "\<forall>(env, others, parks, es) \<in> set turns. be_lib env = lib \<and> be_cat env = cat \<and> os_steady (be_os env) \<and> keeps_names others"
    and "n + length turns \<le> 2 ^ 63 - 2" and "run turns last_sweep b w = Some (b', w')"
  shows "\<exists>n'. n \<le> n' \<and> n' \<le> n + length turns \<and> reach (bus_init lib cat) (bus_step lib cat) (n', b', w')"
  using assms
proof (induction turns arbitrary: n last_sweep b w)
  case Nil
  then show ?case by auto
next
  case (Cons turn turns)
  obtain env others parks es where turn: "turn = (env, others, parks, es)" by (cases turn)
  note prems = Cons.prems [unfolded turn]
  obtain v m es' where pop: "pop_blocking (br_submission b) (Some parks) es (ring_mem (br_submission b) (others w)) = Some (v, m, es')"
    using prems(4) by (auto split: option.splits)
  let ?w1 = "set_ring_mem (br_submission b) m (others w)"
  obtain res b2 w2 where h: "(case v of None \<Rightarrow> Some (Inr (), b, ?w1) | Some bs \<Rightarrow> handle env bs b ?w1) = Some (res, b2, w2)"
    using prems(4) pop by (auto simp: Let_def split: option.splits)
  have env: "be_lib env = lib" "be_cat env = cat" "os_steady (be_os env)" using prems(2) by simp_all
  have "bus_step lib cat (n, b, w) (n, b, others w)"
    using prems(1,2) bus.inv_reach [of lib cat "(n, b, w)"] by (intro step_others) (auto simp: keeps_names_def bus_inv_def world_ok_def)
  then have r0: "reach (bus_init lib cat) (bus_step lib cat) (n, b, others w)" by (rule reach_step [OF prems(1)])
  have r1: "reach (bus_init lib cat) (bus_step lib cat) (n, b, ?w1)"
    using bus_reach_mem [OF r0] by (simp add: set_ring_mem_def)
  obtain n2 where n2: "n \<le> n2" "n2 \<le> Suc n" "reach (bus_init lib cat) (bus_step lib cat) (n2, b2, w2)"
  proof (cases v)
    case None
    with h r1 that [of n] show ?thesis by auto
  next
    case (Some bs)
    have "n < 2 ^ 63 - 2" using prems(3) by simp
    from step_message [OF this env] h Some have "bus_step lib cat (n, b, ?w1) (Suc n, b2, w2)" by simp
    from that [of "Suc n"] reach_step [OF r1 this] show ?thesis by simp
  qed
  have rest: "\<forall>(env, others, parks, es) \<in> set turns. be_lib env = lib \<and> be_cat env = cat \<and> os_steady (be_os env) \<and> keeps_names others"
    using prems(2) by simp
  have len: "n2 + length turns \<le> 2 ^ 63 - 2" using prems(3) n2(2) by simp
  show ?case
  proof (cases "SWEEP_INTERVAL \<le> be_now env - last_sweep")
    case True
    obtain b3 w3 where s: "sweep env b2 w2 = (b3, w3)" by fastforce
    have r3: "reach (bus_init lib cat) (bus_step lib cat) (n2, b3, w3)"
      by (rule reach_step [OF n2(3) step_sweep [OF env s]])
    have "run turns (be_now env) b3 w3 = Some (b', w')" using prems(4) pop h True s by (simp add: Let_def)
    from Cons.IH [OF r3 rest len this] obtain n' where "n2 \<le> n'" "n' \<le> n2 + length turns"
      "reach (bus_init lib cat) (bus_step lib cat) (n', b', w')" by blast
    with n2 show ?thesis by (intro exI [of _ n']) simp
  next
    case False
    have "run turns last_sweep b2 w2 = Some (b', w')" using prems(4) pop h False by (simp add: Let_def)
    from Cons.IH [OF n2(3) rest len this] obtain n' where "n2 \<le> n'" "n' \<le> n2 + length turns"
      "reach (bus_init lib cat) (bus_step lib cat) (n', b', w')" by blast
    with n2 show ?thesis by (intro exI [of _ n']) simp
  qed
qed

section \<open>Replies\<close>

text \<open>A ring is at rest or not whatever handle it is looked at through.\<close>

lemma ring_seg_words [simp]:
  "head (r\<lparr>ring_seg := s\<rparr>) = head r" "tail (r\<lparr>ring_seg := s\<rparr>) = tail r" "prod_lock (r\<lparr>ring_seg := s\<rparr>) = prod_lock r"
  "space_seq (r\<lparr>ring_seg := s\<rparr>) = space_seq r" "data_seq (r\<lparr>ring_seg := s\<rparr>) = data_seq r"
  "set_head (r\<lparr>ring_seg := s\<rparr>) = set_head r" "set_tail (r\<lparr>ring_seg := s\<rparr>) = set_tail r"
  "set_prod_lock (r\<lparr>ring_seg := s\<rparr>) = set_prod_lock r" "set_space_seq (r\<lparr>ring_seg := s\<rparr>) = set_space_seq r"
  "set_data_seq (r\<lparr>ring_seg := s\<rparr>) = set_data_seq r" "data_off (r\<lparr>ring_seg := s\<rparr>) = data_off r"
  by (simp_all add: word_defs data_off_def fun_eq_iff)

lemma ring_seg_state [simp]:
  "ring_list (r\<lparr>ring_seg := s\<rparr>) = ring_list r" "ring_idle (r\<lparr>ring_seg := s\<rparr>) = ring_idle r"
proof -
  have b: "ring_byte (r\<lparr>ring_seg := s\<rparr>) = ring_byte r" by (simp add: fun_eq_iff ring_byte_def)
  have w: "window (r\<lparr>ring_seg := s\<rparr>) = window r" by (simp add: fun_eq_iff window_def b)
  have st: "ring_stored (r\<lparr>ring_seg := s\<rparr>) = ring_stored r" by (simp add: fun_eq_iff ring_stored_def w ring_used_def)
  show l: "ring_list (r\<lparr>ring_seg := s\<rparr>) = ring_list r" by (simp add: fun_eq_iff ring_list_def st)
  show "ring_idle (r\<lparr>ring_seg := s\<rparr>) = ring_idle r"
    by (simp add: fun_eq_iff ring_idle_def ring_inv_def ring_geom_def ring_used_def st l)
qed

lemma ring_mem_set [simp]: "ring_mem r (set_ring_mem r m w) = m"
  by (simp add: ring_mem_def set_ring_mem_def)

lemma reply_done:
  assumes "to_frame (be_lib env) (be_cat env) to_v k msg = Inr f"
    and "\<forall>r. hm_get (br_reply_rings b) cid = Some r \<longrightarrow> ring_idle r (ring_mem r w) \<and>
       (\<forall>e \<in> set (be_others env). \<forall>m. ring_idle r m \<longrightarrow> ring_idle r (e m))"
    and "be_parks env \<le> length (be_others env)"
  shows "\<exists>res w'. reply env to_v cid k msg b w = Some (res, b, w') \<and>
    (case hm_get (br_reply_rings b) cid of
       None \<Rightarrow> res = Inl (IoOther ''reply ring for client not found'') \<and> w' = w
     | Some r \<Rightarrow>
         ring_idle r (ring_mem r w') \<and>
         (\<forall>ob. ob \<noteq> seg_ptr (ring_seg r) \<longrightarrow> shm_obj w' ob = shm_obj w ob) \<and>
         (if res = Inr () then \<exists>q. ring_list r (ring_mem r w') = q @ [frame_encode f]
          else res = Inl (IoOther ''reply ring full (client stuck?)'') \<and>
            ring_cap r < records_size (ring_list r (ring_mem r w')) + 4 + length (frame_encode f)) \<and>
         (records_size (ring_list r (ring_mem r w)) + 4 + length (frame_encode f) \<le> ring_cap r \<longrightarrow>
            res = Inr () \<and> ring_list r (ring_mem r w') = ring_list r (ring_mem r w) @ [frame_encode f]))"
proof (cases "hm_get (br_reply_rings b) cid")
  case None
  then show ?thesis by (simp add: reply_def)
next
  case (Some r)
  let ?d = "frame_encode f" and ?m = "ring_mem r w"
  have idle: "ring_idle r ?m" and others: "\<forall>e \<in> set (be_others env). \<forall>m. ring_idle r m \<longrightarrow> ring_idle r (e m)"
    using assms(2) Some by simp_all
  obtain ok m' es' where p: "push_blocking r ?d (Some (be_parks env)) (be_others env) ?m = Some (ok, m', es')"
    and p': "ring_idle r m'" "if ok then \<exists>q. ring_list r m' = q @ [?d]
      else ring_cap r < records_size (ring_list r m') + 4 + length ?d"
    using push_blocking_done [OF idle others assms(3), of ?d] by blast
  have fits: "ok \<and> ring_list r m' = ring_list r ?m @ [?d]"
    if fit: "records_size (ring_list r ?m) + 4 + length ?d \<le> ring_cap r"
  proof -
    have h: "ring_holds r ?m (ring_list r ?m)" and free: "prod_lock r ?m = 0"
      using idle by (simp_all add: ring_idle_holds ring_idle_def)
    from push_blocking_accept [OF h free fit, of "Some (be_parks env)" "be_others env"] p
    show ?thesis using ring_holdsD by auto
  qed
  have "reply env to_v cid k msg b w = Some (if ok then Inr () else Inl (IoOther ''reply ring full (client stuck?)''),
      b, set_ring_mem r m' w)"
    by (simp add: reply_def Some assms(1) p)
  with p' fits Some show ?thesis by (auto simp: set_ring_mem_def ring_mem_def)
qed

text \<open>
  a reply to a registered client always comes to an end within the schedule of its time limit,
  as long as the reply ring's lock is released by whoever holds it: either the frame is the
  newest record of the client's ring, or the ring was full to the end and the error says so. A
  frame that fits at once is appended behind what the ring holds, and touches no other segment;
  a client that is not registered gets nothing, and the handler reports that.
\<close>

lemma reply_spec:
  assumes "to_frame (be_lib env) (be_cat env) to_v k msg = Inr f"
    and "\<forall>r. hm_get (br_reply_rings b) cid = Some r \<longrightarrow> ring_idle r (ring_mem r w) \<and>
       (\<forall>e \<in> set (be_others env). \<forall>m. ring_idle r m \<longrightarrow> ring_idle r (e m))"
    and "be_parks env \<le> length (be_others env)"
  shows "\<exists>res w'. reply env to_v cid k msg b w = Some (res, b, w') \<and>
    (case hm_get (br_reply_rings b) cid of
       None \<Rightarrow> res = Inl (IoOther ''reply ring for client not found'') \<and> w' = w
     | Some r \<Rightarrow>
         ring_idle r (ring_mem r w') \<and>
         (\<forall>ob. ob \<noteq> seg_ptr (ring_seg r) \<longrightarrow> shm_obj w' ob = shm_obj w ob) \<and>
         (if res = Inr () then \<exists>q. ring_list r (ring_mem r w') = q @ [frame_encode f]
          else res = Inl (IoOther ''reply ring full (client stuck?)'') \<and>
            ring_cap r < records_size (ring_list r (ring_mem r w')) + 4 + length (frame_encode f)) \<and>
         (records_size (ring_list r (ring_mem r w)) + 4 + length (frame_encode f) \<le> ring_cap r \<longrightarrow>
            res = Inr () \<and> ring_list r (ring_mem r w') = ring_list r (ring_mem r w) @ [frame_encode f]))"
  using assms by (rule reply_done)

section \<open>Publishing\<close>

text \<open>What a granted publication leaves behind.\<close>

definition channel_made :: "'sc broker_env \<Rightarrow> publish_channel \<Rightarrow> publish_reply \<Rightarrow> broker \<Rightarrow> shm \<Rightarrow> bool" where
  "channel_made env m msg b w \<longleftrightarrow>
     (\<exists>c sc seg r. hm_get (rg_channels (br_reg b)) (pubr_channel_id msg) = Some c \<and>
        hm_get (rg_chan_by_name (br_reg b)) (pub_channel m) = Some (pubr_channel_id msg) \<and>
        ch_name c = pub_channel m \<and> ch_owner c = pub_client_id m \<and>
        ch_key c = access_policy (be_sha env) (pub_access_key m) \<and>
        avro_parse (be_lib env) (pub_schema_json m) = Inr (sc, ch_schema_fp c) \<and>
        pubr_schema_fp msg = fp_to_i64 (ch_schema_fp c) \<and> pubr_arena msg = ch_arena c \<and>
        hm_get (br_arenas b) (ch_arena c) = Some seg \<and> sys_open (ch_arena c) w = Some (seg_ptr seg) \<and>
        ring_attach seg 0 (shm_obj w (seg_ptr seg)) = Inr r \<and>
        ring_cap r = clamp_arena_cap (nat (max (pub_arena_cap m) 0)))"

text \<open>What a publication needs to be granted: a schema that parses, and a name the kernel is willing to create.\<close>

definition grantable :: "'sc broker_env \<Rightarrow> publish_channel \<Rightarrow> registry \<Rightarrow> bool" where
  "grantable env m g \<longleftrightarrow> is_ok (avro_parse (be_lib env) (pub_schema_json m)) \<and>
     os_shm_open (be_os env) (channel_arena (word_of_int (rg_next_channel g))) True = None"

lemma make_arena_granted:
  assumes steady: "os_steady os" and nm: "nm \<in> arena_space" and cap: "is_power_of_two cap" "cap < 2 ^ 32"
    and m: "make_arena os nm cap b w = (res, b', w')"
  shows "is_ok res \<longleftrightarrow> os_shm_open os nm True = None" "br_reg b' = br_reg b"
proof -
  have nn: "\<not> has_nul nm" using nm by (intro bus_name_nul arena_space_bus)
  have pos: "0 < ring_bytes cap" by (simp add: ring_bytes_def)
  show "is_ok res \<longleftrightarrow> os_shm_open os nm True = None"
  proof (cases "os_shm_open os nm True")
    case None
    then obtain seg w1 where c: "segment_create os nm (ring_bytes cap) w = (Inr seg, w1)"
      using nn pos steady by (simp add: segment_create_def os_steady_def sys_mmap_def Let_def case_prod_beta)
    note seg = segment_create_Inr [OF c]
    obtain r m' where "ring_format seg 0 cap (shm_obj w1 (seg_ptr seg)) = (Inr r, m')"
      using ring_format_ok [of cap 0 seg "shm_obj w1 (seg_ptr seg)"] cap seg by auto
    with c m None show ?thesis by (auto simp: make_arena_def Let_def)
  next
    case (Some e)
    then have "segment_create os nm (ring_bytes cap) w = (Inl (IoOs e), w)" using nn by (simp add: segment_create_def)
    with m Some show ?thesis by (auto simp: make_arena_def)
  qed
  show "br_reg b' = br_reg b" using m by (auto simp: make_arena_def Let_def split: prod.splits sum.splits)
qed

lemma publish_new_spec:
  assumes inv: "broker_inv b" "world_ok b w" and steady: "os_steady (be_os env)"
    and cnt: "reg_count (br_reg b) < 2 ^ 63 - 1" and free: "\<not> channel_name_taken (pub_channel m) (br_reg b)"
  shows "\<exists>msg b1 w1. publish_new env m b w =
      reply env publish_reply_to_value (pub_client_id m) PublishReply msg b1 w1 \<and>
    pubr_correlation_id msg = pub_correlation_id m \<and>
    (if grantable env m (br_reg b)
     then pubr_status msg = STATUS_OK \<and> channel_made env m msg b1 w1 \<and> pubr_channel_id msg = rg_next_channel (br_reg b) \<and>
       pubr_arena msg = channel_arena (word_of_int (rg_next_channel (br_reg b))) \<and>
       rg_next_channel (br_reg b1) = rg_next_channel (br_reg b) + 1
     else pubr_status msg = ERR_INTERNAL \<and> pubr_channel_id msg = 0 \<and> pubr_arena msg = [] \<and>
       rg_channels (br_reg b1) = rg_channels (br_reg b) \<and> br_arenas b1 = br_arenas b)"
proof (cases "avro_parse (be_lib env) (pub_schema_json m)")
  case (Inl e)
  then show ?thesis
    by (intro exI conjI) (auto simp: publish_new_def err_publish_def grantable_def)
next
  case (Inr x)
  obtain sc fp where x: "x = (sc, fp)" by fastforce
  let ?g = "snd (alloc_channel_id (br_reg b))" and ?id = "rg_next_channel (br_reg b)"
  let ?nm = "channel_arena (word_of_int ?id)" and ?cap = "clamp_arena_cap (nat (max (pub_arena_cap m) 0))"
  have g: "reg_ok (br_reg b)" using inv by (simp add: broker_inv_def)
  have none: "hm_get (br_arenas (b\<lparr>br_reg := ?g\<rparr>)) ?nm = None"
    using inv fresh_channel_arena [OF g] by (auto simp: broker_inv_def hm_contains_def)
  have sp: "?nm \<in> arena_space" by (simp add: arena_space_def)
  obtain ar b1 w1 where mk: "make_arena (be_os env) ?nm ?cap (b\<lparr>br_reg := ?g\<rparr>) w = (ar, b1, w1)"
    by (metis prod_cases3)
  have w1: "world_ok (b\<lparr>br_reg := ?g\<rparr>) w" using inv(2) by simp
  note world = make_arena_world [OF steady w1 sp none clamp_bounds mk]
  note made = make_arena_granted [OF steady sp clamp_bounds mk]
  have ok: "grantable env m (br_reg b) \<longleftrightarrow> is_ok ar" using Inr made(1) by (simp add: grantable_def)
  have id: "fst (alloc_channel_id (br_reg b)) = ?id" by (simp add: alloc_channel_id_def)
  have "0 < ?id" "?id < 2 ^ 63 - 1" using g cnt by (simp_all add: reg_ok_def counters_ok_def reg_count_def)
  then have nx: "rg_next_channel ?g = ?id + 1" by (simp add: alloc_channel_id_def wrap_i64_id)
  show ?thesis
  proof (cases ar)
    case (Inl e)
    with world(2) have "b1 = b\<lparr>br_reg := ?g\<rparr>" "w1 = w" by auto
    with Inl mk Inr x id ok show ?thesis
      by (intro exI [of _ "err_publish (pub_correlation_id m) ERR_INTERNAL
            (''cannot allocate a channel arena: '' @ show_io_error (be_os env) e)"] exI [of _ b1] exI [of _ w1])
        (simp add: publish_new_def err_publish_def alloc_channel_id_def)
  next
    case (Inr n)
    let ?c = "\<lparr>ch_id = ?id, ch_name = pub_channel m, ch_owner = pub_client_id m, ch_schema_fp = fp,
        ch_key = access_policy (be_sha env) (pub_access_key m), ch_arena = ?nm\<rparr>"
    let ?msg = "\<lparr>pubr_correlation_id = pub_correlation_id m, pubr_channel_id = ?id, pubr_schema_fp = fp_to_i64 fp,
        pubr_arena = ?nm, pubr_status = STATUS_OK, pubr_message = []\<rparr>"
    let ?b = "b1\<lparr>br_reg := insert_channel ?c (br_reg b1)\<rparr>"
    from world(3) [OF Inr] obtain seg r where n: "n = ?nm" and seg: "hm_get (br_arenas b1) ?nm = Some seg"
      "ring_attach seg 0 (shm_obj w1 (seg_ptr seg)) = Inr r" "ring_cap r = ?cap" by auto
    have op: "sys_open ?nm w1 = Some (seg_ptr seg)" using world(1) sp seg(1) by (simp add: world_ok_def)
    have "publish_new env m b w = reply env publish_reply_to_value (pub_client_id m) PublishReply ?msg ?b w1"
      using \<open>avro_parse (be_lib env) (pub_schema_json m) = Inr x\<close> x mk Inr n id
      by (simp add: publish_new_def Let_def case_prod_beta)
    moreover have "channel_made env m ?msg ?b w1"
      using \<open>avro_parse (be_lib env) (pub_schema_json m) = Inr x\<close> x seg op
      by (simp add: channel_made_def insert_channel_def)
    moreover have "rg_next_channel (br_reg ?b) = ?id + 1" using made(2) nx by (simp add: insert_channel_def)
    ultimately show ?thesis using ok Inr
      by (intro exI [of _ ?msg] exI [of _ ?b] exI [of _ w1]) simp
  qed
qed

lemma channel_taken_live:
  assumes "reap_if_released nm g = (None, g')" "dead_channel_owner nm alive g = None" "channel_name_taken nm g" "reg_ok g"
  shows "\<exists>i c. hm_get (rg_chan_by_name g) nm = Some i \<and> hm_get (rg_channels g) i = Some c \<and>
    \<not> hm_contains (rg_released g) i \<and> alive (client_pid g (ch_owner c))"
proof -
  have ok: "index_ok ch_id ch_name (hm_get (rg_channels g)) (hm_get (rg_chan_by_name g))"
    using assms(4) by (simp add: reg_ok_def channels_ok_def)
  obtain i where i: "hm_get (rg_chan_by_name g) nm = Some i"
    using assms(3) by (auto simp: channel_name_taken_def hm_contains_def)
  obtain c where c: "hm_get (rg_channels g) i = Some c" using index_okD(3) [OF ok i] by blast
  have "\<not> hm_contains (rg_released g) i"
    using assms(1) i c by (auto simp: reap_if_released_def drop_channel_def split: if_splits)
  moreover have "alive (client_pid g (ch_owner c))"
    using assms(2) i c by (simp add: dead_channel_owner_def split: if_splits)
  ultimately show ?thesis using i c by blast
qed

text \<open>A name held by a channel that was not released and whose owner is not known to be dead.\<close>

definition held_channel :: "os_env \<Rightarrow> string \<Rightarrow> registry \<Rightarrow> bool" where
  "held_channel os nm g \<longleftrightarrow>
     (\<exists>i c. hm_get (rg_chan_by_name g) nm = Some i \<and> hm_get (rg_channels g) i = Some c \<and>
        \<not> hm_contains (rg_released g) i \<and> owner_alive os (client_pid g (ch_owner c)))"

lemma held_channel_iff:
  assumes "reg_ok g"
  shows "held_channel os nm g \<longleftrightarrow> channel_name_taken nm g \<and> fst (reap_if_released nm g) = None \<and>
    dead_channel_owner nm (owner_alive os) g = None"
  using channel_taken_live [of nm g _ "owner_alive os"] assms
  by (auto simp: held_channel_def channel_name_taken_def hm_contains_def reap_if_released_def
      dead_channel_owner_def split: if_splits option.splits) (metis fst_conv prod.collapse)+

text \<open>What was cleared away before a publication: the name is free, and nothing was added.\<close>

definition cleared :: "os_env \<Rightarrow> string \<Rightarrow> broker \<Rightarrow> shm \<Rightarrow> broker \<Rightarrow> shm \<Rightarrow> bool" where
  "cleared os nm b w b1 w1 \<longleftrightarrow> keeps os b w b1 w1 \<and> reg_count (br_reg b1) = reg_count (br_reg b) \<and>
     rg_next_channel (br_reg b1) = rg_next_channel (br_reg b) \<and> \<not> channel_name_taken nm (br_reg b1) \<and>
     (\<forall>i. hm_contains (rg_channels (br_reg b1)) i \<longrightarrow> hm_contains (rg_channels (br_reg b)) i) \<and>
     (\<forall>n. hm_contains (br_arenas b1) n \<longrightarrow> hm_contains (br_arenas b) n)"

lemma cleared_reaped:
  assumes inv: "broker_inv b" and c: "hm_get (rg_channels (br_reg b)) i = Some c"
    and f: "fold (reclaim_arena os) [ch_arena c] (b\<lparr>br_reg := snd (drop_channel i (br_reg b))\<rparr>, w) = (b1, w1)"
    and free: "\<not> channel_name_taken nm (snd (drop_channel i (br_reg b)))"
  shows "cleared os nm b w b1 w1"
proof -
  note k = keeps_dropped [OF inv c f]
  have "b1 = fst (fold (reclaim_arena os) [ch_arena c] (b\<lparr>br_reg := snd (drop_channel i (br_reg b))\<rparr>, w))"
    by (simp only: f fst_conv)
  then have "hm_contains (br_arenas b) n" if "hm_contains (br_arenas b1) n" for n
    using that by (simp add: hm_contains_def split: if_splits)
  moreover have "hm_contains (rg_channels (br_reg b)) j" if "hm_contains (rg_channels (br_reg b1)) j" for j
    using that by (simp add: k(2) hm_contains_def chan.table_del split: if_splits)
  ultimately show ?thesis using k free by (simp add: cleared_def)
qed

lemma cleared_dead:
  assumes inv: "broker_inv b" and rel: "release_client os d b w = (b1, w1)"
    and dead: "dead_channel_owner nm alive (br_reg b) = Some d"
  shows "cleared os nm b w b1 w1"
proof -
  have g: "reg_ok (br_reg b)" using inv by (simp add: broker_inv_def)
  have r: "br_reg b1 = released_reg d (br_reg b)" using release_client_eq(1) [OF rel] by simp
  have "hm_contains (rg_channels (br_reg b)) j" if "hm_contains (rg_channels (br_reg b1)) j" for j
    using that by (auto simp: r hm_contains_def released_reg_channels [OF g] split: option.splits)
  moreover have "hm_contains (br_arenas b) n" if "hm_contains (br_arenas b1) n" for n
    using that by (auto simp: release_client_eq(1) [OF rel] hm_contains_def split: if_splits)
  ultimately show ?thesis
    using keeps_release_client [OF inv rel] dead_channel_owner_freed [OF g dead] r by (simp add: cleared_def)
qed

lemma publish_cleared:
  assumes "broker_inv b" "world_ok b w" "os_steady (be_os env)" "reg_count (br_reg b) < 2 ^ 63 - 1"
    and "cleared (be_os env) (pub_channel m) b w b1 w1"
  shows "\<exists>msg b2 w2. publish_new env m b1 w1 =
      reply env publish_reply_to_value (pub_client_id m) PublishReply msg b2 w2 \<and>
    pubr_correlation_id msg = pub_correlation_id m \<and>
    (if grantable env m (br_reg b)
     then pubr_status msg = STATUS_OK \<and> channel_made env m msg b2 w2 \<and> \<not> hm_contains (br_arenas b) (pubr_arena msg) \<and>
       pubr_channel_id msg = rg_next_channel (br_reg b) \<and> rg_next_channel (br_reg b2) = rg_next_channel (br_reg b) + 1 \<and>
       (\<forall>i. hm_contains (rg_channels (br_reg b)) i \<longrightarrow> i < rg_next_channel (br_reg b))
     else pubr_status msg = ERR_INTERNAL \<and> pubr_channel_id msg = 0 \<and> pubr_arena msg = [] \<and>
        (\<forall>i. hm_contains (rg_channels (br_reg b2)) i \<longrightarrow> hm_contains (rg_channels (br_reg b)) i) \<and>
        (\<forall>nm. hm_contains (br_arenas b2) nm \<longrightarrow> hm_contains (br_arenas b) nm))"
proof -
  have below: "\<forall>i. hm_contains (rg_channels (br_reg b)) i \<longrightarrow> i < rg_next_channel (br_reg b)"
    using assms(1) by (auto simp: broker_inv_def reg_ok_def channels_ok_def hm_contains_def)
  have same: "grantable env m (br_reg b1) = grantable env m (br_reg b)" "rg_next_channel (br_reg b1) = rg_next_channel (br_reg b)"
    using assms(5) by (simp_all add: cleared_def grantable_def)
  have fresh: "\<not> hm_contains (br_arenas b) (channel_arena (word_of_int (rg_next_channel (br_reg b))))"
    using fresh_channel_arena [of "br_reg b"] assms(1) by (simp add: broker_inv_def)
  have "broker_inv b1" "world_ok b1 w1" "reg_count (br_reg b1) < 2 ^ 63 - 1" "\<not> channel_name_taken (pub_channel m) (br_reg b1)"
    using assms by (simp_all add: cleared_def keeps_def)
  from publish_new_spec [OF this(1,2) assms(3) this(3,4), unfolded same] assms(5) fresh below show ?thesis
    unfolding cleared_def by (elim exE conjE) (intro exI conjI, assumption, assumption, auto split: if_splits)
qed

text \<open>
  C14: a publication is answered with exactly one reply, to the client that asked and under its
  correlation id. While another channel of the name is held (not released, its owner's process not
  known to be gone) the answer is \<^verbatim>\<open>ERR_EXISTS\<close> and nothing changes. Otherwise, exactly when the schema parses and
  the kernel does not refuse to create the arena's name, the reply grants a channel: its identifier is the broker's
  counter, which every identifier in use is below and which moves on by one; it is found under the name, with the
  owner, key policy and schema fingerprint of the request, and with an arena in place that was not there before, that a
  subscriber can attach to and that has the capacity asked for. In the remaining case the reply reports an internal error
  and no channel and no arena was added. The kernel is one that, once it has created a name, also sizes and maps it, and
  removes names when told to; the counters have not run through their \<open>2^63\<close> values.
\<close>

theorem on_publish_spec:
  assumes "broker_inv b" "world_ok b w" "os_steady (be_os env)" "reg_count (br_reg b) < 2 ^ 63 - 1"
    and "from_frame_compat (be_lib env) (be_cat env) publish_channel_from_value f = Inr m"
  shows "\<exists>msg b1 w1. on_publish env f b w =
      reply env publish_reply_to_value (pub_client_id m) PublishReply msg b1 w1 \<and>
    pubr_correlation_id msg = pub_correlation_id m \<and>
    (if held_channel (be_os env) (pub_channel m) (br_reg b)
     then pubr_status msg = ERR_EXISTS \<and> b1 = b \<and> w1 = w
     else if grantable env m (br_reg b)
     then pubr_status msg = STATUS_OK \<and> channel_made env m msg b1 w1 \<and> \<not> hm_contains (br_arenas b) (pubr_arena msg) \<and>
       pubr_channel_id msg = rg_next_channel (br_reg b) \<and> rg_next_channel (br_reg b1) = rg_next_channel (br_reg b) + 1 \<and>
       (\<forall>i. hm_contains (rg_channels (br_reg b)) i \<longrightarrow> i < rg_next_channel (br_reg b))
     else pubr_status msg = ERR_INTERNAL \<and> pubr_channel_id msg = 0 \<and> pubr_arena msg = [] \<and>
        (\<forall>i. hm_contains (rg_channels (br_reg b1)) i \<longrightarrow> hm_contains (rg_channels (br_reg b)) i) \<and>
        (\<forall>nm. hm_contains (br_arenas b1) nm \<longrightarrow> hm_contains (br_arenas b) nm))"
proof -
  have g: "reg_ok (br_reg b)" using assms(1) by (simp add: broker_inv_def)
  note held = held_channel_iff [OF g, of "be_os env" "pub_channel m"]
  note clear_ok = publish_cleared [OF assms(1-4)]
  from g refl show ?thesis
  proof (cases rule: on_publish_cases [where env = env and f = f and w = w])
    case (unread e)
    with assms(5) show ?thesis by simp
  next
    case (free m')
    have "m' = m" using assms(5) free(1) by simp
    moreover have "cleared (be_os env) (pub_channel m) b w b w"
      using free(2) keeps_same [OF assms(1)] calculation by (simp add: cleared_def)
    moreover have "\<not> held_channel (be_os env) (pub_channel m) (br_reg b)" using free(2) held calculation(1) by simp
    ultimately show ?thesis using free clear_ok [of m b w] by simp
  next
    case (reaped m' i c b1 w1)
    then have "m' = m" "\<not> held_channel (be_os env) (pub_channel m) (br_reg b)" using assms(5) held by simp_all
    with reaped clear_ok [OF cleared_reaped [OF assms(1) reaped(3,6)], of m] show ?thesis by simp
  next
    case (dead m' d b1 w1)
    then have "m' = m" "\<not> held_channel (be_os env) (pub_channel m) (br_reg b)" using assms(5) held by simp_all
    with dead clear_ok [OF cleared_dead [OF assms(1) dead(3)], of m] show ?thesis by simp
  next
    case (taken m')
    then have "m' = m" using assms(5) by simp
    with taken held show ?thesis
      by (intro exI [of _ "err_publish (pub_correlation_id m) ERR_EXISTS ''channel already exists''"] exI [of _ b] exI [of _ w])
        (simp add: err_publish_def)
  qed
qed

section \<open>A departing client\<close>

lemma index_gone:
  assumes ok: "index_ok id_of nm_of table index" "index_ok id_of nm_of table' index'"
    and kept: "\<And>j e. table' j = Some e \<Longrightarrow> table j = Some e \<and> \<not> P e" and e: "table i = Some e" "P e"
  shows "index' (nm_of e) = None"
proof (rule ccontr)
  assume "index' (nm_of e) \<noteq> None"
  then obtain j d where d: "table' j = Some d" "nm_of d = nm_of e" using index_okD(3) [OF ok(2)] by blast
  with kept [OF d(1)] index_okD(2) [OF ok(1) e(1)] index_okD(2) [OF ok(1), of j d] e show False by auto
qed

lemma arena_gone:
  assumes "broker_inv b" "world_ok b w" "nm \<notin> arena_names (br_reg b)" "nm \<in> arena_space"
  shows "\<not> hm_contains (br_arenas b) nm \<and> sys_open nm w = None"
proof -
  have "\<not> hm_contains (br_arenas b) nm" using assms(1,3) by (simp add: broker_inv_def)
  then show ?thesis using assms(2,4) by (simp add: world_ok_def hm_contains_def)
qed

lemma released_names_gone:
  assumes g: "reg_ok g" "reg_ok g'" and g': "g' = released_reg cid g"
  shows "hm_get (rg_channels g) i = Some c \<Longrightarrow> ch_owner c = cid \<Longrightarrow> \<not> channel_name_taken (ch_name c) g' \<and> ch_arena c \<notin> arena_names g'"
    and "hm_get (rg_functions g) i = Some f \<Longrightarrow> fm_owner f = cid \<Longrightarrow> \<not> function_name_taken (fm_name f) g' \<and> fm_req_arena f \<notin> arena_names g'"
proof -
  have kept: "hm_get (rg_channels g') j = Some d \<Longrightarrow> hm_get (rg_channels g) j = Some d \<and> ch_owner d \<noteq> cid"
    "hm_get (rg_functions g') j = Some h \<Longrightarrow> hm_get (rg_functions g) j = Some h \<and> fm_owner h \<noteq> cid" for j d h
    by (auto simp: g' released_reg_channels [OF g(1)] released_reg_functions [OF g(1)] split: option.splits if_splits)
  have ok: "index_ok ch_id ch_name (hm_get (rg_channels g)) (hm_get (rg_chan_by_name g))"
    "index_ok ch_id ch_name (hm_get (rg_channels g')) (hm_get (rg_chan_by_name g'))"
    "index_ok fm_id fm_name (hm_get (rg_functions g)) (hm_get (rg_fn_by_name g))"
    "index_ok fm_id fm_name (hm_get (rg_functions g')) (hm_get (rg_fn_by_name g'))"
    using g by (simp_all add: reg_ok_def channels_ok_def functions_ok_def)
  show "\<not> channel_name_taken (ch_name c) g' \<and> ch_arena c \<notin> arena_names g'" if c: "hm_get (rg_channels g) i = Some c" "ch_owner c = cid"
  proof
    have "hm_get (rg_chan_by_name g') (ch_name c) = None"
      by (rule index_gone [OF ok(1,2), where P = "\<lambda>c. ch_owner c = cid" and i = i]) (use kept(1) c in auto)
    then show "\<not> channel_name_taken (ch_name c) g'" by (simp add: channel_name_taken_def hm_contains_def)
    show "ch_arena c \<notin> arena_names g'"
      using kept channel_arena_inject [OF g(1) _ c(1)] arena_kinds [OF g(1) c(1)] c unfolding arena_names_def by force
  qed
  show "\<not> function_name_taken (fm_name f) g' \<and> fm_req_arena f \<notin> arena_names g'" if f: "hm_get (rg_functions g) i = Some f" "fm_owner f = cid"
  proof
    have "hm_get (rg_fn_by_name g') (fm_name f) = None"
      by (rule index_gone [OF ok(3,4), where P = "\<lambda>f. fm_owner f = cid" and i = i]) (use kept(2) f in auto)
    then show "\<not> function_name_taken (fm_name f) g'" by (simp add: function_name_taken_def hm_contains_def)
    show "fm_req_arena f \<notin> arena_names g'"
      using kept function_arena_inject [OF g(1) _ f(1)] arena_kinds [OF g(1) _ f(1)] f unfolding arena_names_def by force
  qed
qed

text \<open>
  When a client has departed, whether it unregistered or was found dead, everything it owned is gone:
  its channels and functions, their names, their arenas in the broker and their names in the
  shared memory directory, its registration and its reply ring. What belongs to other clients is
  untouched.
\<close>

definition departed :: "i64 \<Rightarrow> broker \<Rightarrow> broker \<Rightarrow> shm \<Rightarrow> bool" where
  "departed cid b b' w' \<longleftrightarrow>
     (\<forall>i. hm_get (rg_channels (br_reg b')) i =
        (case hm_get (rg_channels (br_reg b)) i of Some c \<Rightarrow> if ch_owner c = cid then None else Some c | None \<Rightarrow> None)) \<and>
     (\<forall>i. hm_get (rg_functions (br_reg b')) i =
        (case hm_get (rg_functions (br_reg b)) i of Some f \<Rightarrow> if fm_owner f = cid then None else Some f | None \<Rightarrow> None)) \<and>
     (\<forall>i c. hm_get (rg_channels (br_reg b)) i = Some c \<and> ch_owner c = cid \<longrightarrow>
        \<not> channel_name_taken (ch_name c) (br_reg b') \<and> \<not> hm_contains (br_arenas b') (ch_arena c) \<and> sys_open (ch_arena c) w' = None) \<and>
     (\<forall>i f. hm_get (rg_functions (br_reg b)) i = Some f \<and> fm_owner f = cid \<longrightarrow>
        \<not> function_name_taken (fm_name f) (br_reg b') \<and> \<not> hm_contains (br_arenas b') (fm_req_arena f) \<and> sys_open (fm_req_arena f) w' = None) \<and>
     (\<forall>i. hm_get (br_reply_rings b') i = (if i = cid then None else hm_get (br_reply_rings b) i)) \<and>
     (\<forall>i. hm_get (rg_clients (br_reg b')) i = (if i = cid then None else hm_get (rg_clients (br_reg b)) i))"

lemma release_client_spec:
  assumes "broker_inv b" "world_ok b w" "os_steady os" and "release_client os cid b w = (b', w')"
  shows "departed cid b b' w' \<and> broker_inv b' \<and> world_ok b' w'"
proof -
  have inv': "broker_inv b'" "world_ok b' w'"
    using broker_inv_release_client [OF assms(1,4)] world_ok_release_client [OF assms(3,1,2,4)] by simp_all
  have g: "reg_ok (br_reg b)" "reg_ok (br_reg b')" using assms(1) inv'(1) by (simp_all add: broker_inv_def)
  have r: "br_reg b' = released_reg cid (br_reg b)" using release_client_eq(1) [OF assms(4)] by simp
  note gone = released_names_gone [OF g r] arena_gone [OF inv']
  have space: "ch_arena c \<in> arena_space" if "hm_get (rg_channels (br_reg b)) i = Some c" for i c
    using g(1) that by (simp add: reg_ok_def channels_ok_def arena_space_def)
  have space': "fm_req_arena f \<in> arena_space" if "hm_get (rg_functions (br_reg b)) i = Some f" for i f
    using g(1) that by (simp add: reg_ok_def functions_ok_def arena_space_def)
  have "departed cid b b' w'" unfolding departed_def
  proof (intro conjI allI impI; (elim conjE)?)
    fix i
    show "hm_get (rg_channels (br_reg b')) i =
      (case hm_get (rg_channels (br_reg b)) i of Some c \<Rightarrow> if ch_owner c = cid then None else Some c | None \<Rightarrow> None)"
      by (simp add: r released_reg_channels [OF g(1)])
    show "hm_get (rg_functions (br_reg b')) i =
      (case hm_get (rg_functions (br_reg b)) i of Some f \<Rightarrow> if fm_owner f = cid then None else Some f | None \<Rightarrow> None)"
      by (simp add: r released_reg_functions [OF g(1)])
  qed (use gone space space' in \<open>simp_all add: release_client_eq(1) [OF assms(4)]\<close>)
  with inv' show ?thesis by simp
qed

section \<open>One broker at a time\<close>

text \<open>The control segment can be opened and mapped, and the probe finds the process.\<close>

definition sees_live_broker :: "os_env \<Rightarrow> i32 \<Rightarrow> bool" where
  "sees_live_broker os pid \<longleftrightarrow> os_shm_open os CONTROL_SEGMENT False = None \<and> os_fstat os CONTROL_SEGMENT = None \<and>
     (\<forall>sz. os_mmap os CONTROL_SEGMENT sz = None) \<and> pid_alive os pid"

text \<open>
  C28: a second broker does not start beside a live one. After a broker has come up, another start
  that can open the control segment and finds the first one's process alive is refused as
  \<^verbatim>\<open>AlreadyRunning\<close>, and not one byte or name of the shared memory is touched, even though
  the sweep that a start performs would remove every segment of the bus.
\<close>

theorem second_start_refused:
  assumes "shm_ok w" and "start env w = (Inr b, w')" and "- (2 ^ 31) \<le> be_pid env" "be_pid env < 2 ^ 31"
    and "sees_live_broker (be_os env2) (be_pid env)"
  shows "start env2 w' = (Inl AlreadyRunning, w')"
proof -
  obtain w1 seg w2 m r where s:
    "segment_create (be_os env) CONTROL_SEGMENT control_segment_bytes (cleanup_stale (be_os env) w1) = (Inr seg, w2)"
    "format_control seg (be_pid env) (be_epoch env) (shm_obj w2 (seg_ptr seg)) = (Inr r, m)"
    "w' = set_obj (seg_ptr seg) m w2"
    using start_cases [OF assms(2)] by metis
  note seg = segment_create_Inr [OF s(1)]
  have len: "length (shm_obj w2 (seg_ptr seg)) = seg_len seg" "control_segment_bytes \<le> seg_len seg"
    using seg by simp_all
  have att: "attach_control seg m = Inr r" and pid: "broker_pid m = be_pid env"
    using format_control_ok [OF len assms(3,4), of "be_epoch env"] s(2) by auto
  have lm: "length m = control_segment_bytes"
    using ring_format_Inr(3) [of seg SUBMISSION_BASE SUBMISSION_CAP "shm_obj w2 (seg_ptr seg)"] s(2) len(1) seg control_fits(1)
    by (auto simp: format_control_def Let_def split: prod.splits sum.splits)
  have obj: "shm_obj w' (seg_ptr seg) = m" by (simp add: s(3))
  have nn: "\<not> has_nul CONTROL_SEGMENT" by (rule bus_name_nul) simp
  have open': "sys_open CONTROL_SEGMENT w' = Some (seg_ptr seg)" using seg by (simp add: s(3))
  have "segment_open (be_os env2) CONTROL_SEGMENT w' =
      Inr \<lparr>seg_name = CONTROL_SEGMENT, seg_ptr = seg_ptr seg, seg_len = control_segment_bytes, owns_unlink = False\<rparr>"
    using assms(5) nn open' obj lm seg(6) by (simp add: segment_open_def sees_live_broker_def sys_mmap_def)
  moreover have "is_ok (attach_control \<lparr>seg_name = CONTROL_SEGMENT, seg_ptr = seg_ptr seg,
      seg_len = control_segment_bytes, owns_unlink = False\<rparr> m)"
    using att seg by (auto simp: attach_control_def ring_attach_def Let_def split: if_splits)
  ultimately have "guard_singleton (be_os env2) w' = (Inl AlreadyRunning, w')"
    using pid assms(5) obj by (simp add: guard_singleton_def sees_live_broker_def)
  then show ?thesis by (simp add: start_def)
qed

text \<open>
  C29: a broker comes up wherever the guard lets it pass: on an empty machine, and after a crash,
  when the control segment is left over from a process that is gone. It then owns a formatted
  control segment that connectors can attach to, carrying its pid and epoch, its submission ring is
  empty, and no segment of an earlier run is left.
\<close>

theorem start_succeeds:
  assumes "shm_ok w" "os_steady (be_os env)" "os_read_dir (be_os env) = None"
    and "os_shm_open (be_os env) CONTROL_SEGMENT True = None"
    and "- (2 ^ 31) \<le> be_pid env" "be_pid env < 2 ^ 31"
    and "sys_open CONTROL_SEGMENT w = None \<or>
      (\<exists>seg. segment_open (be_os env) CONTROL_SEGMENT w = Inr seg \<and>
         \<not> pid_alive (be_os env) (broker_pid (shm_obj w (seg_ptr seg))))"
  shows "\<exists>b w'. start env w = (Inr b, w') \<and> broker_inv b \<and> world_ok b w' \<and>
    sys_open CONTROL_SEGMENT w' = Some (seg_ptr (br_control_seg b)) \<and>
    attach_control (br_control_seg b) (shm_obj w' (seg_ptr (br_control_seg b))) = Inr (br_submission b) \<and>
    broker_pid (shm_obj w' (seg_ptr (br_control_seg b))) = be_pid env \<and>
    broker_epoch (shm_obj w' (seg_ptr (br_control_seg b))) = be_epoch env \<and>
    ring_list (br_submission b) (shm_obj w' (seg_ptr (br_control_seg b))) = [] \<and>
    (\<forall>nm \<in> bus_names. nm \<noteq> CONTROL_SEGMENT \<longrightarrow> sys_open nm w' = None)"
proof -
  let ?os = "be_os env"
  have nn: "\<not> has_nul CONTROL_SEGMENT" by (rule bus_name_nul) simp
  have "\<exists>w1. guard_singleton ?os w = (Inr (), w1)"
    using assms(7)
  proof
    assume "sys_open CONTROL_SEGMENT w = None"
    with nn show ?thesis by (simp add: guard_singleton_def segment_open_def)
  next
    assume "\<exists>seg. segment_open ?os CONTROL_SEGMENT w = Inr seg \<and> \<not> pid_alive ?os (broker_pid (shm_obj w (seg_ptr seg)))"
    then show ?thesis by (auto simp: guard_singleton_def Let_def)
  qed
  then obtain w1 where g: "guard_singleton ?os w = (Inr (), w1)" by blast
  have w1: "shm_ok w1" using shm_ok_guard [OF assms(1), of ?os] g by simp
  let ?wc = "cleanup_stale ?os w1"
  have pos: "0 < control_segment_bytes" by (simp add: control_segment_bytes_def ring_bytes_def)
  obtain c w2 where c: "segment_create ?os CONTROL_SEGMENT control_segment_bytes ?wc = (c, w2)" by fastforce
  have "os_fchmod ?os CONTROL_SEGMENT = None" "os_ftruncate ?os CONTROL_SEGMENT sz = None"
    "os_mmap ?os CONTROL_SEGMENT sz = None" for sz using assms(2) by (simp_all add: os_steady_def)
  then obtain seg where cs: "c = Inr seg"
    using c nn assms(4) pos by (auto simp: segment_create_def sys_mmap_def Let_def split: prod.splits)
  note seg = segment_create_Inr [OF c [unfolded cs]]
  have len: "length (shm_obj w2 (seg_ptr seg)) = seg_len seg" "control_segment_bytes \<le> seg_len seg" using seg by simp_all
  obtain r m where f: "format_control seg (be_pid env) (be_epoch env) (shm_obj w2 (seg_ptr seg)) = (Inr r, m)"
    and fm: "attach_control seg m = Inr r" "ring_list r m = []" "broker_pid m = be_pid env" "broker_epoch m = be_epoch env"
    using format_control_ok [OF len assms(5,6), of "be_epoch env"] by blast
  let ?b = "\<lparr>br_control_seg = seg, br_submission = r, br_reg = registry_new, br_reply_rings = hm_empty,
      br_reply_segs = hm_empty, br_arenas = hm_empty, br_reply_names = []\<rparr>"
  let ?w = "set_obj (seg_ptr seg) m w2"
  have st: "start env w = (Inr ?b, ?w)" by (simp add: start_def g c cs f)
  have "sys_open nm ?w = None" if "nm \<in> bus_names" "nm \<noteq> CONTROL_SEGMENT" for nm
  proof -
    have gone: "sys_open nm ?wc = None" by (rule cleanup_stale_gone [OF assms(2,3) that(1) w1])
    have path: "shm_path nm \<noteq> shm_path CONTROL_SEGMENT" using that bus_name_path_inject by blast
    from assms(2) pos c show ?thesis
    proof (cases rule: segment_create_steady)
      case (created seg')
      with gone path show ?thesis by (simp add: sys_creat_open_other)
    qed (simp add: cs)
  qed
  with st start_inv [OF st assms(1)] assms(2,3) seg fm show ?thesis
    by (intro exI [of _ ?b] exI [of _ ?w]) simp
qed

section \<open>Stopping, and the ways a start or an arena can go wrong\<close>

lemma segment_drop_keeps_None: "sys_open n w = None \<Longrightarrow> sys_open n (segment_drop os seg w) = None"
  by (simp add: segment_drop_def unlink_keeps_None)

lemma drops_keep_None: "sys_open n w = None \<Longrightarrow> sys_open n (fold (\<lambda>(k, seg). segment_drop os seg) ss w) = None"
  by (induction ss arbitrary: w) (auto simp: segment_drop_keeps_None)

lemma drops_gone:
  assumes "os_steady os" "n \<in> bus_names" "(k, seg) \<in> set ss" "seg_name seg = n" "owns_unlink seg"
  shows "sys_open n (fold (\<lambda>(k, seg). segment_drop os seg) ss w) = None"
  using assms(3)
proof (induction ss arbitrary: w)
  case (Cons s ss)
  show ?case
  proof (cases "s = (k, seg)")
    case True
    have "sys_open n (segment_drop os seg w) = None"
      using unlink_steady [OF assms(1,2,2)] assms(4,5) by (simp add: segment_drop_def)
    with True show ?thesis by (simp add: drops_keep_None)
  next
    case False
    with Cons show ?thesis by (cases s) auto
  qed
qed simp

text \<open>
  When the broker goes down, none of its segments stays behind: every arena, the control
  segment and the reply segment of every client that ever registered have lost their names.
\<close>

lemma broker_drop_spec:
  assumes "os_steady os" "broker_inv b" "world_ok b w"
    and "seg_name (br_control_seg b) = CONTROL_SEGMENT" "owns_unlink (br_control_seg b)"
    and "nm \<in> arena_space \<or> nm = CONTROL_SEGMENT \<or> (nm \<in> set (br_reply_names b) \<and> \<not> has_nul nm)"
  shows "sys_open nm (broker_drop os b w) = None"
proof -
  let ?w1 = "fold (\<lambda>n w. snd (unlink os n w)) (br_reply_names b) w"
  let ?w2 = "segment_drop os (br_control_seg b) ?w1"
  let ?w3 = "fold (\<lambda>(i, seg). segment_drop os seg) (hm_entries (br_reply_segs b)) ?w2"
  have d: "broker_drop os b w = fold (\<lambda>(n, seg). segment_drop os seg) (hm_entries (br_arenas b)) ?w3"
    by (simp add: broker_drop_def Let_def)
  show ?thesis
  proof (cases "nm \<in> arena_space")
    case False
    have "sys_open nm ?w2 = None"
    proof (cases "nm = CONTROL_SEGMENT")
      case True
      then show ?thesis
        using unlink_steady [OF assms(1), of CONTROL_SEGMENT CONTROL_SEGMENT ?w1] assms(4,5) by (simp add: segment_drop_def)
    next
      case N: False
      then have "nm \<in> set (br_reply_names b)" "\<not> has_nul nm" using False assms(6) by auto
      from unlinks_gone [OF assms(1) this(2,1)] show ?thesis by (rule segment_drop_keeps_None)
    qed
    then show ?thesis unfolding d by (intro drops_keep_None)
  next
    case True
    show ?thesis
    proof (cases "hm_get (br_arenas b) nm")
      case None
      then have "sys_open nm w = None" using True assms(3) by (simp add: world_ok_def)
      then show ?thesis unfolding d by (intro drops_keep_None segment_drop_keeps_None unlinks_keep_None)
    next
      case (Some seg)
      then have "(nm, seg) \<in> set (hm_entries (br_arenas b))" "seg_name seg = nm" "owns_unlink seg"
        using assms(2) hm.entries_get [of "br_arenas b"] by (simp_all add: broker_inv_def)
      from drops_gone [OF assms(1) arena_space_bus [OF True] this] show ?thesis unfolding d .
    qed
  qed
qed

text \<open>
  C39: a control segment of size zero, which a broker that dies between creating and sizing
  the segment leaves behind, keeps every later broker from starting: the open fails with an
  error that is neither \<^verbatim>\<open>NotFound\<close> nor \<^verbatim>\<open>EACCES\<close>, so the guard passes it on and the
  stale segment is not removed.
\<close>

theorem zero_size_control_blocks_start:
  assumes "sys_open CONTROL_SEGMENT w = Some ob" "shm_obj w ob = []"
    and "os_shm_open (be_os env) CONTROL_SEGMENT False = None" "os_fstat (be_os env) CONTROL_SEGMENT = None"
  shows "start env w = (Inl (StartIo (IoOther ''segment has zero size'')), w)"
proof -
  have "\<not> has_nul CONTROL_SEGMENT" by (rule bus_name_nul) simp
  then have "segment_open (be_os env) CONTROL_SEGMENT w = Inl (IoOther ''segment has zero size'')"
    using assms by (simp add: segment_open_def)
  then show ?thesis by (simp add: start_def guard_singleton_def)
qed

text \<open>
  C40: an arena that cannot be sized leaks its name: the creation fails after the name was made, the
  broker reports the error and keeps no arena, and the name stays in the shared memory directory.
\<close>

theorem failed_arena_leaks_name:
  assumes "\<not> has_nul nm" "sys_open nm w = None" "os_shm_open os nm True = None" "os_fchmod os nm = None"
    and "os_ftruncate os nm (ring_bytes cap) = Some e"
  shows "\<exists>w'. make_arena os nm cap b w = (Inl (IoOs e), b, w') \<and> sys_open nm w' = Some (shm_next w)"
proof -
  have "segment_create os nm (ring_bytes cap) w = (Inl (IoOs e), snd (sys_creat nm w))"
    using assms by (simp add: segment_create_def Let_def case_prod_beta)
  then show ?thesis
    using sys_creat_open [of nm w] sys_creat_fresh [OF assms(2)] by (simp add: make_arena_def)
qed

section \<open>A bus in use\<close>

definition demo_os :: os_env where
  "demo_os = \<lparr>os_shm_open = (\<lambda>_ _. None), os_fchmod = (\<lambda>_. None), os_ftruncate = (\<lambda>_ _. None),
     os_fstat = (\<lambda>_. None), os_mmap = (\<lambda>_ _. None), os_shm_unlink = (\<lambda>_. None), os_read_dir = None,
     os_kill = (\<lambda>_. None), os_strerror = (\<lambda>_. ''error'')\<rparr>"

definition demo_env :: "nat broker_env" where
  "demo_env = \<lparr>be_os = demo_os, be_lib = proto_lib, be_cat = proto_cat, be_sha = demo_sha, be_pid = 4711,
     be_epoch = 99, be_now = 0, be_parks = 0, be_others = []\<rparr>"

lemma demo_steady: "os_steady (be_os demo_env)" "os_read_dir (be_os demo_env) = None"
  by (simp_all add: os_steady_def demo_env_def demo_os_def)

lemma demo_start_ok: "\<exists>b w'. start demo_env shm_empty = (Inr b, w')"
proof -
  let ?os = "be_os demo_env"
  have nn: "\<not> has_nul CONTROL_SEGMENT" by (rule bus_name_nul) simp
  have none: "sys_open CONTROL_SEGMENT shm_empty = None" by (simp add: sys_open_def shm_empty_def)
  have g: "guard_singleton ?os shm_empty = (Inr (), shm_empty)"
    using nn none by (simp add: guard_singleton_def segment_open_def)
  have cl: "cleanup_stale ?os shm_empty = shm_empty"
    by (simp add: cleanup_stale_def list_segments_def demo_env_def demo_os_def shm_empty_def hm_entries_def hm_empty_def)
  have pos: "0 < control_segment_bytes" by (simp add: control_segment_bytes_def ring_bytes_def)
  obtain seg w2 where c: "segment_create ?os CONTROL_SEGMENT control_segment_bytes shm_empty = (Inr seg, w2)"
    using nn pos by (simp add: segment_create_def demo_env_def demo_os_def sys_mmap_def Let_def case_prod_beta)
  note seg = segment_create_Inr [OF c]
  have len: "length (shm_obj w2 (seg_ptr seg)) = seg_len seg" "control_segment_bytes \<le> seg_len seg" using seg by simp_all
  obtain r m where "format_control seg (be_pid demo_env) (be_epoch demo_env) (shm_obj w2 (seg_ptr seg)) = (Inr r, m)"
    using format_control_ok [OF len, of 4711 99] by (auto simp: demo_env_def)
  then show ?thesis by (simp add: start_def g cl c)
qed

definition demo_broker :: broker where
  "demo_broker = (case fst (start demo_env shm_empty) of Inr b \<Rightarrow> b)"

definition demo_world :: shm where
  "demo_world = snd (start demo_env shm_empty)"

lemma demo_start: "start demo_env shm_empty = (Inr demo_broker, demo_world)"
  using demo_start_ok by (auto simp: demo_broker_def demo_world_def)

lemma demo_inv: "broker_inv demo_broker" "world_ok demo_broker demo_world" "reg_count (br_reg demo_broker) = 1"
  using start_inv [OF demo_start shm_ok_empty] demo_steady by simp_all

lemma demo_reach: "reach (bus_init proto_lib proto_cat) (bus_step proto_lib proto_cat) (0, demo_broker, demo_world)"
proof (rule reach_init)
  show "bus_init proto_lib proto_cat (0, demo_broker, demo_world)"
    unfolding bus_init_def
    by (intro exI [of _ demo_env] exI [of _ shm_empty] exI [of _ demo_broker] exI [of _ demo_world])
      (simp add: demo_start demo_steady, simp add: demo_env_def)
qed

theorem bus_invariant_witness:
  "reg_ok (br_reg demo_broker) \<and>
   {nm \<in> arena_space. sys_open nm demo_world \<noteq> None} = arena_space \<inter> arena_names (br_reg demo_broker)"
  using bus_invariant [OF demo_reach] by blast

lemma demo_control: "seg_name (br_control_seg demo_broker) = CONTROL_SEGMENT" "owns_unlink (br_control_seg demo_broker)"
  "ring_idle (br_submission demo_broker) (ring_mem (br_submission demo_broker) demo_world)"
  "ring_list (br_submission demo_broker) (ring_mem (br_submission demo_broker) demo_world) = []"
proof -
  obtain w1 seg w2 m r where s:
    "segment_create (be_os demo_env) CONTROL_SEGMENT control_segment_bytes (cleanup_stale (be_os demo_env) w1) = (Inr seg, w2)"
    "format_control seg (be_pid demo_env) (be_epoch demo_env) (shm_obj w2 (seg_ptr seg)) = (Inr r, m)"
    "demo_broker = \<lparr>br_control_seg = seg, br_submission = r, br_reg = registry_new, br_reply_rings = hm_empty,
      br_reply_segs = hm_empty, br_arenas = hm_empty, br_reply_names = []\<rparr>"
    "demo_world = set_obj (seg_ptr seg) m w2"
    using start_cases [OF demo_start] by metis
  note seg = segment_create_Inr [OF s(1)]
  have len: "length (shm_obj w2 (seg_ptr seg)) = seg_len seg" "control_segment_bytes \<le> seg_len seg" using seg by simp_all
  have f: "ring_idle r m" "ring_list r m = []"
    using format_control_ok [OF len, of 4711 99] s(2) by (auto simp: demo_env_def)
  have "ring_seg r = seg" using s(2) by (auto simp: format_control_def ring_format_def Let_def split: if_splits)
  with f seg show "seg_name (br_control_seg demo_broker) = CONTROL_SEGMENT" "owns_unlink (br_control_seg demo_broker)"
    "ring_idle (br_submission demo_broker) (ring_mem (br_submission demo_broker) demo_world)"
    "ring_list (br_submission demo_broker) (ring_mem (br_submission demo_broker) demo_world) = []"
    by (simp_all add: s(3,4) ring_mem_def)
qed

theorem second_start_refused_witness: "start demo_env demo_world = (Inl AlreadyRunning, demo_world)"
  by (rule second_start_refused [OF shm_ok_empty demo_start])
    (simp_all add: sees_live_broker_def demo_env_def demo_os_def pid_alive_def)

theorem start_succeeds_witness: "\<exists>b w'. start demo_env shm_empty = (Inr b, w') \<and> broker_inv b"
proof -
  have "sys_open CONTROL_SEGMENT shm_empty = None" by (simp add: sys_open_def shm_empty_def)
  with start_succeeds [OF shm_ok_empty demo_steady, simplified] show ?thesis
    by (auto simp: demo_env_def demo_os_def)
qed

text \<open>A publication as a client sends it.\<close>

definition demo_pub :: publish_channel where
  "demo_pub = \<lparr>pub_correlation_id = 7, pub_client_id = 1, pub_channel = ''metrics'', pub_schema_json = schema_for Heartbeat,
     pub_access_key = '''', pub_arena_cap = 0\<rparr>"

lemma demo_pub_frame: "\<exists>f. from_frame_compat proto_lib proto_cat publish_channel_from_value f = Inr demo_pub"
proof -
  have "has_type (kind_type PublishChannel) (publish_channel_to_value demo_pub)"
    by (simp add: kind_type_def publish_channel_to_value_def demo_pub_def schema_json_def)
  from m_pub.frame_compat [OF proto_lib_laws proto_cat_build proto_lib_distinct this] show ?thesis by blast
qed

lemma demo_schema_ok: "is_ok (avro_parse proto_lib (schema_for k))"
proof -
  have "avro_schema_law proto_lib (kind_type k)" using proto_lib_laws by (simp add: avro_laws_def proto_types_def)
  then show ?thesis by (auto simp: avro_schema_law_def avro_parse_def schema_for_type)
qed

theorem on_publish_spec_witness:
  "\<exists>f msg b1 w1. from_frame_compat proto_lib proto_cat publish_channel_from_value f = Inr demo_pub \<and>
     on_publish demo_env f demo_broker demo_world = reply demo_env publish_reply_to_value 1 PublishReply msg b1 w1 \<and>
     pubr_status msg = STATUS_OK \<and> pubr_channel_id msg = 1 \<and> channel_made demo_env demo_pub msg b1 w1"
proof -
  obtain f where f: "from_frame_compat proto_lib proto_cat publish_channel_from_value f = Inr demo_pub"
    using demo_pub_frame by blast
  then have f': "from_frame_compat (be_lib demo_env) (be_cat demo_env) publish_channel_from_value f = Inr demo_pub"
    by (simp add: demo_env_def)
  have cnt: "reg_count (br_reg demo_broker) < 2 ^ 63 - 1" by (simp add: demo_inv(3))
  have reg: "br_reg demo_broker = registry_new" using start_cases [OF demo_start] by (metis broker.select_convs(3))
  have "grantable demo_env demo_pub (br_reg demo_broker)"
    using demo_schema_ok [of Heartbeat] by (simp add: grantable_def demo_env_def demo_os_def demo_pub_def)
  moreover have "\<not> held_channel (be_os demo_env) (pub_channel demo_pub) (br_reg demo_broker)"
    by (simp add: held_channel_def reg registry_new_def)
  moreover have "pub_client_id demo_pub = 1" "rg_next_channel (br_reg demo_broker) = 1"
    by (simp_all add: demo_pub_def reg registry_new_def)
  ultimately show ?thesis using on_publish_spec [OF demo_inv(1,2) demo_steady(1) cnt f'] f by (metis (no_types, lifting))
qed

definition torn_world :: shm where
  "torn_world = \<lparr>shm_dir = hm_insert (shm_path CONTROL_SEGMENT) 0 hm_empty, shm_obj = (\<lambda>_. []), shm_next = 1\<rparr>"

theorem zero_size_control_blocks_start_witness:
  "start demo_env torn_world = (Inl (StartIo (IoOther ''segment has zero size'')), torn_world)"
  by (rule zero_size_control_blocks_start [of _ 0])
    (simp_all add: torn_world_def sys_open_def demo_env_def demo_os_def)

theorem failed_arena_leaks_name_witness:
  "\<exists>w'. make_arena (demo_os\<lparr>os_ftruncate := (\<lambda>_ _. Some 28)\<rparr>) (channel_arena 1) ARENA_CAP demo_broker shm_empty =
     (Inl (IoOs 28), demo_broker, w') \<and> sys_open (channel_arena 1) w' = Some 0"
proof -
  have nn: "\<not> has_nul (channel_arena 1)" by (rule bus_name_nul) simp
  have "sys_open (channel_arena 1) shm_empty = None" by (simp add: sys_open_def shm_empty_def)
  from failed_arena_leaks_name [OF nn this, of "demo_os\<lparr>os_ftruncate := (\<lambda>_ _. Some 28)\<rparr>" ARENA_CAP 28 demo_broker]
  show ?thesis by (simp add: demo_os_def shm_empty_def)
qed

end
