(* ===== verification/Ring_Client_Props.thy ===== *)
theory Ring_Client_Props
  imports Ring_Client Ring_Broker_Props
begin

text \<open>
  The connector's guarantees: a control call ends, with its own reply or an error that says why, and
  leaves no slot behind; the dispatcher routes every reply to the call that waits for it; the cache
  of callees never hands out a callee with another interface; reconnection happens once per
  broker generation; and a publication goes all the way through the broker and back.
\<close>

section \<open>Sequencing\<close>

lemma act_simps [simp]:
  "act_return x ts c = Some (Inr x, ts, c)" "act_fail e ts c = Some (Inl e, ts, c)"
  "act_result r ts c = Some (r, ts, c)"
  by (simp_all add: act_return_def act_fail_def act_result_def)

lemma act_bind_steps:
  "m ts c = Some (Inr x, ts1, c1) \<Longrightarrow> act_bind m k ts c = k x ts1 c1"
  "m ts c = Some (Inl e, ts1, c1) \<Longrightarrow> act_bind m k ts c = Some (Inl e, ts1, c1)"
  "m ts c = None \<Longrightarrow> act_bind m k ts c = None"
  by (simp_all add: act_bind_def)

lemma act_bind_Inr:
  "act_bind m k ts c = Some (Inr y, ts2, c2) \<longleftrightarrow>
     (\<exists>x ts1 c1. m ts c = Some (Inr x, ts1, c1) \<and> k x ts1 c1 = Some (Inr y, ts2, c2))"
  by (auto simp: act_bind_def split: option.splits sum.splits)

lemma upd_inner_simps [simp]:
  "cn_inner (upd_inner f c) = f (cn_inner c)" "cn_shm (upd_inner f c) = cn_shm c"
  "cn_draws (upd_inner f c) = cn_draws c"
  by (simp_all add: upd_inner_def)

lemma upd_slot_simps [simp]:
  "cn_inner (upd_slot i s c) = (cn_inner c)\<lparr>in_slots := (in_slots (cn_inner c))(i := s)\<rparr>"
  "cn_shm (upd_slot i s c) = cn_shm c" "cn_draws (upd_slot i s c) = cn_draws c"
  by (simp_all add: upd_slot_def)

lemma set_pending_simps [simp]:
  "cn_inner (set_pending f c) = (cn_inner c)\<lparr>in_pending := f (in_pending (cn_inner c))\<rparr>"
  "cn_shm (set_pending f c) = cn_shm c" "cn_draws (set_pending f c) = cn_draws c"
  by (simp_all add: set_pending_def)

lemma drop_pending_simps [simp]:
  "cn_inner (drop_pending k c) = (cn_inner c)\<lparr>in_pending := hm_remove k (in_pending (cn_inner c))\<rparr>"
  "cn_shm (drop_pending k c) = cn_shm c" "cn_draws (drop_pending k c) = cn_draws c"
  by (simp_all add: drop_pending_def)

lemma register_pending_simps [simp]:
  "fst (register_pending k c) = in_next_slot (cn_inner c)"
  "cn_inner (snd (register_pending k c)) =
     (cn_inner c)\<lparr>in_pending := hm_insert k (in_next_slot (cn_inner c)) (in_pending (cn_inner c)),
       in_slots := (in_slots (cn_inner c))(in_next_slot (cn_inner c) := slot_new),
       in_next_slot := Suc (in_next_slot (cn_inner c))\<rparr>"
  "cn_shm (snd (register_pending k c)) = cn_shm c" "cn_draws (snd (register_pending k c)) = cn_draws c"
  by (simp_all add: register_pending_def Let_def)

abbreviation slots_of :: "conn \<Rightarrow> nat \<Rightarrow> slot" where "slots_of c \<equiv> in_slots (cn_inner c)"
abbreviation pending_of :: "conn \<Rightarrow> i64 \<Rightarrow> nat option" where "pending_of c \<equiv> hm_get (in_pending (cn_inner c))"

section \<open>What the other threads of a connection do\<close>

text \<open>
  A step of somebody else while a call waits on slot \<open>sid\<close>: the dispatcher routes a reply, another
  call registers or drops its slot, takes its reply or polls, a reconnect installs a transport, or
  anything changes that has to do neither with slots nor with who waits for what, the shared memory
  included.
\<close>

inductive other_step :: "'sc client_env \<Rightarrow> nat \<Rightarrow> conn \<Rightarrow> conn \<Rightarrow> bool" for env :: "'sc client_env" and sid :: nat where
  step_dispatch: "dispatch_turn env parks es c = Some c' \<Longrightarrow> other_step env sid c c'"
| step_register: "register_pending k c = (i, c') \<Longrightarrow> other_step env sid c c'"
| step_drop: "other_step env sid c (drop_pending k c)"
| step_slot: "i \<noteq> sid \<Longrightarrow> other_step env sid c (upd_slot i s c)"
| step_transport: "other_step env sid c (install_transport os tp c)"
| step_other: "in_slots (cn_inner c') = in_slots (cn_inner c) \<Longrightarrow> in_pending (cn_inner c') = in_pending (cn_inner c) \<Longrightarrow>
    in_next_slot (cn_inner c') = in_next_slot (cn_inner c) \<Longrightarrow> other_step env sid c c'"

text \<open>The state of a slot under a correlation id: empty and waited for, or holding its own reply.\<close>

definition slot_ok :: "'sc client_env \<Rightarrow> i64 \<Rightarrow> nat \<Rightarrow> conn \<Rightarrow> bool" where
  "slot_ok env corr sid c \<longleftrightarrow> sid < in_next_slot (cn_inner c) \<and>
     (\<forall>k. pending_of c k = Some sid \<longrightarrow> k = corr) \<and>
     (\<forall>f. sl_frame (slots_of c sid) = Some f \<longrightarrow>
        correlation_id (ce_lib env) (ce_cat env) f = Inr corr \<and> (\<forall>k. pending_of c k \<noteq> Some sid))"

text \<open>Every slot waited for exists, and only one correlation id leads to it.\<close>

definition pending_ok :: "conn \<Rightarrow> bool" where
  "pending_ok c \<longleftrightarrow> (\<forall>k i. pending_of c k = Some i \<longrightarrow> i < in_next_slot (cn_inner c)) \<and>
     (\<forall>k l i. pending_of c k = Some i \<longrightarrow> pending_of c l = Some i \<longrightarrow> k = l)"

lemma complete_slot_simps [simp]:
  "slots_of (complete_slot i f c) =
     (slots_of c)(i := (slots_of c i)\<lparr>sl_frame := Some f, sl_waker := None\<rparr>)"
  "in_pending (cn_inner (complete_slot i f c)) = in_pending (cn_inner c)"
  "in_next_slot (cn_inner (complete_slot i f c)) = in_next_slot (cn_inner c)"
  "in_transport (cn_inner (complete_slot i f c)) = in_transport (cn_inner c)"
  "cn_shm (complete_slot i f c) = cn_shm c"
  by (simp_all add: complete_slot_def slot_complete_def Let_def split: option.split)

lemma slot_ok_route:
  assumes "slot_ok env corr sid c"
  shows "slot_ok env corr sid (route_frame env bs c)"
  using assms by (auto simp: route_frame_def slot_ok_def split: sum.splits option.splits)

lemma slot_ok_cong:
  assumes "in_slots (cn_inner c') = in_slots (cn_inner c)" "in_pending (cn_inner c') = in_pending (cn_inner c)"
    "in_next_slot (cn_inner c') = in_next_slot (cn_inner c)"
  shows "slot_ok env corr sid c' = slot_ok env corr sid c"
  using assms by (simp add: slot_ok_def)

lemma slot_ok_dispatch:
  assumes "slot_ok env corr sid c" "dispatch_turn env parks es c = Some c'"
  shows "slot_ok env corr sid c'"
proof -
  obtain v m es' where "pop_blocking (tp_reply_ring (in_transport (cn_inner c))) (Some parks) es
      (ring_mem (tp_reply_ring (in_transport (cn_inner c))) (cn_shm c)) = Some (v, m, es')"
    using assms(2) by (auto simp: dispatch_turn_def Let_def split: option.splits)
  moreover have "slot_ok env corr sid (c\<lparr>cn_shm := w\<rparr>)" for w
    using assms(1) by (subst slot_ok_cong) simp_all
  ultimately show ?thesis
    using assms(2) by (auto simp: dispatch_turn_def Let_def intro!: slot_ok_route split: option.splits)
qed

lemma slot_ok_mono:
  assumes "slot_ok env corr sid c" "sl_frame (slots_of c' sid) = sl_frame (slots_of c sid)"
    and "in_next_slot (cn_inner c) \<le> in_next_slot (cn_inner c')"
    and "\<And>k. pending_of c' k = Some sid \<Longrightarrow> pending_of c k = Some sid"
  shows "slot_ok env corr sid c'"
  using assms unfolding slot_ok_def by (metis less_le_trans)

lemma slot_ok_step: "other_step env sid c c' \<Longrightarrow> slot_ok env corr sid c \<Longrightarrow> slot_ok env corr sid c'"
proof (induction rule: other_step.induct)
  case (step_dispatch parks es c c')
  then show ?case using slot_ok_dispatch by blast
next
  case (step_register k c i c')
  have c': "c' = snd (register_pending k c)" unfolding step_register.hyps by simp
  have "sid < in_next_slot (cn_inner c)" using step_register.prems by (simp add: slot_ok_def)
  then show ?case unfolding c' by (intro slot_ok_mono [OF step_register.prems]) (simp_all split: if_splits)
next
  case (step_drop c k)
  then show ?case by (rule slot_ok_mono) (simp_all split: if_splits)
next
  case (step_slot i c s)
  from step_slot.prems show ?case by (rule slot_ok_mono) (use step_slot.hyps in simp_all)
next
  case (step_transport c os tp)
  then show ?case by (rule slot_ok_mono) (simp_all add: install_transport_def)
next
  case (step_other c' c)
  then show ?case using slot_ok_cong by blast
qed

lemma slot_ok_steps: "(other_step env sid)\<^sup>*\<^sup>* c c' \<Longrightarrow> slot_ok env corr sid c \<Longrightarrow> slot_ok env corr sid c'"
  by (induction rule: rtranclp_induct) (auto intro: slot_ok_step)

section \<open>Control calls\<close>

lemma slot_wait_done:
  assumes "slot_ok env corr sid c"
    and "\<forall>(timed_out, e) \<in> set evs. \<forall>c. (other_step env sid)\<^sup>*\<^sup>* c (e c)"
    and "True \<in> fst ` set evs"
  shows "\<exists>r c'. slot_wait sid evs c = Some (r, c') \<and> slot_ok env corr sid c' \<and>
    (\<forall>f. r = Some f \<longrightarrow> correlation_id (ce_lib env) (ce_cat env) f = Inr corr \<and> (\<forall>k. pending_of c' k \<noteq> Some sid))"
  using assms
proof (induction evs arbitrary: c)
  case (Cons ev evs)
  obtain timed_out e where ev: "ev = (timed_out, e)" by fastforce
  show ?case
  proof (cases "sl_frame (slots_of c sid)")
    case (Some f)
    with Cons.prems(1) show ?thesis
      by (subst slot_wait.simps) (simp add: slot_take_def slot_ok_def)
  next
    case None
    have ok: "slot_ok env corr sid (e c)"
      using Cons.prems(1,2) slot_ok_steps ev by (metis (mono_tags, lifting) case_prodD list.set_intros(1))
    show ?thesis
    proof (cases timed_out)
      case True
      with None ok ev show ?thesis
        by (subst slot_wait.simps) (simp add: slot_take_def slot_ok_def Let_def)
    next
      case False
      with None have "slot_wait sid (ev # evs) c = slot_wait sid evs (e c)"
        by (subst slot_wait.simps) (simp add: slot_take_def ev)
      moreover have "True \<in> fst ` set evs" using Cons.prems(3) False ev by auto
      ultimately show ?thesis using Cons.IH [OF ok] Cons.prems(2) by simp
    qed
  qed
qed simp

lemma register_slot_ok:
  assumes "pending_ok c"
  shows "slot_ok env corr (in_next_slot (cn_inner c)) (snd (register_pending corr c))"
  using assms by (auto simp: slot_ok_def pending_ok_def slot_new_def)

text \<open>A ring at rest that a push of this turn finds at rest whenever it wakes.\<close>

definition push_safe :: "ring \<Rightarrow> turn \<Rightarrow> shm \<Rightarrow> bool" where
  "push_safe r t w \<longleftrightarrow> ring_idle r (ring_mem r w) \<and>
     (\<forall>e \<in> set (tn_push t). \<forall>m. ring_idle r m \<longrightarrow> ring_idle r (e m)) \<and> tn_parks t \<le> length (tn_push t)"

lemma push_ring_done:
  assumes "push_safe r t (cn_shm c)"
  shows "\<exists>ok m. push_ring t r bs c = Some (ok, c\<lparr>cn_shm := set_ring_mem r m (cn_shm c)\<rparr>) \<and> ring_idle r m"
  using push_blocking_done [of r "ring_mem r (cn_shm c)" "tn_push t" "tn_parks t" bs] assms
  by (fastforce simp: push_safe_def push_ring_def)


section \<open>The dispatcher\<close>

text \<open>What one record of the reply ring does to those who wait.\<close>

definition routed :: "'sc client_env \<Rightarrow> bytes \<Rightarrow> conn \<Rightarrow> (i64 \<times> frame \<times> nat) option" where
  "routed env bs c =
     (case frame_decode bs of
        Inl e \<Rightarrow> None
      | Inr f \<Rightarrow>
          (case correlation_id (ce_lib env) (ce_cat env) f of
             Inl e \<Rightarrow> None
           | Inr corr \<Rightarrow> map_option (\<lambda>sid. (corr, f, sid)) (pending_of c corr)))"

lemma route_frame_routed:
  "route_frame env bs c =
     (case routed env bs c of
        None \<Rightarrow> c
      | Some (corr, f, sid) \<Rightarrow> complete_slot sid f (set_pending (hm_remove corr) c))"
  by (simp add: route_frame_def routed_def split: sum.split option.split)

lemma dispatch_turn_done:
  assumes "ring_idle r (ring_mem r (cn_shm c))" "r = tp_reply_ring (in_transport (cn_inner c))"
    and "\<forall>e \<in> set es. \<forall>m. ring_idle r m \<longrightarrow> ring_idle r (e m)" "parks \<le> length es"
    and "ring_list r (ring_mem r (cn_shm c)) = bs # q"
  shows "\<exists>m. dispatch_turn env parks es c = Some (route_frame env bs (c\<lparr>cn_shm := set_ring_mem r m (cn_shm c)\<rparr>)) \<and>
    ring_idle r m \<and> ring_list r m = q"
proof -
  obtain v m es' where "pop_blocking r (Some parks) es (ring_mem r (cn_shm c)) = Some (v, m, es')" "ring_idle r m"
    "v = Some bs" "ring_list r m = q"
    using pop_blocking_done [OF assms(1,3,4)] assms(5) by blast
  then show ?thesis using assms(2) by (intro exI [of _ m]) (simp add: dispatch_turn_def)
qed

text \<open>
  C21: the dispatcher takes the oldest reply off the ring and routes it: the call registered under the
  reply's correlation id, and no other, finds the frame in its slot and is woken, and it is no
  longer waited for. A record that is no frame, a frame that is no reply, and a reply nobody
  waits for change nothing; in every case exactly one record is consumed, so that garbage on the ring
  never blocks the replies behind it.
\<close>

theorem dispatch_routes:
  assumes "ring_idle r (ring_mem r (cn_shm c))" "r = tp_reply_ring (in_transport (cn_inner c))"
    and "\<forall>e \<in> set es. \<forall>m. ring_idle r m \<longrightarrow> ring_idle r (e m)" "parks \<le> length es"
    and "ring_list r (ring_mem r (cn_shm c)) = bs # q"
  shows "\<exists>c'. dispatch_turn env parks es c = Some c' \<and> ring_idle r (ring_mem r (cn_shm c')) \<and>
    ring_list r (ring_mem r (cn_shm c')) = q \<and>
    (case routed env bs c of
       None \<Rightarrow> slots_of c' = slots_of c \<and> pending_of c' = pending_of c \<and> in_notified (cn_inner c') = in_notified (cn_inner c)
     | Some (corr, f, sid) \<Rightarrow>
         sl_frame (slots_of c' sid) = Some f \<and> (\<forall>i. i \<noteq> sid \<longrightarrow> slots_of c' i = slots_of c i) \<and>
         pending_of c' = (pending_of c)(corr := None) \<and>
         (\<forall>w. in_notified (cn_inner c') w \<longleftrightarrow> sl_waker (slots_of c sid) = Some w \<or> in_notified (cn_inner c) w))"
proof -
  obtain m where d: "dispatch_turn env parks es c = Some (route_frame env bs (c\<lparr>cn_shm := set_ring_mem r m (cn_shm c)\<rparr>))"
    and m: "ring_idle r m" "ring_list r m = q"
    using dispatch_turn_done [OF assms] by blast
  let ?c = "c\<lparr>cn_shm := set_ring_mem r m (cn_shm c)\<rparr>"
  have rt: "routed env bs ?c = routed env bs c" by (simp add: routed_def split: sum.split)
  show ?thesis
  proof (cases "routed env bs c")
    case None
    with d m rt show ?thesis by (simp add: route_frame_routed)
  next
    case (Some x)
    obtain corr f sid where x: "x = (corr, f, sid)" by (metis prod_cases3)
    let ?c' = "complete_slot sid f (set_pending (hm_remove corr) ?c)"
    have "in_notified (cn_inner ?c') w \<longleftrightarrow> sl_waker (slots_of c sid) = Some w \<or> in_notified (cn_inner c) w" for w
      by (auto simp: complete_slot_def slot_complete_def Let_def split: option.splits)
    moreover have "pending_of ?c' = (pending_of c)(corr := None)" by (simp add: fun_eq_iff)
    ultimately show ?thesis using d m rt Some x by (intro exI [of _ ?c']) (simp add: route_frame_routed)
  qed
qed

section \<open>Callees\<close>

lemma resolve_callee_hit:
  "hm_get (in_callees (cn_inner c)) (callee_key fn_name key) = Some ca \<Longrightarrow>
     resolve_callee env fn_name key ts c = Some (Inr ca, ts, c)"
  by (simp add: resolve_callee_def)

text \<open>
  C27: a call never goes to a function with another interface than the caller was compiled for. What
  the resolution returns has exactly the request and response fingerprints asked for. A cached
  resolution that matches is used as it is, without a message to the broker; one that does not
  match is never the reason for a refusal: it is dropped, and the function is resolved again, which
  without a cached answer means asking the broker.
\<close>

theorem matching_callee_spec:
  "(\<forall>ca ts' c'. matching_callee env fn_name key req_fp resp_fp ts c = Some (Inr ca, ts', c') \<longrightarrow>
      ca_req_fp ca = req_fp \<and> ca_resp_fp ca = resp_fp) \<and>
   (\<forall>ca. hm_get (in_callees (cn_inner c)) (callee_key fn_name key) = Some ca \<longrightarrow>
      (if ca_req_fp ca = req_fp \<and> ca_resp_fp ca = resp_fp
       then matching_callee env fn_name key req_fp resp_fp ts c = Some (Inr ca, ts, c)
       else hm_get (in_callees (cn_inner (forget_callee fn_name key c))) (callee_key fn_name key) = None \<and>
         (\<forall>r ts' c'. resolve_callee env fn_name key ts (forget_callee fn_name key c) = Some (r, ts', c') \<longrightarrow>
            (\<exists>res. matching_callee env fn_name key req_fp resp_fp ts c = Some (res, ts', c') \<and>
               (res = r \<or> (\<exists>ca'. r = Inr ca' \<and> (ca_req_fp ca' \<noteq> req_fp \<or> ca_resp_fp ca' \<noteq> resp_fp)))))))"
proof (intro conjI allI impI)
  fix ca ts' c'
  assume h: "matching_callee env fn_name key req_fp resp_fp ts c = Some (Inr ca, ts', c')"
  then show "ca_req_fp ca = req_fp" "ca_resp_fp ca = resp_fp"
    by (auto simp: matching_callee_def act_bind_Inr split: if_splits)
next
  fix ca
  let ?f = "forget_callee fn_name key c"
  assume ca: "hm_get (in_callees (cn_inner c)) (callee_key fn_name key) = Some ca"
  note hit = resolve_callee_hit [OF ca]
  show "if ca_req_fp ca = req_fp \<and> ca_resp_fp ca = resp_fp
       then matching_callee env fn_name key req_fp resp_fp ts c = Some (Inr ca, ts, c)
       else hm_get (in_callees (cn_inner ?f)) (callee_key fn_name key) = None \<and>
         (\<forall>r ts' c'. resolve_callee env fn_name key ts ?f = Some (r, ts', c') \<longrightarrow>
            (\<exists>res. matching_callee env fn_name key req_fp resp_fp ts c = Some (res, ts', c') \<and>
               (res = r \<or> (\<exists>ca'. r = Inr ca' \<and> (ca_req_fp ca' \<noteq> req_fp \<or> ca_resp_fp ca' \<noteq> resp_fp)))))"
    by (auto simp: matching_callee_def act_bind_def hit forget_callee_def split: sum.splits)
qed

section \<open>Reconnecting\<close>

lemma bootstrap_Inr:
  assumes "bootstrap env cap d w = (Inr tp, d', w')"
  obtains seg where "tp_client_id tp = 0" "segment_open (ce_os env) CONTROL_SEGMENT w = Inr seg"
    "attach_control seg (shm_obj w (seg_ptr seg)) = Inr (tp_submission tp)"
    "tp_epoch tp = broker_epoch (shm_obj w (seg_ptr seg))"
    "tp_reply_segment tp = client_segment (random_u64 (ce_random env d))"
  using assms by (auto simp: bootstrap_def Let_def split: sum.splits prod.splits)

lemma ring_format_cap: "ring_format sg b cap m = (Inr r, m') \<Longrightarrow> ring_cap r = cap"
  by (auto simp: ring_format_def Let_def split: if_splits)

lemma bootstrap_capacity:
  assumes "bootstrap env cap d w = (Inr tp, d', w')"
  shows "ring_cap (tp_reply_ring tp) = clamp_arena_cap (if cap = 0 then REPLY_CAP else cap)"
  using assms by (auto simp: bootstrap_def Let_def dest: ring_format_cap split: sum.splits prod.splits)

lemma replay_channels_Inr: "replay_channels env rs ts c = Some (res, ts', c') \<Longrightarrow> res = Inr ()"
  by (induction env rs ts c arbitrary: res ts' c' rule: replay_channels.induct)
    (auto split: option.splits sum.splits)

lemma replay_functions_Inr: "replay_functions env rs ts c = Some (res, ts', c') \<Longrightarrow> res = Inr ()"
  by (induction env rs ts c arbitrary: res ts' c' rule: replay_functions.induct)
    (auto split: option.splits sum.splits)

text \<open>A replay is best effort: what cannot be published again is skipped, and no error comes out of it.\<close>

lemma replay_Inr: "replay env ts c = Some (res, ts', c') \<Longrightarrow> res = Inr ()"
  using replay_channels_Inr replay_functions_Inr
  by (fastforce simp: replay_def Let_def act_bind_def split: option.splits sum.splits)

text \<open>The connection is on a transport whose broker is the one that is up.\<close>

definition same_broker :: "'sc client_env \<Rightarrow> transport \<Rightarrow> conn \<Rightarrow> bool" where
  "same_broker env tp c \<longleftrightarrow> in_transport (cn_inner c) = tp \<and> live_broker_epoch (ce_os env) (cn_shm c) = Inr (tp_epoch tp)"

lemma watch_quiet:
  assumes "same_broker env tp c"
  shows "watch_turn env ts c = Some (ts, c)"
  using assms by (simp add: same_broker_def watch_turn_def epoch_of_def)

lemma watcher_quiet:
  assumes "same_broker env tp c" "\<forall>nap \<in> set naps. \<forall>c. same_broker env tp c \<longrightarrow> same_broker env tp (nap c)"
  shows "\<exists>c'. run_watcher env naps ts c = Some (ts, c') \<and> same_broker env tp c'"
  using assms
proof (induction naps arbitrary: c)
  case (Cons nap naps)
  then have "same_broker env tp (nap c)" by simp
  with Cons watch_quiet [OF this] show ?case by simp
qed simp

text \<open>
  C38: a reconnect that fails at the registration is never repeated. The new transport with the new
  epoch is in place before the registration is sent, so when no reply comes the connection stays
  with client id 0 under an epoch that is the live one. From then on, as long as that broker is up and nobody
  else exchanges the transport: the watcher sees no change and tries nothing, in however many turns and whatever
  else happens to the connection between them; and an operation of any kind that fails, because the broker
  does not answer or for another reason, gives its error to the caller without another attempt to reconnect.
\<close>

theorem failed_reconnect_not_retried:
  assumes "epoch_of c = e"
    and "bootstrap env (in_reply_cap (cn_inner c)) (cn_draws c) (cn_shm c) = (Inr tp, d, w)"
    and "do_register env ts (install_transport (ce_os env) tp (c\<lparr>cn_draws := d, cn_shm := w\<rparr>)) = Some (Inl err, ts1, c1)"
    and "same_broker env tp c1"
  shows "reconnect env e ts c = Some (Inl err, ts1, c1) \<and> client_id c1 = 0 \<and>
    ((\<forall>nap \<in> set naps. \<forall>c. same_broker env tp c \<longrightarrow> same_broker env tp (nap c)) \<longrightarrow>
      (\<exists>c2. run_watcher env naps ts2 c1 = Some (ts2, c2) \<and> same_broker env tp c2 \<and> client_id c2 = 0)) \<and>
    (same_broker env tp c4 \<and> oper ts3 c3 = Some (Inl err2, ts4, c4) \<longrightarrow> with_reconnect env oper ts3 c3 = Some (Inl err2, ts4, c4))"
proof -
  have id: "client_id c' = 0" if "same_broker env tp c'" for c'
    using bootstrap_Inr [OF assms(2)] that by (auto simp: client_id_def same_broker_def)
  have "reconnect env e ts c = Some (Inl err, ts1, c1)"
    using assms(1-3) by (simp add: reconnect_def act_bind_def)
  moreover have "with_reconnect env oper ts3 c3 = Some (Inl err2, ts4, c4)"
    if "same_broker env tp c4" "oper ts3 c3 = Some (Inl err2, ts4, c4)"
    using that by (simp add: with_reconnect_def same_broker_def epoch_of_def Let_def)
  ultimately show ?thesis using watcher_quiet [OF assms(4), of naps ts2] id assms(4) by blast
qed

section \<open>A kernel that refuses nothing\<close>

definition os_calm :: "os_env \<Rightarrow> bool" where
  "os_calm os \<longleftrightarrow> os_steady os \<and> (\<forall>n create. os_shm_open os n create = None) \<and> (\<forall>n. os_fstat os n = None)"

lemma segment_open_calm:
  assumes "os_calm os" "\<not> has_nul n" "sys_open n w = Some ob" "shm_obj w ob \<noteq> []"
  shows "segment_open os n w = Inr \<lparr>seg_name = n, seg_ptr = ob, seg_len = length (shm_obj w ob), owns_unlink = False\<rparr>"
  using assms by (simp add: segment_open_def os_calm_def os_steady_def sys_mmap_def Let_def)

lemma segment_create_calm:
  assumes "os_calm os" "\<not> has_nul n" "0 < sz"
  shows "\<exists>seg w'. segment_create os n sz w = (Inr seg, w') \<and>
    (\<forall>ob. ob \<noteq> seg_ptr seg \<longrightarrow> ob < shm_next w \<longrightarrow> shm_obj w' ob = shm_obj w ob) \<and>
    (\<forall>nm. shm_path nm \<noteq> shm_path n \<longrightarrow> sys_open nm w' = sys_open nm w) \<and>
    (sys_open n w = None \<longrightarrow> seg_ptr seg = shm_next w) \<and> shm_next w \<le> shm_next w'"
proof -
  let ?ob = "fst (sys_creat n w)" and ?w = "snd (sys_creat n w)"
  have "segment_create os n sz w = (Inr \<lparr>seg_name = n, seg_ptr = ?ob, seg_len = sz, owns_unlink = True\<rparr>,
      set_obj ?ob (resize sz (shm_obj ?w ?ob)) ?w)"
    using assms by (simp add: segment_create_def os_calm_def os_steady_def sys_mmap_def Let_def case_prod_beta)
  then show ?thesis
    by (simp add: sys_creat_obj_other sys_creat_open_other sys_creat_fresh sys_creat_next)
qed

lemma attach_control_seg:
  "attach_control seg m = Inr r \<Longrightarrow> seg_len seg' = seg_len seg \<Longrightarrow> attach_control seg' m = Inr (r\<lparr>ring_seg := seg'\<rparr>)"
  by (auto simp: attach_control_def ring_attach_def Let_def split: if_splits)

lemma bootstrap_ok:
  assumes os: "os_calm (ce_os env)" and ctl: "sys_open CONTROL_SEGMENT w = Some ob" "ob < shm_next w"
    and at: "attach_control \<lparr>seg_name = CONTROL_SEGMENT, seg_ptr = ob, seg_len = length (shm_obj w ob), owns_unlink = False\<rparr>
      (shm_obj w ob) = Inr sub"
    and fresh: "sys_open (client_segment (random_u64 (ce_random env d))) w = None" and ne: "shm_obj w ob \<noteq> []"
  shows "\<exists>tp w'. bootstrap env cap d w = (Inr tp, Suc d, w') \<and> tp_submission tp = sub \<and>
    tp_epoch tp = broker_epoch (shm_obj w ob) \<and>
    (\<forall>ob. ob < shm_next w \<longrightarrow> shm_obj w' ob = shm_obj w ob) \<and> sys_open CONTROL_SEGMENT w' = Some ob \<and>
    ring_idle (tp_reply_ring tp) (ring_mem (tp_reply_ring tp) w') \<and>
    ring_list (tp_reply_ring tp) (ring_mem (tp_reply_ring tp) w') = [] \<and>
    ring_cap (tp_reply_ring tp) = clamp_arena_cap (if cap = 0 then REPLY_CAP else cap) \<and>
    seg_ptr (ring_seg (tp_reply_ring tp)) = shm_next w"
proof -
  let ?n = "client_segment (random_u64 (ce_random env d))" and ?cap = "clamp_arena_cap (if cap = 0 then REPLY_CAP else cap)"
  have op: "segment_open (ce_os env) CONTROL_SEGMENT w =
      Inr \<lparr>seg_name = CONTROL_SEGMENT, seg_ptr = ob, seg_len = length (shm_obj w ob), owns_unlink = False\<rparr>"
    by (rule segment_open_calm [OF os _ ctl(1) ne]) (rule bus_name_nul, simp add: bus_names_def)
  have nn: "\<not> has_nul ?n" by (rule bus_name_nul) (simp add: bus_names_def)
  have "0 < ring_bytes ?cap" by (simp add: ring_bytes_def)
  with segment_create_calm [OF os nn, of "ring_bytes ?cap" w] fresh obtain seg w1 where
    c: "segment_create (ce_os env) ?n (ring_bytes ?cap) w = (Inr seg, w1)" and seg: "seg_ptr seg = shm_next w"
    and w1: "\<forall>ob. ob \<noteq> seg_ptr seg \<longrightarrow> ob < shm_next w \<longrightarrow> shm_obj w1 ob = shm_obj w ob"
      "\<forall>nm. shm_path nm \<noteq> shm_path ?n \<longrightarrow> sys_open nm w1 = sys_open nm w" by blast
  note created = segment_create_Inr [OF c]
  have pow: "is_power_of_two ?cap" "?cap < 2 ^ 32" using clamp_bounds by auto
  obtain r m where f: "ring_format seg 0 ?cap (shm_obj w1 (seg_ptr seg)) = (Inr r, m)"
    using pow(1) created(2) by (auto simp: ring_format_def Let_def)
  note fm = ring_format_Inr [OF f _ pow(2)]
  have h: "ring_holds r m []" "prod_lock r m = 0" "ring_cap r = ?cap" "ring_seg r = seg"
    using fm created by simp_all
  have path: "shm_path CONTROL_SEGMENT \<noteq> shm_path ?n"
    by (subst bus_name_path_inject) (simp_all add: bus_names_def)
  let ?w = "set_obj (seg_ptr seg) m w1"
  have b: "bootstrap env cap d w = (Inr \<lparr>tp_submission = sub, tp_reply_ring = r, tp_reply_segment = ?n,
      tp_nonce = random_u64 (ce_random env d), tp_client_id = 0, tp_epoch = broker_epoch (shm_obj w ob),
      tp_control_seg = \<lparr>seg_name = CONTROL_SEGMENT, seg_ptr = ob, seg_len = length (shm_obj w ob), owns_unlink = False\<rparr>,
      tp_reply_seg = seg\<rparr>, Suc d, ?w)"
    by (simp only: bootstrap_def op at c f Let_def sum.case prod.case segment.simps)
  have "ring_mem r ?w = m" using h(4) by (simp add: ring_mem_def)
  then have "ring_idle r (ring_mem r ?w)" "ring_list r (ring_mem r ?w) = []"
    using ring_idleI [OF h(1,2)] ring_holdsD [OF h(1)] by simp_all
  with b seg w1 path ctl h(3,4) show ?thesis by simp
qed

section \<open>A connection to the demonstration broker\<close>

definition demo_cenv :: "nat client_env" where
  "demo_cenv = \<lparr>ce_os = demo_os, ce_lib = proto_lib, ce_cat = proto_cat, ce_pid = 4242,
     ce_random = (\<lambda>n. u64_to_le_bytes (word_of_nat n))\<rparr>"

lemma demo_calm: "os_calm (ce_os demo_cenv)"
  by (simp add: os_calm_def os_steady_def demo_cenv_def demo_os_def)

abbreviation demo_ctl :: nat where "demo_ctl \<equiv> seg_ptr (br_control_seg demo_broker)"

lemma demo_control_seg:
  "sys_open CONTROL_SEGMENT demo_world = Some demo_ctl" "demo_ctl < shm_next demo_world"
  "shm_obj demo_world demo_ctl \<noteq> []" "broker_epoch (shm_obj demo_world demo_ctl) = 99"
  "attach_control \<lparr>seg_name = CONTROL_SEGMENT, seg_ptr = demo_ctl, seg_len = length (shm_obj demo_world demo_ctl), owns_unlink = False\<rparr>
     (shm_obj demo_world demo_ctl) =
   Inr ((br_submission demo_broker)\<lparr>ring_seg := \<lparr>seg_name = CONTROL_SEGMENT, seg_ptr = demo_ctl,
     seg_len = length (shm_obj demo_world demo_ctl), owns_unlink = False\<rparr>\<rparr>)"
  "seg_ptr (ring_seg (br_submission demo_broker)) = demo_ctl"
  "sys_open (client_segment n) demo_world = None" "ring_cap (br_submission demo_broker) = SUBMISSION_CAP"
proof -
  obtain w1 seg w2 m r where g: "guard_singleton (be_os demo_env) shm_empty = (Inr (), w1)" and s:
    "segment_create (be_os demo_env) CONTROL_SEGMENT control_segment_bytes (cleanup_stale (be_os demo_env) w1) = (Inr seg, w2)"
    "format_control seg (be_pid demo_env) (be_epoch demo_env) (shm_obj w2 (seg_ptr seg)) = (Inr r, m)"
    "demo_broker = \<lparr>br_control_seg = seg, br_submission = r, br_reg = registry_new, br_reply_rings = hm_empty,
      br_reply_segs = hm_empty, br_arenas = hm_empty, br_reply_names = []\<rparr>"
    "demo_world = set_obj (seg_ptr seg) m w2"
    using start_cases [OF demo_start] by metis
  note seg = segment_create_Inr [OF s(1)]
  have len: "length (shm_obj w2 (seg_ptr seg)) = seg_len seg" "control_segment_bytes \<le> seg_len seg" using seg by simp_all
  have f: "attach_control seg m = Inr r" "broker_epoch m = 99" "ring_cap r = SUBMISSION_CAP"
    using format_control_ok [OF len, of 4711 99] s(2) by (auto simp: demo_env_def)
  have rs: "ring_seg r = seg" using s(2) by (auto simp: format_control_def ring_format_def Let_def split: if_splits)
  have lm: "length m = seg_len seg"
    using s(2) len(1) by (auto simp: format_control_def ring_format_def word_defs Let_def split: if_splits)
  have calm: "os_calm (be_os demo_env)" using demo_calm by (simp add: demo_env_def demo_cenv_def)
  have "0 < control_segment_bytes" "\<not> has_nul CONTROL_SEGMENT" using seg(6) by (simp_all add: bus_name_nul)
  from segment_create_calm [OF calm this(2,1), of "cleanup_stale (be_os demo_env) w1"]
  have other: "sys_open nm w2 = sys_open nm (cleanup_stale (be_os demo_env) w1)" if "shm_path nm \<noteq> shm_path CONTROL_SEGMENT" for nm
    using s(1) that by auto
  have "sys_open (client_segment n) w2 = sys_open (client_segment n) (cleanup_stale (be_os demo_env) w1)"
    by (rule other, subst bus_name_path_inject) (simp_all add: bus_names_def)
  also have "\<dots> = None"
    by (rule cleanup_stale_gone) (use shm_ok_guard [OF shm_ok_empty, of "be_os demo_env"] g in \<open>simp_all add: demo_steady bus_names_def\<close>)
  finally show "sys_open (client_segment n) demo_world = None" unfolding s(4) by simp
  show o: "sys_open CONTROL_SEGMENT demo_world = Some demo_ctl" unfolding s(3,4) by (simp add: seg(4))
  show "demo_ctl < shm_next demo_world" using o demo_inv(2) by (auto simp: world_ok_def shm_ok_def sys_open_def)
  show "shm_obj demo_world demo_ctl \<noteq> []" unfolding s(3,4) using lm seg(2,6) by auto
  show "broker_epoch (shm_obj demo_world demo_ctl) = 99" unfolding s(3,4) using f by simp
  show "seg_ptr (ring_seg (br_submission demo_broker)) = demo_ctl" unfolding s(3) using rs by simp
  show "ring_cap (br_submission demo_broker) = SUBMISSION_CAP" unfolding s(3) using f(3) by simp
  show "attach_control \<lparr>seg_name = CONTROL_SEGMENT, seg_ptr = demo_ctl, seg_len = length (shm_obj demo_world demo_ctl), owns_unlink = False\<rparr>
     (shm_obj demo_world demo_ctl) =
   Inr ((br_submission demo_broker)\<lparr>ring_seg := \<lparr>seg_name = CONTROL_SEGMENT, seg_ptr = demo_ctl,
     seg_len = length (shm_obj demo_world demo_ctl), owns_unlink = False\<rparr>\<rparr>)"
    unfolding s(3,4) using attach_control_seg [OF f(1)] lm by simp
qed

lemma demo_bootstrap:
  "\<exists>tp w. bootstrap demo_cenv 0 0 demo_world = (Inr tp, 1, w) \<and>
     tp_submission tp = (br_submission demo_broker)\<lparr>ring_seg := \<lparr>seg_name = CONTROL_SEGMENT, seg_ptr = demo_ctl,
       seg_len = length (shm_obj demo_world demo_ctl), owns_unlink = False\<rparr>\<rparr> \<and>
     tp_epoch tp = 99 \<and> shm_obj w demo_ctl = shm_obj demo_world demo_ctl \<and>
     sys_open CONTROL_SEGMENT w = Some demo_ctl \<and> ring_idle (tp_reply_ring tp) (ring_mem (tp_reply_ring tp) w) \<and>
     ring_list (tp_reply_ring tp) (ring_mem (tp_reply_ring tp) w) = [] \<and>
     seg_ptr (ring_seg (tp_reply_ring tp)) \<noteq> demo_ctl"
proof -
  from bootstrap_ok [OF demo_calm demo_control_seg(1,2,5,7,3), of 0 0] obtain tp w where
    "bootstrap demo_cenv 0 0 demo_world = (Inr tp, Suc 0, w)" "tp_submission tp = (br_submission demo_broker)\<lparr>ring_seg :=
       \<lparr>seg_name = CONTROL_SEGMENT, seg_ptr = demo_ctl, seg_len = length (shm_obj demo_world demo_ctl), owns_unlink = False\<rparr>\<rparr>"
    "tp_epoch tp = broker_epoch (shm_obj demo_world demo_ctl)"
    "\<forall>ob. ob < shm_next demo_world \<longrightarrow> shm_obj w ob = shm_obj demo_world ob" "sys_open CONTROL_SEGMENT w = Some demo_ctl"
    "ring_idle (tp_reply_ring tp) (ring_mem (tp_reply_ring tp) w)"
    "ring_list (tp_reply_ring tp) (ring_mem (tp_reply_ring tp) w) = []"
    "seg_ptr (ring_seg (tp_reply_ring tp)) = shm_next demo_world" by blast
  with demo_control_seg(2,4) show ?thesis by (intro exI [of _ tp] exI [of _ w]) simp
qed

definition demo_tp :: transport where
  "demo_tp = (case fst (bootstrap demo_cenv 0 0 demo_world) of Inr tp \<Rightarrow> tp)"

definition demo_conn :: conn where
  "demo_conn = \<lparr>cn_inner = client_start ''demo'' 0 demo_tp, cn_shm = snd (snd (bootstrap demo_cenv 0 0 demo_world)), cn_draws = 1\<rparr>"

lemma demo_conn_tp: "in_transport (cn_inner demo_conn) = demo_tp"
  by (simp add: demo_conn_def client_start_def)

lemma demo_conn_facts:
  "tp_submission demo_tp = (br_submission demo_broker)\<lparr>ring_seg := \<lparr>seg_name = CONTROL_SEGMENT, seg_ptr = demo_ctl,
     seg_len = length (shm_obj demo_world demo_ctl), owns_unlink = False\<rparr>\<rparr>" "tp_epoch demo_tp = 99"
  "shm_obj (cn_shm demo_conn) demo_ctl = shm_obj demo_world demo_ctl" "sys_open CONTROL_SEGMENT (cn_shm demo_conn) = Some demo_ctl"
  "ring_idle (tp_reply_ring demo_tp) (ring_mem (tp_reply_ring demo_tp) (cn_shm demo_conn))"
  "ring_list (tp_reply_ring demo_tp) (ring_mem (tp_reply_ring demo_tp) (cn_shm demo_conn)) = []"
  "pending_ok demo_conn" "in_next_slot (cn_inner demo_conn) = 0"
  "seg_ptr (ring_seg (tp_reply_ring demo_tp)) \<noteq> demo_ctl"
  using demo_bootstrap by (auto simp: demo_tp_def demo_conn_def client_start_def pending_ok_def)

lemma demo_submission:
  "ring_idle (tp_submission demo_tp) (ring_mem (tp_submission demo_tp) (cn_shm demo_conn))"
  "ring_list (tp_submission demo_tp) (ring_mem (tp_submission demo_tp) (cn_shm demo_conn)) = []"
proof -
  have "ring_mem (tp_submission demo_tp) (cn_shm demo_conn) = ring_mem (br_submission demo_broker) demo_world"
    using demo_conn_facts(1,3) demo_control_seg(6) by (simp add: ring_mem_def)
  then show "ring_idle (tp_submission demo_tp) (ring_mem (tp_submission demo_tp) (cn_shm demo_conn))"
    "ring_list (tp_submission demo_tp) (ring_mem (tp_submission demo_tp) (cn_shm demo_conn)) = []"
    using demo_control(3,4) demo_conn_facts(1) by simp_all
qed

text \<open>A turn in which nobody answers.\<close>

definition silent_turn :: turn where
  "silent_turn = \<lparr>tn_parks = 0, tn_push = [], tn_wait = [(True, id)]\<rparr>"

lemma silent_safe: "push_safe (tp_submission demo_tp) silent_turn (cn_shm demo_conn)"
  using demo_submission by (simp add: push_safe_def silent_turn_def)


lemma demo_reply_record:
  "\<exists>m. ring_idle (tp_reply_ring demo_tp) m \<and> ring_list (tp_reply_ring demo_tp) m = [[1, 2, 3]]"
proof -
  let ?r = "tp_reply_ring demo_tp" and ?m = "ring_mem (tp_reply_ring demo_tp) (cn_shm demo_conn)"
  have h: "ring_holds ?r ?m []" "prod_lock ?r ?m = 0"
    using demo_conn_facts(5,6) ring_idle_holds by (metis, simp add: ring_idle_def)
  have "ring_cap ?r = clamp_arena_cap REPLY_CAP"
    using bootstrap_ok [OF demo_calm demo_control_seg(1,2,5,7,3), of 0 0] demo_bootstrap by (auto simp: demo_tp_def)
  then have "records_size [] + 4 + length [1, 2, 3 :: u8] \<le> ring_cap ?r"
    using clamp_arena_cap_bounds [of REPLY_CAP] by (simp add: MIN_ARENA_CAP_def)
  from push_blocking_accept [OF h this] show ?thesis using ring_idleI ring_holdsD by fastforce
qed

theorem dispatch_routes_witness:
  "\<exists>c c'. ring_list (tp_reply_ring demo_tp) (ring_mem (tp_reply_ring demo_tp) (cn_shm c)) = [[1, 2, 3]] \<and>
     dispatch_turn demo_cenv 0 [] c = Some c' \<and>
     ring_list (tp_reply_ring demo_tp) (ring_mem (tp_reply_ring demo_tp) (cn_shm c')) = []"
proof -
  let ?r = "tp_reply_ring demo_tp"
  obtain m where m: "ring_idle ?r m" "ring_list ?r m = [[1, 2, 3]]" using demo_reply_record by blast
  let ?c = "demo_conn\<lparr>cn_shm := set_ring_mem ?r m (cn_shm demo_conn)\<rparr>"
  have "ring_idle ?r (ring_mem ?r (cn_shm ?c))" "ring_list ?r (ring_mem ?r (cn_shm ?c)) = [[1, 2, 3]]"
    "?r = tp_reply_ring (in_transport (cn_inner ?c))"
    using m by (simp_all add: demo_conn_tp)
  from dispatch_routes [OF this(1,3) _ _ this(2), of "[]" 0 demo_cenv] this(2) show ?thesis by fastforce
qed

theorem matching_callee_spec_witness:
  "matching_callee demo_cenv ''add'' None 3 4 []
     (upd_inner (\<lambda>n. n\<lparr>in_callees := hm_insert (''add'', '''') \<lparr>ca_req_fp = 3, ca_resp_fp = 4, ca_ring = demo_ring\<rparr> hm_empty\<rparr>)
       demo_conn) =
   Some (Inr \<lparr>ca_req_fp = 3, ca_resp_fp = 4, ca_ring = demo_ring\<rparr>, [],
     upd_inner (\<lambda>n. n\<lparr>in_callees := hm_insert (''add'', '''') \<lparr>ca_req_fp = 3, ca_resp_fp = 4, ca_ring = demo_ring\<rparr> hm_empty\<rparr>)
       demo_conn)"
  using conjunct2 [OF matching_callee_spec, rule_format, where env = demo_cenv and fn_name = "''add''" and key = None
      and req_fp = 3 and resp_fp = 4 and ts = "[]" and ca = "\<lparr>ca_req_fp = 3, ca_resp_fp = 4, ca_ring = demo_ring\<rparr>"]
  by (simp add: callee_key_def key_str_def)

lemma length_client_segment: "length (client_segment n) \<le> 64"
proof -
  have "length (show_base 16 (unat n)) \<le> 16" "length (show_base 10 (unat n)) \<le> 20"
    using unat_bound [of n] by (intro show_base_length; simp)+
  then show ?thesis by (simp add: client_segment_def pad_zero_def show_hex_def show_nat_def)
qed

lemma proto_frame_body:
  "to_frame proto_lib proto_cat to_v k msg = Inr f \<Longrightarrow> frame_body f = ref_enc (to_v msg)"
  by (auto simp: to_frame_def io_bind_Inr avro_encode_def proto_lib_def ref_lib_def frame_new_def)

lemma sint_range: "- (2 ^ 63) \<le> sint (w :: u64)" "sint (w :: u64) < 2 ^ 63"
  using sint_range_size [of w] by (simp_all add: word_size)

text \<open>A control call nobody answers, and what others have made of the shared memory meanwhile.\<close>

lemma call_control_timeout:
  assumes r: "r = tp_submission (in_transport (cn_inner c))"
    and mem: "ring_idle r (ring_mem r (cn_shm c))" "ring_list r (ring_mem r (cn_shm c)) = []"
    and fits: "4 + length (frame_encode f) \<le> ring_cap r"
    and t: "tn_wait t = [(True, \<lambda>c. c\<lparr>cn_shm := w\<rparr>)]"
  shows "\<exists>c'. call_control corr f (t # ts) c = Some (Inl (IoNew TimedOut ''timed out waiting for broker reply''), ts, c') \<and>
    in_transport (cn_inner c') = in_transport (cn_inner c) \<and> cn_shm c' = w"
proof -
  let ?sid = "in_next_slot (cn_inner c)"
  obtain c1 where reg: "register_pending corr c = (?sid, c1)" and c1: "cn_shm c1 = cn_shm c"
    "in_transport (cn_inner c1) = in_transport (cn_inner c)" "slots_of c1 ?sid = slot_new"
    by (simp add: register_pending_def Let_def)
  have h: "ring_holds r (ring_mem r (cn_shm c1)) []" "prod_lock r (ring_mem r (cn_shm c1)) = 0"
    using mem ring_idle_holds c1(1) by (metis, simp add: ring_idle_def)
  obtain m where p: "push_blocking r (frame_encode f) (Some (tn_parks t)) (tn_push t) (ring_mem r (cn_shm c1)) =
      Some (True, m, tn_push t)"
    using push_blocking_accept [OF h, of "frame_encode f"] fits by fastforce
  let ?c2 = "c1\<lparr>cn_shm := set_ring_mem r m (cn_shm c1)\<rparr>"
  have push: "push_ring t r (frame_encode f) c1 = Some (True, ?c2)"
    using p by (simp add: push_ring_def)
  have "slot_wait ?sid (tn_wait t) ?c2 = Some (None, upd_slot ?sid slot_new (?c2\<lparr>cn_shm := w\<rparr>))"
    unfolding t by (subst slot_wait.simps) (simp add: slot_take_def slot_new_def Let_def c1(3))
  then have "call_control corr f (t # ts) c = Some (Inl (IoNew TimedOut ''timed out waiting for broker reply''), ts,
      drop_pending corr (upd_slot ?sid slot_new (?c2\<lparr>cn_shm := w\<rparr>)))"
    using push r c1(2) by (simp add: reg)
  then show ?thesis using c1(2) by simp
qed

theorem failed_reconnect_not_retried_witness:
  "\<exists>c ts err c1 c2 c3. reconnect demo_cenv 1 ts c = Some (Inl err, [], c1) \<and> client_id c1 = 0 \<and>
     run_watcher demo_cenv (replicate 1000 (\<lambda>c. c\<lparr>cn_draws := Suc (cn_draws c)\<rparr>)) [] c1 = Some ([], c2) \<and> client_id c2 = 0 \<and>
     with_reconnect demo_cenv (client_list_channels demo_cenv) ts c1 =
       Some (Inl (IoNew TimedOut ''timed out waiting for broker reply''), [], c3)"
proof -
  let ?c = "\<lparr>cn_inner = client_start ''demo'' 0 (demo_tp\<lparr>tp_epoch := 1\<rparr>), cn_shm = demo_world, cn_draws = 0\<rparr>"
  have ep: "epoch_of ?c = 1" by (simp add: epoch_of_def client_start_def)
  let ?w = "cn_shm demo_conn" and ?r = "tp_submission demo_tp"
  let ?t = "\<lparr>tn_parks = 0, tn_push = [], tn_wait = [(True, \<lambda>c. c\<lparr>cn_shm := ?w\<rparr>)]\<rparr>"
  have b: "bootstrap demo_cenv (in_reply_cap (cn_inner ?c)) (cn_draws ?c) (cn_shm ?c) = (Inr demo_tp, 1, ?w)"
    using demo_bootstrap by (auto simp: demo_tp_def demo_conn_def client_start_def)
  let ?fresh = "install_transport (ce_os demo_cenv) demo_tp (?c\<lparr>cn_draws := 1, cn_shm := ?w\<rparr>)"
  obtain corr c2 where n: "next_corr demo_cenv ?fresh = (corr, c2)" by fastforce
  have c2: "cn_inner c2 = cn_inner ?fresh" "cn_shm c2 = cn_shm ?fresh" "- (2 ^ 63) \<le> corr" "corr < 2 ^ 63"
    using n sint_range [of "random_u64 (ce_random demo_cenv (cn_draws ?fresh))"] by (auto simp: next_corr_def)
  have tp: "in_transport (cn_inner c2) = demo_tp" by (simp add: c2 install_transport_def client_start_def)
  have app: "in_app_name (cn_inner c2) = ''demo''" by (simp add: c2 install_transport_def client_start_def)
  obtain n0 where seg: "reply_segment c2 = client_segment n0"
    using bootstrap_Inr [OF b] tp by (auto simp: reply_segment_def)
  let ?msg = "\<lparr>reg_correlation_id = corr, reg_app_name = in_app_name (cn_inner c2),
     reg_nonce = sint (tp_nonce (in_transport (cn_inner c2))), reg_reply_segment = reply_segment c2,
     reg_heartbeat_ms = 1000, reg_pid = int (ce_pid demo_cenv)\<rparr>"
  have "length (client_segment n0) \<le> 64" by (rule length_client_segment)
  then have ty: "has_type (kind_type Register) (register_to_value ?msg)"
    using c2(3,4) sint_range [of "tp_nonce (in_transport (cn_inner c2))"]
    by (simp add: kind_type_def register_to_value_def app seg demo_cenv_def)
  obtain f where f: "to_frame proto_lib proto_cat register_to_value Register ?msg = Inr f"
    using m_reg.frame_compat [OF proto_lib_laws proto_cat_build proto_lib_distinct ty] by blast
  have cap: "ring_cap ?r = SUBMISSION_CAP"
    using demo_conn_facts(1) demo_control_seg(8) by simp
  have len: "4 + length (frame_encode f) \<le> ring_cap ?r"
    using proto_frame_body [OF f] length_client_segment [of n0]
    by (simp add: cap register_to_value_def app seg SUBMISSION_CAP_def FRAME_HEADER_def)
  have mem: "ring_mem ?r (cn_shm c2) = ring_mem ?r ?w"
    by (simp add: c2 install_transport_def ring_mem_def segment_drop_def unlink_dir(3))
  obtain c1 where call: "call_control corr f [?t] c2 =
      Some (Inl (IoNew TimedOut ''timed out waiting for broker reply''), [], c1)"
    and c1: "in_transport (cn_inner c1) = demo_tp" "cn_shm c1 = ?w"
    using call_control_timeout [of ?r c2 f ?t ?w corr "[]"] len mem demo_submission tp by auto
  have reg: "do_register demo_cenv [?t] ?fresh = Some (Inl (IoNew TimedOut ''timed out waiting for broker reply''), [], c1)"
    using n f call by (simp add: do_register_def control_round_trip_def act_bind_def demo_cenv_def)
  have live: "live_broker_epoch (ce_os demo_cenv) ?w = Inr (tp_epoch demo_tp)"
    using segment_open_calm [OF demo_calm _ demo_conn_facts(4)] demo_conn_facts(2,3) demo_control_seg(3-5)
    by (simp add: live_broker_epoch_def bus_name_nul)
  obtain corr' c4 where n': "next_corr demo_cenv c1 = (corr', c4)" by fastforce
  have c4: "cn_inner c4 = cn_inner c1" "cn_shm c4 = cn_shm c1" "- (2 ^ 63) \<le> corr'" "corr' < 2 ^ 63"
    using n' sint_range [of "random_u64 (ce_random demo_cenv (cn_draws c1))"] by (auto simp: next_corr_def)
  have "client_id c4 = 0" using bootstrap_Inr [OF b] c1(1) c4(1) by (auto simp: client_id_def)
  then have "has_type (kind_type ListChannels) (list_channels_to_value \<lparr>lst_correlation_id = corr', lst_client_id = client_id c4\<rparr>)"
    using c4(3,4) by (simp add: kind_type_def list_channels_to_value_def)
  then obtain f' where f': "to_frame proto_lib proto_cat list_channels_to_value ListChannels \<lparr>lst_correlation_id = corr', lst_client_id = client_id c4\<rparr> = Inr f'"
    using m_lst.frame_compat [OF proto_lib_laws proto_cat_build proto_lib_distinct] by blast
  have len': "4 + length (frame_encode f') \<le> ring_cap ?r"
    using proto_frame_body [OF f'] by (simp add: cap list_channels_to_value_def SUBMISSION_CAP_def FRAME_HEADER_def)
  obtain c3 where "call_control corr' f' [?t] c4 = Some (Inl (IoNew TimedOut ''timed out waiting for broker reply''), [], c3)"
    and c3: "in_transport (cn_inner c3) = demo_tp" "cn_shm c3 = ?w"
    using call_control_timeout [of ?r c4 f' ?t ?w corr' "[]"] len' c1 c4 demo_submission by auto
  then have lst: "client_list_channels demo_cenv [?t] c1 = Some (Inl (IoNew TimedOut ''timed out waiting for broker reply''), [], c3)"
    using n' f' by (simp add: client_list_channels_def control_round_trip_def act_bind_def demo_cenv_def)
  have same: "same_broker demo_cenv demo_tp c1" "same_broker demo_cenv demo_tp c3" using c1 c3 live by (simp_all add: same_broker_def)
  have nap: "\<forall>nap \<in> set (replicate 1000 (\<lambda>c. c\<lparr>cn_draws := Suc (cn_draws c)\<rparr>)). \<forall>c. same_broker demo_cenv demo_tp c \<longrightarrow> same_broker demo_cenv demo_tp (nap c)"
    by (simp add: same_broker_def)
  note not = failed_reconnect_not_retried [OF ep b reg same(1), of "replicate 1000 (\<lambda>c. c\<lparr>cn_draws := Suc (cn_draws c)\<rparr>)" "[]"
      c3 "client_list_channels demo_cenv" "[?t]" c1 "IoNew TimedOut ''timed out waiting for broker reply''" "[]"]
  have wr: "with_reconnect demo_cenv (client_list_channels demo_cenv) [?t] c1 = Some (Inl (IoNew TimedOut ''timed out waiting for broker reply''), [], c3)"
    and rec: "reconnect demo_cenv 1 [?t] ?c = Some (Inl (IoNew TimedOut ''timed out waiting for broker reply''), [], c1)" "client_id c1 = 0"
    using not same(2) lst by blast+
  obtain c2 where "run_watcher demo_cenv (replicate 1000 (\<lambda>c. c\<lparr>cn_draws := Suc (cn_draws c)\<rparr>)) [] c1 = Some ([], c2)" "client_id c2 = 0"
    using not nap by blast
  with wr rec show ?thesis by blast
qed

end
