(* ===== verification/Ring_Http.thy ===== *)
theory Ring_Http
  imports Ring_Catalog Ring_Control
begin

text \<open>
  The HTTP-over-Ring wire protocol (\<^verbatim>\<open>crates/http/src/lib.rs\<close>): function and channel names, the
  request, response and stream records with their schema texts, the negotiation tokens, and the
  shares of a ring that a body may take. The schema texts are written over several lines;
  \<open>json_strip\<close> removes the white space that has no meaning in JSON, and what is relied on of
  the Avro library beyond its laws is that it reads a text and its stripped form alike.
\<close>

section \<open>Names\<close>

definition PROTOCOL_VERSION :: u32 where "PROTOCOL_VERSION = 2"

definition HTTP_FN_PREFIX :: string where
  "HTTP_FN_PREFIX = ''impulse-ring-http/v1/''"

definition http_fn_name :: "string \<Rightarrow> string" where
  "http_fn_name app_name = HTTP_FN_PREFIX @ app_name"

definition STREAM_CHAN_PREFIX :: string where
  "STREAM_CHAN_PREFIX = ''impulse-ring-http/v1/stream/''"

definition stream_channel_name :: "string \<Rightarrow> u64 \<Rightarrow> string \<Rightarrow> string" where
  "stream_channel_name app session_id role =
     STREAM_CHAN_PREFIX @ app @ ''/'' @ pad_zero 16 (show_hex (unat session_id)) @ ''/'' @ role"

section \<open>Records\<close>

record ring_header =
  hd_name :: string
  hd_value :: string

definition ring_header_new :: "string \<Rightarrow> string \<Rightarrow> ring_header" where
  "ring_header_new nm v = \<lparr>hd_name = nm, hd_value = v\<rparr>"

record ring_http_request =
  hrq_method :: string
  hrq_uri :: string
  hrq_headers :: "ring_header list"
  hrq_body :: bytes

record ring_http_response =
  hrs_status :: i32
  hrs_headers :: "ring_header list"
  hrs_body :: bytes

definition DATA :: i32 where "DATA = 0"
definition CLOSE :: i32 where "CLOSE = 1"
definition DATAGRAM :: i32 where "DATAGRAM = 2"
definition STREAM_OPEN :: i32 where "STREAM_OPEN = 3"
definition STREAM_DATA :: i32 where "STREAM_DATA = 4"
definition STREAM_CLOSE :: i32 where "STREAM_CLOSE = 5"

record ring_stream_frame =
  sf_opcode :: i32
  sf_stream_id :: i64
  sf_payload :: bytes

definition stream_data :: "bytes \<Rightarrow> ring_stream_frame" where
  "stream_data payload = \<lparr>sf_opcode = DATA, sf_stream_id = 0, sf_payload = payload\<rparr>"

definition stream_close :: ring_stream_frame where
  "stream_close = \<lparr>sf_opcode = CLOSE, sf_stream_id = 0, sf_payload = []\<rparr>"

definition stream_datagram :: "bytes \<Rightarrow> ring_stream_frame" where
  "stream_datagram payload = \<lparr>sf_opcode = DATAGRAM, sf_stream_id = 0, sf_payload = payload\<rparr>"

section \<open>Negotiation\<close>

datatype ring_upgrade_kind = Sse | WebSocket | WebTransport

fun upgrade_as_str :: "ring_upgrade_kind \<Rightarrow> string" where
  "upgrade_as_str Sse = ''sse''"
| "upgrade_as_str WebSocket = ''websocket''"
| "upgrade_as_str WebTransport = ''webtransport''"

text \<open>
  \<^verbatim>\<open>str::trim\<close> on UTF-8 bytes: the encodings of the scalar values with the property
  \<open>White_Space\<close> are removed from both ends.
\<close>

definition WHITE_SPACE :: "string list" where
  "WHITE_SPACE = map (map char_of)
     ([[9], [10], [11], [12], [13], [32], [0xC2, 0x85], [0xC2, 0xA0], [0xE1, 0x9A, 0x80]] @
      map (\<lambda>b. [0xE2, 0x80, 0x80 + b]) [0..<11] @
      [[0xE2, 0x80, 0xA8], [0xE2, 0x80, 0xA9], [0xE2, 0x80, 0xAF], [0xE2, 0x81, 0x9F], [0xE3, 0x80, 0x80 :: nat]])"

function trim_with :: "string list \<Rightarrow> string \<Rightarrow> string" where
  "trim_with ws s =
     (case find (\<lambda>p. p \<noteq> [] \<and> starts_with s p) ws of
        None \<Rightarrow> s
      | Some p \<Rightarrow> trim_with ws (drop (length p) s))"
  by pat_completeness auto
termination
proof (relation "measure (\<lambda>(ws, s). length s)")
  fix ws p and s :: string
  assume "find (\<lambda>p. p \<noteq> [] \<and> starts_with s p) ws = Some p"
  then have "p \<noteq> []" "take (length p) s = p" by (auto simp: find_Some_iff starts_with_def)
  then have "s \<noteq> []" "p \<noteq> []" by auto
  then show "((ws, drop (length p) s), ws, s) \<in> measure (\<lambda>(ws, s). length s)" by (simp add: diff_less)
qed simp

declare trim_with.simps [simp del]

definition trim :: "string \<Rightarrow> string" where
  "trim s = rev (trim_with (map rev WHITE_SPACE) (rev (trim_with WHITE_SPACE s)))"

definition ascii_lower :: "char \<Rightarrow> char" where
  "ascii_lower c = (let n = of_char c :: nat in if 65 \<le> n \<and> n \<le> 90 then char_of (n + 32) else c)"

definition to_ascii_lowercase :: "string \<Rightarrow> string" where
  "to_ascii_lowercase s = map ascii_lower s"

definition upgrade_parse :: "string \<Rightarrow> ring_upgrade_kind option" where
  "upgrade_parse s =
     (let t = to_ascii_lowercase (trim s) in
      if t = ''sse'' then Some Sse
      else if t = ''websocket'' \<or> t = ''ws'' then Some WebSocket
      else if t = ''webtransport'' \<or> t = ''wt'' then Some WebTransport
      else None)"

definition HEADER_UPGRADE :: string where "HEADER_UPGRADE = ''x-impulse-ring-upgrade''"
definition HEADER_CHAN_DOWN :: string where "HEADER_CHAN_DOWN = ''x-impulse-ring-chan-down''"
definition HEADER_CHAN_UP :: string where "HEADER_CHAN_UP = ''x-impulse-ring-chan-up''"
definition HEADER_CHAN_DATAGRAMS :: string where "HEADER_CHAN_DATAGRAMS = ''x-impulse-ring-chan-datagrams''"
definition HEADER_SESSION :: string where "HEADER_SESSION = ''x-impulse-ring-session''"
definition HEADER_BODY_CHANNEL :: string where "HEADER_BODY_CHANNEL = ''x-impulse-ring-body-chan''"
definition HEADER_REPLY_CAP :: string where "HEADER_REPLY_CAP = ''x-impulse-ring-reply-cap''"
definition HEADER_REQUEST_BODY_CHANNEL :: string where
  "HEADER_REQUEST_BODY_CHANNEL = ''x-impulse-ring-req-body-chan''"

lemmas header_defs =
  HEADER_UPGRADE_def HEADER_CHAN_DOWN_def HEADER_CHAN_UP_def HEADER_CHAN_DATAGRAMS_def HEADER_SESSION_def
  HEADER_BODY_CHANNEL_def HEADER_REPLY_CAP_def HEADER_REQUEST_BODY_CHANNEL_def

section \<open>Shares of a ring\<close>

definition SHARED_NUM :: usize where "SHARED_NUM = 3"
definition SHARED_DEN :: usize where "SHARED_DEN = 8"
definition REPLY_NUM :: usize where "REPLY_NUM = 7"
definition REPLY_DEN :: usize where "REPLY_DEN = 8"

lemmas share_defs = SHARED_NUM_def SHARED_DEN_def REPLY_NUM_def REPLY_DEN_def

text \<open>The product wraps at 64 bits.\<close>

definition max_inline_request_body :: "usize \<Rightarrow> usize" where
  "max_inline_request_body arena_cap = arena_cap * SHARED_NUM mod 2 ^ 64 div SHARED_DEN"

definition max_inline_response_body :: "usize \<Rightarrow> usize" where
  "max_inline_response_body reply_cap = reply_cap * REPLY_NUM mod 2 ^ 64 div REPLY_DEN"

definition body_chunk :: "usize \<Rightarrow> usize" where
  "body_chunk arena_cap = arena_cap * SHARED_NUM mod 2 ^ 64 div SHARED_DEN"

definition DEFAULT_RING_CAP :: usize where "DEFAULT_RING_CAP = 512 * 1024"
definition MIN_RING_CAP :: usize where "MIN_RING_CAP = 256 * 1024"

definition MAX_INLINE_RESPONSE_BODY :: usize where
  "MAX_INLINE_RESPONSE_BODY = max_inline_response_body DEFAULT_RING_CAP"
definition RESPONSE_BODY_CHUNK :: usize where "RESPONSE_BODY_CHUNK = body_chunk DEFAULT_RING_CAP"
definition MAX_INLINE_REQUEST_BODY :: usize where
  "MAX_INLINE_REQUEST_BODY = max_inline_request_body DEFAULT_RING_CAP"
definition REQUEST_BODY_CHUNK :: usize where "REQUEST_BODY_CHUNK = body_chunk DEFAULT_RING_CAP"

section \<open>Schemas\<close>

definition text_lines :: "string list \<Rightarrow> string" where
  "text_lines ls = butlast (concat (map (\<lambda>l. l @ [CHR 0x0A]) ls))"

definition REQUEST_SCHEMA :: string where
  \<open>REQUEST_SCHEMA = text_lines
    [''{'',
     ''  "type": "record",'',
     ''  "name": "RingHttpRequest",'',
     ''  "fields": ['',
     ''    {"name": "method", "type": "string"},'',
     ''    {"name": "uri", "type": "string"},'',
     ''    {"name": "headers", "type": {"type": "array", "items": {'',
     ''      "type": "record",'',
     ''      "name": "RingHeader",'',
     ''      "fields": ['',
     ''        {"name": "name", "type": "string"},'',
     ''        {"name": "value", "type": "string"}'',
     ''      ]'',
     ''    }}},'',
     ''    {"name": "body", "type": "bytes"}'',
     ''  ]'',
     ''}'']\<close>

definition RESPONSE_SCHEMA :: string where
  \<open>RESPONSE_SCHEMA = text_lines
    [''{'',
     ''  "type": "record",'',
     ''  "name": "RingHttpResponse",'',
     ''  "fields": ['',
     ''    {"name": "status", "type": "int"},'',
     ''    {"name": "headers", "type": {"type": "array", "items": {'',
     ''      "type": "record",'',
     ''      "name": "RingHeader",'',
     ''      "fields": ['',
     ''        {"name": "name", "type": "string"},'',
     ''        {"name": "value", "type": "string"}'',
     ''      ]'',
     ''    }}},'',
     ''    {"name": "body", "type": "bytes"}'',
     ''  ]'',
     ''}'']\<close>

definition STREAM_SCHEMA :: string where
  \<open>STREAM_SCHEMA = text_lines
    [''{'',
     ''  "type": "record",'',
     ''  "name": "RingStreamFrame",'',
     ''  "fields": ['',
     ''    {"name": "opcode", "type": "int"},'',
     ''    {"name": "stream_id", "type": "long"},'',
     ''    {"name": "payload", "type": "bytes"}'',
     ''  ]'',
     ''}'']\<close>

section \<open>Conversions\<close>

definition ring_header_to_value :: "ring_header \<Rightarrow> avro_value" where
  "ring_header_to_value h = AvRecord [(''name'', AvString (hd_name h)), (''value'', AvString (hd_value h))]"

definition ring_header_from_value :: "'sc avro_lib \<Rightarrow> avro_value \<Rightarrow> ring_header option" where
  "ring_header_from_value lib v =
     do {
       x0 \<leftarrow> de_field (de_string lib) v ''name'';
       x1 \<leftarrow> de_field (de_string lib) v ''value'';
       Some \<lparr>hd_name = x0, hd_value = x1\<rparr>
     }"

fun headers_from_value :: "'sc avro_lib \<Rightarrow> avro_value \<Rightarrow> ring_header list option" where
  "headers_from_value lib (AvArray vs) = those (map (ring_header_from_value lib) vs)"
| "headers_from_value lib _ = None"

definition ring_http_request_to_value :: "ring_http_request \<Rightarrow> avro_value" where
  "ring_http_request_to_value m =
     AvRecord
       [(''method'', AvString (hrq_method m)),
        (''uri'', AvString (hrq_uri m)),
        (''headers'', AvArray (map ring_header_to_value (hrq_headers m))),
        (''body'', AvBytes (hrq_body m))]"

definition ring_http_request_from_value :: "'sc avro_lib \<Rightarrow> avro_value \<Rightarrow> ring_http_request option" where
  "ring_http_request_from_value lib v =
     do {
       x0 \<leftarrow> de_field (de_string lib) v ''method'';
       x1 \<leftarrow> de_field (de_string lib) v ''uri'';
       x2 \<leftarrow> de_field (headers_from_value lib) v ''headers'';
       x3 \<leftarrow> de_field (de_bytes lib) v ''body'';
       Some \<lparr>hrq_method = x0, hrq_uri = x1, hrq_headers = x2, hrq_body = x3\<rparr>
     }"

definition ring_http_response_to_value :: "ring_http_response \<Rightarrow> avro_value" where
  "ring_http_response_to_value m =
     AvRecord
       [(''status'', AvInt (hrs_status m)),
        (''headers'', AvArray (map ring_header_to_value (hrs_headers m))),
        (''body'', AvBytes (hrs_body m))]"

definition ring_http_response_from_value :: "'sc avro_lib \<Rightarrow> avro_value \<Rightarrow> ring_http_response option" where
  "ring_http_response_from_value lib v =
     do {
       x0 \<leftarrow> de_field (de_int lib) v ''status'';
       x1 \<leftarrow> de_field (headers_from_value lib) v ''headers'';
       x2 \<leftarrow> de_field (de_bytes lib) v ''body'';
       Some \<lparr>hrs_status = x0, hrs_headers = x1, hrs_body = x2\<rparr>
     }"

definition ring_stream_frame_to_value :: "ring_stream_frame \<Rightarrow> avro_value" where
  "ring_stream_frame_to_value m =
     AvRecord
       [(''opcode'', AvInt (sf_opcode m)),
        (''stream_id'', AvLong (sf_stream_id m)),
        (''payload'', AvBytes (sf_payload m))]"

definition ring_stream_frame_from_value :: "'sc avro_lib \<Rightarrow> avro_value \<Rightarrow> ring_stream_frame option" where
  "ring_stream_frame_from_value lib v =
     do {
       x0 \<leftarrow> de_field (de_int lib) v ''opcode'';
       x1 \<leftarrow> de_field (de_long lib) v ''stream_id'';
       x2 \<leftarrow> de_field (de_bytes lib) v ''payload'';
       Some \<lparr>sf_opcode = x0, sf_stream_id = x1, sf_payload = x2\<rparr>
     }"

section \<open>Trimming\<close>

lemma starts_with_append: "starts_with (p @ s) p"
  by (simp add: starts_with_def)

lemma starts_withE: "starts_with s p \<Longrightarrow> (\<And>r. s = p @ r \<Longrightarrow> thesis) \<Longrightarrow> thesis"
  unfolding starts_with_def by (metis append_take_drop_id)

lemma trim_with_split:
  "\<exists>ps. set ps \<subseteq> set ws \<and> s = concat ps @ trim_with ws s"
proof (induction ws s rule: trim_with.induct)
  case (1 ws s)
  show ?case
  proof (cases "find (\<lambda>p. p \<noteq> [] \<and> starts_with s p) ws")
    case None
    then show ?thesis by (subst trim_with.simps) (intro exI [of _ "[]"], simp)
  next
    case (Some p)
    then have p: "p \<in> set ws" "starts_with s p" by (auto simp: find_Some_iff in_set_conv_nth)
    obtain ps where "set ps \<subseteq> set ws" "drop (length p) s = concat ps @ trim_with ws (drop (length p) s)"
      using "1.IH" [OF Some] by blast
    moreover have "s = p @ drop (length p) s" using p(2) by (elim starts_withE) simp
    moreover have "trim_with ws s = trim_with ws (drop (length p) s)"
      by (subst trim_with.simps) (simp add: Some)
    ultimately show ?thesis using p(1) by (intro exI [of _ "p # ps"]) auto
  qed
qed

text \<open>A set of words none of which begins another.\<close>

definition prefix_free :: "string list \<Rightarrow> bool" where
  "prefix_free ws \<longleftrightarrow> list_all (\<lambda>p. p \<noteq> [] \<and> list_all (\<lambda>q. starts_with p q \<longrightarrow> p = q) ws) ws"

lemma trim_with_concat:
  assumes ws: "prefix_free ws" and ps: "set ps \<subseteq> set ws" and t: "\<And>p. p \<in> set ws \<Longrightarrow> \<not> starts_with t p"
  shows "trim_with ws (concat ps @ t) = t"
  using ps
proof (induction ps)
  case Nil
  have "find (\<lambda>p. p \<noteq> [] \<and> starts_with t p) ws = None" using t by (auto simp: find_None_iff)
  then show ?case by (subst trim_with.simps) simp
next
  case (Cons p ps)
  let ?s = "p @ concat ps @ t"
  have p: "p \<in> set ws" "p \<noteq> []" using ws Cons.prems by (auto simp: prefix_free_def list_all_iff)
  have "q = p" if q: "q \<in> set ws" "starts_with ?s q" for q
  proof (cases "length q \<le> length p")
    case True
    then have "starts_with p q" using q(2) by (simp add: starts_with_def)
    with ws p(1) q(1) show ?thesis by (auto simp: prefix_free_def list_all_iff)
  next
    case False
    then have "starts_with q p" using q(2) by (auto simp: starts_with_def min_def) (metis append_eq_conv_conj take_append take_take)
    with ws p(1) q(1) show ?thesis by (auto simp: prefix_free_def list_all_iff)
  qed
  then have "find (\<lambda>q. q \<noteq> [] \<and> starts_with ?s q) ws = Some p"
    using p starts_with_append [of p "concat ps @ t"]
    by (cases "find (\<lambda>q. q \<noteq> [] \<and> starts_with ?s q) ws")
      (auto simp: find_None_iff find_Some_iff dest: nth_mem)
  then have "trim_with ws ?s = trim_with ws (concat ps @ t)" by (subst trim_with.simps) simp
  with Cons show ?case by simp
qed

lemma rev_concat_rev: "rev (concat ps) = concat (map rev (rev ps))"
  by (simp add: rev_concat rev_map)

lemma white_space_free: "prefix_free WHITE_SPACE" "prefix_free (map rev WHITE_SPACE)"
  by (simp_all add: prefix_free_def WHITE_SPACE_def starts_with_def upt_rec)

lemma trim_split:
  "\<exists>ps qs. set ps \<subseteq> set WHITE_SPACE \<and> set qs \<subseteq> set WHITE_SPACE \<and> s = concat ps @ trim s @ concat qs"
proof -
  let ?r = "trim_with WHITE_SPACE s"
  obtain ps where ps: "set ps \<subseteq> set WHITE_SPACE" "s = concat ps @ ?r"
    using trim_with_split [of WHITE_SPACE s] by blast
  obtain qs where qs: "set qs \<subseteq> set (map rev WHITE_SPACE)" "rev ?r = concat qs @ rev (trim s)"
    using trim_with_split [of "map rev WHITE_SPACE" "rev ?r"] by (auto simp: trim_def)
  have "?r = rev (concat qs @ rev (trim s))" unfolding qs(2) [symmetric] by simp
  then have "?r = trim s @ concat (map rev (rev qs))" by (simp add: rev_concat_rev)
  with ps have "s = concat ps @ trim s @ concat (map rev (rev qs))" by simp
  moreover have "set (map rev (rev qs)) \<subseteq> set WHITE_SPACE" using qs(1) by auto
  ultimately show ?thesis using ps(1) by blast
qed

lemma trim_concat:
  assumes "set ps \<subseteq> set WHITE_SPACE" "set qs \<subseteq> set WHITE_SPACE"
    and t: "\<And>p r. p \<in> set WHITE_SPACE \<Longrightarrow> \<not> starts_with (t @ r) p" "\<And>p. p \<in> set WHITE_SPACE \<Longrightarrow> \<not> starts_with (rev t) (rev p)"
  shows "trim (concat ps @ t @ concat qs) = t"
proof -
  have 1: "trim_with WHITE_SPACE (concat ps @ t @ concat qs) = t @ concat qs"
    by (rule trim_with_concat [OF white_space_free(1) assms(1)]) (rule t(1))
  have "trim_with (map rev WHITE_SPACE) (concat (map rev (rev qs)) @ rev t) = rev t"
    by (rule trim_with_concat [OF white_space_free(2)]) (use assms(2) t(2) in auto)
  then show ?thesis by (simp add: trim_def 1 rev_concat_rev)
qed

section \<open>Negotiation tokens\<close>

fun upgrade_tokens :: "ring_upgrade_kind \<Rightarrow> string set" where
  "upgrade_tokens Sse = {''sse''}"
| "upgrade_tokens WebSocket = {''websocket'', ''ws''}"
| "upgrade_tokens WebTransport = {''webtransport'', ''wt''}"

lemma upgrade_parse_tokens: "upgrade_parse s = Some k \<longleftrightarrow> to_ascii_lowercase (trim s) \<in> upgrade_tokens k"
  by (cases k) (auto simp: upgrade_parse_def Let_def)

text \<open>No white space begins or ends with a letter of the tokens, in either case.\<close>

definition token_letter :: "char \<Rightarrow> bool" where
  "token_letter c \<longleftrightarrow> ascii_lower c = CHR ''s'' \<or> ascii_lower c = CHR ''w'' \<or> ascii_lower c = CHR ''e'' \<or> ascii_lower c = CHR ''t''"

lemma white_space_letters:
  "p \<in> set WHITE_SPACE \<Longrightarrow> p \<noteq> [] \<and> \<not> token_letter (hd p) \<and> \<not> token_letter (last p)"
proof -
  have "list_all (\<lambda>p. p \<noteq> [] \<and> \<not> token_letter (hd p) \<and> \<not> token_letter (last p)) WHITE_SPACE"
    by (simp add: WHITE_SPACE_def token_letter_def ascii_lower_def upt_rec Let_def char_of_eq_iff take_bit_eq_mod)
  then show "p \<in> set WHITE_SPACE \<Longrightarrow> ?thesis" by (auto simp: list_all_iff)
qed

lemma token_ends:
  assumes "to_ascii_lowercase t \<in> upgrade_tokens k"
  shows "t \<noteq> []" "token_letter (hd t)" "token_letter (last t)"
proof -
  have t: "t \<noteq> []" using assms by (cases k) (auto simp: to_ascii_lowercase_def)
  have "ascii_lower (hd t) = hd (to_ascii_lowercase t)" "ascii_lower (last t) = last (to_ascii_lowercase t)"
    using t by (simp_all add: to_ascii_lowercase_def hd_map last_map)
  then show "token_letter (hd t)" "token_letter (last t)" "t \<noteq> []"
    using assms t by (cases k; auto simp: token_letter_def)+
qed

lemma token_no_white_space:
  assumes "to_ascii_lowercase t \<in> upgrade_tokens k" "p \<in> set WHITE_SPACE"
  shows "\<not> starts_with (t @ r) p" "\<not> starts_with (rev t) (rev p)"
proof -
  note t = token_ends [OF assms(1)] and p = white_space_letters [OF assms(2)]
  show "\<not> starts_with (t @ r) p"
  proof
    assume "starts_with (t @ r) p"
    then obtain r' where "t @ r = p @ r'" by (rule starts_withE)
    then have "hd t = hd p" using t(1) p by (metis hd_append2)
    with t p show False by simp
  qed
  show "\<not> starts_with (rev t) (rev p)"
  proof
    assume "starts_with (rev t) (rev p)"
    then obtain r' where "rev t = rev p @ r'" by (rule starts_withE)
    then have "last t = last p" using t(1) p by (metis hd_append2 hd_rev rev_is_Nil_conv)
    with t p show False by simp
  qed
qed

text \<open>
  C34: the negotiation header is read exactly as documented: a value names an upgrade if and only if
  it is one of that upgrade's tokens, in any mixture of upper and lower case, between any amount
  of Unicode white space on either side; and what one end writes the other reads back.
\<close>

theorem upgrade_parse_spec:
  "(upgrade_parse s = Some k \<longleftrightarrow>
     (\<exists>ps t qs. set ps \<subseteq> set WHITE_SPACE \<and> set qs \<subseteq> set WHITE_SPACE \<and>
        s = concat ps @ t @ concat qs \<and> to_ascii_lowercase t \<in> upgrade_tokens k)) \<and>
   upgrade_parse (upgrade_as_str k) = Some k"
proof (intro conjI iffI)
  assume "upgrade_parse s = Some k"
  then have "to_ascii_lowercase (trim s) \<in> upgrade_tokens k" by (simp add: upgrade_parse_tokens)
  with trim_split [of s] show "\<exists>ps t qs. set ps \<subseteq> set WHITE_SPACE \<and> set qs \<subseteq> set WHITE_SPACE \<and>
      s = concat ps @ t @ concat qs \<and> to_ascii_lowercase t \<in> upgrade_tokens k" by blast
next
  assume "\<exists>ps t qs. set ps \<subseteq> set WHITE_SPACE \<and> set qs \<subseteq> set WHITE_SPACE \<and>
      s = concat ps @ t @ concat qs \<and> to_ascii_lowercase t \<in> upgrade_tokens k"
  then obtain ps t qs where h: "set ps \<subseteq> set WHITE_SPACE" "set qs \<subseteq> set WHITE_SPACE"
    "s = concat ps @ t @ concat qs" "to_ascii_lowercase t \<in> upgrade_tokens k" by blast
  have "trim s = t" unfolding h(3)
    by (rule trim_concat [OF h(1,2)]) (use token_no_white_space [OF h(4)] in auto)
  with h(4) show "upgrade_parse s = Some k" by (simp add: upgrade_parse_tokens)
next
  have low: "to_ascii_lowercase (upgrade_as_str k) \<in> upgrade_tokens k"
    by (cases k) (simp_all add: to_ascii_lowercase_def ascii_lower_def)
  have "trim (concat [] @ upgrade_as_str k @ concat []) = upgrade_as_str k"
    by (rule trim_concat) (use token_no_white_space [OF low] in auto)
  with low show "upgrade_parse (upgrade_as_str k) = Some k" by (simp add: upgrade_parse_tokens)
qed

section \<open>Channel names\<close>

lemma pad_hex_length: "length (pad_zero 16 (show_hex (unat (w :: u64)))) = 16"
  using show_base_length [of 16 "unat w" 16] unat_bound [of w] by (simp add: pad_zero_def show_hex_def)

text \<open>
  The channel of a stream is found by name without confusion: as long as roles have no
  slash in them (as those in use have none), two stream channels have the same name only when
  application, session and role all agree, whatever the application is called.
\<close>

lemma stream_channel_name_inject:
  assumes "CHR ''/'' \<notin> set role" "CHR ''/'' \<notin> set role'"
  shows "stream_channel_name app s role = stream_channel_name app' s' role' \<longleftrightarrow>
    app = app' \<and> s = s' \<and> role = role'"
proof
  let ?h = "\<lambda>w :: u64. pad_zero 16 (show_hex (unat w))"
  assume eq: "stream_channel_name app s role = stream_channel_name app' s' role'"
  have split: "rev (takeWhile (\<lambda>c. c \<noteq> CHR ''/'') (rev (xs @ CHR ''/'' # r))) = r" if "CHR ''/'' \<notin> set r" for xs r
  proof -
    have "takeWhile (\<lambda>c. c \<noteq> CHR ''/'') (rev r @ CHR ''/'' # rev xs) = rev r"
      using that by (subst takeWhile_append2) auto
    then show ?thesis by simp
  qed
  have eq': "(STREAM_CHAN_PREFIX @ app @ ''/'' @ ?h s) @ CHR ''/'' # role =
      (STREAM_CHAN_PREFIX @ app' @ ''/'' @ ?h s') @ CHR ''/'' # role'"
    using eq by (simp add: stream_channel_name_def)
  then have "role = role'" using split assms by metis
  with eq' have "app @ ''/'' @ ?h s = app' @ ''/'' @ ?h s'" by simp
  then have "app = app'" "?h s = ?h s'"
    using append_eq_append_conv [of "''/'' @ ?h s" "''/'' @ ?h s'" app app'] by (simp_all add: pad_hex_length)
  with \<open>role = role'\<close> show "app = app' \<and> s = s' \<and> role = role'"
    using pad_hex_inject [of 16 "unat s" "unat s'"] by (simp add: word_unat_eq_iff)
qed simp

section \<open>Schema texts\<close>

text \<open>Outside string literals JSON ignores space, tab, line feed and carriage return.\<close>

fun json_strip :: "bool \<Rightarrow> string \<Rightarrow> string" where
  "json_strip q [] = []"
| "json_strip True (c # cs) =
     (if c = CHR 0x5C then c # (case cs of [] \<Rightarrow> [] | d # ds \<Rightarrow> d # json_strip True ds)
      else c # json_strip (c \<noteq> CHR ''\"'') cs)"
| "json_strip False (c # cs) =
     (if c \<in> {CHR '' '', CHR 0x09, CHR 0x0A, CHR 0x0D} then json_strip False cs
      else c # json_strip (c = CHR ''\"'') cs)"

text \<open>
  What is relied on for the three texts of this crate: they are well-formed JSON with white space between tokens only,
  which carries no meaning, so the library makes the same schema of them as of the texts without it.
\<close>

definition json_law :: "'sc avro_lib \<Rightarrow> bool" where
  "json_law lib \<longleftrightarrow> (\<forall>json \<in> {REQUEST_SCHEMA, RESPONSE_SCHEMA, STREAM_SCHEMA}.
     parse_str lib json = parse_str lib (json_strip False json))"

definition ring_header_type :: avro_ty where
  "ring_header_type = TRecord ''RingHeader'' None [(''name'', TString, None), (''value'', TString, None)]"

definition http_request_type :: avro_ty where
  "http_request_type = TRecord ''RingHttpRequest'' None
     [(''method'', TString, None), (''uri'', TString, None), (''headers'', TArray ring_header_type, None),
      (''body'', TBytes, None)]"

definition http_response_type :: avro_ty where
  "http_response_type = TRecord ''RingHttpResponse'' None
     [(''status'', TInt, None), (''headers'', TArray ring_header_type, None), (''body'', TBytes, None)]"

definition stream_frame_type :: avro_ty where
  "stream_frame_type = TRecord ''RingStreamFrame'' None
     [(''opcode'', TInt, None), (''stream_id'', TLong, None), (''payload'', TBytes, None)]"

definition http_types :: "avro_ty list" where
  "http_types = [http_request_type, http_response_type, stream_frame_type]"

lemmas http_type_defs = ring_header_type_def http_request_type_def http_response_type_def stream_frame_type_def

text \<open>A struct, its schema text, and the structure the text describes.\<close>

locale wire_record =
  fixes json :: string and ty :: avro_ty and to_v :: "'m \<Rightarrow> avro_value"
    and from_v :: "'sc avro_lib \<Rightarrow> avro_value \<Rightarrow> 'm option"
  assumes text_of: "json_strip False json = type_json ty"
    and from_to: "avro_leaf_laws lib \<Longrightarrow> from_v lib (to_v m) = Some m"
begin

lemma wire_round_trip:
  assumes "avro_leaf_laws lib" "avro_schema_law lib ty" "parse_str lib json = parse_str lib (json_strip False json)"
    and "has_type ty (to_v m)"
  shows "\<exists>sc body. avro_parse lib json = Inr (sc, fingerprint_of lib sc) \<and>
    avro_encode lib (\<lambda>m. Inr (to_v m)) sc m = Inr body \<and> avro_decode lib (from_v lib) sc body = Inr m"
proof -
  obtain sc where sc: "parse_str lib (type_json ty) = Inr sc" using assms(2) by (auto simp: avro_schema_law_def)
  then have "parse_str lib json = Inr sc" using assms(3) text_of by simp
  moreover obtain bs where "avro_encode lib (\<lambda>m. Inr (to_v m)) sc m = Inr bs"
    "\<forall>from. avro_decode lib from sc bs =
      (case from (to_v m) of None \<Rightarrow> Inl (IoOther (de_error lib (to_v m))) | Some y \<Rightarrow> Inr (y :: 'm))"
    using avro_encode_ok [OF assms(2) sc assms(4), of "\<lambda>m. Inr (to_v m)" m] by auto
  ultimately show ?thesis using from_to [OF assms(1), of m] by (auto simp: avro_parse_def)
qed

end

lemma headers_round_trip [simp]:
  "avro_leaf_laws lib \<Longrightarrow> headers_from_value lib (AvArray (map ring_header_to_value hs)) = Some hs"
  by (induction hs) (simp_all add: ring_header_to_value_def ring_header_from_value_def)

declare headers_from_value.simps [simp del]

interpretation h_rq: wire_record REQUEST_SCHEMA http_request_type
    ring_http_request_to_value ring_http_request_from_value
  by unfold_locales
    (simp add: REQUEST_SCHEMA_def text_lines_def http_type_defs default_json_def,
     simp add: ring_http_request_to_value_def ring_http_request_from_value_def)

interpretation h_rs: wire_record RESPONSE_SCHEMA http_response_type
    ring_http_response_to_value ring_http_response_from_value
  by unfold_locales
    (simp add: RESPONSE_SCHEMA_def text_lines_def http_type_defs default_json_def,
     simp add: ring_http_response_to_value_def ring_http_response_from_value_def)

interpretation h_sf: wire_record STREAM_SCHEMA stream_frame_type
    ring_stream_frame_to_value ring_stream_frame_from_value
  by unfold_locales
    (simp add: STREAM_SCHEMA_def text_lines_def http_type_defs default_json_def,
     simp add: ring_stream_frame_to_value_def ring_stream_frame_from_value_def)

text \<open>
  C31: each schema text matches its struct field for field: it parses, and every request, response
  and stream frame whose numbers are those of its Rust type and whose lengths stay below what the decoder allocates is
  encoded under it and decoded to the same value, headers in order. Of the library this takes its laws for the three
  structures, and that it reads the three texts as it reads them without the white space between their tokens.
\<close>

theorem http_records_round_trip:
  assumes "avro_laws (set http_types) lib" "json_law lib"
    and "has_type http_request_type (ring_http_request_to_value rq)"
    and "has_type http_response_type (ring_http_response_to_value rs)"
    and "has_type stream_frame_type (ring_stream_frame_to_value sf)"
  shows "(\<exists>sc body. avro_parse lib REQUEST_SCHEMA = Inr (sc, fingerprint_of lib sc) \<and>
      avro_encode lib (\<lambda>m. Inr (ring_http_request_to_value m)) sc rq = Inr body \<and>
      avro_decode lib (ring_http_request_from_value lib) sc body = Inr rq) \<and>
    (\<exists>sc body. avro_parse lib RESPONSE_SCHEMA = Inr (sc, fingerprint_of lib sc) \<and>
      avro_encode lib (\<lambda>m. Inr (ring_http_response_to_value m)) sc rs = Inr body \<and>
      avro_decode lib (ring_http_response_from_value lib) sc body = Inr rs) \<and>
    (\<exists>sc body. avro_parse lib STREAM_SCHEMA = Inr (sc, fingerprint_of lib sc) \<and>
      avro_encode lib (\<lambda>m. Inr (ring_stream_frame_to_value m)) sc sf = Inr body \<and>
      avro_decode lib (ring_stream_frame_from_value lib) sc body = Inr sf)"
proof -
  have laws: "avro_leaf_laws lib" "avro_schema_law lib http_request_type" "avro_schema_law lib http_response_type"
    "avro_schema_law lib stream_frame_type"
    using assms(1) by (simp_all add: avro_laws_def http_types_def)
  have texts: "parse_str lib REQUEST_SCHEMA = parse_str lib (json_strip False REQUEST_SCHEMA)"
    "parse_str lib RESPONSE_SCHEMA = parse_str lib (json_strip False RESPONSE_SCHEMA)"
    "parse_str lib STREAM_SCHEMA = parse_str lib (json_strip False STREAM_SCHEMA)"
    using assms(2) by (simp_all add: json_law_def)
  show ?thesis
    using h_rq.wire_round_trip [OF laws(1,2) texts(1) assms(3)] h_rs.wire_round_trip [OF laws(1,3) texts(2) assms(4)]
      h_sf.wire_round_trip [OF laws(1,4) texts(3) assms(5)] by blast
qed

section \<open>Bodies in a ring\<close>

text \<open>
  Avro writes a stream frame as an \<^verbatim>\<open>int\<close> (at most 5 bytes), a \<^verbatim>\<open>long\<close> (at most 10) and the payload
  behind its length (at most 10 bytes): what the library adds is small.
\<close>

definition avro_compact :: "'sc avro_lib \<Rightarrow> 'sc \<Rightarrow> bool" where
  "avro_compact lib sc \<longleftrightarrow>
     (\<forall>sf body. avro_encode lib (\<lambda>m. Inr (ring_stream_frame_to_value m)) sc sf = Inr body \<longrightarrow>
        length (sf_payload sf) \<le> length body \<and> length body \<le> length (sf_payload sf) + 25)"

lemma share_of_cap: "cap \<le> 2 ^ 32 \<Longrightarrow> body_chunk cap = 3 * cap div 8"
  by (simp add: body_chunk_def share_defs mult.commute)

lemma clamp_range: "2 ^ 18 \<le> clamp_arena_cap n" "clamp_arena_cap n \<le> 2 ^ 27" "8 dvd clamp_arena_cap n"
proof -
  have b: "is_power_of_two (clamp_arena_cap n)" "MIN_ARENA_CAP \<le> clamp_arena_cap n" "clamp_arena_cap n \<le> MAX_ARENA_CAP"
    using clamp_arena_cap_bounds by auto
  then show ge: "2 ^ 18 \<le> clamp_arena_cap n" and "clamp_arena_cap n \<le> 2 ^ 27"
    by (simp_all add: MIN_ARENA_CAP_def MAX_ARENA_CAP_def)
  obtain k where k: "clamp_arena_cap n = 2 ^ k" using is_power_of_twoE [OF b(1)] by blast
  with ge have "(2 :: nat) ^ 18 \<le> 2 ^ k" by simp
  then have "3 \<le> k" by (subst (asm) power_increasing_iff) simp_all
  then have "(2 :: nat) ^ 3 dvd 2 ^ k" by (rule le_imp_power_dvd)
  with k show "8 dvd clamp_arena_cap n" by simp
qed

text \<open>
  C35: what a chunk of the documented size leaves room for. In an arena of any size the broker
  hands out, the publisher of a streamed body gets a second full chunk in while the first is
  still unread, and never a third: three times three eighths are more than the ring. A chunk
  always fits, so a body of any size can be streamed.
\<close>

theorem body_chunks_in_flight:
  assumes "cap = clamp_arena_cap n" and "avro_compact lib sc" and "length payload = body_chunk cap"
    and "avro_encode lib (\<lambda>m. Inr (ring_stream_frame_to_value m)) sc (stream_data payload) = Inr body"
  shows "records_size (replicate k (frame_encode (frame_new fp body))) \<le> cap \<longleftrightarrow> k \<le> 2"
proof -
  have "length payload \<le> length body \<and> length body \<le> length payload + 25"
    using assms(2,4) unfolding avro_compact_def stream_data_def by fastforce
  moreover have cap: "2 ^ 18 \<le> cap" "cap \<le> 2 ^ 27" "8 dvd cap" unfolding assms(1) by (rule clamp_range)+
  moreover have "length payload = 3 * cap div 8" using assms(3) share_of_cap cap(2) by simp
  ultimately have b: "8 * length body \<ge> 3 * cap" "8 * length body \<le> 3 * cap + 200" by auto
  have rs: "records_size (replicate k (frame_encode (frame_new fp body))) = k * (4 + FRAME_HEADER + length body)"
    by (simp add: records_size_def sum_list_replicate frame_new_def)
  show ?thesis
  proof
    assume "k \<le> 2"
    then have "k * (4 + FRAME_HEADER + length body) \<le> 2 * (4 + FRAME_HEADER + length body)"
      by (rule mult_le_mono1)
    with b cap show "records_size (replicate k (frame_encode (frame_new fp body))) \<le> cap"
      unfolding rs by (simp add: FRAME_HEADER_def)
  next
    assume le: "records_size (replicate k (frame_encode (frame_new fp body))) \<le> cap"
    show "k \<le> 2"
    proof (rule ccontr)
      assume "\<not> k \<le> 2"
      then have "3 * (4 + FRAME_HEADER + length body) \<le> k * (4 + FRAME_HEADER + length body)"
        by (intro mult_le_mono1) simp
      with le rs b cap show False by (simp add: FRAME_HEADER_def)
    qed
  qed
qed

lemma http_defaults:
  "DEFAULT_RING_CAP = ARENA_CAP" "DEFAULT_RING_CAP = REPLY_CAP" "MIN_RING_CAP = MIN_ARENA_CAP"
  "max_inline_request_body MIN_RING_CAP < MIN_RING_CAP" "body_chunk MIN_RING_CAP < MIN_RING_CAP"
  "MAX_INLINE_REQUEST_BODY = 192 * 1024" "MAX_INLINE_RESPONSE_BODY = 448 * 1024"
  "REQUEST_BODY_CHUNK = 192 * 1024" "RESPONSE_BODY_CHUNK = 192 * 1024"
  by (simp_all add: DEFAULT_RING_CAP_def MIN_RING_CAP_def ARENA_CAP_def REPLY_CAP_def MIN_ARENA_CAP_def
      max_inline_request_body_def max_inline_response_body_def body_chunk_def share_defs
      MAX_INLINE_REQUEST_BODY_def MAX_INLINE_RESPONSE_BODY_def REQUEST_BODY_CHUNK_def RESPONSE_BODY_CHUNK_def)

section \<open>The reference library in use\<close>

lemma json_strip_idem: "json_strip q (json_strip q s) = json_strip q s"
  by (induction q s rule: json_strip.induct) (auto split: list.splits)

definition no_ws :: "string \<Rightarrow> bool" where
  "no_ws s = list_all (\<lambda>c. c \<notin> {CHR '' '', CHR 0x09, CHR 0x0A, CHR 0x0D}) s"

lemma json_strip_no_ws: "no_ws s \<Longrightarrow> json_strip q s = s"
  by (induction q s rule: json_strip.induct) (auto simp: no_ws_def split: list.splits)

text \<open>The reference instance, on the structures of the protocol and of HTTP, blind to white space.\<close>

definition bus_lib :: "avro_ty list \<Rightarrow> nat avro_lib" where
  "bus_lib tys = (ref_lib tys)\<lparr>parse_str := \<lambda>json. parse_str (ref_lib tys) (json_strip False json)\<rparr>"

lemma bus_lib_json: "json_law (bus_lib tys)"
  by (simp add: json_law_def bus_lib_def json_strip_idem)

lemma bus_lib_laws:
  assumes "distinct (map type_json tys)" "T \<subseteq> set tys" "list_all (no_ws \<circ> type_json) tys"
  shows "avro_laws T (bus_lib tys)"
proof -
  have same: "av_resolve (bus_lib tys) = av_resolve (ref_lib tys)"
    "to_avro_datum (bus_lib tys) = to_avro_datum (ref_lib tys)"
    "from_avro_datum (bus_lib tys) = from_avro_datum (ref_lib tys)"
    by (simp_all add: bus_lib_def)
  have "parse_str (bus_lib tys) (type_json t) = parse_str (ref_lib tys) (type_json t)" if "t \<in> T" for t
  proof -
    have "no_ws (type_json t)" using assms(2,3) that by (metis comp_apply in_mono list.pred_set)
    then show ?thesis by (simp add: bus_lib_def json_strip_no_ws)
  qed
  then have "avro_schema_law (bus_lib tys) t = avro_schema_law (ref_lib tys) t" if "t \<in> T" for t
    using that by (simp only: avro_schema_law_def same)
  moreover have "avro_leaf_laws (bus_lib tys)"
    by (simp add: avro_leaf_laws_def bus_lib_def ref_lib_def)
  ultimately show ?thesis using ref_lib_laws [OF assms(1,2)] by (simp add: avro_laws_def)
qed

lemma http_lib_laws: "avro_laws (set http_types) (bus_lib http_types)"
  by (rule bus_lib_laws) (simp_all add: http_types_def http_type_defs default_json_def no_ws_def)

theorem http_records_round_trip_witness:
  "\<exists>sc body. avro_parse (bus_lib http_types) REQUEST_SCHEMA = Inr (sc, fingerprint_of (bus_lib http_types) sc) \<and>
     avro_decode (bus_lib http_types) (ring_http_request_from_value (bus_lib http_types)) sc body =
       Inr \<lparr>hrq_method = ''GET'', hrq_uri = ''/items?page=2'',
            hrq_headers = [ring_header_new ''Accept'' ''*/*''], hrq_body = [1, 2]\<rparr>"
  using http_records_round_trip [OF http_lib_laws bus_lib_json,
      of "\<lparr>hrq_method = ''GET'', hrq_uri = ''/items?page=2'',
            hrq_headers = [ring_header_new ''Accept'' ''*/*''], hrq_body = [1, 2]\<rparr>"
        "\<lparr>hrs_status = 200, hrs_headers = [], hrs_body = []\<rparr>" stream_close]
  by (auto simp: http_type_defs ring_http_request_to_value_def ring_http_response_to_value_def
      ring_stream_frame_to_value_def ring_header_to_value_def ring_header_new_def stream_close_def CLOSE_def)

lemma bus_lib_compact: "avro_compact (bus_lib tys) sc"
  by (auto simp: avro_compact_def avro_encode_def bus_lib_def ref_lib_def ring_stream_frame_to_value_def)

lemma bus_lib_encode: "\<exists>body. avro_encode (bus_lib tys) (\<lambda>m. Inr (to_v m)) sc x = Inr body"
  by (simp add: avro_encode_def bus_lib_def ref_lib_def)

theorem body_chunks_in_flight_witness:
  "\<exists>body. records_size (replicate 2 (frame_encode (frame_new 7 body))) \<le> clamp_arena_cap 0 \<and>
     \<not> records_size (replicate 3 (frame_encode (frame_new 7 body))) \<le> clamp_arena_cap 0"
proof -
  let ?p = "replicate (body_chunk (clamp_arena_cap 0)) 0"
  obtain body where b: "avro_encode (bus_lib http_types) (\<lambda>m. Inr (ring_stream_frame_to_value m)) 2 (stream_data ?p) = Inr body"
    using bus_lib_encode [of http_types ring_stream_frame_to_value 2 "stream_data ?p"] by blast
  note t = body_chunks_in_flight [OF refl bus_lib_compact length_replicate b]
  have "\<not> 3 \<le> (2 :: nat)" "(2 :: nat) \<le> 2" by simp_all
  then show ?thesis using t [of 2 7] t [of 3 7] by blast
qed

end
