(* ===== verification/Ring_Channel.thy ===== *)
theory Ring_Channel
  imports Ring_Client_Props Ring_Http
begin

text \<open>
  Publisher and subscriber handles (\<^verbatim>\<open>crates/connector/src/channel.rs\<close>). A handle names its ring by
  the number of its cell in the connection, so that a replay which rebinds the cell is seen by the
  next operation. Both ends together are shown to be a bounded queue of values.
\<close>

section \<open>Handles\<close>

record 'sc publisher =
  pb_ring :: nat
  pb_schema :: 'sc
  pb_schema_fp :: fingerprint
  pb_channel :: string
  pb_reg_id :: u64

record 'sc subscriber =
  sb_ring :: nat
  sb_schema :: 'sc
  sb_schema_fp :: fingerprint

definition publisher_new :: "nat \<Rightarrow> 'sc \<Rightarrow> fingerprint \<Rightarrow> string \<Rightarrow> u64 \<Rightarrow> 'sc publisher" where
  "publisher_new cell schema fp channel reg_id =
     \<lparr>pb_ring = cell, pb_schema = schema, pb_schema_fp = fp, pb_channel = channel, pb_reg_id = reg_id\<rparr>"

definition publisher_schema_fp :: "'sc publisher \<Rightarrow> fingerprint" where
  "publisher_schema_fp p = pb_schema_fp p"

definition publisher_capacity :: "'sc publisher \<Rightarrow> conn \<Rightarrow> usize" where
  "publisher_capacity p c = ring_cap (in_cells (cn_inner c) (pb_ring p))"

definition publish ::
  "'sc client_env \<Rightarrow> ('a \<Rightarrow> string + avro_value) \<Rightarrow> 'sc publisher \<Rightarrow> 'a \<Rightarrow> unit act" where
  "publish env to_v p msg ts c =
     (case avro_encode (ce_lib env) to_v (pb_schema p) msg of
        Inl e \<Rightarrow> Some (Inl e, ts, c)
      | Inr body \<Rightarrow>
          (let f = frame_new (pb_schema_fp p) body;
               r = in_cells (cn_inner c) (pb_ring p)
           in case ts of
                [] \<Rightarrow> None
              | t # ts' \<Rightarrow>
                  (case push_ring t r (frame_encode f) c of
                     None \<Rightarrow> None
                   | Some (False, c') \<Rightarrow> Some (Inl (IoOther ''channel full (slow subscriber)''), ts', c')
                   | Some (True, c') \<Rightarrow> Some (Inr (), ts', c'))))"

text \<open>A push that does not wait for space can still wait for the producer lock.\<close>

definition try_publish ::
  "'sc client_env \<Rightarrow> ('a \<Rightarrow> string + avro_value) \<Rightarrow> 'sc publisher \<Rightarrow> 'a \<Rightarrow> bool act" where
  "try_publish env to_v p msg ts c =
     (case avro_encode (ce_lib env) to_v (pb_schema p) msg of
        Inl e \<Rightarrow> Some (Inl e, ts, c)
      | Inr body \<Rightarrow>
          (let f = frame_new (pb_schema_fp p) body;
               r = in_cells (cn_inner c) (pb_ring p)
           in case ts of
                [] \<Rightarrow> None
              | t # ts' \<Rightarrow>
                  (case try_push r (frame_encode f) (tn_push t) (ring_mem r (cn_shm c)) of
                     None \<Rightarrow> None
                   | Some (ok, m, _) \<Rightarrow> Some (Inr ok, ts', c\<lparr>cn_shm := set_ring_mem r m (cn_shm c)\<rparr>))))"

definition publisher_drop :: "'sc client_env \<Rightarrow> 'sc publisher \<Rightarrow> unit act" where
  "publisher_drop env p ts c = send_unpublish env (pb_channel p) ts (deregister (pb_reg_id p) c)"

definition subscriber_new :: "nat \<Rightarrow> 'sc \<Rightarrow> fingerprint \<Rightarrow> 'sc subscriber" where
  "subscriber_new cell schema fp = \<lparr>sb_ring = cell, sb_schema = schema, sb_schema_fp = fp\<rparr>"

definition subscriber_capacity :: "'sc subscriber \<Rightarrow> conn \<Rightarrow> usize" where
  "subscriber_capacity s c = ring_cap (in_cells (cn_inner c) (sb_ring s))"

definition subscriber_schema_fp :: "'sc subscriber \<Rightarrow> fingerprint" where
  "subscriber_schema_fp s = sb_schema_fp s"

definition schema_mismatch :: "string \<Rightarrow> fingerprint \<Rightarrow> fingerprint \<Rightarrow> io_error" where
  "schema_mismatch what expected got =
     IoOther (what @ '' schema mismatch: expected 0x'' @ show_hex (unat expected) @
              '', got 0x'' @ show_hex (unat got))"

text \<open>A turn of a receiver: how often it parks until its timeout, and what happens meanwhile.\<close>

definition pop_ring :: "turn \<Rightarrow> ring \<Rightarrow> conn \<Rightarrow> (bytes option \<times> conn) option" where
  "pop_ring t r c =
     (case pop_blocking r (Some (tn_parks t)) (tn_push t) (ring_mem r (cn_shm c)) of
        None \<Rightarrow> None
      | Some (v, m, _) \<Rightarrow> Some (v, c\<lparr>cn_shm := set_ring_mem r m (cn_shm c)\<rparr>))"

fun recv :: "'sc client_env \<Rightarrow> (avro_value \<Rightarrow> 'a option) \<Rightarrow> 'sc subscriber \<Rightarrow> 'a option act" where
  "recv env from_v s [] c = None"
| "recv env from_v s (t # ts) c =
     (case pop_ring t (in_cells (cn_inner c) (sb_ring s)) c of
        None \<Rightarrow> None
      | Some (None, c1) \<Rightarrow> Some (Inr None, ts, c1)
      | Some (Some bs, c1) \<Rightarrow>
          Some (io_bind (frame_decode bs) (\<lambda>f.
                  if frame_schema_fp f \<noteq> sb_schema_fp s
                  then Inl (schema_mismatch ''message'' (sb_schema_fp s) (frame_schema_fp f))
                  else io_bind (avro_decode (ce_lib env) from_v (sb_schema s) (frame_body f)) (\<lambda>v. Inr (Some v))),
                ts, c1))"

section \<open>Both ends as a bounded queue\<close>

text \<open>
  Operations of the two ends of a channel, and their results. Nobody else acts in between, so no
  operation waits: a publication that finds no room fails and a receive that finds nothing times out.
\<close>

datatype 'a chan_op = OpPublish 'a | OpTryPublish 'a | OpRecv

datatype 'a chan_result =
    RePublish "unit io_result" | ReTryPublish "bool io_result" | ReRecv "'a option io_result"

definition no_wait :: turn where
  "no_wait = \<lparr>tn_parks = 0, tn_push = [], tn_wait = []\<rparr>"

text \<open>The publisher's connection and the subscriber's, which see one shared memory.\<close>

definition chan_step ::
  "'sc client_env \<Rightarrow> ('a \<Rightarrow> avro_value) \<Rightarrow> (avro_value \<Rightarrow> 'a option) \<Rightarrow> 'sc publisher \<Rightarrow> 'sc subscriber \<Rightarrow>
   'a chan_op \<Rightarrow> conn \<times> conn \<Rightarrow> ('a chan_result \<times> conn \<times> conn) option" where
  "chan_step env to_v from_v p s opr = (\<lambda>(cp, cs).
     case opr of
       OpPublish x \<Rightarrow>
         map_option (\<lambda>(r, _, c). (RePublish r, c, cs\<lparr>cn_shm := cn_shm c\<rparr>))
           (publish env (\<lambda>x. Inr (to_v x)) p x [no_wait] cp)
     | OpTryPublish x \<Rightarrow>
         map_option (\<lambda>(r, _, c). (ReTryPublish r, c, cs\<lparr>cn_shm := cn_shm c\<rparr>))
           (try_publish env (\<lambda>x. Inr (to_v x)) p x [no_wait] cp)
     | OpRecv \<Rightarrow>
         map_option (\<lambda>(r, _, c). (ReRecv r, cp\<lparr>cn_shm := cn_shm c\<rparr>, c)) (recv env from_v s [no_wait] cs))"

fun chan_run ::
  "'sc client_env \<Rightarrow> ('a \<Rightarrow> avro_value) \<Rightarrow> (avro_value \<Rightarrow> 'a option) \<Rightarrow> 'sc publisher \<Rightarrow> 'sc subscriber \<Rightarrow>
   'a chan_op list \<Rightarrow> conn \<times> conn \<Rightarrow> ('a chan_result list \<times> conn \<times> conn) option" where
  "chan_run env to_v from_v p s [] st = Some ([], st)"
| "chan_run env to_v from_v p s (opr # oprs) st =
     (case chan_step env to_v from_v p s opr st of
        None \<Rightarrow> None
      | Some (r, st1) \<Rightarrow> map_option (\<lambda>(rs, st2). (r # rs, st2)) (chan_run env to_v from_v p s oprs st1))"

text \<open>The specification: a queue of values, each of a size, and a bound on the sizes together.\<close>

fun queue_step :: "('a \<Rightarrow> nat) \<Rightarrow> nat \<Rightarrow> 'a chan_op \<Rightarrow> 'a list \<Rightarrow> 'a chan_result \<times> 'a list" where
  "queue_step sz cap (OpPublish x) q =
     (if sum_list (map sz q) + sz x \<le> cap then (RePublish (Inr ()), q @ [x])
      else (RePublish (Inl (IoOther ''channel full (slow subscriber)'')), q))"
| "queue_step sz cap (OpTryPublish x) q =
     (if sum_list (map sz q) + sz x \<le> cap then (ReTryPublish (Inr True), q @ [x])
      else (ReTryPublish (Inr False), q))"
| "queue_step sz cap OpRecv [] = (ReRecv (Inr None), [])"
| "queue_step sz cap OpRecv (x # q) = (ReRecv (Inr (Some x)), q)"

fun queue_run :: "('a \<Rightarrow> nat) \<Rightarrow> nat \<Rightarrow> 'a chan_op list \<Rightarrow> 'a list \<Rightarrow> 'a chan_result list \<times> 'a list" where
  "queue_run sz cap [] q = ([], q)"
| "queue_run sz cap (opr # oprs) q =
     (let (r, q1) = queue_step sz cap opr q; (rs, q2) = queue_run sz cap oprs q1 in (r # rs, q2))"

text \<open>A value as the record of the ring, and its size there.\<close>

definition chan_record :: "'sc avro_lib \<Rightarrow> ('a \<Rightarrow> avro_value) \<Rightarrow> 'sc \<Rightarrow> fingerprint \<Rightarrow> 'a \<Rightarrow> bytes" where
  "chan_record lib to_v sc fp x =
     (case avro_encode lib (\<lambda>x. Inr (to_v x)) sc x of
        Inl e \<Rightarrow> []
      | Inr body \<Rightarrow> frame_encode (frame_new fp body))"

definition chan_size :: "'sc avro_lib \<Rightarrow> ('a \<Rightarrow> avro_value) \<Rightarrow> 'sc \<Rightarrow> 'a \<Rightarrow> nat" where
  "chan_size lib to_v sc x = 4 + length (chan_record lib to_v sc 0 x)"

text \<open>What the other end needs to read a value back.\<close>

definition chan_value ::
  "('a \<Rightarrow> avro_value) \<Rightarrow> (avro_value \<Rightarrow> 'a option) \<Rightarrow> avro_ty \<Rightarrow> 'a \<Rightarrow> bool" where
  "chan_value to_v from_v ty x \<longleftrightarrow> has_type ty (to_v x) \<and> from_v (to_v x) = Some x"

text \<open>Two handles of one channel: one schema, one fingerprint, and one ring, each with its own mapping.\<close>

definition chan_linked :: "'sc publisher \<Rightarrow> 'sc subscriber \<Rightarrow> conn \<times> conn \<Rightarrow> bool" where
  "chan_linked p s = (\<lambda>(cp, cs).
     pb_schema p = sb_schema s \<and> pb_schema_fp p = sb_schema_fp s \<and> cn_shm cp = cn_shm cs \<and>
     (\<exists>sg. in_cells (cn_inner cs) (sb_ring s) = (in_cells (cn_inner cp) (pb_ring p))\<lparr>ring_seg := sg\<rparr> \<and>
        seg_ptr sg = seg_ptr (ring_seg (in_cells (cn_inner cp) (pb_ring p)))))"

definition chan_holds ::
  "'sc client_env \<Rightarrow> ('a \<Rightarrow> avro_value) \<Rightarrow> (avro_value \<Rightarrow> 'a option) \<Rightarrow> avro_ty \<Rightarrow> 'sc publisher \<Rightarrow>
   'a list \<Rightarrow> conn \<Rightarrow> bool" where
  "chan_holds env to_v from_v ty p q cp \<longleftrightarrow>
     (let r = in_cells (cn_inner cp) (pb_ring p) in
      ring_idle r (ring_mem r (cn_shm cp)) \<and>
      ring_list r (ring_mem r (cn_shm cp)) = map (chan_record (ce_lib env) to_v (pb_schema p) (pb_schema_fp p)) q \<and>
      list_all (chan_value to_v from_v ty) q)"

lemma ring_seg_pop [simp]:
  "try_pop (r\<lparr>ring_seg := s\<rparr>) = try_pop r" "spin_pop (r\<lparr>ring_seg := s\<rparr>) n = spin_pop r n"
  "pop_blocking (r\<lparr>ring_seg := s\<rparr>) dl es m = pop_blocking r dl es m"
proof -
  have read: "read_wrapped (r\<lparr>ring_seg := s\<rparr>) = read_wrapped r"
    by (simp add: fun_eq_iff read_wrapped_def Let_def cong: if_cong)
  show pop: "try_pop (r\<lparr>ring_seg := s\<rparr>) = try_pop r"
    by (simp add: fun_eq_iff try_pop_def read)
  have spin: "spin_pop (r\<lparr>ring_seg := s\<rparr>) n m = spin_pop r n m" for n m
    by (induction n arbitrary: m) (simp_all add: pop split: prod.split option.split)
  then show "spin_pop (r\<lparr>ring_seg := s\<rparr>) n = spin_pop r n" by blast
  show "pop_blocking (r\<lparr>ring_seg := s\<rparr>) dl es m = pop_blocking r dl es m"
    by (induction es arbitrary: dl m)
      (subst (1 2) pop_blocking.simps, simp add: spin pop split: prod.split option.split)+
qed

lemma chan_record_facts:
  assumes "avro_schema_law lib ty" "parse_str lib (type_json ty) = Inr sc" "chan_value to_v from_v ty (x :: 'b)"
  obtains body where "avro_encode lib (\<lambda>x. Inr (to_v x)) sc x = Inr body"
    "avro_decode lib from_v sc body = Inr x"
    "chan_record lib to_v sc fp x = frame_encode (frame_new fp body)"
    "chan_size lib to_v sc x = 4 + length (frame_encode (frame_new fp body))"
proof -
  obtain body where b: "avro_encode lib (\<lambda>x. Inr (to_v x)) sc x = Inr body"
    "\<forall>from. avro_decode lib from sc body =
      (case from (to_v x) of None \<Rightarrow> Inl (IoOther (de_error lib (to_v x))) | Some y \<Rightarrow> Inr (y :: 'b))"
    using avro_encode_ok [OF assms(1,2), of "to_v x" "\<lambda>x. Inr (to_v x)" x] assms(3) by (auto simp: chan_value_def)
  with assms(3) show ?thesis
    by (intro that [of body]) (simp_all add: chan_value_def chan_record_def chan_size_def frame_new_def)
qed

lemma chan_records_size:
  "records_size (map (chan_record lib to_v sc fp) q) = sum_list (map (chan_size lib to_v sc) q)"
proof -
  have "length (chan_record lib to_v sc fp x) = length (chan_record lib to_v sc 0 x)" for x
    by (simp add: chan_record_def frame_new_def split: sum.split)
  then show ?thesis by (induction q) (simp_all add: chan_size_def)
qed

lemma push_ring_now:
  assumes "ring_idle r (ring_mem r (cn_shm c))" "ring_list r (ring_mem r (cn_shm c)) = q"
    "fits \<longleftrightarrow> records_size q + 4 + length d \<le> ring_cap r"
  shows "\<exists>m. push_ring no_wait r d c = Some (fits, c\<lparr>cn_shm := set_ring_mem r m (cn_shm c)\<rparr>) \<and>
    ring_idle r m \<and> ring_list r m = (if fits then q @ [d] else q)"
proof -
  let ?m = "ring_mem r (cn_shm c)"
  have h: "ring_holds r ?m q" "prod_lock r ?m = 0"
    using assms(1,2) ring_idle_holds by (auto simp: ring_idle_def ring_inv_holds)
  have "\<exists>m es. push_blocking r d (Some 0) [] ?m = Some (fits, m, es) \<and> prod_lock r m = 0 \<and>
      ring_holds r m (if fits then q @ [d] else q)"
  proof (cases fits)
    case True
    then show ?thesis using push_blocking_accept [OF h, of d "Some 0" "[]"] assms(3) by auto
  next
    case False
    then show ?thesis using push_blocking_wait [OF h, of d "Some 0" "[]"] assms(3) by (auto simp: not_le)
  qed
  then obtain m es where "push_blocking r d (Some 0) [] ?m = Some (fits, m, es)" "prod_lock r m = 0"
    "ring_holds r m (if fits then q @ [d] else q)" by blast
  then show ?thesis
    using ring_idleI ring_holdsD by (intro exI [of _ m]) (auto simp: push_ring_def no_wait_def)
qed

lemma try_push_now:
  assumes "ring_idle r m" "ring_list r m = q" "fits \<longleftrightarrow> records_size q + 4 + length d \<le> ring_cap r"
  shows "\<exists>m'. try_push r d [] m = Some (fits, m', []) \<and> ring_idle r m' \<and> ring_list r m' = (if fits then q @ [d] else q)"
proof -
  have h: "ring_holds r m q" "prod_lock r m = 0"
    using assms(1,2) ring_idle_holds by (auto simp: ring_idle_def ring_inv_holds)
  show ?thesis
    by (rule try_push_free [OF h, of d "[]"]) (use assms(3) ring_idleI ring_holdsD in auto)
qed

lemma pop_ring_now:
  assumes "ring_idle r (ring_mem r (cn_shm c))" "ring_list r (ring_mem r (cn_shm c)) = q"
  shows "\<exists>m. pop_ring no_wait r c = Some (case q of [] \<Rightarrow> None | d # _ \<Rightarrow> Some d, c\<lparr>cn_shm := set_ring_mem r m (cn_shm c)\<rparr>) \<and>
    ring_idle r m \<and> ring_list r m = tl q"
proof (cases q)
  case Nil
  then have "ring_holds r (ring_mem r (cn_shm c)) []" using assms ring_idle_holds by metis
  then have "pop_blocking r (Some 0) [] (ring_mem r (cn_shm c)) = Some (None, ring_mem r (cn_shm c), [])"
    by (subst pop_blocking.simps) (simp add: spin_pop_empty try_pop_empty)
  with Nil assms show ?thesis by (intro exI [of _ "ring_mem r (cn_shm c)"]) (simp add: pop_ring_def no_wait_def)
next
  case (Cons d q')
  then obtain m es where "pop_blocking r (Some 0) [] (ring_mem r (cn_shm c)) = Some (Some d, m, es)"
    "ring_idle r m" "ring_list r m = q'"
    using pop_blocking_done [OF assms(1), of "[]" 0] assms(2) by fastforce
  with Cons show ?thesis by (intro exI [of _ m]) (simp add: pop_ring_def no_wait_def)
qed

abbreviation pub_ring :: "'sc publisher \<Rightarrow> conn \<Rightarrow> ring" where
  "pub_ring p c \<equiv> in_cells (cn_inner c) (pb_ring p)"

abbreviation chan_rec :: "'sc client_env \<Rightarrow> ('a \<Rightarrow> avro_value) \<Rightarrow> 'sc publisher \<Rightarrow> 'a \<Rightarrow> bytes" where
  "chan_rec env to_v p \<equiv> chan_record (ce_lib env) to_v (pb_schema p) (pb_schema_fp p)"

lemma chan_holds_after:
  assumes "ring_idle (pub_ring p cp) m" "ring_list (pub_ring p cp) m = map (chan_rec env to_v p) q"
    and "list_all (chan_value to_v from_v ty) q"
  shows "chan_holds env to_v from_v ty p q (cp\<lparr>cn_shm := set_ring_mem (pub_ring p cp) m (cn_shm cp)\<rparr>)"
  using assms by (simp add: chan_holds_def)

lemma chan_publish_queue:
  assumes law: "avro_schema_law (ce_lib env) ty" "parse_str (ce_lib env) (type_json ty) = Inr (pb_schema p)"
    and holds: "chan_holds env to_v from_v ty p q cp" and ok: "chan_value to_v from_v ty x"
    and fits: "fits \<longleftrightarrow> sum_list (map (chan_size (ce_lib env) to_v (pb_schema p)) q) +
      chan_size (ce_lib env) to_v (pb_schema p) x \<le> publisher_capacity p cp"
  shows "\<exists>w. publish env (\<lambda>x. Inr (to_v x)) p x [no_wait] cp =
      Some (if fits then Inr () else Inl (IoOther ''channel full (slow subscriber)''), [], cp\<lparr>cn_shm := w\<rparr>) \<and>
      chan_holds env to_v from_v ty p (if fits then q @ [x] else q) (cp\<lparr>cn_shm := w\<rparr>)"
    and "\<exists>w. try_publish env (\<lambda>x. Inr (to_v x)) p x [no_wait] cp = Some (Inr fits, [], cp\<lparr>cn_shm := w\<rparr>) \<and>
      chan_holds env to_v from_v ty p (if fits then q @ [x] else q) (cp\<lparr>cn_shm := w\<rparr>)"
proof -
  let ?r = "pub_ring p cp" and ?rec = "chan_rec env to_v p"
  have idle: "ring_idle ?r (ring_mem ?r (cn_shm cp))" and list: "ring_list ?r (ring_mem ?r (cn_shm cp)) = map ?rec q"
    and vals: "list_all (chan_value to_v from_v ty) (if fits then q @ [x] else q)"
    using holds ok by (simp_all add: chan_holds_def Let_def)
  obtain body where b: "avro_encode (ce_lib env) (\<lambda>x. Inr (to_v x)) (pb_schema p) x = Inr body"
    "?rec x = frame_encode (frame_new (pb_schema_fp p) body)"
    "chan_size (ce_lib env) to_v (pb_schema p) x = 4 + length (frame_encode (frame_new (pb_schema_fp p) body))"
    by (rule chan_record_facts [OF law ok, of "pb_schema_fp p"])
  have room: "fits \<longleftrightarrow> records_size (map ?rec q) + 4 + length (?rec x) \<le> ring_cap ?r"
    using fits b by (simp add: chan_records_size publisher_capacity_def add.assoc)
  have list': "map ?rec (if fits then q @ [x] else q) = (if fits then map ?rec q @ [?rec x] else map ?rec q)" by simp
  obtain m where "push_ring no_wait ?r (?rec x) cp = Some (fits, cp\<lparr>cn_shm := set_ring_mem ?r m (cn_shm cp)\<rparr>)"
    "ring_idle ?r m" "ring_list ?r m = map ?rec (if fits then q @ [x] else q)"
    using push_ring_now [OF idle list room] unfolding list' by blast
  with chan_holds_after [OF this(2,3) vals] b show "\<exists>w. publish env (\<lambda>x. Inr (to_v x)) p x [no_wait] cp =
      Some (if fits then Inr () else Inl (IoOther ''channel full (slow subscriber)''), [], cp\<lparr>cn_shm := w\<rparr>) \<and>
      chan_holds env to_v from_v ty p (if fits then q @ [x] else q) (cp\<lparr>cn_shm := w\<rparr>)"
    by (intro exI [of _ "set_ring_mem ?r m (cn_shm cp)"]) (auto simp: publish_def split: bool.split)
  obtain m where "try_push ?r (?rec x) [] (ring_mem ?r (cn_shm cp)) = Some (fits, m, [])"
    "ring_idle ?r m" "ring_list ?r m = map ?rec (if fits then q @ [x] else q)"
    using try_push_now [OF idle list room] unfolding list' by blast
  with chan_holds_after [OF this(2,3) vals] b
  show "\<exists>w. try_publish env (\<lambda>x. Inr (to_v x)) p x [no_wait] cp = Some (Inr fits, [], cp\<lparr>cn_shm := w\<rparr>) \<and>
      chan_holds env to_v from_v ty p (if fits then q @ [x] else q) (cp\<lparr>cn_shm := w\<rparr>)"
    by (intro exI [of _ "set_ring_mem ?r m (cn_shm cp)"]) (simp add: try_publish_def no_wait_def)
qed

lemma chan_record_decode:
  assumes law: "avro_schema_law (ce_lib env) ty" "parse_str (ce_lib env) (type_json ty) = Inr (pb_schema p)"
    and holds: "chan_holds env to_v from_v ty p (x # q) cp"
  shows "\<exists>body. frame_decode (chan_rec env to_v p x) = Inr (frame_new (pb_schema_fp p) body) \<and>
    avro_decode (ce_lib env) from_v (pb_schema p) body = Inr x"
proof -
  let ?r = "pub_ring p cp" and ?rec = "chan_rec env to_v p"
  have idle: "ring_idle ?r (ring_mem ?r (cn_shm cp))" and ok: "chan_value to_v from_v ty x"
    and list: "ring_list ?r (ring_mem ?r (cn_shm cp)) = map ?rec (x # q)"
    using holds by (simp_all add: chan_holds_def Let_def)
  obtain body where b: "avro_decode (ce_lib env) from_v (pb_schema p) body = Inr x"
    "?rec x = frame_encode (frame_new (pb_schema_fp p) body)"
    by (rule chan_record_facts [OF law ok, of "pb_schema_fp p"])
  have "4 + length (?rec x) \<le> ring_cap ?r" "ring_cap ?r < 2 ^ 32"
    using ring_idle_holds [OF idle] ring_holds_used [OF ring_idle_holds [OF idle]] list
    by (simp_all add: ring_holds_def ring_geom_def)
  then have "frame_ok (frame_new (pb_schema_fp p) body)"
    using b(2) by (simp add: frame_ok_def frame_new_def)
  then show ?thesis using frame_decode_encode_rest [of _ "[]"] b by auto
qed

lemma chan_recv_queue:
  assumes law: "avro_schema_law (ce_lib env) ty" "parse_str (ce_lib env) (type_json ty) = Inr (pb_schema p)"
    and linked: "chan_linked p s (cp, cs)" and holds: "chan_holds env to_v from_v ty p q cp"
  shows "\<exists>w. recv env from_v s [no_wait] cs =
      Some (Inr (case q of [] \<Rightarrow> None | x # _ \<Rightarrow> Some x), [], cs\<lparr>cn_shm := w\<rparr>) \<and>
    chan_holds env to_v from_v ty p (tl q) (cp\<lparr>cn_shm := w\<rparr>)"
proof -
  let ?r = "pub_ring p cp" and ?rec = "chan_rec env to_v p"
  have idle: "ring_idle ?r (ring_mem ?r (cn_shm cp))" and list: "ring_list ?r (ring_mem ?r (cn_shm cp)) = map ?rec q"
    and vals: "list_all (chan_value to_v from_v ty) q"
    using holds by (simp_all add: chan_holds_def Let_def)
  obtain sg where rs: "in_cells (cn_inner cs) (sb_ring s) = ?r\<lparr>ring_seg := sg\<rparr>" "seg_ptr sg = seg_ptr (ring_seg ?r)"
    and eq: "sb_schema s = pb_schema p" "sb_schema_fp s = pb_schema_fp p" "cn_shm cs = cn_shm cp"
    using linked by (auto simp: chan_linked_def)
  let ?rs = "?r\<lparr>ring_seg := sg\<rparr>"
  have mem: "ring_mem ?rs w = ring_mem ?r w" "set_ring_mem ?rs m w = set_ring_mem ?r m w" for m w
    using rs(2) by (simp_all add: ring_mem_def set_ring_mem_def)
  obtain m where m: "pop_ring no_wait ?rs cs =
      Some (case map ?rec q of [] \<Rightarrow> None | d # _ \<Rightarrow> Some d, cs\<lparr>cn_shm := set_ring_mem ?r m (cn_shm cp)\<rparr>)"
    "ring_idle ?r m" "ring_list ?r m = map ?rec (tl q)"
    using pop_ring_now [of ?rs cs] idle list mem eq(3) by (auto simp: map_tl)
  have aft: "chan_holds env to_v from_v ty p (tl q) (cp\<lparr>cn_shm := set_ring_mem ?r m (cn_shm cp)\<rparr>)"
    using chan_holds_after [OF m(2,3)] vals by (cases q) simp_all
  show ?thesis
  proof (cases q)
    case Nil
    with m(1) aft rs(1) show ?thesis by (intro exI [of _ "set_ring_mem ?r m (cn_shm cp)"]) simp
  next
    case (Cons x q1)
    with m(1) aft rs(1) eq chan_record_decode [OF law, of to_v from_v x q1 cp] holds show ?thesis
      by (intro exI [of _ "set_ring_mem ?r m (cn_shm cp)"]) (auto simp: frame_new_def)
  qed
qed

lemma chan_step_queue:
  assumes law: "avro_schema_law (ce_lib env) ty" "parse_str (ce_lib env) (type_json ty) = Inr (pb_schema p)"
    and linked: "chan_linked p s (cp, cs)" and holds: "chan_holds env to_v from_v ty p q cp"
    and ok: "\<forall>x \<in> set_chan_op opr. chan_value to_v from_v ty x"
    and spec: "queue_step (chan_size (ce_lib env) to_v (pb_schema p)) (publisher_capacity p cp) opr q = (res, q')"
  shows "\<exists>w. chan_step env to_v from_v p s opr (cp, cs) = Some (res, cp\<lparr>cn_shm := w\<rparr>, cs\<lparr>cn_shm := w\<rparr>) \<and>
    chan_holds env to_v from_v ty p q' (cp\<lparr>cn_shm := w\<rparr>)"
proof (cases opr)
  case (OpPublish x)
  with chan_publish_queue(1) [OF law holds _ refl, of x] ok spec show ?thesis
    by (auto simp: chan_step_def split: if_splits)
next
  case (OpTryPublish x)
  with chan_publish_queue(2) [OF law holds _ refl, of x] ok spec show ?thesis
    by (auto simp: chan_step_def split: if_splits)
next
  case OpRecv
  with chan_recv_queue [OF law linked holds] spec show ?thesis
    by (cases q) (auto simp: chan_step_def simp del: recv.simps)
qed

text \<open>
  C13: a channel is a bounded queue of values. Whatever sequence of publications, attempts and
  receives its two ends make, every result is that of the queue: a value is accepted exactly
  when its record fits next to those not yet received, a blocking publication that finds no room
  fails with its error and an attempt answers \<^verbatim>\<open>false\<close>, and a receive returns the oldest value, equal
  to the one published, or nothing when all have been received; it never reports an error. What is
  still in the shared memory afterwards is what the queue holds.
\<close>

theorem channel_is_queue:
  assumes "avro_schema_law (ce_lib env) ty" "parse_str (ce_lib env) (type_json ty) = Inr (pb_schema p)"
    and "chan_linked p s (cp, cs)" and "chan_holds env to_v from_v ty p q cp"
    and "\<forall>opr \<in> set oprs. \<forall>x \<in> set_chan_op opr. chan_value to_v from_v ty x"
    and "queue_run (chan_size (ce_lib env) to_v (pb_schema p)) (publisher_capacity p cp) oprs q = (res, q')"
  shows "\<exists>cp' cs'. chan_run env to_v from_v p s oprs (cp, cs) = Some (res, cp', cs') \<and>
    chan_linked p s (cp', cs') \<and> chan_holds env to_v from_v ty p q' cp'"
  using assms(3-6)
proof (induction oprs arbitrary: cp cs q res q')
  case (Cons opr oprs)
  let ?sz = "chan_size (ce_lib env) to_v (pb_schema p)"
  obtain r1 q1 where s1: "queue_step ?sz (publisher_capacity p cp) opr q = (r1, q1)" by fastforce
  obtain rs q2 where s2: "queue_run ?sz (publisher_capacity p cp) oprs q1 = (rs, q2)" by fastforce
  have res: "res = r1 # rs" "q' = q2" using Cons.prems(4) s1 s2 by simp_all
  obtain w where w: "chan_step env to_v from_v p s opr (cp, cs) = Some (r1, cp\<lparr>cn_shm := w\<rparr>, cs\<lparr>cn_shm := w\<rparr>)"
    "chan_holds env to_v from_v ty p q1 (cp\<lparr>cn_shm := w\<rparr>)"
    using chan_step_queue [OF assms(1,2) Cons.prems(1,2) _ s1] Cons.prems(3) by auto
  have l: "chan_linked p s (cp\<lparr>cn_shm := w\<rparr>, cs\<lparr>cn_shm := w\<rparr>)"
    using Cons.prems(1) by (simp add: chan_linked_def)
  have "queue_run ?sz (publisher_capacity p (cp\<lparr>cn_shm := w\<rparr>)) oprs q1 = (rs, q2)"
    using s2 by (simp add: publisher_capacity_def)
  from Cons.IH [OF l w(2) _ this] Cons.prems(3) w(1) res show ?case by auto
qed (simp add: publisher_capacity_def)

theorem channel_is_queue_witness:
  "\<exists>sc cp cs. chan_run (demo_cenv\<lparr>ce_lib := bus_lib http_types\<rparr>) ring_stream_frame_to_value
     (ring_stream_frame_from_value (bus_lib http_types)) (publisher_new 0 sc 7 ''c'' 1) (subscriber_new 0 sc 7)
     [OpPublish (stream_data [1]), OpTryPublish (stream_data [2]), OpRecv, OpRecv, OpRecv] (demo_conn, demo_conn) =
   Some ([RePublish (Inr ()), ReTryPublish (Inr True), ReRecv (Inr (Some (stream_data [1]))),
          ReRecv (Inr (Some (stream_data [2]))), ReRecv (Inr None)], cp, cs)"
proof -
  let ?lib = "bus_lib http_types"
  let ?env = "demo_cenv\<lparr>ce_lib := ?lib\<rparr>" and ?to = ring_stream_frame_to_value
    and ?from = "ring_stream_frame_from_value ?lib"
  have laws: "avro_leaf_laws ?lib" "avro_schema_law ?lib stream_frame_type"
    using http_lib_laws by (simp_all add: avro_laws_def http_types_def)
  then obtain sc where sc: "parse_str ?lib (type_json stream_frame_type) = Inr sc"
    by (auto simp: avro_schema_law_def)
  let ?p = "publisher_new 0 sc 7 ''c'' 1" and ?s = "subscriber_new 0 sc 7"
  have cell: "pub_ring ?p demo_conn = tp_reply_ring demo_tp" by (simp add: demo_conn_def client_start_def)
  have val: "chan_value ?to ?from stream_frame_type (stream_data [b])" for b
    using h_sf.from_to [OF laws(1), of "stream_data [b]"]
    by (simp add: chan_value_def stream_frame_type_def ring_stream_frame_to_value_def stream_data_def DATA_def)
  have linked: "chan_linked ?p ?s (demo_conn, demo_conn)"
    using cell by (auto simp: chan_linked_def publisher_new_def subscriber_new_def intro!: exI [of _ "ring_seg (tp_reply_ring demo_tp)"])
  have holds: "chan_holds ?env ?to ?from stream_frame_type ?p [] demo_conn"
    unfolding chan_holds_def Let_def cell using demo_conn_facts(5,6) by simp
  have cap: "2 ^ 18 \<le> publisher_capacity ?p demo_conn"
    using demo_bootstrap bootstrap_capacity [of demo_cenv 0 0 demo_world] clamp_range(1) [of REPLY_CAP]
    by (auto simp: publisher_capacity_def cell demo_tp_def)
  have sz: "chan_size ?lib ?to sc (stream_data [b]) \<le> 100" for b
  proof -
    obtain body where b: "avro_encode ?lib (\<lambda>m. Inr (?to m)) sc (stream_data [b]) = Inr body"
      using bus_lib_encode [of http_types ?to sc "stream_data [b]"] by blast
    moreover have "length body \<le> 26"
      using bus_lib_compact [of http_types sc] b unfolding avro_compact_def by (fastforce simp: stream_data_def)
    ultimately show ?thesis by (simp add: chan_size_def chan_record_def frame_new_def FRAME_HEADER_def)
  qed
  have fits: "chan_size ?lib ?to sc (stream_data [1]) + chan_size ?lib ?to sc (stream_data [2])
      \<le> publisher_capacity ?p demo_conn"
    using sz [of 1] sz [of 2] cap by simp
  show ?thesis
    using channel_is_queue [of ?env stream_frame_type ?p ?s demo_conn demo_conn ?to ?from "[]"
        "[OpPublish (stream_data [1]), OpTryPublish (stream_data [2]), OpRecv, OpRecv, OpRecv]"]
      laws(2) sc linked holds val fits add_leD1 [OF fits]
    by (auto simp: publisher_new_def)
qed

end
