(* ===== verification/Ring_Rpc.thy ===== *)
theory Ring_Rpc
  imports Ring_Channel
begin

text \<open>
  Remote calls (\<^verbatim>\<open>crates/connector/src/rpc.rs\<close>): the future of a call and the executor that drives
  it, the service that reads requests and answers them. The pool of workers that runs the
  handlers is in the theory \<open>Ring_Pool\<close>.
\<close>

section \<open>The caller: futures\<close>

record 'sc call_future =
  cf_slot :: nat
  cf_resp_schema :: 'sc
  cf_expected_resp_fp :: fingerprint
  cf_corr :: i64

definition call_future_new :: "nat \<Rightarrow> 'sc \<Rightarrow> fingerprint \<Rightarrow> i64 \<Rightarrow> 'sc call_future" where
  "call_future_new sid resp_schema expected_resp_fp corr =
     \<lparr>cf_slot = sid, cf_resp_schema = resp_schema, cf_expected_resp_fp = expected_resp_fp, cf_corr = corr\<rparr>"

definition decode_response ::
  "'sc client_env \<Rightarrow> (avro_value \<Rightarrow> 'a option) \<Rightarrow> 'sc call_future \<Rightarrow> frame \<Rightarrow> 'a io_result" where
  "decode_response env from_v fut f =
     io_bind (from_frame (ce_lib env) (ce_cat env) rpc_response_from_value RpcResponse f) (\<lambda>resp.
     if rs_status resp \<noteq> STATUS_OK
     then Inl (IoOther (''remote function error ('' @ show_int (rs_status resp) @ ''): '' @ rs_message resp))
     else if i64_to_fp (rs_result_fp resp) \<noteq> cf_expected_resp_fp fut
     then Inl (schema_mismatch ''response'' (cf_expected_resp_fp fut) (i64_to_fp (rs_result_fp resp)))
     else avro_decode (ce_lib env) from_v (cf_resp_schema fut) (rs_result resp))"

definition call_future_drop :: "'sc call_future \<Rightarrow> conn \<Rightarrow> conn" where
  "call_future_drop fut = drop_pending (cf_corr fut)"

definition call_future_poll ::
  "'sc client_env \<Rightarrow> (avro_value \<Rightarrow> 'a option) \<Rightarrow> 'sc call_future \<Rightarrow> nat \<Rightarrow> conn \<Rightarrow> 'a io_result option \<times> conn" where
  "call_future_poll env from_v fut waker c =
     (case slot_poll waker (in_slots (cn_inner c) (cf_slot fut)) of
        (Some f, s) \<Rightarrow> (Some (decode_response env from_v fut f), upd_slot (cf_slot fut) s c)
      | (None, s) \<Rightarrow> (None, upd_slot (cf_slot fut) s c))"

text \<open>
  \<^verbatim>\<open>block_on\<close>, which owns the future and drops it on return. The flag of its waker is named by the
  future's slot, which no other executor polls. One event is one pass of the loop that finds the
  future pending: whether the clock has reached the deadline, what happens before
  the flag is read, and what happens while the thread is parked. \<open>None\<close>: still parked when the events
  are over.
\<close>

record wait_event =
  we_expired :: bool
  we_before :: "conn \<Rightarrow> conn"
  we_park :: "conn \<Rightarrow> conn"

definition set_notified :: "nat \<Rightarrow> bool \<Rightarrow> conn \<Rightarrow> conn" where
  "set_notified i b = upd_inner (\<lambda>n. n\<lparr>in_notified := (in_notified n)(i := b)\<rparr>)"

fun block_on_loop ::
  "'sc client_env \<Rightarrow> (avro_value \<Rightarrow> 'a option) \<Rightarrow> 'sc call_future \<Rightarrow> wait_event list \<Rightarrow> conn \<Rightarrow>
   ('a io_result option \<times> conn) option" where
  "block_on_loop env from_v fut evs c =
     (case call_future_poll env from_v fut (cf_slot fut) c of
        (Some v, c1) \<Rightarrow> Some (Some v, c1)
      | (None, c1) \<Rightarrow>
          (case evs of
             [] \<Rightarrow> None
           | ev # evs' \<Rightarrow>
               if we_expired ev then Some (None, c1)
               else (let c2 = we_before ev c1;
                         notified = in_notified (cn_inner c2) (cf_slot fut);
                         c3 = set_notified (cf_slot fut) False c2
                     in block_on_loop env from_v fut evs' (if notified then c3 else we_park ev c3))))"

declare block_on_loop.simps [simp del]

definition block_on ::
  "'sc client_env \<Rightarrow> (avro_value \<Rightarrow> 'a option) \<Rightarrow> 'sc call_future \<Rightarrow> wait_event list \<Rightarrow> conn \<Rightarrow>
   ('a io_result option \<times> conn) option" where
  "block_on env from_v fut evs c =
     map_option (\<lambda>(v, c1). (v, call_future_drop fut c1))
       (block_on_loop env from_v fut evs (set_notified (cf_slot fut) False c))"

section \<open>The callee: answering one request\<close>

definition DEFAULT_SERVICE_WORKERS :: usize where
  "DEFAULT_SERVICE_WORKERS = 64"

definition err_response :: "i64 \<Rightarrow> i32 \<Rightarrow> string \<Rightarrow> rpc_response" where
  "err_response corr code msg =
     \<lparr>rs_correlation_id = corr, rs_status = code, rs_message = msg, rs_result_fp = 0, rs_result = []\<rparr>"

text \<open>The handler may panic, which is \<open>None\<close>; so does then the call of \<^verbatim>\<open>handle_one\<close>.\<close>

record ('sc, 'req, 'resp) service =
  sv_req_schema :: 'sc
  sv_resp_schema :: 'sc
  sv_req_fp :: fingerprint
  sv_resp_fp :: fingerprint
  sv_de_req :: "avro_value \<Rightarrow> 'req option"
  sv_ser_resp :: "'resp \<Rightarrow> string + avro_value"
  sv_handler :: "'req \<Rightarrow> 'resp option"

definition handle_one ::
  "'sc client_env \<Rightarrow> ('sc, 'req, 'resp) service \<Rightarrow> rpc_request \<Rightarrow> rpc_response option" where
  "handle_one env sv req =
     (if i64_to_fp (rq_arg_fp req) \<noteq> sv_req_fp sv
      then Some (err_response (rq_correlation_id req) ERR_SCHEMA_MISMATCH ''request schema mismatch'')
      else case avro_decode (ce_lib env) (sv_de_req sv) (sv_req_schema sv) (rq_args req) of
        Inl e \<Rightarrow> Some (err_response (rq_correlation_id req) ERR_INTERNAL (''bad args: '' @ show_io_error (ce_os env) e))
      | Inr decoded \<Rightarrow>
          (case sv_handler sv decoded of
             None \<Rightarrow> None
           | Some result \<Rightarrow>
               (case avro_encode (ce_lib env) (sv_ser_resp sv) (sv_resp_schema sv) result of
                  Inr body \<Rightarrow>
                    Some \<lparr>rs_correlation_id = rq_correlation_id req, rs_status = STATUS_OK, rs_message = [],
                          rs_result_fp = fp_to_i64 (sv_resp_fp sv), rs_result = body\<rparr>
                | Inl e \<Rightarrow>
                    Some (err_response (rq_correlation_id req) ERR_INTERNAL
                            (''encode failed: '' @ show_io_error (ce_os env) e)))))"

text \<open>What a worker answers: the panic is caught.\<close>

definition serve_request ::
  "'sc client_env \<Rightarrow> ('sc, 'req, 'resp) service \<Rightarrow> rpc_request \<Rightarrow> rpc_response" where
  "serve_request env sv req =
     (case handle_one env sv req of
        Some response \<Rightarrow> response
      | None \<Rightarrow> err_response (rq_correlation_id req) ERR_INTERNAL ''handler panicked'')"

text \<open>Each worker keeps the reply rings it has opened.\<close>

type_synonym ring_cache = "(string, ring) hash_map"

definition send_response ::
  "'sc client_env \<Rightarrow> turn \<Rightarrow> string \<Rightarrow> rpc_response \<Rightarrow> ring_cache \<Rightarrow> shm \<Rightarrow>
   (unit io_result \<times> ring_cache \<times> shm) option" where
  "send_response env t seg_nm response cache w =
     (let opened =
        (if hm_contains cache seg_nm then Inr cache
         else io_bind (segment_open (ce_os env) seg_nm w) (\<lambda>seg.
              io_bind (ring_attach seg 0 (shm_obj w (seg_ptr seg))) (\<lambda>r. Inr (hm_insert seg_nm r cache))))
      in case opened of
           Inl e \<Rightarrow> Some (Inl e, cache, w)
         | Inr cache1 \<Rightarrow>
             (case hm_get cache1 seg_nm of
                None \<Rightarrow> Some (Inl (IoPanic ''called `Option::unwrap()` on a `None` value''), cache1, w)
              | Some r \<Rightarrow>
                  (case to_frame (ce_lib env) (ce_cat env) rpc_response_to_value RpcResponse response of
                     Inl e \<Rightarrow> Some (Inl e, cache1, w)
                   | Inr f \<Rightarrow>
                       (case push_blocking r (frame_encode f) (Some (tn_parks t)) (tn_push t) (ring_mem r w) of
                          None \<Rightarrow> None
                        | Some (ok, m, _) \<Rightarrow>
                            Some (if ok then Inr () else Inl (IoOther ''caller reply ring full''),
                                  cache1, set_ring_mem r m w)))))"

text \<open>What a worker does with one job; an answer that cannot be delivered is only logged.\<close>

definition serve_job ::
  "'sc client_env \<Rightarrow> ('sc, 'req, 'resp) service \<Rightarrow> turn \<Rightarrow> rpc_request \<Rightarrow> ring_cache \<Rightarrow> shm \<Rightarrow>
   (ring_cache \<times> shm) option" where
  "serve_job env sv t req cache w =
     map_option snd (send_response env t (rq_reply_segment req) (serve_request env sv req) cache w)"

text \<open>
  One turn of the service's reader: the request it hands to the pool, if there is one. A record
  that is no frame or no request is dropped.
\<close>

definition read_request :: "'sc client_env \<Rightarrow> nat \<Rightarrow> turn \<Rightarrow> conn \<Rightarrow> (rpc_request option \<times> conn) option" where
  "read_request env cell t c =
     (case pop_ring t (in_cells (cn_inner c) cell) c of
        None \<Rightarrow> None
      | Some (None, c1) \<Rightarrow> Some (None, c1)
      | Some (Some bs, c1) \<Rightarrow>
          (case frame_decode bs of
             Inl e \<Rightarrow> Some (None, c1)
           | Inr f \<Rightarrow>
               (case from_frame (ce_lib env) (ce_cat env) rpc_request_from_value RpcRequest f of
                  Inl e \<Rightarrow> Some (None, c1)
                | Inr req \<Rightarrow> Some (Some req, c1))))"

section \<open>What a caller learns\<close>

text \<open>A response on the wire and back.\<close>

lemma response_frame:
  assumes "avro_laws (set proto_types) lib" "catalog_build lib = Some cat" "fps_distinct lib"
    and "has_type (kind_type RpcResponse) (rpc_response_to_value resp)"
  obtains f where "to_frame lib cat rpc_response_to_value RpcResponse resp = Inr f"
    "from_frame lib cat rpc_response_from_value RpcResponse f = Inr resp"
    "correlation_id lib cat f = Inr (rs_correlation_id resp)"
proof -
  obtain f where f: "to_frame lib cat rpc_response_to_value RpcResponse resp = Inr f"
    "kind_of cat (frame_schema_fp f) = Some RpcResponse"
    using m_rs.frame_compat [OF assms] by blast
  have r: "from_frame lib cat rpc_response_from_value RpcResponse f = Inr resp"
    using m_rs.frame_round_trip [OF assms(1,2,4)] f(1) by auto
  with f that show ?thesis by (simp add: correlation_id_def)
qed

text \<open>The request of a caller that encodes its argument as the service decodes it.\<close>

definition request_for :: "'sc client_env \<Rightarrow> ('sc, 'req, 'resp) service \<Rightarrow> ('req \<Rightarrow> avro_value) \<Rightarrow> 'req \<Rightarrow> rpc_request \<Rightarrow> bool" where
  "request_for env sv to_req x req \<longleftrightarrow>
     rq_arg_fp req = fp_to_i64 (sv_req_fp sv) \<and>
     avro_encode (ce_lib env) (\<lambda>x. Inr (to_req x)) (sv_req_schema sv) x = Inr (rq_args req)"

lemma fp_i64_fp [simp]: "i64_to_fp (fp_to_i64 fp) = fp"
  by (simp add: fp_to_i64_def i64_to_fp_def)

lemma serve_request_result:
  assumes req: "avro_schema_law (ce_lib env) req_ty" "parse_str (ce_lib env) (type_json req_ty) = Inr (sv_req_schema sv)"
    and resp: "avro_schema_law (ce_lib env) resp_ty" "parse_str (ce_lib env) (type_json resp_ty) = Inr (sv_resp_schema sv)"
    and ser: "sv_ser_resp sv = (\<lambda>y. Inr (to_resp y))"
    and x: "request_for env sv to_req x rq" "chan_value to_req (sv_de_req sv) req_ty x"
    and y: "\<And>y. sv_handler sv x = Some y \<Longrightarrow> chan_value to_resp from_resp resp_ty y"
  shows "case sv_handler sv x of
      None \<Rightarrow> serve_request env sv rq = err_response (rq_correlation_id rq) ERR_INTERNAL ''handler panicked''
    | Some y \<Rightarrow> \<exists>body. avro_encode (ce_lib env) (sv_ser_resp sv) (sv_resp_schema sv) y = Inr body \<and>
        avro_decode (ce_lib env) from_resp (sv_resp_schema sv) body = Inr y \<and>
        serve_request env sv rq = \<lparr>rs_correlation_id = rq_correlation_id rq, rs_status = STATUS_OK, rs_message = [],
          rs_result_fp = fp_to_i64 (sv_resp_fp sv), rs_result = body\<rparr>"
proof -
  have dec: "avro_decode (ce_lib env) (sv_de_req sv) (sv_req_schema sv) (rq_args rq) = Inr x"
    by (rule chan_record_facts [OF req x(2)]) (use x(1) in \<open>simp add: request_for_def\<close>)
  show ?thesis
  proof (cases "sv_handler sv x")
    case None
    with dec x(1) show ?thesis by (simp add: serve_request_def handle_one_def request_for_def)
  next
    case (Some y)
    obtain body where "avro_encode (ce_lib env) (\<lambda>y. Inr (to_resp y)) (sv_resp_schema sv) y = Inr body"
      "avro_decode (ce_lib env) from_resp (sv_resp_schema sv) body = Inr y"
      by (rule chan_record_facts [OF resp, of to_resp from_resp y]) (use assms(8) Some in auto)
    with Some dec x(1) show ?thesis by (simp add: serve_request_def handle_one_def request_for_def ser)
  qed
qed

lemma show_status: "show_int 3 = ''3''" "show_int 4 = ''4''"
  by (simp_all add: show_int_def show_nat_def show_base.simps digit_char_def char_of_eq_iff take_bit_eq_mod)

lemma decode_answer:
  assumes req: "avro_schema_law (ce_lib env) req_ty" "parse_str (ce_lib env) (type_json req_ty) = Inr (sv_req_schema sv)"
    and resp: "avro_schema_law (ce_lib env) resp_ty" "parse_str (ce_lib env) (type_json resp_ty) = Inr (sv_resp_schema sv)"
    and ser: "sv_ser_resp sv = (\<lambda>y. Inr (to_resp y))"
    and x: "request_for env sv to_req x rq" "chan_value to_req (sv_de_req sv) req_ty x"
    and y: "\<And>y. sv_handler sv x = Some y \<Longrightarrow> chan_value to_resp from_resp resp_ty y"
    and fut: "cf_resp_schema fut = sv_resp_schema sv" "cf_expected_resp_fp fut = sv_resp_fp sv"
    and f: "from_frame (ce_lib env) (ce_cat env) rpc_response_from_value RpcResponse f = Inr (serve_request env sv rq)"
  shows "decode_response env from_resp fut f =
      (case sv_handler sv x of
         Some y \<Rightarrow> Inr y
       | None \<Rightarrow> Inl (IoOther ''remote function error (4): handler panicked''))"
  using serve_request_result [OF req resp ser x y] f
  by (auto simp: decode_response_def fut err_response_def status_defs show_status split: option.splits)

lemma serve_request_corr [simp]: "rs_correlation_id (serve_request env sv rq) = rq_correlation_id rq"
  by (auto simp: serve_request_def handle_one_def err_response_def split: sum.split option.split)

text \<open>
  C20: the caller of a function learns what its handler did. The answer carries the request's
  correlation id; read back by the caller it is the value the handler returned, and when
  the handler panicked an error that says so. A request encoded under another schema than the
  function's is refused without running the handler, and the caller learns that.
\<close>

theorem rpc_answer:
  assumes "avro_laws (set proto_types) (ce_lib env)" "catalog_build (ce_lib env) = Some (ce_cat env)"
      "fps_distinct (ce_lib env)"
    and "avro_schema_law (ce_lib env) req_ty" "parse_str (ce_lib env) (type_json req_ty) = Inr (sv_req_schema sv)"
    and "avro_schema_law (ce_lib env) resp_ty" "parse_str (ce_lib env) (type_json resp_ty) = Inr (sv_resp_schema sv)"
    and "sv_ser_resp sv = (\<lambda>y. Inr (to_resp y))"
    and "\<And>y. sv_handler sv x = Some y \<Longrightarrow> chan_value to_resp from_resp resp_ty y"
    and "cf_resp_schema fut = sv_resp_schema sv" "cf_expected_resp_fp fut = sv_resp_fp sv"
    and "has_type (kind_type RpcResponse) (rpc_response_to_value (serve_request env sv rq))"
  shows "\<exists>f. to_frame (ce_lib env) (ce_cat env) rpc_response_to_value RpcResponse (serve_request env sv rq) = Inr f \<and>
    correlation_id (ce_lib env) (ce_cat env) f = Inr (rq_correlation_id rq) \<and>
    (request_for env sv to_req x rq \<and> chan_value to_req (sv_de_req sv) req_ty x \<longrightarrow>
       decode_response env from_resp fut f =
         (case sv_handler sv x of
            Some y \<Rightarrow> Inr y
          | None \<Rightarrow> Inl (IoOther ''remote function error (4): handler panicked''))) \<and>
    (i64_to_fp (rq_arg_fp rq) \<noteq> sv_req_fp sv \<longrightarrow>
       decode_response env from_resp fut f = Inl (IoOther ''remote function error (3): request schema mismatch''))"
proof -
  obtain f where f: "to_frame (ce_lib env) (ce_cat env) rpc_response_to_value RpcResponse (serve_request env sv rq) = Inr f"
    "from_frame (ce_lib env) (ce_cat env) rpc_response_from_value RpcResponse f = Inr (serve_request env sv rq)"
    "correlation_id (ce_lib env) (ce_cat env) f = Inr (rq_correlation_id rq)"
    by (rule response_frame [OF assms(1-3) assms(12)]) simp
  have "decode_response env from_resp fut f = Inl (IoOther ''remote function error (3): request schema mismatch'')"
    if "i64_to_fp (rq_arg_fp rq) \<noteq> sv_req_fp sv"
    using that f(2) by (simp add: decode_response_def serve_request_def handle_one_def err_response_def status_defs
        show_status)
  with f decode_answer [OF assms(4-8) _ _ assms(9-11) f(2)] show ?thesis by blast
qed

text \<open>A service over the protocol's own records: it answers a heartbeat with an acknowledgement.\<close>

definition demo_service :: "(nat, heartbeat, unregister) service" where
  "demo_service =
     (let sc = (\<lambda>k. case parse_str proto_lib (schema_for k) of Inr sc \<Rightarrow> sc | Inl _ \<Rightarrow> 0) in
      \<lparr>sv_req_schema = sc Heartbeat, sv_resp_schema = sc Unregister, sv_req_fp = fingerprint_of proto_lib (sc Heartbeat), sv_resp_fp = fingerprint_of proto_lib (sc Unregister),
       sv_de_req = heartbeat_from_value proto_lib, sv_ser_resp = (\<lambda>y. Inr (unregister_to_value y)),
       sv_handler = (\<lambda>h. if hb_client_id h = 0 then None
          else Some \<lparr>unreg_correlation_id = 5, unreg_client_id = hb_client_id h\<rparr>)\<rparr>)"


lemma demo_service_schemas:
  "parse_str proto_lib (type_json (kind_type Heartbeat)) = Inr (sv_req_schema demo_service)"
  "parse_str proto_lib (type_json (kind_type Unregister)) = Inr (sv_resp_schema demo_service)"
proof -
  have "\<exists>sc. parse_str proto_lib (schema_for k) = Inr sc" for k
    using catalog_build_current [OF proto_cat_build, of k] by (auto simp: cat_current_def)
  then obtain a b where "parse_str proto_lib (schema_for Heartbeat) = Inr a"
    "parse_str proto_lib (schema_for Unregister) = Inr b" by blast
  then show "parse_str proto_lib (type_json (kind_type Heartbeat)) = Inr (sv_req_schema demo_service)"
    "parse_str proto_lib (type_json (kind_type Unregister)) = Inr (sv_resp_schema demo_service)"
    unfolding schema_for_type [symmetric] by (simp_all only: demo_service_def Let_def sum.case service.simps)
qed

lemma demo_service_laws:
  "avro_schema_law proto_lib (kind_type k)" "sv_ser_resp demo_service = (\<lambda>y. Inr (unregister_to_value y))"
  "sv_de_req demo_service = heartbeat_from_value proto_lib" "sv_req_fp demo_service = fingerprint_of proto_lib (sv_req_schema demo_service)"
  "sv_resp_fp demo_service = fingerprint_of proto_lib (sv_resp_schema demo_service)"
  "sv_handler demo_service = (\<lambda>h. if hb_client_id h = 0 then None
      else Some \<lparr>unreg_correlation_id = 5, unreg_client_id = hb_client_id h\<rparr>)"
  using proto_lib_laws by (simp_all add: avro_laws_def proto_types_def demo_service_def Let_def)

lemma proto_lib_encode: "avro_encode proto_lib (\<lambda>x. Inr (to_v x)) sc x = Inr (ref_enc (to_v x))"
  by (simp add: avro_encode_def proto_lib_def ref_lib_def)

definition demo_request :: "heartbeat \<Rightarrow> rpc_request" where
  "demo_request h = \<lparr>rq_correlation_id = 77, rq_caller_id = 1, rq_reply_segment = client_segment 0,
     rq_arg_fp = fp_to_i64 (sv_req_fp demo_service), rq_args = ref_enc (heartbeat_to_value h)\<rparr>"

lemma demo_request_for: "request_for demo_cenv demo_service heartbeat_to_value h (demo_request h)"
  by (simp add: request_for_def demo_request_def demo_service_laws demo_cenv_def proto_lib_encode)

abbreviation demo_beat :: heartbeat where
  "demo_beat \<equiv> \<lparr>hb_correlation_id = 1, hb_client_id = 9, hb_seq = 0\<rparr>"

lemma demo_values:
  "chan_value heartbeat_to_value (sv_de_req demo_service) (kind_type Heartbeat) demo_beat"
  "chan_value unregister_to_value (unregister_from_value proto_lib) (kind_type Unregister)
     \<lparr>unreg_correlation_id = 5, unreg_client_id = 9\<rparr>"
proof -
  have leaf: "avro_leaf_laws proto_lib" using proto_lib_laws by (simp add: avro_laws_def)
  show "chan_value heartbeat_to_value (sv_de_req demo_service) (kind_type Heartbeat) demo_beat"
    using m_hb.from_to [OF leaf, of demo_beat]
    by (simp add: chan_value_def demo_service_laws heartbeat_to_value_def kind_type_def)
  show "chan_value unregister_to_value (unregister_from_value proto_lib) (kind_type Unregister)
     \<lparr>unreg_correlation_id = 5, unreg_client_id = 9\<rparr>"
    using m_unreg.from_to [OF leaf, of "\<lparr>unreg_correlation_id = 5, unreg_client_id = 9\<rparr>"]
    by (simp add: chan_value_def unregister_to_value_def kind_type_def)
qed

lemma demo_answer:
  assumes "rq_arg_fp rq = fp_to_i64 (sv_req_fp demo_service)" "rq_args rq = ref_enc (heartbeat_to_value demo_beat)"
  shows "serve_request demo_cenv demo_service rq =
    \<lparr>rs_correlation_id = rq_correlation_id rq, rs_status = 0, rs_message = [], rs_result_fp = fp_to_i64 (sv_resp_fp demo_service),
     rs_result = ref_enc (unregister_to_value \<lparr>unreg_correlation_id = 5, unreg_client_id = 9\<rparr>)\<rparr>"
proof -
  have lib: "ce_lib demo_cenv = proto_lib" by (simp add: demo_cenv_def)
  have "request_for demo_cenv demo_service heartbeat_to_value demo_beat rq"
    using assms by (simp add: request_for_def demo_service_laws lib proto_lib_encode)
  then show ?thesis
    using serve_request_result [of demo_cenv "kind_type Heartbeat" demo_service "kind_type Unregister" unregister_to_value
        heartbeat_to_value demo_beat rq "unregister_from_value proto_lib"]
      demo_service_schemas demo_values demo_service_laws(1)
    by (simp add: lib demo_service_laws proto_lib_encode STATUS_OK_def)
qed

theorem rpc_answer_witness:
  "\<exists>f. to_frame proto_lib proto_cat rpc_response_to_value RpcResponse
      (serve_request demo_cenv demo_service (demo_request demo_beat)) = Inr f \<and>
    decode_response demo_cenv (unregister_from_value proto_lib)
      (call_future_new 0 (sv_resp_schema demo_service) (sv_resp_fp demo_service) 77) f = Inr \<lparr>unreg_correlation_id = 5, unreg_client_id = 9\<rparr>"
proof -
  let ?rq = "demo_request demo_beat" and ?fut = "call_future_new 0 (sv_resp_schema demo_service) (sv_resp_fp demo_service) 77"
  have env: "ce_lib demo_cenv = proto_lib" "ce_cat demo_cenv = proto_cat" by (simp_all add: demo_cenv_def)
  have ty: "has_type (kind_type RpcResponse) (rpc_response_to_value (serve_request demo_cenv demo_service ?rq))"
    using sint_range [of "sv_resp_fp demo_service"]
    by (simp add: demo_answer demo_request_def kind_type_def rpc_response_to_value_def unregister_to_value_def fp_to_i64_def)
  show ?thesis
    using rpc_answer [of demo_cenv "kind_type Heartbeat" demo_service "kind_type Unregister" unregister_to_value demo_beat
        "unregister_from_value proto_lib" ?fut ?rq heartbeat_to_value]
      proto_lib_laws proto_cat_build proto_lib_distinct demo_service_schemas demo_values demo_request_for [of demo_beat] ty
    by (auto simp: env demo_service_laws call_future_new_def)
qed

section \<open>Waiting for the answer\<close>

text \<open>What others do while an executor drives the future of slot \<open>sid\<close>: they never clear its flag.\<close>

definition waker_step :: "'sc client_env \<Rightarrow> nat \<Rightarrow> conn \<Rightarrow> conn \<Rightarrow> bool" where
  "waker_step env sid c c' \<longleftrightarrow> other_step env sid c c' \<and>
     (in_notified (cn_inner c) sid \<longrightarrow> in_notified (cn_inner c') sid)"

text \<open>A polled future: its waker is registered on the empty slot, or has been woken.\<close>

definition armed :: "nat \<Rightarrow> conn \<Rightarrow> bool" where
  "armed sid c \<longleftrightarrow> in_notified (cn_inner c) sid \<or>
     sl_frame (slots_of c sid) = None \<and> sl_waker (slots_of c sid) = Some sid"

lemma armed_route:
  assumes "armed sid c"
  shows "armed sid (route_frame env bs c)"
proof (cases "routed env bs c")
  case (Some r)
  then obtain corr f i where r: "routed env bs c = Some (corr, f, i)" by (metis prod_cases3)
  have n: "in_notified (cn_inner (complete_slot i f c')) j \<longleftrightarrow> sl_waker (slots_of c' i) = Some j \<or> in_notified (cn_inner c') j"
    for c' j by (auto simp: complete_slot_def slot_complete_def Let_def split: option.split)
  show ?thesis using assms by (auto simp: route_frame_routed r armed_def n)
qed (use assms in \<open>simp add: route_frame_routed\<close>)

lemma armed_step:
  assumes "waker_step env sid c c'" "armed sid c" "sid < in_next_slot (cn_inner c)"
  shows "armed sid c'"
proof (cases "in_notified (cn_inner c) sid")
  case True
  with assms(1) show ?thesis by (simp add: waker_step_def armed_def)
next
  case False
  from assms(1) have "other_step env sid c c'" by (simp add: waker_step_def)
  then show ?thesis using False assms(2,3)
  proof cases
    case (step_dispatch parks es)
    have "armed sid (c\<lparr>cn_shm := w\<rparr>)" for w using assms(2) by (simp add: armed_def)
    with step_dispatch show ?thesis
      by (auto simp: dispatch_turn_def Let_def split: option.splits intro!: armed_route)
  next
    case (step_register k i)
    then have "c' = snd (register_pending k c)" by simp
    with False assms(2,3) show ?thesis by (simp add: armed_def)
  qed (auto simp: armed_def install_transport_def)
qed

lemma waker_steps:
  assumes "(waker_step env sid)\<^sup>*\<^sup>* c c'" "slot_ok env corr sid c"
  shows "slot_ok env corr sid c'" and "armed sid c \<Longrightarrow> armed sid c'"
proof -
  have "slot_ok env corr sid c' \<and> (armed sid c \<longrightarrow> armed sid c')"
    using assms
  proof (induction rule: rtranclp_induct)
    case (step c1 c2)
    then have ok: "slot_ok env corr sid c1" "armed sid c \<longrightarrow> armed sid c1" by auto
    then have "slot_ok env corr sid c2" using step.hyps slot_ok_step by (auto simp: waker_step_def)
    moreover have "sid < in_next_slot (cn_inner c1)" using ok by (simp add: slot_ok_def)
    ultimately show ?case using armed_step [OF step.hyps(2)] ok by blast
  qed simp
  then show "slot_ok env corr sid c'" "armed sid c \<Longrightarrow> armed sid c'" by blast+
qed

lemma poll_ready:
  "sl_frame (slots_of c (cf_slot fut)) = Some f \<Longrightarrow>
     call_future_poll env from_v fut w c =
       (Some (decode_response env from_v fut f), upd_slot (cf_slot fut) ((slots_of c (cf_slot fut))\<lparr>sl_frame := None\<rparr>) c)"
  by (simp add: call_future_poll_def slot_poll_def)

lemma poll_pending:
  assumes "sl_frame (slots_of c (cf_slot fut)) = None"
  obtains c1 where "call_future_poll env from_v fut (cf_slot fut) c = (None, c1)" "armed (cf_slot fut) c1"
    "slot_ok env corr (cf_slot fut) c \<Longrightarrow> slot_ok env corr (cf_slot fut) c1"
proof
  let ?c1 = "upd_slot (cf_slot fut) ((slots_of c (cf_slot fut))\<lparr>sl_waker := Some (cf_slot fut)\<rparr>) c"
  show "call_future_poll env from_v fut (cf_slot fut) c = (None, ?c1)"
    using assms by (simp add: call_future_poll_def slot_poll_def)
  show "armed (cf_slot fut) ?c1" using assms by (simp add: armed_def)
  show "slot_ok env corr (cf_slot fut) c \<Longrightarrow> slot_ok env corr (cf_slot fut) ?c1" by (erule slot_ok_mono) simp_all
qed

lemma set_notified_simps [simp]:
  "cn_inner (set_notified i b c) = (cn_inner c)\<lparr>in_notified := (in_notified (cn_inner c))(i := b)\<rparr>"
  "cn_shm (set_notified i b c) = cn_shm c"
  by (simp_all add: set_notified_def)

lemma set_notified_ok [simp]: "slot_ok env corr sid (set_notified i b c) = slot_ok env corr sid c"
  by (rule slot_ok_cong) simp_all

text \<open>The events of a wait during which the others behave.\<close>

definition fair_events :: "'sc client_env \<Rightarrow> nat \<Rightarrow> wait_event list \<Rightarrow> bool" where
  "fair_events env sid evs \<longleftrightarrow>
     (\<forall>ev \<in> set evs. \<forall>c. (waker_step env sid)\<^sup>*\<^sup>* c (we_before ev c) \<and> (waker_step env sid)\<^sup>*\<^sup>* c (we_park ev c))"

lemma block_on_loop_done:
  assumes "slot_ok env corr (cf_slot fut) c" "fair_events env (cf_slot fut) evs" "\<exists>ev \<in> set evs. we_expired ev"
  shows "\<exists>v c'. block_on_loop env from_v fut evs c = Some (v, c') \<and> slot_ok env corr (cf_slot fut) c' \<and>
    (\<forall>r. v = Some r \<longrightarrow> (\<exists>f. correlation_id (ce_lib env) (ce_cat env) f = Inr corr \<and> r = decode_response env from_v fut f))"
  using assms
proof (induction evs arbitrary: c)
  case (Cons ev evs)
  let ?sid = "cf_slot fut"
  show ?case
  proof (cases "sl_frame (slots_of c ?sid)")
    case (Some f)
    with Cons.prems(1) show ?thesis
      by (subst block_on_loop.simps) (auto simp: poll_ready slot_ok_def)
  next
    case None
    obtain c1 where c1: "call_future_poll env from_v fut ?sid c = (None, c1)"
      and ok1: "slot_ok env corr ?sid c1"
      using poll_pending [OF None] Cons.prems(1) by metis
    let ?c3 = "set_notified ?sid False (we_before ev c1)"
    let ?c4 = "if in_notified (cn_inner (we_before ev c1)) ?sid then ?c3 else we_park ev ?c3"
    have st: "(waker_step env ?sid)\<^sup>*\<^sup>* c1 (we_before ev c1)" "(waker_step env ?sid)\<^sup>*\<^sup>* ?c3 (we_park ev ?c3)"
      using Cons.prems(2) by (auto simp: fair_events_def)
    have "slot_ok env corr ?sid ?c3" using waker_steps(1) [OF st(1) ok1] by simp
    then have ok4: "slot_ok env corr ?sid ?c4" using waker_steps(1) [OF st(2)] by simp
    show ?thesis
    proof (cases "we_expired ev")
      case True
      with c1 ok1 show ?thesis by (subst block_on_loop.simps) simp
    next
      case False
      then have "block_on_loop env from_v fut (ev # evs) c = block_on_loop env from_v fut evs ?c4"
        using c1 by (subst block_on_loop.simps) (simp add: Let_def)
      moreover have "fair_events env ?sid evs" "\<exists>ev \<in> set evs. we_expired ev"
        using Cons.prems(2,3) False by (auto simp: fair_events_def)
      ultimately show ?thesis using Cons.IH [OF ok4] by simp
    qed
  qed
qed simp

text \<open>
  C25: waiting for an answer ends, and never on somebody else's: whatever the other threads of the
  connection do, once the deadline is over \<^verbatim>\<open>block_on\<close> has returned the decoded answer that carries
  the call's own correlation id, or nothing; and nobody waits on the call's slot any more, so a call
  that is never answered leaves no entry behind.
\<close>

theorem block_on_returns:
  assumes "slot_ok env (cf_corr fut) (cf_slot fut) c" "fair_events env (cf_slot fut) evs"
    and "\<exists>ev \<in> set evs. we_expired ev"
  shows "\<exists>v c'. block_on env from_v fut evs c = Some (v, c') \<and>
    (\<forall>k. pending_of c' k \<noteq> Some (cf_slot fut)) \<and>
    (\<forall>r. v = Some r \<longrightarrow>
       (\<exists>f. correlation_id (ce_lib env) (ce_cat env) f = Inr (cf_corr fut) \<and> r = decode_response env from_v fut f))"
proof -
  have "slot_ok env (cf_corr fut) (cf_slot fut) (set_notified (cf_slot fut) False c)" using assms(1) by simp
  then obtain v c1 where "block_on_loop env from_v fut evs (set_notified (cf_slot fut) False c) = Some (v, c1)"
    "slot_ok env (cf_corr fut) (cf_slot fut) c1"
    "\<forall>r. v = Some r \<longrightarrow>
       (\<exists>f. correlation_id (ce_lib env) (ce_cat env) f = Inr (cf_corr fut) \<and> r = decode_response env from_v fut f)"
    using block_on_loop_done [OF _ assms(2,3)] by blast
  then show ?thesis by (auto simp: block_on_def call_future_drop_def slot_ok_def)
qed

text \<open>
  C22: no wake-up is lost. When the answer arrives after the future was polled and before the thread
  parks, the thread does not park: the wait returns the answer at once, whatever happens
  to a parked thread afterwards. The waker's flag, set by the dispatcher and read in one
  step, is what makes up for the unlocked moment in between.
\<close>

theorem no_lost_wakeup:
  assumes "slot_ok env corr (cf_slot fut) c" "sl_frame (slots_of c (cf_slot fut)) = None"
    and "\<not> we_expired ev"
    and "call_future_poll env from_v fut (cf_slot fut) c = (None, c1)"
    and "(waker_step env (cf_slot fut))\<^sup>*\<^sup>* c1 (we_before ev c1)"
    and "sl_frame (slots_of (we_before ev c1) (cf_slot fut)) = Some f"
  shows "\<exists>c'. block_on_loop env from_v fut (ev # evs) c = Some (Some (decode_response env from_v fut f), c')"
proof -
  obtain c1' where "call_future_poll env from_v fut (cf_slot fut) c = (None, c1')" "armed (cf_slot fut) c1'"
    "slot_ok env corr (cf_slot fut) c1'"
    using poll_pending [OF assms(2)] assms(1) by metis
  then have "armed (cf_slot fut) (we_before ev c1)"
    using waker_steps(2) [OF assms(5)] assms(4) by simp
  with assms(6) have n: "in_notified (cn_inner (we_before ev c1)) (cf_slot fut)" by (simp add: armed_def)
  have "block_on_loop env from_v fut (ev # evs) c =
      block_on_loop env from_v fut evs (set_notified (cf_slot fut) False (we_before ev c1))"
    using assms(3,4) n by (subst block_on_loop.simps) (simp add: Let_def)
  then show ?thesis using assms(6) by (subst (asm) (2) block_on_loop.simps) (simp add: poll_ready)
qed

theorem block_on_returns_witness:
  "\<exists>v c'. block_on demo_cenv (unregister_from_value proto_lib) (call_future_new 0 2 12 77)
       [\<lparr>we_expired = True, we_before = id, we_park = id\<rparr>] (snd (register_pending 77 demo_conn)) = Some (v, c') \<and>
     (\<forall>k. pending_of c' k \<noteq> Some 0)"
proof -
  have "slot_ok demo_cenv 77 0 (snd (register_pending 77 demo_conn))"
    using register_slot_ok [OF demo_conn_facts(7), of demo_cenv 77] demo_conn_facts(8) by simp
  moreover have "fair_events demo_cenv 0 [\<lparr>we_expired = True, we_before = id, we_park = id\<rparr>]"
    by (simp add: fair_events_def)
  ultimately show ?thesis
    using block_on_returns [of demo_cenv "call_future_new 0 2 12 77" "snd (register_pending 77 demo_conn)"
        "[\<lparr>we_expired = True, we_before = id, we_park = id\<rparr>]" "unregister_from_value proto_lib"]
    by (auto simp: call_future_new_def)
qed

text \<open>The dispatcher brings the reply at the head of the ring to the slot that waits for it.\<close>

lemma dispatch_delivers:
  assumes ring: "ring_idle r (ring_mem r (cn_shm c))" "r = tp_reply_ring (in_transport (cn_inner c))"
      "ring_list r (ring_mem r (cn_shm c)) = frame_encode f # q"
    and f: "frame_ok f" "correlation_id (ce_lib env) (ce_cat env) f = Inr corr"
    and pending: "pending_of c corr = Some sid"
  shows "\<exists>c' m. dispatch_turn env 0 [] c = Some c' \<and> sl_frame (slots_of c' sid) = Some f \<and>
    (\<forall>w. in_notified (cn_inner c) w \<longrightarrow> in_notified (cn_inner c') w) \<and>
    cn_shm c' = set_ring_mem r m (cn_shm c) \<and> ring_idle r m \<and> ring_list r m = q"
proof -
  obtain m where d: "dispatch_turn env 0 [] c = Some (route_frame env (frame_encode f) (c\<lparr>cn_shm := set_ring_mem r m (cn_shm c)\<rparr>))"
    "ring_idle r m" "ring_list r m = q"
    using dispatch_turn_done [OF ring(1,2) _ _ ring(3), of "[]" 0] by auto
  have "routed env (frame_encode f) (c\<lparr>cn_shm := set_ring_mem r m (cn_shm c)\<rparr>) = Some (corr, f, sid)"
    using fc.dec_enc [OF f(1)] f(2) pending by (simp add: routed_def)
  with d show ?thesis
    by (intro exI [of _ "route_frame env (frame_encode f) (c\<lparr>cn_shm := set_ring_mem r m (cn_shm c)\<rparr>)"] exI [of _ m])
      (auto simp: route_frame_routed complete_slot_def slot_complete_def Let_def split: option.split)
qed

text \<open>An answer on the reply ring of the demonstration's connection, on which call 77 waits.\<close>

definition demo_response :: rpc_response where
  "demo_response = \<lparr>rs_correlation_id = 77, rs_status = 0, rs_message = [], rs_result_fp = fp_to_i64 (sv_resp_fp demo_service),
     rs_result = ref_enc (unregister_to_value \<lparr>unreg_correlation_id = 5, unreg_client_id = 9\<rparr>)\<rparr>"

lemma demo_response_frame:
  obtains f where "to_frame proto_lib proto_cat rpc_response_to_value RpcResponse demo_response = Inr f"
    "from_frame proto_lib proto_cat rpc_response_from_value RpcResponse f = Inr demo_response"
    "correlation_id proto_lib proto_cat f = Inr 77" "length (frame_body f) \<le> 100"
proof -
  have ty: "has_type (kind_type RpcResponse) (rpc_response_to_value demo_response)"
    using sint_range [of "sv_resp_fp demo_service"]
    by (simp add: demo_response_def kind_type_def rpc_response_to_value_def unregister_to_value_def fp_to_i64_def)
  show ?thesis
  proof (rule response_frame [OF proto_lib_laws proto_cat_build proto_lib_distinct ty])
    fix f assume f: "to_frame proto_lib proto_cat rpc_response_to_value RpcResponse demo_response = Inr f"
      "from_frame proto_lib proto_cat rpc_response_from_value RpcResponse f = Inr demo_response"
      "correlation_id proto_lib proto_cat f = Inr (rs_correlation_id demo_response)"
    have "length (frame_body f) \<le> 100"
      using proto_frame_body [OF f(1)]
      by (simp add: demo_response_def rpc_response_to_value_def unregister_to_value_def)
    with f that show thesis by (simp add: demo_response_def)
  qed
qed

lemma demo_reply_cap: "2 ^ 18 \<le> ring_cap (tp_reply_ring demo_tp)"
  using demo_bootstrap bootstrap_capacity [of demo_cenv 0 0 demo_world] clamp_range(1) [of REPLY_CAP]
  by (auto simp: demo_tp_def)

theorem no_lost_wakeup_witness:
  "\<exists>ev c c' fut. \<not> we_expired ev \<and> sl_frame (slots_of c 0) = None \<and>
     block_on_loop demo_cenv (unregister_from_value proto_lib) fut [ev] c =
       Some (Some (Inr \<lparr>unreg_correlation_id = 5, unreg_client_id = 9\<rparr>), c')"
proof -
  let ?r = "tp_reply_ring demo_tp" and ?fut = "call_future_new 0 (sv_resp_schema demo_service) (sv_resp_fp demo_service) 77"
  let ?from = "unregister_from_value proto_lib"
  obtain f where f: "from_frame proto_lib proto_cat rpc_response_from_value RpcResponse f = Inr demo_response"
    "correlation_id proto_lib proto_cat f = Inr 77" "length (frame_body f) \<le> 100"
    by (rule demo_response_frame)
  have env: "ce_lib demo_cenv = proto_lib" "ce_cat demo_cenv = proto_cat" by (simp_all add: demo_cenv_def)
  obtain m where m: "ring_idle ?r m" "ring_list ?r m = [frame_encode f]"
    using push_ring_now [OF demo_conn_facts(5,6) refl, of "frame_encode f"] demo_reply_cap f(3)
    by (auto simp: FRAME_HEADER_def)
  define c where "c = snd (register_pending 77 demo_conn)\<lparr>cn_shm := set_ring_mem ?r m (cn_shm demo_conn)\<rparr>"
  have ok: "slot_ok demo_cenv 77 (cf_slot ?fut) c"
    using register_slot_ok [OF demo_conn_facts(7), of demo_cenv 77] demo_conn_facts(8)
    by (subst slot_ok_cong [of c "snd (register_pending 77 demo_conn)"]) (simp_all add: c_def call_future_new_def)
  have none: "sl_frame (slots_of c (cf_slot ?fut)) = None"
    by (simp add: c_def call_future_new_def slot_new_def demo_conn_facts(8))
  define c1 where "c1 = upd_slot (cf_slot ?fut) ((slots_of c (cf_slot ?fut))\<lparr>sl_waker := Some (cf_slot ?fut)\<rparr>) c"
  have p: "call_future_poll demo_cenv ?from ?fut (cf_slot ?fut) c = (None, c1)"
    using none by (simp add: call_future_poll_def slot_poll_def c1_def)
  have c1: "cn_shm c1 = set_ring_mem ?r m (cn_shm demo_conn)" "tp_reply_ring (in_transport (cn_inner c1)) = ?r"
    "pending_of c1 77 = Some (cf_slot ?fut)"
    by (simp_all add: c1_def c_def demo_conn_tp demo_conn_facts(8) call_future_new_def)
  have m1: "ring_idle ?r (ring_mem ?r (cn_shm c1))" "ring_list ?r (ring_mem ?r (cn_shm c1)) = [frame_encode f]"
    using m c1(1) by simp_all
  have "frame_ok f" using f(3) by (simp add: frame_ok_def)
  then obtain c2 where c2: "dispatch_turn demo_cenv 0 [] c1 = Some c2" "sl_frame (slots_of c2 (cf_slot ?fut)) = Some f"
    "\<forall>w. in_notified (cn_inner c1) w \<longrightarrow> in_notified (cn_inner c2) w"
    using dispatch_delivers [OF m1(1) c1(2) [symmetric] m1(2) _ _ c1(3), of demo_cenv] f(2) unfolding env by blast
  let ?ev = "\<lparr>we_expired = False, we_before = (\<lambda>_. c2), we_park = id\<rparr>"
  have "waker_step demo_cenv (cf_slot ?fut) c1 c2"
    using c2 other_step.step_dispatch [OF c2(1)] by (simp add: waker_step_def)
  then obtain c' where "block_on_loop demo_cenv ?from ?fut [?ev] c = Some (Some (decode_response demo_cenv ?from ?fut f), c')"
    using no_lost_wakeup [OF ok none _ p, of ?ev f "[]"] c2(2) by auto
  moreover have "decode_response demo_cenv ?from ?fut f = Inr \<lparr>unreg_correlation_id = 5, unreg_client_id = 9\<rparr>"
    using decode_answer [of demo_cenv "kind_type Heartbeat" demo_service "kind_type Unregister" unregister_to_value
        heartbeat_to_value demo_beat "demo_request demo_beat" ?from ?fut f]
      demo_service_schemas demo_values demo_request_for [of demo_beat] f(1)
    by (simp add: env demo_service_laws call_future_new_def demo_answer demo_request_def demo_response_def)
  ultimately show ?thesis using none
    by (intro exI [of _ ?ev] exI [of _ c] exI [of _ c'] exI [of _ ?fut]) (simp add: call_future_new_def)
qed

end
