(* ===== verification/Ring_Pool.thy ===== *)
theory Ring_Pool
  imports Ring_Rpc "HOL-Library.Multiset"
begin

text \<open>
  The worker pool behind an exposed function (\<^verbatim>\<open>Pool\<close> of \<^verbatim>\<open>crates/connector/src/rpc.rs\<close>), as a
  transition system: the reader thread submits jobs, workers take them from the queue under its lock,
  count themselves idle while they wait, serve, and exit when the connection stops. Every action
  on the queue or on the counters is one step, so all interleavings of the threads are covered. A
  wait on the condition variable may end at any time (it has a timeout, and may
  wake spuriously), so a notification enables no step that was not there before.
\<close>

section \<open>Threads\<close>

text \<open>
  Where a worker is in \<^verbatim>\<open>Pool::work\<close>: before the queue's lock; holding it, about to look; holding
  it, having seen the queue empty and the flag set; holding it, counted as idle; waiting; woken and
  holding the lock again, still counted; serving a job; leaving; gone.
\<close>

datatype 'j worker =
    Starting | Looking | FoundEmpty | Parking | Waiting | Woken | Serving 'j | Leaving | Gone

text \<open>Where the reader is in \<^verbatim>\<open>Pool::submit\<close>: outside, queue pushed, spawning, about to notify.\<close>

datatype submitter = Outside | Pushed | Spawning | Notifying

text \<open>The last three fields record the history: jobs submitted, started and answered, in order.\<close>

record 'j pool =
  po_queue :: "'j list"
  po_lock :: "nat option"
  po_workers :: nat
  po_idle :: nat
  po_max :: nat
  po_running :: bool
  po_threads :: "'j worker list"
  po_submitter :: submitter
  po_submitted :: "'j list"
  po_started :: "'j list"
  po_answered :: "'j list"

definition pool_new :: "usize \<Rightarrow> 'j pool" where
  "pool_new max_workers =
     \<lparr>po_queue = [], po_lock = None, po_workers = 0, po_idle = 0, po_max = max max_workers 1,
      po_running = True, po_threads = [], po_submitter = Outside,
      po_submitted = [], po_started = [], po_answered = []\<rparr>"

section \<open>Steps\<close>

text \<open>The system always gives the pool the thread it asks for: \<^verbatim>\<open>thread::spawn\<close> panics when it cannot, which is left out.\<close>

definition set_thread :: "nat \<Rightarrow> 'j worker \<Rightarrow> 'j pool \<Rightarrow> 'j pool" where
  "set_thread i t s = s\<lparr>po_threads := (po_threads s)[i := t]\<rparr>"

definition thread_at :: "'j pool \<Rightarrow> nat \<Rightarrow> 'j worker \<Rightarrow> bool" where
  "thread_at s i t \<longleftrightarrow> i < length (po_threads s) \<and> po_threads s ! i = t"

inductive submit_step :: "'j pool \<Rightarrow> 'j pool \<Rightarrow> bool" where
  submit_push: "po_submitter s = Outside \<Longrightarrow> po_lock s = None \<Longrightarrow>
    submit_step s (s\<lparr>po_queue := po_queue s @ [j], po_submitted := po_submitted s @ [j], po_submitter := Pushed\<rparr>)"
| submit_grow: "po_submitter s = Pushed \<Longrightarrow> po_idle s = 0 \<Longrightarrow> po_workers s < po_max s \<Longrightarrow>
    submit_step s (s\<lparr>po_workers := po_workers s + 1, po_submitter := Spawning\<rparr>)"
| submit_keep: "po_submitter s = Pushed \<Longrightarrow> \<not> (po_idle s = 0 \<and> po_workers s < po_max s) \<Longrightarrow>
    submit_step s (s\<lparr>po_submitter := Notifying\<rparr>)"
| submit_spawn: "po_submitter s = Spawning \<Longrightarrow>
    submit_step s (s\<lparr>po_threads := po_threads s @ [Starting], po_submitter := Notifying\<rparr>)"
| submit_notify: "po_submitter s = Notifying \<Longrightarrow> submit_step s (s\<lparr>po_submitter := Outside\<rparr>)"

inductive work_step :: "nat \<Rightarrow> 'j pool \<Rightarrow> 'j pool \<Rightarrow> bool" for i :: nat where
  work_lock: "thread_at s i Starting \<Longrightarrow> po_lock s = None \<Longrightarrow>
    work_step i s (set_thread i Looking (s\<lparr>po_lock := Some i\<rparr>))"
| work_take: "thread_at s i Looking \<Longrightarrow> po_queue s = j # q \<Longrightarrow>
    work_step i s (set_thread i (Serving j) (s\<lparr>po_queue := q, po_lock := None, po_started := po_started s @ [j]\<rparr>))"
| work_stop: "thread_at s i Looking \<Longrightarrow> po_queue s = [] \<Longrightarrow> \<not> po_running s \<Longrightarrow>
    work_step i s (set_thread i Leaving (s\<lparr>po_lock := None\<rparr>))"
| work_empty: "thread_at s i Looking \<Longrightarrow> po_queue s = [] \<Longrightarrow> po_running s \<Longrightarrow>
    work_step i s (set_thread i FoundEmpty s)"
| work_idle: "thread_at s i FoundEmpty \<Longrightarrow>
    work_step i s (set_thread i Parking (s\<lparr>po_idle := po_idle s + 1\<rparr>))"
| work_wait: "thread_at s i Parking \<Longrightarrow> work_step i s (set_thread i Waiting (s\<lparr>po_lock := None\<rparr>))"
| work_wake: "thread_at s i Waiting \<Longrightarrow> po_lock s = None \<Longrightarrow>
    work_step i s (set_thread i Woken (s\<lparr>po_lock := Some i\<rparr>))"
| work_busy: "thread_at s i Woken \<Longrightarrow>
    work_step i s (set_thread i Looking (s\<lparr>po_idle := usize_sub (po_idle s) 1\<rparr>))"
| work_served: "thread_at s i (Serving j) \<Longrightarrow>
    work_step i s (set_thread i Starting (s\<lparr>po_answered := po_answered s @ [j]\<rparr>))"
| work_exit: "thread_at s i Leaving \<Longrightarrow>
    work_step i s (set_thread i Gone (s\<lparr>po_workers := usize_sub (po_workers s) 1\<rparr>))"

text \<open>The connection stops when it is dropped, which clears the flag.\<close>

inductive pool_step :: "'j pool \<Rightarrow> 'j pool \<Rightarrow> bool" where
  step_submit: "submit_step s s' \<Longrightarrow> pool_step s s'"
| step_work: "work_step i s s' \<Longrightarrow> pool_step s s'"
| step_stop: "pool_step s (s\<lparr>po_running := False\<rparr>)"

definition pool_init :: "usize \<Rightarrow> 'j pool \<Rightarrow> bool" where
  "pool_init n s \<longleftrightarrow> n < 2 ^ 64 \<and> s = pool_new n"


section \<open>The invariant\<close>

fun holds_lock :: "'j worker \<Rightarrow> bool" where
  "holds_lock Looking = True" | "holds_lock FoundEmpty = True" | "holds_lock Parking = True"
| "holds_lock Woken = True" | "holds_lock _ = False"

fun idle_weight :: "'j worker \<Rightarrow> nat" where
  "idle_weight Parking = 1" | "idle_weight Waiting = 1" | "idle_weight Woken = 1" | "idle_weight _ = 0"

fun live_weight :: "'j worker \<Rightarrow> nat" where
  "live_weight Gone = 0" | "live_weight _ = 1"

fun jobs_in :: "'j worker \<Rightarrow> 'j multiset" where
  "jobs_in (Serving j) = {#j#}" | "jobs_in _ = {#}"

abbreviation total :: "('j worker \<Rightarrow> 'n::comm_monoid_add) \<Rightarrow> 'j pool \<Rightarrow> 'n" where
  "total f s \<equiv> sum_list (map f (po_threads s))"

definition lock_inv :: "'j pool \<Rightarrow> bool" where
  "lock_inv s \<longleftrightarrow> (\<forall>i. po_lock s = Some i \<longleftrightarrow> i < length (po_threads s) \<and> holds_lock (po_threads s ! i))"

definition count_inv :: "'j pool \<Rightarrow> bool" where
  "count_inv s \<longleftrightarrow> po_max s < 2 ^ 64 \<and> po_workers s \<le> po_max s \<and> po_idle s = total idle_weight s \<and>
     po_workers s = total live_weight s + (if po_submitter s = Spawning then 1 else 0)"

definition job_inv :: "'j pool \<Rightarrow> bool" where
  "job_inv s \<longleftrightarrow> po_started s @ po_queue s = po_submitted s \<and>
     mset (po_started s) = mset (po_answered s) + total jobs_in s"

definition live_inv :: "'j pool \<Rightarrow> bool" where
  "live_inv s \<longleftrightarrow> 0 < po_max s \<and>
     (po_running s \<longrightarrow> Leaving \<notin> set (po_threads s) \<and> Gone \<notin> set (po_threads s) \<and>
        (po_queue s \<noteq> [] \<longrightarrow> po_submitter s \<noteq> Pushed \<longrightarrow> 0 < po_workers s))"

definition pool_inv :: "'j pool \<Rightarrow> bool" where
  "pool_inv s \<longleftrightarrow> lock_inv s \<and> count_inv s \<and> job_inv s \<and> live_inv s"

lemma idle_le_live: "sum_list (map idle_weight ts) \<le> sum_list (map live_weight ts)"
proof (rule sum_list_mono)
  show "idle_weight t \<le> live_weight t" for t :: "'a worker" by (cases t) simp_all
qed

lemma weight_at:
  fixes f :: "'j worker \<Rightarrow> nat"
  shows "thread_at s i t \<Longrightarrow> f t \<le> total f s"
  by (auto simp: thread_at_def intro: member_le_sum_list)

lemma total_set_thread:
  fixes f :: "'j worker \<Rightarrow> 'n::cancel_comm_monoid_add"
  assumes "thread_at s i t"
  shows "sum_list (map f ((po_threads s)[i := u])) + f t = total f s + f u"
  using total_update [of i "po_threads s" f u] assms by (simp add: thread_at_def)

lemma lock_inv_owner: "lock_inv s \<Longrightarrow> thread_at s i t \<Longrightarrow> holds_lock t \<Longrightarrow> po_lock s = Some i"
  by (auto simp: lock_inv_def thread_at_def)

lemma lock_inv_free: "lock_inv s \<Longrightarrow> thread_at s i t \<Longrightarrow> po_lock s = None \<Longrightarrow> \<not> holds_lock t"
  by (auto simp: lock_inv_def thread_at_def)

text \<open>A worker that keeps, takes or gives back the lock.\<close>

lemma lock_inv_thread:
  assumes inv: "lock_inv s" and at: "thread_at s i t"
    and s': "po_threads s' = (po_threads s)[i := u]"
      "po_lock s' = (if holds_lock u then Some i else if holds_lock t then None else po_lock s)"
    and free: "holds_lock u \<Longrightarrow> \<not> holds_lock t \<Longrightarrow> po_lock s = None"
  shows "lock_inv s'"
  unfolding lock_inv_def
proof
  fix j
  have i: "i < length (po_threads s)" "po_threads s ! i = t" using at by (simp_all add: thread_at_def)
  have own: "po_lock s = Some k \<longleftrightarrow> k < length (po_threads s) \<and> holds_lock (po_threads s ! k)" for k
    using inv by (simp add: lock_inv_def)
  have "\<not> (j < length (po_threads s) \<and> holds_lock (po_threads s ! j))" if "j \<noteq> i" "holds_lock u \<or> holds_lock t"
    using own [of i] own [of j] i free that by (metis option.distinct(1) option.inject)
  then show "(po_lock s' = Some j) = (j < length (po_threads s') \<and> holds_lock (po_threads s' ! j))"
    using own [of j] i unfolding s' by (cases "j = i") (simp_all add: nth_list_update)
qed

lemma submit_frame:
  assumes "submit_step s s'"
  shows "po_lock s' = po_lock s" "po_idle s' = po_idle s" "po_max s' = po_max s" "po_running s' = po_running s"
    "po_started s' = po_started s" "po_answered s' = po_answered s"
    "po_threads s' = po_threads s \<or> po_threads s' = po_threads s @ [Starting]"
  using assms by (auto elim: submit_step.cases)

lemma submit_inv:
  assumes "submit_step s s'" "pool_inv s"
  shows "pool_inv s'"
proof -
  from assms(2) have inv: "lock_inv s" "count_inv s" "job_inv s" "live_inv s" by (simp_all add: pool_inv_def)
  have grow: "i < Suc (length ts) \<and> holds_lock ((ts @ [Starting]) ! i) \<longleftrightarrow> i < length ts \<and> holds_lock (ts ! i)"
    for i and ts :: "'a worker list" by (auto simp: nth_append less_Suc_eq)
  have "lock_inv s'"
    using submit_frame(7) [OF assms(1)] inv(1) submit_frame(1) [OF assms(1)]
    by (elim disjE) (simp_all add: lock_inv_def grow)
  moreover have "count_inv s'" using assms(1) inv(2) by cases (simp_all add: count_inv_def)
  moreover have "job_inv s'" using assms(1) inv(3) by cases (simp_all add: job_inv_def)
  moreover have "live_inv s'"
  proof -
    have "0 < po_workers s" if "po_idle s \<noteq> 0"
      using that inv(2) idle_le_live [of "po_threads s"] by (simp add: count_inv_def)
    with assms(1) inv(4) show ?thesis by cases (auto simp: live_inv_def)
  qed
  ultimately show ?thesis by (simp add: pool_inv_def)
qed


lemma set_thread_simps [simp]:
  "po_threads (set_thread i t s) = (po_threads s)[i := t]" "po_queue (set_thread i t s) = po_queue s"
  "po_lock (set_thread i t s) = po_lock s" "po_workers (set_thread i t s) = po_workers s"
  "po_idle (set_thread i t s) = po_idle s" "po_max (set_thread i t s) = po_max s"
  "po_running (set_thread i t s) = po_running s" "po_submitter (set_thread i t s) = po_submitter s"
  "po_submitted (set_thread i t s) = po_submitted s" "po_started (set_thread i t s) = po_started s"
  "po_answered (set_thread i t s) = po_answered s"
  by (simp_all add: set_thread_def)

lemma work_lock_inv:
  assumes "work_step i s s'" "lock_inv s"
  shows "lock_inv s'"
  using assms(1)
  by cases (rule lock_inv_thread [OF assms(2)], assumption, simp, simp add: lock_inv_owner [OF assms(2)], simp)+

lemma count_inv_thread:
  assumes "count_inv s" and at: "thread_at s i t"
    and s': "po_threads s' = (po_threads s)[i := u]" "po_max s' = po_max s" "po_submitter s' = po_submitter s"
      "po_idle s' + idle_weight t = po_idle s + idle_weight u" "po_workers s' + live_weight t = po_workers s + live_weight u"
    and "live_weight u \<le> live_weight t"
  shows "count_inv s'"
  using assms(1) s' assms(8) total_set_thread [OF at, of idle_weight u] total_set_thread [OF at, of live_weight u]
  unfolding count_inv_def by (auto split: if_splits)

lemma count_inv_at:
  assumes "count_inv s" "thread_at s i t"
  shows "idle_weight t = 1 \<Longrightarrow> Suc (usize_sub (po_idle s) (Suc 0)) = po_idle s"
    and "live_weight t = 1 \<Longrightarrow> Suc (usize_sub (po_workers s) (Suc 0)) = po_workers s"
  using assms(1) weight_at [OF assms(2), of idle_weight] weight_at [OF assms(2), of live_weight] idle_le_live [of "po_threads s"]
  by (simp_all add: count_inv_def usize_sub_ge)

lemma work_count_inv:
  assumes "work_step i s s'" "count_inv s"
  shows "count_inv s'"
  using assms(1)
  by cases (rule count_inv_thread [OF assms(2)], assumption, simp, simp, simp,
      simp add: count_inv_at [OF assms(2)], simp add: count_inv_at [OF assms(2)], simp)+

lemma work_job_inv:
  assumes "work_step i s s'" "job_inv s"
  shows "job_inv s'"
  using assms(1)
proof cases
  case (work_take j q)
  with assms(2) total_set_thread [OF work_take(2), of jobs_in "Serving j"] show ?thesis by (simp add: job_inv_def)
next
  case (work_served j)
  with assms(2) total_set_thread [OF work_served(2), of jobs_in Starting] show ?thesis by (simp add: job_inv_def)
qed (use assms(2) total_set_thread [of s i _ jobs_in] in \<open>fastforce simp: job_inv_def\<close>)+

lemma work_live_inv:
  assumes "work_step i s s'" "live_inv s" "count_inv s"
  shows "live_inv s'"
proof -
  have up: "set ((po_threads s)[i := t]) \<subseteq> insert t (set (po_threads s))" for t by (rule set_update_subset_insert)
  have at: "thread_at s i t \<Longrightarrow> t \<in> set (po_threads s)" for t by (auto simp: thread_at_def)
  show ?thesis using assms(1)
    by cases (use assms(2) up at in \<open>auto simp: live_inv_def\<close>)
qed

lemma pool_step_inv: "pool_step s s' \<Longrightarrow> pool_inv s \<Longrightarrow> pool_inv s'"
proof (induction rule: pool_step.induct)
  case (step_submit s s')
  then show ?case using submit_inv by blast
next
  case (step_work i s s')
  then show ?case
    using work_lock_inv work_count_inv work_job_inv work_live_inv by (auto simp: pool_inv_def)
next
  case (step_stop s)
  then show ?case by (simp add: pool_inv_def lock_inv_def count_inv_def job_inv_def live_inv_def)
qed

lemma pool_inv_new: "n < 2 ^ 64 \<Longrightarrow> pool_inv (pool_new n)"
  by (simp add: pool_new_def pool_inv_def lock_inv_def count_inv_def job_inv_def live_inv_def)

interpretation po: invariant_system "pool_init n" pool_step pool_inv for n
proof
  show "pool_init n s \<Longrightarrow> pool_inv s" for s :: "'a pool" by (auto simp: pool_init_def intro: pool_inv_new)
  show "pool_inv s \<Longrightarrow> pool_step s t \<Longrightarrow> pool_inv t" for s t :: "'a pool" by (rule pool_step_inv)
qed


section \<open>What the pool guarantees\<close>

lemma pool_max_step: "pool_step s s' \<Longrightarrow> po_max s' = po_max s"
  by (auto elim!: pool_step.cases submit_step.cases work_step.cases)

lemma pool_max_reach: "reach (pool_init n) pool_step s \<Longrightarrow> po_max s = max n 1"
  by (induction rule: reach.induct) (auto simp: pool_init_def pool_new_def dest: pool_max_step)

text \<open>
  C15: the pool never runs more threads than its bound, and never loses, repeats or reorders a job:
  in every state its threads can reach, the counters are the numbers of live and of idle
  workers, at most the bound (at least one) of them live, the jobs started and those still in the queue
  are the jobs submitted, in order, and each job started has been answered or is in the hands of
  exactly one worker.
\<close>

theorem pool_jobs_kept:
  assumes "reach (pool_init n) pool_step s"
  shows "po_workers s \<le> max n 1 \<and> po_idle s = total idle_weight s \<and>
    po_workers s = total live_weight s + (if po_submitter s = Spawning then 1 else 0) \<and>
    po_started s @ po_queue s = po_submitted s \<and>
    mset (po_started s) = mset (po_answered s) + total jobs_in s"
  using po.inv_reach [OF assms] pool_max_reach [OF assms]
  by (simp add: pool_inv_def count_inv_def job_inv_def)

abbreviation some_work :: "'j pool \<Rightarrow> 'j pool \<Rightarrow> bool" where
  "some_work s s' \<equiv> \<exists>i. work_step i s s'"

text \<open>The workers alone can start the oldest job of the queue.\<close>

definition starts_next :: "'j pool \<Rightarrow> bool" where
  "starts_next s \<longleftrightarrow> (\<exists>s'. some_work\<^sup>*\<^sup>* s s' \<and> po_started s' = po_started s @ [hd (po_queue s)] \<and>
     po_submitted s' = po_submitted s)"

lemma starts_next_step:
  assumes "work_step i s s1" "po_started s1 = po_started s" "po_queue s1 = po_queue s"
    "po_submitted s1 = po_submitted s" "starts_next s1"
  shows "starts_next s"
proof -
  from assms(1) have "some_work s s1" by blast
  then show ?thesis
    using assms(2-5) converse_rtranclp_into_rtranclp [of some_work s s1] unfolding starts_next_def by metis
qed

lemma thread_at_set [simp]:
  "thread_at (set_thread i t s) i t \<longleftrightarrow> i < length (po_threads s)"
  by (auto simp: thread_at_def)

lemma thread_at_bound: "thread_at s i t \<Longrightarrow> i < length (po_threads s)"
  by (simp add: thread_at_def)

lemma starts_next_cases:
  assumes q: "po_queue s = j # q"
  shows "thread_at s i Looking \<Longrightarrow> starts_next s"
    and "thread_at s i Woken \<Longrightarrow> starts_next s"
    and "thread_at s i Starting \<Longrightarrow> po_lock s = None \<Longrightarrow> starts_next s"
    and "thread_at s i Waiting \<Longrightarrow> po_lock s = None \<Longrightarrow> starts_next s"
    and "thread_at s i Parking \<Longrightarrow> starts_next s"
    and "thread_at s i FoundEmpty \<Longrightarrow> starts_next s"
    and "thread_at s i (Serving k) \<Longrightarrow> po_lock s = None \<Longrightarrow> starts_next s"
proof -
  have look: "starts_next s" if "thread_at s i Looking" "po_queue s = j # q" for s
  proof -
    let ?s = "set_thread i (Serving j) (s\<lparr>po_queue := q, po_lock := None, po_started := po_started s @ [j]\<rparr>)"
    have "some_work\<^sup>*\<^sup>* s ?s" using work_take [OF that] by blast
    then show ?thesis unfolding starts_next_def using that(2) by (intro exI [of _ ?s]) simp
  qed
  have woken: "starts_next s" if "thread_at s i Woken" "po_queue s = j # q" for s
    using that by (intro starts_next_step [OF work_busy [OF that(1)]] look) (simp_all add: thread_at_bound)
  have starting: "starts_next s" if "thread_at s i Starting" "po_queue s = j # q" "po_lock s = None" for s
    using that by (intro starts_next_step [OF work_lock [OF that(1,3)]] look) (simp_all add: thread_at_bound)
  have waiting: "starts_next s" if "thread_at s i Waiting" "po_queue s = j # q" "po_lock s = None" for s
    using that by (intro starts_next_step [OF work_wake [OF that(1,3)]] woken) (simp_all add: thread_at_bound)
  have parking: "starts_next s" if "thread_at s i Parking" "po_queue s = j # q" for s
    using that by (intro starts_next_step [OF work_wait [OF that(1)]] waiting) (simp_all add: thread_at_bound)
  have empty: "starts_next s" if "thread_at s i FoundEmpty" "po_queue s = j # q" for s
    using that by (intro starts_next_step [OF work_idle [OF that(1)]] parking) (simp_all add: thread_at_bound)
  have serving: "starts_next s" if "thread_at s i (Serving k)" "po_queue s = j # q" "po_lock s = None" for s
    using that by (intro starts_next_step [OF work_served [OF that(1)]] starting) (simp_all add: thread_at_bound)
  show "thread_at s i Looking \<Longrightarrow> starts_next s" "thread_at s i Woken \<Longrightarrow> starts_next s"
    "thread_at s i Starting \<Longrightarrow> po_lock s = None \<Longrightarrow> starts_next s"
    "thread_at s i Waiting \<Longrightarrow> po_lock s = None \<Longrightarrow> starts_next s" "thread_at s i Parking \<Longrightarrow> starts_next s"
    "thread_at s i FoundEmpty \<Longrightarrow> starts_next s" "thread_at s i (Serving k) \<Longrightarrow> po_lock s = None \<Longrightarrow> starts_next s"
    using q look woken starting waiting parking empty serving by blast+
qed


text \<open>
  C19: no job is stranded. While the connection runs, in every state the threads can reach in which
  the reader is between two submissions and a job is waiting, the workers that exist can, by steps
  of their own, start the oldest job: there is at least one worker, none of them is leaving, and
  the lock is held only by a worker that gives it back or takes the job. Nothing has to be
  submitted or spawned for that, only the handlers at work have to return.
\<close>

theorem pool_not_stranded:
  assumes "reach (pool_init n) pool_step s" "po_running s" "po_submitter s = Outside" "po_queue s = j # q"
  shows "\<exists>s'. some_work\<^sup>*\<^sup>* s s' \<and> po_started s' = po_started s @ [j] \<and> po_submitted s' = po_submitted s"
proof -
  have inv: "lock_inv s" "count_inv s" "live_inv s" using po.inv_reach [OF assms(1)] by (simp_all add: pool_inv_def)
  have "0 < total live_weight s" using inv(2,3) assms(2-4) by (simp add: count_inv_def live_inv_def)
  then have "po_threads s \<noteq> []" by auto
  then have t0: "thread_at s 0 (po_threads s ! 0)" by (simp add: thread_at_def)
  have alive: "t \<noteq> Leaving \<and> t \<noteq> Gone" if "thread_at s i t" for i t
    using that inv(3) assms(2) nth_mem unfolding live_inv_def thread_at_def by metis
  have "starts_next s"
  proof (cases "po_lock s")
    case None
    then show ?thesis
      using starts_next_cases [OF assms(4)] lock_inv_free [OF inv(1) t0] alive [OF t0] t0 by (cases "po_threads s ! 0") auto
  next
    case (Some i)
    then have "thread_at s i (po_threads s ! i)" "holds_lock (po_threads s ! i)"
      using inv(1) by (auto simp: lock_inv_def thread_at_def)
    then show ?thesis using starts_next_cases [OF assms(4)] by (cases "po_threads s ! i") auto
  qed
  then show ?thesis by (simp add: starts_next_def assms(4))
qed

text \<open>
  A pool with one worker that has served \<open>j0\<close> and waits, in the notation of the states that follow:
  queue, lock, idle count, the worker, the reader, and the history.
\<close>

abbreviation one_worker ::
  "usize \<Rightarrow> 'j list \<Rightarrow> nat option \<Rightarrow> nat \<Rightarrow> 'j worker \<Rightarrow> submitter \<Rightarrow> 'j list \<Rightarrow> 'j list \<Rightarrow> 'j list \<Rightarrow> 'j pool" where
  "one_worker n q lk idl t sub subd st an \<equiv>
     \<lparr>po_queue = q, po_lock = lk, po_workers = 1, po_idle = idl, po_max = n, po_running = True,
      po_threads = [t], po_submitter = sub, po_submitted = subd, po_started = st, po_answered = an\<rparr>"

lemma reach_submit: "reach i pool_step s \<Longrightarrow> submit_step s s' \<Longrightarrow> reach i pool_step s'"
  by (blast intro: reach_step step_submit)

lemma reach_work: "reach i pool_step s \<Longrightarrow> work_step k s s' \<Longrightarrow> reach i pool_step s'"
  by (blast intro: reach_step step_work)

lemma reach_waiting:
  assumes "2 \<le> n" "n < 2 ^ 64"
  shows "reach (pool_init n) pool_step (one_worker n [] None 1 Waiting Outside [j0] [j0] [j0])"
proof -
  have 0: "reach (pool_init n) pool_step (pool_new n)" using assms by (simp add: reach_init pool_init_def)
  have 1: "reach (pool_init n) pool_step ((pool_new n)\<lparr>po_queue := [j0], po_submitted := [j0], po_submitter := Pushed\<rparr>)"
    using reach_submit [OF 0 submit_push [of _ j0]] by (simp add: pool_new_def)
  have 2: "reach (pool_init n) pool_step
      ((pool_new n)\<lparr>po_queue := [j0], po_submitted := [j0], po_workers := 1, po_submitter := Spawning\<rparr>)"
    using reach_submit [OF 1 submit_grow] assms by (simp add: pool_new_def)
  have 3: "reach (pool_init n) pool_step (one_worker n [j0] None 0 Starting Notifying [j0] [] [])"
    using reach_submit [OF 2 submit_spawn] assms by (simp add: pool_new_def max_def)
  have 4: "reach (pool_init n) pool_step (one_worker n [j0] None 0 Starting Outside [j0] [] [])"
    using reach_submit [OF 3 submit_notify] by simp
  have 5: "reach (pool_init n) pool_step (one_worker n [j0] (Some 0) 0 Looking Outside [j0] [] [])"
    using reach_work [OF 4 work_lock [of _ 0]] by (simp add: thread_at_def set_thread_def)
  have 6: "reach (pool_init n) pool_step (one_worker n [] None 0 (Serving j0) Outside [j0] [j0] [])"
    using reach_work [OF 5 work_take [of _ 0]] by (simp add: thread_at_def set_thread_def)
  have 7: "reach (pool_init n) pool_step (one_worker n [] None 0 Starting Outside [j0] [j0] [j0])"
    using reach_work [OF 6 work_served [of _ 0 j0]] by (simp add: thread_at_def set_thread_def)
  have 8: "reach (pool_init n) pool_step (one_worker n [] (Some 0) 0 Looking Outside [j0] [j0] [j0])"
    using reach_work [OF 7 work_lock [of _ 0]] by (simp add: thread_at_def set_thread_def)
  have 9: "reach (pool_init n) pool_step (one_worker n [] (Some 0) 0 FoundEmpty Outside [j0] [j0] [j0])"
    using reach_work [OF 8 work_empty [of _ 0]] by (simp add: thread_at_def set_thread_def)
  have 10: "reach (pool_init n) pool_step (one_worker n [] (Some 0) 1 Parking Outside [j0] [j0] [j0])"
    using reach_work [OF 9 work_idle [of _ 0]] by (simp add: thread_at_def set_thread_def)
  show ?thesis using reach_work [OF 10 work_wait [of _ 0]] by (simp add: thread_at_def set_thread_def)
qed

text \<open>Two jobs are submitted before the waiting worker wakes: both times it is still counted as idle.\<close>

lemma reach_stall:
  assumes "2 \<le> n" "n < 2 ^ 64"
  shows "reach (pool_init n) pool_step (one_worker n [j2] None 0 (Serving j1) Outside [j0, j1, j2] [j0, j1] [j0])"
proof -
  let ?s = "\<lambda>q lk i t sub d st. one_worker n q lk i t sub d st [j0]"
  have 1: "reach (pool_init n) pool_step (?s [j1] None 1 Waiting Pushed [j0, j1] [j0])"
    using reach_submit [OF reach_waiting [OF assms] submit_push [of _ j1]] by simp
  have 2: "reach (pool_init n) pool_step (?s [j1] None 1 Waiting Notifying [j0, j1] [j0])"
    using reach_submit [OF 1 submit_keep] by simp
  have 3: "reach (pool_init n) pool_step (?s [j1] None 1 Waiting Outside [j0, j1] [j0])"
    using reach_submit [OF 2 submit_notify] by simp
  have 4: "reach (pool_init n) pool_step (?s [j1, j2] None 1 Waiting Pushed [j0, j1, j2] [j0])"
    using reach_submit [OF 3 submit_push [of _ j2]] by simp
  have 5: "reach (pool_init n) pool_step (?s [j1, j2] None 1 Waiting Notifying [j0, j1, j2] [j0])"
    using reach_submit [OF 4 submit_keep] by simp
  have 6: "reach (pool_init n) pool_step (?s [j1, j2] None 1 Waiting Outside [j0, j1, j2] [j0])"
    using reach_submit [OF 5 submit_notify] by simp
  have 7: "reach (pool_init n) pool_step (?s [j1, j2] (Some 0) 1 Woken Outside [j0, j1, j2] [j0])"
    using reach_work [OF 6 work_wake [of _ 0]] by (simp add: thread_at_def set_thread_def)
  have 8: "reach (pool_init n) pool_step (?s [j1, j2] (Some 0) 0 Looking Outside [j0, j1, j2] [j0])"
    using reach_work [OF 7 work_busy [of _ 0]] by (simp add: thread_at_def set_thread_def usize_sub_def)
  show ?thesis using reach_work [OF 8 work_take [of _ 0]] by (simp add: thread_at_def set_thread_def)
qed

text \<open>
  C37: a finding. A job can be kept waiting by one slow handler although the bound allows more
  workers. When two jobs are submitted before an idle worker wakes, it is counted as idle for both, so
  none is spawned; it then serves the first, and the second stays in the queue with no idle worker and
  fewer workers than the bound. From there the only step a worker can take is the return of the
  handler that is running: until it returns (or somebody submits again) the job is not started, which is
  the behaviour the pool was made to avoid.
\<close>

theorem pool_stall:
  assumes "2 \<le> n" "n < 2 ^ 64"
  shows "\<exists>s. reach (pool_init n) pool_step s \<and> po_running s \<and> po_submitter s = Outside \<and> po_queue s = [j2] \<and>
    po_threads s = [Serving j1] \<and> po_idle s = 0 \<and> po_workers s = 1 \<and> po_max s = n \<and>
    (\<forall>i s'. work_step i s s' \<longrightarrow> po_answered s' = po_answered s @ [j1])"
proof -
  let ?s = "one_worker n [j2] None 0 (Serving j1) Outside [j0, j1, j2] [j0, j1] [j0]"
  have "po_answered s' = po_answered ?s @ [j1]" if "work_step i ?s s'" for i s'
    using that by cases (auto simp: thread_at_def less_Suc_eq)
  then show ?thesis using reach_stall [OF assms, of j2 j1 j0] by (intro exI [of _ ?s]) simp
qed

theorem pool_stall_witness:
  "\<exists>s. reach (pool_init DEFAULT_SERVICE_WORKERS) pool_step s \<and> po_queue s = [''slow''] \<and> po_threads s = [Serving ''poll''] \<and>
     po_workers s < DEFAULT_SERVICE_WORKERS"
  using pool_stall [of DEFAULT_SERVICE_WORKERS "''slow''" "''poll''"] by (auto simp: DEFAULT_SERVICE_WORKERS_def)

theorem pool_jobs_kept_witness:
  "po_started (one_worker 4 [2] None 0 (Serving 1) Outside [0, 1, 2] [0, 1] [0 :: nat]) @ [2] = [0, 1, 2]"
  using pool_jobs_kept [OF reach_stall [of 4 2 1 "0 :: nat"]] by simp

theorem pool_not_stranded_witness:
  "\<exists>s'. some_work\<^sup>*\<^sup>* (one_worker 4 [2] None 0 (Serving 1) Outside [0, 1, 2] [0, 1] [0 :: nat]) s' \<and>
     po_started s' = [0, 1, 2]"
  using pool_not_stranded [OF reach_stall [of 4 2 1 "0 :: nat"]] by fastforce

end
