(* ===== verification/Ring_Connection.thy ===== *)
theory Ring_Connection
  imports Ring_Pool
begin

text \<open>
  The connector's interface (\<^verbatim>\<open>crates/connector/src/lib.rs\<close>): connecting, publishing, subscribing,
  exposing and calling functions, and dropping the connection. The last section follows a call
  from the caller through the service and back.
\<close>

section \<open>Connections\<close>

text \<open>The threads whose handles a connection keeps: two of its own, and a reader for each function.\<close>

datatype conn_thread = DispatcherThread | WatcherThread | ReaderThread nat

record connection =
  cx_conn :: conn
  cx_threads :: "conn_thread list"
  cx_service_workers :: usize

type_synonym 'a oper = "turn list \<Rightarrow> connection \<Rightarrow> ('a io_result \<times> turn list \<times> connection) option"

definition lift_act :: "'a act \<Rightarrow> 'a oper" where
  "lift_act m ts x =
     map_option (\<lambda>(r, ts1, c). (r, ts1, x\<lparr>cx_conn := c\<rparr>)) (m ts (cx_conn x))"

definition connect_with_reply_cap ::
  "'sc client_env \<Rightarrow> string \<Rightarrow> usize \<Rightarrow> turn list \<Rightarrow> nat \<Rightarrow> shm \<Rightarrow>
   ((io_error \<times> shm) + (turn list \<times> connection)) option" where
  "connect_with_reply_cap env app_name reply_cap ts draws w =
     map_option (map_sum id (\<lambda>(ts1, c). (ts1, \<lparr>cx_conn = c, cx_threads = [DispatcherThread, WatcherThread],
          cx_service_workers = DEFAULT_SERVICE_WORKERS\<rparr>)))
       (client_connect env app_name reply_cap ts draws w)"

definition connect ::
  "'sc client_env \<Rightarrow> string \<Rightarrow> turn list \<Rightarrow> nat \<Rightarrow> shm \<Rightarrow>
   ((io_error \<times> shm) + (turn list \<times> connection)) option" where
  "connect env app_name = connect_with_reply_cap env app_name 0"

definition connection_reply_capacity :: "connection \<Rightarrow> usize" where
  "connection_reply_capacity x = reply_capacity (cx_conn x)"

definition connection_function_arena_capacity :: "'sc client_env \<Rightarrow> string \<Rightarrow> string option \<Rightarrow> usize oper" where
  "connection_function_arena_capacity env fn_name key =
     lift_act (with_reconnect env (function_arena_capacity env fn_name key))"

section \<open>Channels\<close>

text \<open>\<^verbatim>\<open>arena_cap as i64\<close>: a \<^verbatim>\<open>usize\<close> of \<open>2^63\<close> or more becomes negative.\<close>

definition publish_channel_with_arena ::
  "'sc client_env \<Rightarrow> string \<Rightarrow> string \<Rightarrow> string option \<Rightarrow> usize \<Rightarrow> 'sc publisher oper" where
  "publish_channel_with_arena env nm schema_text key arena_cap =
     lift_act (\<lambda>ts c.
       case avro_parse (ce_lib env) schema_text of
         Inl e \<Rightarrow> Some (Inl e, ts, c)
       | Inr (schema, _) \<Rightarrow>
           (let cap = wrap_i64 (int arena_cap) in
            act_bind (with_reconnect env (do_publish env nm schema_text key cap))
              (\<lambda>(r, fp) ts c.
                 let (cell, c1) = new_cell r c;
                     (i, c2) = register_entry (RegChannel nm schema_text key cap cell) c1
                 in Some (Inr (publisher_new cell schema fp nm i), ts, c2)) ts c))"

definition connection_publish_channel ::
  "'sc client_env \<Rightarrow> string \<Rightarrow> string \<Rightarrow> string option \<Rightarrow> 'sc publisher oper" where
  "connection_publish_channel env nm schema_text key = publish_channel_with_arena env nm schema_text key 0"

definition connection_list_channels :: "'sc client_env \<Rightarrow> channel_info list oper" where
  "connection_list_channels env = lift_act (with_reconnect env (client_list_channels env))"

definition subscribe_channel ::
  "'sc client_env \<Rightarrow> i64 \<Rightarrow> string option \<Rightarrow> string \<Rightarrow> 'sc subscriber oper" where
  "subscribe_channel env channel_id key expected_schema_text =
     lift_act (\<lambda>ts c.
       case avro_parse (ce_lib env) expected_schema_text of
         Inl e \<Rightarrow> Some (Inl e, ts, c)
       | Inr (schema, expected_fp) \<Rightarrow>
           act_bind (with_reconnect env (do_subscribe env channel_id key expected_fp))
             (\<lambda>(r, fp) ts c.
                let (cell, c1) = new_cell r c in Some (Inr (subscriber_new cell schema fp), ts, c1)) ts c)"

section \<open>Functions\<close>

definition set_service_workers :: "usize \<Rightarrow> connection \<Rightarrow> connection" where
  "set_service_workers n x = x\<lparr>cx_service_workers := max n 1\<rparr>"

definition service_workers :: "connection \<Rightarrow> usize" where
  "service_workers x = cx_service_workers x"

text \<open>
  What \<^verbatim>\<open>spawn_service\<close> is started with: the cell of the request ring, the service, and its pool.
\<close>

definition expose_function_with_arena ::
  "'sc client_env \<Rightarrow> string \<Rightarrow> string \<Rightarrow> string \<Rightarrow> string option \<Rightarrow> usize \<Rightarrow>
   (avro_value \<Rightarrow> 'req option) \<Rightarrow> ('resp \<Rightarrow> string + avro_value) \<Rightarrow> ('req \<Rightarrow> 'resp option) \<Rightarrow>
   (nat \<times> ('sc, 'req, 'resp) service \<times> rpc_request pool) oper" where
  "expose_function_with_arena env nm req_text resp_text key req_arena_cap de_req ser_resp handler ts x =
     (case avro_parse (ce_lib env) req_text of
        Inl e \<Rightarrow> Some (Inl e, ts, x)
      | Inr (req_schema, _) \<Rightarrow>
          (case avro_parse (ce_lib env) resp_text of
             Inl e \<Rightarrow> Some (Inl e, ts, x)
           | Inr (resp_schema, _) \<Rightarrow>
               (let cap = wrap_i64 (int req_arena_cap) in
                case with_reconnect env (do_expose env nm req_text resp_text key cap) ts (cx_conn x) of
                  None \<Rightarrow> None
                | Some (Inl e, ts1, c1) \<Rightarrow> Some (Inl e, ts1, x\<lparr>cx_conn := c1\<rparr>)
                | Some (Inr (r, req_fp, resp_fp), ts1, c1) \<Rightarrow>
                    (let (cell, c2) = new_cell r c1;
                         (i, c3) = register_entry (RegFunction nm req_text resp_text key cap cell) c2;
                         sv = \<lparr>sv_req_schema = req_schema, sv_resp_schema = resp_schema, sv_req_fp = req_fp,
                               sv_resp_fp = resp_fp, sv_de_req = de_req, sv_ser_resp = ser_resp, sv_handler = handler\<rparr>
                     in Some (Inr (cell, sv, pool_new (cx_service_workers x)), ts1,
                          x\<lparr>cx_conn := c3, cx_threads := cx_threads x @ [ReaderThread cell]\<rparr>)))))"

definition connection_expose_function ::
  "'sc client_env \<Rightarrow> string \<Rightarrow> string \<Rightarrow> string \<Rightarrow> string option \<Rightarrow>
   (avro_value \<Rightarrow> 'req option) \<Rightarrow> ('resp \<Rightarrow> string + avro_value) \<Rightarrow> ('req \<Rightarrow> 'resp option) \<Rightarrow>
   (nat \<times> ('sc, 'req, 'resp) service \<times> rpc_request pool) oper" where
  "connection_expose_function env nm req_text resp_text key = expose_function_with_arena env nm req_text resp_text key 0"

section \<open>Calls\<close>

text \<open>The part of \<^verbatim>\<open>Connection::call\<close> after the callee is known: the turn is that of the push.\<close>

definition place_call ::
  "'sc client_env \<Rightarrow> string \<Rightarrow> string option \<Rightarrow> callee \<Rightarrow> fingerprint \<Rightarrow> bytes \<Rightarrow> 'sc \<Rightarrow> fingerprint \<Rightarrow>
   'sc call_future act" where
  "place_call env fn_name key ca arg_fp args resp_schema expected_resp_fp ts c =
     (let (corr, c1) = next_corr env c;
          (sid, c2) = register_pending corr c1;
          rq = \<lparr>rq_correlation_id = corr, rq_caller_id = client_id c2, rq_reply_segment = reply_segment c2,
                rq_arg_fp = fp_to_i64 arg_fp, rq_args = args\<rparr>
      in case to_frame (ce_lib env) (ce_cat env) rpc_request_to_value RpcRequest rq of
           Inl e \<Rightarrow> Some (Inl e, ts, c2)
         | Inr f \<Rightarrow>
             (case ts of
                [] \<Rightarrow> None
              | t # ts' \<Rightarrow>
                  (case push_ring t (ca_ring ca) (frame_encode f) c2 of
                     None \<Rightarrow> None
                   | Some (False, c3) \<Rightarrow>
                       Some (Inl (IoOther ''function request ring full''), ts',
                             forget_callee fn_name key (drop_pending corr c3))
                   | Some (True, c3) \<Rightarrow>
                       Some (Inr (call_future_new sid resp_schema expected_resp_fp corr), ts', c3))))"

definition call ::
  "'sc client_env \<Rightarrow> ('req \<Rightarrow> string + avro_value) \<Rightarrow> string \<Rightarrow> string option \<Rightarrow> 'req \<Rightarrow> string \<Rightarrow> string \<Rightarrow>
   'sc call_future act" where
  "call env to_req fn_name key req req_text resp_text ts c =
     (case avro_parse (ce_lib env) req_text of
        Inl e \<Rightarrow> Some (Inl e, ts, c)
      | Inr (req_schema, arg_fp) \<Rightarrow>
          (case avro_parse (ce_lib env) resp_text of
             Inl e \<Rightarrow> Some (Inl e, ts, c)
           | Inr (resp_schema, expected_resp_fp) \<Rightarrow>
               act_bind (matching_callee env fn_name key arg_fp expected_resp_fp)
                 (\<lambda>ca ts c.
                    case avro_encode (ce_lib env) to_req req_schema req of
                      Inl e \<Rightarrow> Some (Inl e, ts, c)
                    | Inr args \<Rightarrow> place_call env fn_name key ca arg_fp args resp_schema expected_resp_fp ts c) ts c))"

text \<open>The events of a turn, two by two: what happens before the executor looks, and while it is parked.\<close>

fun wait_events :: "(bool \<times> (conn \<Rightarrow> conn)) list \<Rightarrow> wait_event list" where
  "wait_events ((b, e) # (_, e') # evs) = \<lparr>we_expired = b, we_before = e, we_park = e'\<rparr> # wait_events evs"
| "wait_events [(b, e)] = [\<lparr>we_expired = b, we_before = e, we_park = id\<rparr>]"
| "wait_events [] = []"

definition call_attempt ::
  "'sc client_env \<Rightarrow> ('req \<Rightarrow> string + avro_value) \<Rightarrow> (avro_value \<Rightarrow> 'resp option) \<Rightarrow> string \<Rightarrow> string option \<Rightarrow> 'req \<Rightarrow>
   string \<Rightarrow> string \<Rightarrow> 'resp act" where
  "call_attempt env to_req from_resp fn_name key req req_text resp_text =
     act_bind (call env to_req fn_name key req req_text resp_text)
       (\<lambda>fut ts c.
          case ts of
            [] \<Rightarrow> None
          | t # ts' \<Rightarrow>
              (case block_on env from_resp fut (wait_events (tn_wait t)) c of
                 None \<Rightarrow> None
               | Some (Some res, c1) \<Rightarrow> Some (res, ts', c1)
               | Some (None, c1) \<Rightarrow> Some (Inl (IoNew TimedOut ''rpc call timed out''), ts', c1)))"

definition call_blocking ::
  "'sc client_env \<Rightarrow> ('req \<Rightarrow> string + avro_value) \<Rightarrow> (avro_value \<Rightarrow> 'resp option) \<Rightarrow> string \<Rightarrow> string option \<Rightarrow> 'req \<Rightarrow>
   string \<Rightarrow> string \<Rightarrow> 'resp act" where
  "call_blocking env to_req from_resp fn_name key req req_text resp_text =
     (let attempt = call_attempt env to_req from_resp fn_name key req req_text resp_text in
      with_reconnect env
        (\<lambda>ts c. case attempt ts c of
           None \<Rightarrow> None
         | Some (Inl e, ts1, c1) \<Rightarrow>
             if err_kind e = TimedOut then attempt ts1 (forget_callee fn_name key c1) else Some (Inl e, ts1, c1)
         | Some (Inr y, ts1, c1) \<Rightarrow> Some (Inr y, ts1, c1)))"

section \<open>The connection itself\<close>

definition connection_id :: "connection \<Rightarrow> u64" where
  "connection_id x = word_of_int (client_id (cx_conn x))"

definition connection_broker_epoch :: "connection \<Rightarrow> u64" where
  "connection_broker_epoch x = epoch_of (cx_conn x)"

definition connection_set_auto_reconnect :: "bool \<Rightarrow> connection \<Rightarrow> connection" where
  "connection_set_auto_reconnect on x = x\<lparr>cx_conn := set_auto_reconnect on (cx_conn x)\<rparr>"

definition connection_auto_reconnect :: "connection \<Rightarrow> bool" where
  "connection_auto_reconnect x = auto_reconnect (cx_conn x)"

text \<open>
  The segments of a transport go with it: the control segment was only opened, the reply segment is the
  connection's own and is unlinked.
\<close>

definition transport_drop :: "os_env \<Rightarrow> transport \<Rightarrow> shm \<Rightarrow> shm" where
  "transport_drop os tp w = segment_drop os (tp_reply_seg tp) (segment_drop os (tp_control_seg tp) w)"

text \<open>
  The threads end when they see the flag, and are joined. Then the fields go: with \<open>shared\<close> the client is also held by
  a publisher or by a call in flight and stays, its transport with it; else this was its last holder.
\<close>

definition connection_drop :: "'sc client_env \<Rightarrow> bool \<Rightarrow> unit oper" where
  "connection_drop env shared ts x =
     map_option (\<lambda>(r, ts1, c).
         (let c1 = upd_inner (\<lambda>n. n\<lparr>in_running := False\<rparr>) c;
              w = (if shared then cn_shm c1 else transport_drop (ce_os env) (in_transport (cn_inner c1)) (cn_shm c1))
          in (r, ts1, x\<lparr>cx_conn := c1\<lparr>cn_shm := w\<rparr>, cx_threads := []\<rparr>)))
       (send_unregister env ts (cx_conn x))"

text \<open>What a bootstrap hands to a connection: a reply segment of its own, under a name made for it.\<close>

definition owns_reply :: "transport \<Rightarrow> bool" where
  "owns_reply tp \<longleftrightarrow> seg_name (tp_reply_seg tp) = tp_reply_segment tp \<and> owns_unlink (tp_reply_seg tp) \<and>
     \<not> owns_unlink (tp_control_seg tp) \<and> tp_reply_segment tp \<in> range client_segment"

lemma bootstrap_owns: "bootstrap env cap d w = (Inr tp, d', w') \<Longrightarrow> owns_reply tp"
  by (auto simp: bootstrap_def owns_reply_def Let_def dest: segment_create_Inr segment_open_Inr split: sum.splits prod.splits)

section \<open>A call from end to end\<close>

text \<open>The request a call places, with the correlation id it draws.\<close>

definition placed_request :: "'sc client_env \<Rightarrow> conn \<Rightarrow> fingerprint \<Rightarrow> bytes \<Rightarrow> rpc_request" where
  "placed_request env c arg_fp args =
     \<lparr>rq_correlation_id = fst (next_corr env c), rq_caller_id = client_id c, rq_reply_segment = reply_segment c,
      rq_arg_fp = fp_to_i64 arg_fp, rq_args = args\<rparr>"

text \<open>A ring at rest with nothing in it, that has room for a message.\<close>

definition ring_ready :: "ring \<Rightarrow> shm \<Rightarrow> bytes \<Rightarrow> bool" where
  "ring_ready r w bs \<longleftrightarrow> ring_idle r (ring_mem r w) \<and> ring_list r (ring_mem r w) = [] \<and> 4 + length bs \<le> ring_cap r"

lemma ring_ready_push:
  assumes "ring_ready r (cn_shm c) bs"
  obtains m where "push_ring no_wait r bs c = Some (True, c\<lparr>cn_shm := set_ring_mem r m (cn_shm c)\<rparr>)"
    "ring_idle r m" "ring_list r m = [bs]"
  using push_ring_now [of r c "[]" True bs] assms by (auto simp: ring_ready_def)

lemma ring_ready_frame:
  assumes "ring_ready r w (frame_encode f)"
  shows "frame_ok f"
proof -
  have "ring_cap r < 2 ^ 32"
    using ring_idle_holds [of r "ring_mem r w"] assms by (simp add: ring_ready_def ring_holds_def ring_geom_def)
  with assms show ?thesis by (simp add: ring_ready_def frame_ok_def)
qed

lemma place_call_done:
  assumes f: "to_frame (ce_lib env) (ce_cat env) rpc_request_to_value RpcRequest (placed_request env c arg_fp args) = Inr f"
    and ready: "ring_ready (ca_ring ca) (cn_shm c) (frame_encode f)"
  obtains m c1 where "place_call env fn_name key ca arg_fp args resp_schema resp_fp [no_wait] c =
      Some (Inr (call_future_new (in_next_slot (cn_inner c)) resp_schema resp_fp (fst (next_corr env c))), [], c1)"
    "cn_shm c1 = set_ring_mem (ca_ring ca) m (cn_shm c)" "ring_idle (ca_ring ca) m"
    "ring_list (ca_ring ca) m = [frame_encode f]" "in_transport (cn_inner c1) = in_transport (cn_inner c)"
    "pending_of c1 (fst (next_corr env c)) = Some (in_next_slot (cn_inner c))"
    "sl_frame (slots_of c1 (in_next_slot (cn_inner c))) = None"
proof -
  obtain corr c0 where n: "next_corr env c = (corr, c0)" by fastforce
  then have c0: "cn_inner c0 = cn_inner c" "cn_shm c0 = cn_shm c" by (auto simp: next_corr_def)
  let ?sid = "in_next_slot (cn_inner c)"
  obtain c2 where reg: "register_pending corr c0 = (?sid, c2)" and c2: "c2 = snd (register_pending corr c0)"
    using register_pending_simps(1) [of corr c0] c0(1) by (metis prod.collapse)
  have "ring_ready (ca_ring ca) (cn_shm c2) (frame_encode f)" using ready c0 c2 by simp
  then obtain m where m: "push_ring no_wait (ca_ring ca) (frame_encode f) c2 =
      Some (True, c2\<lparr>cn_shm := set_ring_mem (ca_ring ca) m (cn_shm c2)\<rparr>)"
    "ring_idle (ca_ring ca) m" "ring_list (ca_ring ca) m = [frame_encode f]" by (rule ring_ready_push)
  have rq: "\<lparr>rq_correlation_id = corr, rq_caller_id = client_id c2, rq_reply_segment = reply_segment c2,
      rq_arg_fp = fp_to_i64 arg_fp, rq_args = args\<rparr> = placed_request env c arg_fp args"
    by (simp add: placed_request_def n client_id_def reply_segment_def c2 c0)
  show ?thesis
  proof (rule that [of "c2\<lparr>cn_shm := set_ring_mem (ca_ring ca) m (cn_shm c2)\<rparr>" m])
    show "place_call env fn_name key ca arg_fp args resp_schema resp_fp [no_wait] c =
      Some (Inr (call_future_new ?sid resp_schema resp_fp (fst (next_corr env c))), [],
        c2\<lparr>cn_shm := set_ring_mem (ca_ring ca) m (cn_shm c2)\<rparr>)"
      unfolding place_call_def n reg Let_def prod.case rq f by (simp add: m(1))
  qed (use m c0 n c2 in \<open>simp_all add: slot_new_def\<close>)
qed

lemma read_request_done:
  assumes "in_cells (cn_inner d) cell = r\<lparr>ring_seg := sg\<rparr>" "seg_ptr sg = seg_ptr (ring_seg r)"
    and "ring_idle r (ring_mem r (cn_shm d))" "ring_list r (ring_mem r (cn_shm d)) = [frame_encode f]" "frame_ok f"
    and "from_frame (ce_lib env) (ce_cat env) rpc_request_from_value RpcRequest f = Inr rq"
  obtains m where "read_request env cell no_wait d = Some (Some rq, d\<lparr>cn_shm := set_ring_mem r m (cn_shm d)\<rparr>)"
proof -
  let ?r = "r\<lparr>ring_seg := sg\<rparr>"
  have mem: "ring_mem ?r w = ring_mem r w" "set_ring_mem ?r m w = set_ring_mem r m w" for m w
    using assms(2) by (simp_all add: ring_mem_def set_ring_mem_def)
  obtain m where "pop_ring no_wait ?r d = Some (Some (frame_encode f), d\<lparr>cn_shm := set_ring_mem r m (cn_shm d)\<rparr>)"
    using pop_ring_now [of ?r d] assms(3,4) by (auto simp: mem)
  with assms(1,6) fc.dec_enc [OF assms(5)] show ?thesis by (intro that) (simp add: read_request_def)
qed

text \<open>How a worker gets at the caller's reply ring: it has it in its cache, or opens the segment by name.\<close>

definition reply_reachable :: "'sc client_env \<Rightarrow> ring_cache \<Rightarrow> string \<Rightarrow> ring \<Rightarrow> shm \<Rightarrow> bool" where
  "reply_reachable env cache nm r w \<longleftrightarrow>
     (\<exists>sg. seg_ptr sg = seg_ptr (ring_seg r) \<and>
        (hm_get cache nm = Some (r\<lparr>ring_seg := sg\<rparr>) \<or>
         hm_get cache nm = None \<and> segment_open (ce_os env) nm w = Inr sg \<and>
           ring_attach sg 0 (ring_mem r w) = Inr (r\<lparr>ring_seg := sg\<rparr>)))"

lemma ring_seg_push [simp]: "push_blocking (r\<lparr>ring_seg := s\<rparr>) d dl es m = push_blocking r d dl es m"
proof -
  have pl: "push_locked (r\<lparr>ring_seg := s\<rparr>) d m = push_locked r d m" for r d m
    by (simp add: push_locked_def write_wrapped_def Let_def cong: if_cong)
  have slow: "lock_slow (r\<lparr>ring_seg := s\<rparr>) es m = lock_slow r es m" for r es m
    by (induction r es m rule: lock_slow.induct) simp_all
  have lock: "lock_producer (r\<lparr>ring_seg := s\<rparr>) es m = lock_producer r es m" for r es m
    by (simp add: lock_producer_def slow)
  show ?thesis
  proof (induction es arbitrary: dl m rule: length_induct)
    case (1 es)
    have shorter: "length es2 < length es" if "lock_producer r es m = Some (m1, e # es2)" for m1 e es2 m
      using lock_producer_schedule [OF that] by simp
    show ?case
      by (subst (1 2) push_blocking.simps)
        (auto simp: lock pl unlock_producer_def Let_def 1 dest: shorter split: option.split prod.split list.split)
  qed
qed

lemma serve_job_done:
  assumes reach: "reply_reachable env cache (rq_reply_segment rq) r w"
    and f: "to_frame (ce_lib env) (ce_cat env) rpc_response_to_value RpcResponse (serve_request env sv rq) = Inr f"
    and ready: "ring_ready r w (frame_encode f)"
  obtains cache' m where "serve_job env sv no_wait rq cache w = Some (cache', set_ring_mem r m w)"
    "ring_idle r m" "ring_list r m = [frame_encode f]"
proof -
  obtain sg where sg: "seg_ptr sg = seg_ptr (ring_seg r)" and
    opt: "hm_get cache (rq_reply_segment rq) = Some (r\<lparr>ring_seg := sg\<rparr>) \<or>
      hm_get cache (rq_reply_segment rq) = None \<and> segment_open (ce_os env) (rq_reply_segment rq) w = Inr sg \<and>
        ring_attach sg 0 (ring_mem r w) = Inr (r\<lparr>ring_seg := sg\<rparr>)"
    using reach by (auto simp: reply_reachable_def)
  have mem: "ring_mem (r\<lparr>ring_seg := sg\<rparr>) w = ring_mem r w" "set_ring_mem (r\<lparr>ring_seg := sg\<rparr>) m w = set_ring_mem r m w"
    "shm_obj w (seg_ptr sg) = ring_mem r w" for m
    using sg by (simp_all add: ring_mem_def set_ring_mem_def)
  obtain m where m: "push_ring no_wait r (frame_encode f) \<lparr>cn_inner = undefined, cn_shm = w, cn_draws = 0\<rparr> =
      Some (True, \<lparr>cn_inner = undefined, cn_shm = set_ring_mem r m w, cn_draws = 0\<rparr>)"
    "ring_idle r m" "ring_list r m = [frame_encode f]"
    using ring_ready_push [of r "\<lparr>cn_inner = undefined, cn_shm = w, cn_draws = 0\<rparr>"] ready by auto
  have "\<exists>cache'. serve_job env sv no_wait rq cache w = Some (cache', set_ring_mem r m w)"
    using opt m(1)
    by (auto simp: serve_job_def send_response_def hm_contains_def mem f push_ring_def no_wait_def Let_def split: option.splits)
  with m(2,3) that show ?thesis by blast
qed

lemma segment_open_other:
  assumes "segment_open os nm w = Inr sg" "p \<noteq> seg_ptr sg"
  shows "segment_open os nm (set_obj p m w) = Inr sg"
  using assms by (auto simp: segment_open_def Let_def split: if_splits option.splits)

lemma reply_reachable_other:
  assumes "reply_reachable env cache nm r w" "p \<noteq> seg_ptr (ring_seg r)"
  shows "reply_reachable env cache nm r (set_obj p m w)"
proof -
  have mem: "ring_mem r (set_obj p m w) = ring_mem r w" using assms(2) by (simp add: ring_mem_def)
  show ?thesis
    using assms(1) segment_open_other [of "ce_os env" nm w _ p m] assms(2) unfolding reply_reachable_def mem by force
qed

lemma ring_ready_other:
  "p \<noteq> seg_ptr (ring_seg r) \<Longrightarrow> ring_ready r (set_obj p m w) bs = ring_ready r w bs"
  by (simp add: ring_ready_def ring_mem_def)

lemma call_cached:
  assumes "avro_parse (ce_lib env) req_text = Inr (req_schema, ca_req_fp ca)"
    and "avro_parse (ce_lib env) resp_text = Inr (resp_schema, ca_resp_fp ca)"
    and "hm_get (in_callees (cn_inner c)) (callee_key fn_name key) = Some ca"
    and "avro_encode (ce_lib env) to_req req_schema x = Inr args"
  shows "call env to_req fn_name key x req_text resp_text ts c =
    place_call env fn_name key ca (ca_req_fp ca) args resp_schema (ca_resp_fp ca) ts c"
  using assms by (simp add: call_def matching_callee_def resolve_callee_def act_bind_def)

text \<open>A call whose answer is there is finished without a wait, and its entry is gone.\<close>

lemma block_on_ready:
  assumes "sl_frame (slots_of c (cf_slot fut)) = Some g"
  obtains c' where "block_on env from_resp fut [] c = Some (Some (decode_response env from_resp fut g), c')"
    "pending_of c' (cf_corr fut) = None"
  using assms unfolding block_on_def
  by (subst (asm) block_on_loop.simps) (simp add: poll_ready call_future_drop_def)

text \<open>
  A remote call. The caller has resolved the function; its request goes through the
  function's arena to the service's reader, the worker's answer through the caller's reply ring to
  the dispatcher, and the executor returns what the handler returned for the caller's argument, or, when it
  panicked, the error that says so. Nothing waits anywhere on the way, and the call leaves no entry
  behind. The request and response rings are those of two processes' mappings, and the reply ring is
  opened by name or taken from the worker's cache.
\<close>

lemma rpc_round_trip:
  assumes laws: "avro_laws (set proto_types) (ce_lib env)" "catalog_build (ce_lib env) = Some (ce_cat env)"
      "fps_distinct (ce_lib env)" and same: "ce_lib env' = ce_lib env" "ce_cat env' = ce_cat env"
    and req: "avro_schema_law (ce_lib env) req_ty" "parse_str (ce_lib env) (type_json req_ty) = Inr (sv_req_schema sv)"
      "avro_parse (ce_lib env) req_text = Inr (sv_req_schema sv, sv_req_fp sv)"
    and resp: "avro_schema_law (ce_lib env) resp_ty" "parse_str (ce_lib env) (type_json resp_ty) = Inr (sv_resp_schema sv)"
      "avro_parse (ce_lib env) resp_text = Inr (sv_resp_schema sv, sv_resp_fp sv)"
    and ser: "sv_ser_resp sv = (\<lambda>y. Inr (to_resp y))"
    and x: "chan_value to_req (sv_de_req sv) req_ty x"
      "avro_encode (ce_lib env) (\<lambda>x. Inr (to_req x)) (sv_req_schema sv) x = Inr args"
    and y: "\<And>y. sv_handler sv x = Some y \<Longrightarrow> chan_value to_resp from_resp resp_ty y"
    and callee: "hm_get (in_callees (cn_inner c)) (callee_key fn_name key) = Some ca"
      "ca_req_fp ca = sv_req_fp sv" "ca_resp_fp ca = sv_resp_fp sv"
    and cell: "in_cells (cn_inner d) cell = (ca_ring ca)\<lparr>ring_seg := sg\<rparr>" "seg_ptr sg = seg_ptr (ring_seg (ca_ring ca))"
    and rq: "rq = placed_request env c (sv_req_fp sv) args" "has_type (kind_type RpcRequest) (rpc_request_to_value rq)"
      "has_type (kind_type RpcResponse) (rpc_response_to_value (serve_request env' sv rq))"
    and rep: "rep = tp_reply_ring (in_transport (cn_inner c))" "seg_ptr (ring_seg rep) \<noteq> seg_ptr (ring_seg (ca_ring ca))"
      "reply_reachable env' cache (reply_segment c) rep (cn_shm c)"
    and room: "\<And>f. to_frame (ce_lib env) (ce_cat env) rpc_request_to_value RpcRequest rq = Inr f \<Longrightarrow>
        ring_ready (ca_ring ca) (cn_shm c) (frame_encode f)"
      "\<And>f. to_frame (ce_lib env) (ce_cat env) rpc_response_to_value RpcResponse (serve_request env' sv rq) = Inr f \<Longrightarrow>
        ring_ready rep (cn_shm c) (frame_encode f)"
  shows "\<exists>fut c1 d1 cache' w2 c2 c3.
    call env (\<lambda>x. Inr (to_req x)) fn_name key x req_text resp_text [no_wait] c = Some (Inr fut, [], c1) \<and>
    read_request env' cell no_wait (d\<lparr>cn_shm := cn_shm c1\<rparr>) = Some (Some rq, d1) \<and>
    serve_job env' sv no_wait rq cache (cn_shm d1) = Some (cache', w2) \<and>
    dispatch_turn env 0 [] (c1\<lparr>cn_shm := w2\<rparr>) = Some c2 \<and>
    block_on env from_resp fut [] c2 =
      Some (Some (case sv_handler sv x of
                    Some y \<Rightarrow> Inr y
                  | None \<Rightarrow> Inl (IoOther ''remote function error (4): handler panicked'')), c3) \<and>
    pending_of c3 (rq_correlation_id rq) = None"
proof -
  let ?r = "ca_ring ca" and ?lib = "ce_lib env" and ?cat = "ce_cat env"
  let ?corr = "fst (next_corr env c)" and ?sid = "in_next_slot (cn_inner c)"
  obtain f where f: "to_frame ?lib ?cat rpc_request_to_value RpcRequest rq = Inr f"
    "from_frame ?lib ?cat rpc_request_from_value RpcRequest f = Inr rq"
    using m_rq.frame_round_trip [OF laws(1,2) rq(2)] by blast
  obtain g where g: "to_frame ?lib ?cat rpc_response_to_value RpcResponse (serve_request env' sv rq) = Inr g"
    "from_frame ?lib ?cat rpc_response_from_value RpcResponse g = Inr (serve_request env' sv rq)"
    "correlation_id ?lib ?cat g = Inr (rq_correlation_id rq)"
    by (rule response_frame [OF laws rq(3)]) simp
  have corr: "rq_correlation_id rq = ?corr" "rq_reply_segment rq = reply_segment c"
    by (simp_all add: rq(1) placed_request_def)
  obtain m c1 where c1: "place_call env fn_name key ca (sv_req_fp sv) args (sv_resp_schema sv) (sv_resp_fp sv) [no_wait] c =
      Some (Inr (call_future_new ?sid (sv_resp_schema sv) (sv_resp_fp sv) ?corr), [], c1)"
    "cn_shm c1 = set_ring_mem ?r m (cn_shm c)" "ring_idle ?r m" "ring_list ?r m = [frame_encode f]"
    "in_transport (cn_inner c1) = in_transport (cn_inner c)" "pending_of c1 ?corr = Some ?sid"
    by (rule place_call_done [OF f(1) [unfolded rq(1)] room(1) [OF f(1)]])
  let ?fut = "call_future_new ?sid (sv_resp_schema sv) (sv_resp_fp sv) ?corr"
  have call: "call env (\<lambda>x. Inr (to_req x)) fn_name key x req_text resp_text [no_wait] c = Some (Inr ?fut, [], c1)"
    using call_cached [OF req(3) [folded callee(2)] resp(3) [folded callee(3)] callee(1) x(2)] c1(1) callee(2,3) by simp
  obtain m1 where read: "read_request env' cell no_wait (d\<lparr>cn_shm := cn_shm c1\<rparr>) =
      Some (Some rq, d\<lparr>cn_shm := set_ring_mem ?r m1 (cn_shm c1)\<rparr>)"
    by (rule read_request_done [where d = "d\<lparr>cn_shm := cn_shm c1\<rparr>", OF _ cell(2) _ _ ring_ready_frame [OF room(1) [OF f(1)]] f(2) [folded same]])
      (use cell(1) c1(2-4) same in simp_all)
  let ?w1 = "set_ring_mem ?r m1 (cn_shm c1)"
  have w1: "reply_reachable env' cache (rq_reply_segment rq) rep ?w1" "ring_ready rep ?w1 (frame_encode g)"
    using rep(2,3) room(2) [OF g(1)] corr(2)
    by (simp_all add: c1(2) set_ring_mem_def reply_reachable_other ring_ready_other)
  obtain cache' m2 where serve: "serve_job env' sv no_wait rq cache ?w1 = Some (cache', set_ring_mem rep m2 ?w1)"
    "ring_idle rep m2" "ring_list rep m2 = [frame_encode g]"
    by (rule serve_job_done [OF w1(1) g(1) [folded same] w1(2)])
  let ?c1 = "c1\<lparr>cn_shm := set_ring_mem rep m2 ?w1\<rparr>"
  obtain c2 where c2: "dispatch_turn env 0 [] ?c1 = Some c2" "sl_frame (slots_of c2 ?sid) = Some g"
    using dispatch_delivers [of rep ?c1 g "[]" env ?corr ?sid] serve(2,3) rep(1) c1(5,6) ring_ready_frame [OF w1(2)] g(3) corr(1)
    by auto
  have "request_for env' sv to_req x rq" using x(2) same by (simp add: request_for_def rq(1) placed_request_def)
  moreover have "decode_response env' from_resp ?fut g = decode_response env from_resp ?fut g"
    unfolding decode_response_def same ..
  ultimately have dec: "decode_response env from_resp ?fut g =
      (case sv_handler sv x of Some y \<Rightarrow> Inr y | None \<Rightarrow> Inl (IoOther ''remote function error (4): handler panicked''))"
    using decode_answer [OF req(1,2) [folded same(1)] resp(1,2) [folded same(1)] ser _ x(1) y _ _ g(2) [folded same], of ?fut]
    by (simp add: call_future_new_def)
  have slot: "sl_frame (slots_of c2 (cf_slot ?fut)) = Some g" using c2(2) by (simp add: call_future_new_def)
  obtain c3 where "block_on env from_resp ?fut [] c2 = Some (Some (decode_response env from_resp ?fut g), c3)"
    "pending_of c3 ?corr = None"
    by (rule block_on_ready [OF slot]) (simp add: call_future_new_def)
  with call read serve(1) c2(1) corr(1) dec show ?thesis
    by (intro exI [of _ ?fut] exI [of _ c1] exI [of _ "d\<lparr>cn_shm := ?w1\<rparr>"] exI [of _ cache']
        exI [of _ "set_ring_mem rep m2 ?w1"] exI [of _ c2] exI [of _ c3]) simp
qed

text \<open>The texts of the demonstration's schemas parse to those of its service.\<close>

lemma demo_parse:
  "avro_parse proto_lib (schema_for Heartbeat) = Inr (sv_req_schema demo_service, sv_req_fp demo_service)"
  "avro_parse proto_lib (schema_for Unregister) = Inr (sv_resp_schema demo_service, sv_resp_fp demo_service)"
  using demo_service_schemas by (simp_all add: avro_parse_def demo_service_laws schema_for_type)

end
