(* ===== verification/Ring_Bus.thy ===== *)
theory Ring_Bus
  imports Ring_Connection
begin

text \<open>
  The connector and the broker together: a control request goes over the submission ring, the broker
  takes a turn of its loop and answers on the client's reply ring, the dispatcher brings the reply to
  the call. A channel published that way is found, and subscribed to, by another client, and the two
  handles are the ends of one queue.
\<close>

section \<open>One request\<close>

text \<open>What happens while a client waits: a turn of the broker's loop, then one of its own dispatcher.\<close>

definition answered_by :: "'sc broker_env \<Rightarrow> 'sc client_env \<Rightarrow> broker \<Rightarrow> conn \<Rightarrow> conn" where
  "answered_by benv env b c =
     (case run [(benv, id, 0, [])] (be_now benv) b (cn_shm c) of
        None \<Rightarrow> c
      | Some (_, w) \<Rightarrow>
          (case dispatch_turn env 0 [] (c\<lparr>cn_shm := w\<rparr>) of None \<Rightarrow> c | Some c' \<Rightarrow> c'))"

definition bus_turn :: "'sc broker_env \<Rightarrow> 'sc client_env \<Rightarrow> broker \<Rightarrow> turn" where
  "bus_turn benv env b = \<lparr>tn_parks = 0, tn_push = [], tn_wait = [(False, answered_by benv env b)]\<rparr>"

abbreviation sub_ring :: "conn \<Rightarrow> ring" where
  "sub_ring c \<equiv> tp_submission (in_transport (cn_inner c))"

abbreviation rep_ring :: "conn \<Rightarrow> ring" where
  "rep_ring c \<equiv> tp_reply_ring (in_transport (cn_inner c))"

text \<open>
  A client registered with the broker: each of the two rings between them is one ring with two mappings,
  in two different objects of the shared memory.
\<close>

definition sub_linked :: "broker \<Rightarrow> conn \<Rightarrow> bool" where
  "sub_linked b c \<longleftrightarrow>
     (\<exists>s. br_submission b = (sub_ring c)\<lparr>ring_seg := s\<rparr> \<and> seg_ptr s = seg_ptr (ring_seg (sub_ring c)))"

definition rep_linked :: "broker \<Rightarrow> i64 \<Rightarrow> conn \<Rightarrow> bool" where
  "rep_linked b cid c \<longleftrightarrow>
     (\<exists>s. hm_get (br_reply_rings b) cid = Some ((rep_ring c)\<lparr>ring_seg := s\<rparr>) \<and> seg_ptr s = seg_ptr (ring_seg (rep_ring c)))"

definition rings_apart :: "conn \<Rightarrow> bool" where
  "rings_apart c \<longleftrightarrow> seg_ptr (ring_seg (sub_ring c)) \<noteq> seg_ptr (ring_seg (rep_ring c)) \<and>
     seg_ptr (ring_seg (sub_ring c)) < shm_next (cn_shm c) \<and> seg_ptr (ring_seg (rep_ring c)) < shm_next (cn_shm c)"

definition client_linked :: "broker \<Rightarrow> conn \<Rightarrow> bool" where
  "client_linked b c \<longleftrightarrow> sub_linked b c \<and> rep_linked b (client_id c) c \<and> rings_apart c"

lemmas linked_defs = client_linked_def sub_linked_def rep_linked_def rings_apart_def

text \<open>Shared memory with the same names that differs at most in one object.\<close>

definition same_but :: "nat \<Rightarrow> shm \<Rightarrow> shm \<Rightarrow> bool" where
  "same_but ob w w' \<longleftrightarrow> shm_dir w' = shm_dir w \<and> shm_next w' = shm_next w \<and>
     (\<forall>p. p \<noteq> ob \<longrightarrow> shm_obj w' p = shm_obj w p)"

lemma same_but_set: "same_but (seg_ptr (ring_seg r)) w (set_ring_mem r m w)"
  by (simp add: same_but_def set_ring_mem_def)

lemma same_but_sys_open: "same_but ob w w' \<Longrightarrow> sys_open nm w' = sys_open nm w"
  by (simp add: same_but_def sys_open_def)

lemma same_but_world: "same_but ob w w' \<Longrightarrow> world_ok b w' = world_ok b w"
  by (rule world_ok_mem) (simp_all add: same_but_def)

lemma ring_mem_seg: "seg_ptr s = seg_ptr (ring_seg r) \<Longrightarrow>
    ring_mem (r\<lparr>ring_seg := s\<rparr>) w = ring_mem r w \<and> set_ring_mem (r\<lparr>ring_seg := s\<rparr>) m w = set_ring_mem r m w"
  by (simp add: ring_mem_def set_ring_mem_def)

definition ring_empty :: "ring \<Rightarrow> shm \<Rightarrow> bool" where
  "ring_empty r w \<longleftrightarrow> ring_idle r (ring_mem r w) \<and> ring_list r (ring_mem r w) = []"

lemma ring_empty_other [simp]:
  "p \<noteq> seg_ptr (ring_seg r) \<Longrightarrow> ring_empty r (set_obj p m w) = ring_empty r w"
  by (simp add: ring_empty_def ring_mem_def)

text \<open>The broker's side: it pops the request, handles it, and its reply fits the client's ring.\<close>

lemma broker_turn_any:
  assumes link: "br_submission b = r\<lparr>ring_seg := s\<rparr>" "seg_ptr s = seg_ptr (ring_seg r)"
    and req: "ring_idle r (ring_mem r w)" "ring_list r (ring_mem r w) = [bs]"
    and handle: "\<And>w1. same_but (seg_ptr (ring_seg r)) w w1 \<Longrightarrow> ring_empty r w1 \<Longrightarrow>
      \<exists>b1 w2. handle benv bs b w1 = Some (Inr (), b1, w2) \<and> Q b1 w2"
  shows "\<exists>b1 w2. run [(benv, id, 0, [])] (be_now benv) b w = Some (b1, w2) \<and> Q b1 w2"
proof -
  note mem = ring_mem_seg [OF link(2)]
  obtain m where p: "pop_blocking r (Some 0) [] (ring_mem r w) = Some (Some bs, m, [])" "ring_idle r m" "ring_list r m = []"
    using pop_blocking_done [OF req(1), of "[]" 0] req(2) by auto
  have "ring_empty r (set_ring_mem r m w)" using p(2,3) by (simp add: ring_empty_def)
  with handle [OF same_but_set [of r w m]]
  obtain b1 w2 where "handle benv bs b (set_ring_mem r m w) = Some (Inr (), b1, w2)" "Q b1 w2" by blast
  with p link mem show ?thesis by (auto simp: SWEEP_INTERVAL_def)
qed

lemma broker_turn:
  assumes "br_submission b = r\<lparr>ring_seg := s\<rparr>" "seg_ptr s = seg_ptr (ring_seg r)"
    and "ring_idle r (ring_mem r w)" "ring_list r (ring_mem r w) = [bs]"
    and "\<And>w1. same_but (seg_ptr (ring_seg r)) w w1 \<Longrightarrow> ring_empty r w1 \<Longrightarrow>
      \<exists>w2. handle benv bs b w1 = Some (Inr (), b1, w2) \<and> Q w2"
  shows "\<exists>w2. run [(benv, id, 0, [])] (be_now benv) b w = Some (b1, w2) \<and> Q w2"
  using broker_turn_any [OF assms(1-4), of benv "\<lambda>b w. b = b1 \<and> Q w"] assms(5) by blast

lemma reply_now:
  assumes link: "hm_get (br_reply_rings b) cid = Some (r\<lparr>ring_seg := s\<rparr>)" "seg_ptr s = seg_ptr (ring_seg r)"
    and g: "to_frame (be_lib benv) (be_cat benv) to_v k resp = Inr g" and ready: "ring_ready r w (frame_encode g)"
    and still: "be_parks benv = 0" "be_others benv = []"
  shows "\<exists>m. reply benv to_v cid k resp b w = Some (Inr (), b, set_ring_mem r m w) \<and>
    ring_idle r m \<and> ring_list r m = [frame_encode g] \<and> same_outside r (ring_mem r w) m"
proof -
  have h: "ring_holds r (ring_mem r w) []" "prod_lock r (ring_mem r w) = 0"
    using ready ring_idle_holds [of r "ring_mem r w"] by (auto simp: ring_ready_def ring_idle_def)
  obtain m where "push_blocking r (frame_encode g) (Some 0) [] (ring_mem r w) = Some (True, m, [])"
    "prod_lock r m = 0" "ring_holds r m [frame_encode g]"
    using push_blocking_accept [OF h, of "frame_encode g" "Some 0" "[]"] ready by (auto simp: ring_ready_def)
  then show ?thesis
    using link g still ring_mem_seg [OF link(2)] ring_idleI ring_holdsD push_blocking_frame [OF ring_holds_geom [OF h(1)] h(2)]
    by (auto simp: reply_def)
qed

lemma dispatch_frame:
  assumes "dispatch_turn env parks [] c = Some c'" "r = tp_reply_ring (in_transport (cn_inner c))"
  shows "same_outside r (ring_mem r (cn_shm c)) (ring_mem r (cn_shm c'))"
proof -
  have "cn_shm (route_frame env bs d) = cn_shm d" for bs d
    by (simp add: route_frame_routed split: option.split prod.split)
  with assms pop_blocking_frame show ?thesis by (auto simp: dispatch_turn_def Let_def split: option.splits prod.splits)
qed

lemma dispatch_transport:
  assumes "dispatch_turn env parks es c = Some c'"
  shows "in_transport (cn_inner c') = in_transport (cn_inner c)"
proof -
  have "in_transport (cn_inner (route_frame env bs c)) = in_transport (cn_inner c)" for bs c
    by (simp add: route_frame_routed split: option.split prod.split)
  with assms show ?thesis by (auto simp: dispatch_turn_def Let_def split: option.splits)
qed

text \<open>What no round trip touches: what the connection owns, how it is set up, and whether it runs.\<close>

definition conn_static :: "conn \<Rightarrow> (u64, reg) hash_map \<times> (string \<times> string, callee) hash_map \<times> (nat \<Rightarrow> ring) \<times> bool \<times> bool \<times> string \<times> usize" where
  "conn_static c =
     (in_registry (cn_inner c), in_callees (cn_inner c), in_cells (cn_inner c), in_running (cn_inner c), in_auto_reconnect (cn_inner c),
      in_app_name (cn_inner c), in_reply_cap (cn_inner c))"

definition one_call :: "conn \<Rightarrow> conn \<Rightarrow> bool" where
  "one_call c c' \<longleftrightarrow> conn_static c' = conn_static c \<and> cn_draws c' = Suc (cn_draws c)"

lemma dispatch_static:
  assumes "dispatch_turn env parks es c = Some c'"
  shows "conn_static c' = conn_static c \<and> cn_draws c' = cn_draws c"
proof -
  have "conn_static (route_frame env bs c) = conn_static c \<and> cn_draws (route_frame env bs c) = cn_draws c" for bs c
    by (auto simp: conn_static_def route_frame_routed complete_slot_def slot_complete_def Let_def split: option.split prod.split)
  with assms show ?thesis by (auto simp: dispatch_turn_def Let_def conn_static_def split: option.splits)
qed

lemma set_ring_mem_twice [simp]: "set_ring_mem r m (set_ring_mem r m' w) = set_ring_mem r m w"
  by (simp add: set_ring_mem_def set_obj_def)

lemma ring_ready_same:
  "shm_obj w' (seg_ptr (ring_seg r)) = shm_obj w (seg_ptr (ring_seg r)) \<Longrightarrow> ring_ready r w' bs = ring_ready r w bs"
  by (simp add: ring_ready_def ring_mem_def)

text \<open>Memory that has only grown: no object that was there is touched, and no name but those of arenas.\<close>

definition grown :: "shm \<Rightarrow> shm \<Rightarrow> bool" where
  "grown w w' \<longleftrightarrow> shm_next w \<le> shm_next w' \<and> (\<forall>p < shm_next w. shm_obj w' p = shm_obj w p) \<and>
     (\<forall>nm \<in> bus_names - arena_space. sys_open nm w' = sys_open nm w)"

lemma grown_refl [simp]: "grown w w"
  by (simp add: grown_def)

text \<open>The memory once a request has been served: the two rings are empty, and what was there before is untouched.\<close>

definition quiet_after :: "conn \<Rightarrow> shm \<Rightarrow> bool" where
  "quiet_after c w \<longleftrightarrow> ring_empty (sub_ring c) w \<and> ring_empty (rep_ring c) w \<and> shm_next (cn_shm c) \<le> shm_next w \<and>
     (\<forall>nm \<in> bus_names - arena_space. sys_open nm w = sys_open nm (cn_shm c)) \<and>
     same_outside (rep_ring c) (ring_mem (rep_ring c) (cn_shm c)) (ring_mem (rep_ring c) w) \<and>
     (\<forall>p < shm_next (cn_shm c). p \<noteq> seg_ptr (ring_seg (sub_ring c)) \<longrightarrow> p \<noteq> seg_ptr (ring_seg (rep_ring c)) \<longrightarrow>
        shm_obj w p = shm_obj (cn_shm c) p)"

text \<open>In one turn of its loop the broker goes from one state to another on the request a client has put on the ring.\<close>

definition served :: "'sc broker_env \<Rightarrow> frame io_result \<Rightarrow> conn \<Rightarrow> broker \<Rightarrow> broker \<Rightarrow> bool" where
  "served benv fr c b b1 \<longleftrightarrow>
     (\<exists>f m w1. fr = Inr f \<and> ring_list (sub_ring c) m = [frame_encode f] \<and>
        run [(benv, id, 0, [])] (be_now benv) b (set_ring_mem (sub_ring c) m (cn_shm c)) = Some (b1, w1))"

text \<open>
  The whole round trip: the client's call returns what it reads from the reply the broker made, and
  the two rings between them are empty again.
\<close>

text \<open>The broker's side of a control call: one turn of its loop takes the request and leaves the answer on the reply
  ring; what the handler established still holds.\<close>

lemma control_turn:
  assumes link: "sub_linked b c" "rings_apart c" "rep_linked b1 cid c"
    and req: "ring_idle (sub_ring c) mm" "ring_list (sub_ring c) mm = [frame_encode f]"
    and g: "to_frame (be_lib benv) (be_cat benv) rto_v rk resp = Inr g" "ring_ready (rep_ring c) (cn_shm c) (frame_encode g)"
    and still: "be_parks benv = 0" "be_others benv = []"
    and handle: "\<And>w1. same_but (seg_ptr (ring_seg (sub_ring c))) (cn_shm c) w1 \<Longrightarrow>
      \<exists>w2. handle benv (frame_encode f) b w1 = reply benv rto_v cid rk resp b1 w2 \<and> grown w1 w2 \<and> Q w2"
  obtains w3 w2 m' where "run [(benv, id, 0, [])] (be_now benv) b (set_ring_mem (sub_ring c) mm (cn_shm c)) = Some (b1, w3)"
    "w3 = set_ring_mem (rep_ring c) m' w2" "Q w2" "ring_idle (rep_ring c) m'" "ring_list (rep_ring c) m' = [frame_encode g]"
    "same_outside (rep_ring c) (ring_mem (rep_ring c) (cn_shm c)) m'" "ring_empty (sub_ring c) w2" "shm_next (cn_shm c) \<le> shm_next w2"
    "\<forall>p < shm_next (cn_shm c). p \<noteq> seg_ptr (ring_seg (sub_ring c)) \<longrightarrow> shm_obj w2 p = shm_obj (cn_shm c) p"
    "\<forall>nm \<in> bus_names - arena_space. sys_open nm w2 = sys_open nm (cn_shm c)"
proof -
  let ?r = "sub_ring c" and ?rr = "rep_ring c" and ?n = "shm_next (cn_shm c)"
  let ?p = "seg_ptr (ring_seg ?r)" and ?pr = "seg_ptr (ring_seg ?rr)" and ?w0 = "set_ring_mem (sub_ring c) mm (cn_shm c)"
  let ?Q = "\<lambda>w3. \<exists>w2 m'. w3 = set_ring_mem ?rr m' w2 \<and> Q w2 \<and> ring_idle ?rr m' \<and> ring_list ?rr m' = [frame_encode g] \<and>
      same_outside ?rr (ring_mem ?rr (cn_shm c)) m' \<and> ring_empty ?r w2 \<and> ?n \<le> shm_next w2 \<and> (\<forall>p < ?n. p \<noteq> ?p \<longrightarrow> shm_obj w2 p = shm_obj (cn_shm c) p) \<and>
      (\<forall>nm \<in> bus_names - arena_space. sys_open nm w2 = sys_open nm (cn_shm c))"
  obtain s s' where sub: "br_submission b = ?r\<lparr>ring_seg := s\<rparr>" "seg_ptr s = ?p"
    and rep: "hm_get (br_reply_rings b1) cid = Some (?rr\<lparr>ring_seg := s'\<rparr>)" "seg_ptr s' = ?pr"
    and ptr: "?p \<noteq> ?pr" "?pr < ?n" "?p < ?n"
    using link by (auto simp: linked_defs)
  have h: "\<exists>w3. handle benv (frame_encode f) b w1 = Some (Inr (), b1, w3) \<and> ?Q w3"
    if "same_but ?p ?w0 w1" "ring_empty ?r w1" for w1
  proof -
    have sb: "same_but ?p (cn_shm c) w1"
      using that(1) same_but_set [of ?r "cn_shm c" mm] by (simp add: same_but_def)
    obtain w2 where w2: "handle benv (frame_encode f) b w1 = reply benv rto_v cid rk resp b1 w2" "grown w1 w2" "Q w2"
      using handle [OF sb] by blast
    then have gr: "\<forall>p < ?n. shm_obj w2 p = shm_obj w1 p" "?n \<le> shm_next w2"
      "\<forall>nm \<in> bus_names - arena_space. sys_open nm w2 = sys_open nm (cn_shm c)"
      using sb same_but_sys_open [OF sb] by (simp_all add: grown_def same_but_def)
    have same: "\<forall>p < ?n. p \<noteq> ?p \<longrightarrow> shm_obj w2 p = shm_obj (cn_shm c) p" using gr(1) sb by (simp add: same_but_def)
    then have "ring_ready ?rr w2 (frame_encode g)" and mem: "ring_mem ?rr w2 = ring_mem ?rr (cn_shm c)"
      using g(2) ring_ready_same ptr by (metis (full_types)) (use same ptr in \<open>simp add: ring_mem_def\<close>)
    then obtain m' where m': "reply benv rto_v cid rk resp b1 w2 = Some (Inr (), b1, set_ring_mem ?rr m' w2)"
      "ring_idle ?rr m'" "ring_list ?rr m' = [frame_encode g]" "same_outside ?rr (ring_mem ?rr w2) m'"
      using reply_now [OF rep g(1) _ still] by blast
    have em: "ring_empty ?r w2" using that(2) gr(1) ptr(3) by (simp add: ring_empty_def ring_mem_def)
    have "?Q (set_ring_mem ?rr m' w2)"
      using w2(3) gr m'(2-4) mem em same by (intro exI [of _ w2] exI [of _ m']) simp
    with m'(1) w2(1) show ?thesis by auto
  qed
  have "ring_idle ?r (ring_mem ?r ?w0)" "ring_list ?r (ring_mem ?r ?w0) = [frame_encode f]" using req by simp_all
  then have "\<exists>w3. run [(benv, id, 0, [])] (be_now benv) b ?w0 = Some (b1, w3) \<and> ?Q w3"
    by (rule broker_turn [OF sub]) (rule h)
  then show thesis by (elim exE conjE) (rule that)
qed

lemma control_served:
  assumes link: "sub_linked b c" "rings_apart c" "rep_linked b1 cid c" and n: "next_corr env c = (corr, c1)"
    and m: "msg corr c1 = m" and f: "to_frame (ce_lib env) (ce_cat env) to_v k m = Inr f"
      "ring_ready (sub_ring c) (cn_shm c) (frame_encode f)"
    and g: "to_frame (be_lib benv) (be_cat benv) rto_v rk resp = Inr g"
      "correlation_id (ce_lib env) (ce_cat env) g = Inr corr" "ring_ready (rep_ring c) (cn_shm c) (frame_encode g)"
    and still: "be_parks benv = 0" "be_others benv = []"
    and handle: "\<And>w1. same_but (seg_ptr (ring_seg (sub_ring c))) (cn_shm c) w1 \<Longrightarrow>
      \<exists>w2. handle benv (frame_encode f) b w1 = reply benv rto_v cid rk resp b1 w2 \<and> grown w1 w2 \<and> Q w2"
    and stable: "\<And>m w. Q w \<Longrightarrow> Q (set_obj (seg_ptr (ring_seg (rep_ring c))) m w)"
  shows "\<exists>c4. control_round_trip env to_v k msg from_v rk' [bus_turn benv env b] c =
      Some (from_frame (ce_lib env) (ce_cat env) from_v rk' g, [], c4) \<and>
    served benv (to_frame (ce_lib env) (ce_cat env) to_v k m) c b b1 \<and>
    Q (cn_shm c4) \<and> quiet_after c (cn_shm c4) \<and> in_transport (cn_inner c4) = in_transport (cn_inner c) \<and>
    one_call c c4"
proof -
  let ?r = "sub_ring c" and ?rr = "rep_ring c" and ?sid = "in_next_slot (cn_inner c)" and ?n = "shm_next (cn_shm c)"
  let ?p = "seg_ptr (ring_seg ?r)" and ?pr = "seg_ptr (ring_seg ?rr)"
  obtain s s' where sub: "br_submission b = ?r\<lparr>ring_seg := s\<rparr>" "seg_ptr s = ?p"
    and rep: "hm_get (br_reply_rings b1) cid = Some (?rr\<lparr>ring_seg := s'\<rparr>)" "seg_ptr s' = ?pr"
    and ptr: "?p \<noteq> ?pr" "?pr < ?n" "?p < ?n"
    using link by (auto simp: linked_defs)
  have c1: "cn_inner c1 = cn_inner c" "cn_shm c1 = cn_shm c" "cn_draws c1 = Suc (cn_draws c)" using n by (auto simp: next_corr_def)
  define c2 where "c2 = snd (register_pending corr c1)"
  have reg: "register_pending corr c1 = (?sid, c2)"
    by (simp add: prod_eq_iff c2_def c1)
  have c2: "cn_shm c2 = cn_shm c" "in_transport (cn_inner c2) = in_transport (cn_inner c)"
    "pending_of c2 corr = Some ?sid" "sl_frame (slots_of c2 ?sid) = None" "one_call c c2"
    by (simp_all add: c2_def c1 slot_new_def conn_static_def one_call_def)
  have "ring_ready ?r (cn_shm c2) (frame_encode f)" using f(2) c2 by simp
  then obtain mm where mm: "push_ring no_wait ?r (frame_encode f) c2 = Some (True, c2\<lparr>cn_shm := set_ring_mem ?r mm (cn_shm c)\<rparr>)"
    "ring_idle ?r mm" "ring_list ?r mm = [frame_encode f]"
    using ring_ready_push c2(1) by metis
  let ?w0 = "set_ring_mem ?r mm (cn_shm c)"
  obtain w3 w2 m' where run: "run [(benv, id, 0, [])] (be_now benv) b ?w0 = Some (b1, w3)"
    and w3: "w3 = set_ring_mem ?rr m' w2" "Q w2" "ring_idle ?rr m'" "ring_list ?rr m' = [frame_encode g]"
      "same_outside ?rr (ring_mem ?rr (cn_shm c)) m'" "ring_empty ?r w2" "?n \<le> shm_next w2"
      "\<forall>p < ?n. p \<noteq> ?p \<longrightarrow> shm_obj w2 p = shm_obj (cn_shm c) p"
      "\<forall>nm \<in> bus_names - arena_space. sys_open nm w2 = sys_open nm (cn_shm c)"
    by (rule control_turn [OF link mm(2,3) g(1,3) still]) (rule handle)
  have at: "ring_idle ?rr (ring_mem ?rr (cn_shm (c2\<lparr>cn_shm := w3\<rparr>)))"
    "?rr = tp_reply_ring (in_transport (cn_inner (c2\<lparr>cn_shm := w3\<rparr>)))"
    "ring_list ?rr (ring_mem ?rr (cn_shm (c2\<lparr>cn_shm := w3\<rparr>))) = [frame_encode g]"
    "pending_of (c2\<lparr>cn_shm := w3\<rparr>) corr = Some ?sid"
    using w3 c2(2,3) by simp_all
  obtain c3 m3 where c3: "dispatch_turn env 0 [] (c2\<lparr>cn_shm := w3\<rparr>) = Some c3" "sl_frame (slots_of c3 ?sid) = Some g"
    "cn_shm c3 = set_ring_mem ?rr m3 w3" "ring_idle ?rr m3" "ring_list ?rr m3 = []"
    using dispatch_delivers [OF at(1-3) ring_ready_frame [OF g(3)] g(2) at(4)] by (elim exE conjE) (rule that, simp_all)
  have tp3: "in_transport (cn_inner c3) = in_transport (cn_inner c)"
    using dispatch_transport [OF c3(1)] c2(2) by simp
  have st3: "one_call c c3"
    using dispatch_static [OF c3(1)] c2(5) by (simp add: conn_static_def one_call_def)
  have shm3: "cn_shm c3 = set_ring_mem ?rr m3 w2" using c3(3) w3(1) by simp
  have "same_outside ?rr m' m3" using dispatch_frame [OF c3(1) at(2)] c3(3) w3(1) by simp
  then have "same_outside ?rr (ring_mem ?rr (cn_shm c)) m3" by (rule same_outside_trans [OF w3(5)])
  then have quiet: "quiet_after c (cn_shm c3)"
    using shm3 c3(4,5) w3(6-9) ptr by (simp add: quiet_after_def ring_empty_def set_ring_mem_def ring_mem_def sys_open_def)
  have q3: "Q (cn_shm c3)" using stable [OF w3(2)] shm3 by (simp add: set_ring_mem_def)
  let ?c2 = "c2\<lparr>cn_shm := ?w0\<rparr>" and ?c4 = "upd_slot ?sid ((slots_of c3 ?sid)\<lparr>sl_frame := None\<rparr>) c3"
  have ev: "answered_by benv env b ?c2 = c3" using run c3(1) by (simp add: answered_by_def)
  have wait: "slot_wait ?sid [(False, answered_by benv env b)] ?c2 = Some (Some g, ?c4)"
    using c2(4) c3(2) by (subst slot_wait.simps, subst slot_wait.simps) (simp add: slot_take_def ev)
  have "push_ring (bus_turn benv env b) ?r (frame_encode f) c2 = Some (True, ?c2)"
    using mm(1) by (simp add: push_ring_def bus_turn_def no_wait_def)
  then have "call_control corr f [bus_turn benv env b] c1 = Some (Inr g, [], ?c4)"
    using wait c2(2) by (simp add: reg bus_turn_def)
  then have "control_round_trip env to_v k msg from_v rk' [bus_turn benv env b] c =
      Some (from_frame (ce_lib env) (ce_cat env) from_v rk' g, [], ?c4)"
    using n f(1) m by (simp add: control_round_trip_def act_bind_def)
  then show ?thesis
    using run mm(3) f(1) quiet q3 tp3 st3 by (intro exI [of _ ?c4]) (auto simp: served_def conn_static_def one_call_def)
qed

text \<open>A control call uses one turn and leaves the rest to the calls after it.\<close>

lemma call_control_more:
  "call_control corr f [t] c = Some (v, [], c') \<Longrightarrow> call_control corr f (t # ts) c = Some (v, ts, c')"
  by (auto simp: Let_def split: option.splits prod.splits bool.splits)

lemma round_trip_more:
  assumes "control_round_trip env to_v k msg from_v rk [t] c = Some (Inr v, [], c')"
  shows "control_round_trip env to_v k msg from_v rk (t # ts) c = Some (Inr v, ts, c')"
proof -
  obtain corr c1 where n: "next_corr env c = (corr, c1)" by fastforce
  obtain f where f: "to_frame (ce_lib env) (ce_cat env) to_v k (msg corr c1) = Inr f"
    using assms n by (auto simp: control_round_trip_def split: sum.splits)
  obtain g where "call_control corr f [t] c1 = Some (Inr g, [], c')" "from_frame (ce_lib env) (ce_cat env) from_v rk g = Inr v"
    using assms n f by (auto simp: control_round_trip_def act_bind_def act_result_def simp del: call_control.simps
        split: option.splits sum.splits)
  with call_control_more [of corr f t c1 "Inr g" c' ts] n f show ?thesis
    by (simp add: control_round_trip_def act_bind_def act_result_def del: call_control.simps)
qed

section \<open>Messages that go through\<close>

text \<open>A message whose frame fits an empty ring.\<close>

definition sendable ::
  "'sc avro_lib \<Rightarrow> 'sc catalog \<Rightarrow> ('m \<Rightarrow> avro_value) \<Rightarrow> kind \<Rightarrow> 'm \<Rightarrow> ring \<Rightarrow> shm \<Rightarrow> bool" where
  "sendable lib cat to_v k m r w \<longleftrightarrow> has_type (kind_type k) (to_v m) \<and>
     (\<forall>f. to_frame lib cat to_v k m = Inr f \<longrightarrow> ring_ready r w (frame_encode f))"

lemma sendable_mono:
  "sendable lib cat to_v k m r w \<Longrightarrow> (\<And>bs. ring_ready r w bs \<Longrightarrow> ring_ready r' w' bs) \<Longrightarrow> sendable lib cat to_v k m r' w'"
  by (simp add: sendable_def)

text \<open>A message that is well typed and whose frame fits an empty ring of so many bytes.\<close>

definition msg_fits :: "'sc avro_lib \<Rightarrow> 'sc catalog \<Rightarrow> ('m \<Rightarrow> avro_value) \<Rightarrow> kind \<Rightarrow> 'm \<Rightarrow> usize \<Rightarrow> bool" where
  "msg_fits lib cat to_v k m cap \<longleftrightarrow> has_type (kind_type k) (to_v m) \<and>
     (\<forall>f. to_frame lib cat to_v k m = Inr f \<longrightarrow> 4 + length (frame_encode f) \<le> cap)"

lemma msg_fits_sendable: "msg_fits lib cat to_v k m (ring_cap r) \<Longrightarrow> ring_empty r w \<Longrightarrow> sendable lib cat to_v k m r w"
  by (simp add: msg_fits_def sendable_def ring_ready_def ring_empty_def)

text \<open>What a client and the broker have in common: one message library and one catalogue, and a kernel that refuses nothing.\<close>

definition same_bus :: "'sc broker_env \<Rightarrow> 'sc client_env \<Rightarrow> bool" where
  "same_bus benv env \<longleftrightarrow> be_lib benv = ce_lib env \<and> be_cat benv = ce_cat env \<and>
     avro_laws (set proto_types) (ce_lib env) \<and> catalog_build (ce_lib env) = Some (ce_cat env) \<and> fps_distinct (ce_lib env) \<and>
     os_calm (be_os benv) \<and> os_calm (ce_os env) \<and> be_parks benv = 0 \<and> be_others benv = []"

context message_codec
begin

lemma sent:
  assumes "avro_laws (set proto_types) lib" "catalog_build lib = Some c" "fps_distinct lib" "sendable lib c to_v k m r w"
  obtains f where "to_frame lib c to_v k m = Inr f" "ring_ready r w (frame_encode f)" "frame_decode (frame_encode f) = Inr f"
    "kind_of c (frame_schema_fp f) = Some k" "from_frame_compat lib c from_v f = Inr m" "from_frame lib c from_v k f = Inr m"
proof -
  have ty: "has_type (kind_type k) (to_v m)" using assms(4) by (simp add: sendable_def)
  obtain f where f: "to_frame lib c to_v k m = Inr f" "kind_of c (frame_schema_fp f) = Some k"
    "from_frame_compat lib c from_v f = Inr m" using frame_compat [OF assms(1-3) ty] by blast
  moreover have "from_frame lib c from_v k f = Inr m" using frame_round_trip [OF assms(1,2) ty] f(1) by auto
  moreover have ready: "ring_ready r w (frame_encode f)" using assms(4) f(1) by (simp add: sendable_def)
  moreover have "frame_decode (frame_encode f) = Inr f"
    using fc.dec_enc_rest [of f "[]"] ring_ready_frame [OF ready] by simp
  ultimately show ?thesis using that by blast
qed

end

section \<open>Exchanges\<close>

text \<open>How the broker receives a message.\<close>

definition received ::
  "kind \<Rightarrow> ('sc avro_lib \<Rightarrow> avro_value \<Rightarrow> 'm option) \<Rightarrow> 'sc client_env \<Rightarrow> frame \<Rightarrow> 'm \<Rightarrow> bool" where
  "received k from_v env f m \<longleftrightarrow> frame_decode (frame_encode f) = Inr f \<and> kind_of (ce_cat env) (frame_schema_fp f) = Some k \<and>
     from_frame_compat (ce_lib env) (ce_cat env) from_v f = Inr m \<and> from_frame (ce_lib env) (ce_cat env) from_v k f = Inr m"

text \<open>
  A kind of request and the kind of its reply, which carries the correlation id. When the handler's reaction to the
  message is known, the client's call gives the reply.
\<close>

locale control_exchange =
  req: message_codec k to_v from_v + rep: message_codec rk rto_v rfrom_v
  for k :: kind and to_v :: "'m \<Rightarrow> avro_value" and from_v :: "'sc avro_lib \<Rightarrow> avro_value \<Rightarrow> 'm option"
    and rk :: kind and rto_v :: "'r \<Rightarrow> avro_value" and rfrom_v :: "'sc avro_lib \<Rightarrow> avro_value \<Rightarrow> 'r option" +
  fixes reply_corr :: "'r \<Rightarrow> i64"
  assumes reply_corr: "kind_of cat (frame_schema_fp g) = Some rk \<Longrightarrow> from_frame lib cat rfrom_v rk g = Inr resp \<Longrightarrow>
    correlation_id lib cat g = Inr (reply_corr resp)"
begin

lemma exchange:
  assumes bus: "same_bus benv env" and link: "sub_linked b c" "rings_apart c" "rep_linked b1 cid c"
    and n: "next_corr env c = (corr, c1)" and m: "msg corr c1 = m" "reply_corr resp = corr"
    and fits: "sendable (ce_lib env) (ce_cat env) to_v k m (sub_ring c) (cn_shm c)"
      "sendable (ce_lib env) (ce_cat env) rto_v rk resp (rep_ring c) (cn_shm c)"
    and handle: "\<And>f w1. received k from_v env f m \<Longrightarrow>
      same_but (seg_ptr (ring_seg (sub_ring c))) (cn_shm c) w1 \<Longrightarrow>
      \<exists>w2. handle benv (frame_encode f) b w1 = reply benv rto_v cid rk resp b1 w2 \<and> grown w1 w2 \<and> Q w2"
    and stable: "\<And>m w. Q w \<Longrightarrow> Q (set_obj (seg_ptr (ring_seg (rep_ring c))) m w)"
  obtains c4 where "control_round_trip env to_v k msg rfrom_v rk [bus_turn benv env b] c = Some (Inr resp, [], c4)"
    "served benv (to_frame (ce_lib env) (ce_cat env) to_v k m) c b b1"
    "Q (cn_shm c4)" "quiet_after c (cn_shm c4)" "in_transport (cn_inner c4) = in_transport (cn_inner c)" "one_call c c4"
proof -
  note laws = bus [unfolded same_bus_def]
  obtain f where f: "to_frame (ce_lib env) (ce_cat env) to_v k m = Inr f"
    "ring_ready (sub_ring c) (cn_shm c) (frame_encode f)" "received k from_v env f m"
    using req.sent [OF _ _ _ fits(1)] laws unfolding received_def by blast
  obtain g where g: "to_frame (ce_lib env) (ce_cat env) rto_v rk resp = Inr g" "ring_ready (rep_ring c) (cn_shm c) (frame_encode g)"
    "kind_of (ce_cat env) (frame_schema_fp g) = Some rk" "from_frame (ce_lib env) (ce_cat env) rfrom_v rk g = Inr resp"
    using rep.sent [OF _ _ _ fits(2)] laws by blast
  have "correlation_id (ce_lib env) (ce_cat env) g = Inr corr" using reply_corr [OF g(3,4)] m(2) by simp
  then have "\<exists>c4. control_round_trip env to_v k msg rfrom_v rk [bus_turn benv env b] c =
      Some (from_frame (ce_lib env) (ce_cat env) rfrom_v rk g, [], c4) \<and>
    served benv (to_frame (ce_lib env) (ce_cat env) to_v k m) c b b1 \<and>
    Q (cn_shm c4) \<and> quiet_after c (cn_shm c4) \<and> in_transport (cn_inner c4) = in_transport (cn_inner c) \<and> one_call c c4"
    by (intro control_served [where msg = msg, OF link n m(1) f(1,2) _ _ g(2)]) (use g(1) laws handle [OF f(3)] stable in simp_all)
  then show thesis unfolding g(4) by (elim exE conjE) (rule that)
qed

end

interpretation x_reg: control_exchange Register register_to_value register_from_value RegisterReply register_reply_to_value register_reply_from_value regr_correlation_id
  by unfold_locales (simp add: correlation_id_def io_bind_Inr)

interpretation x_pub: control_exchange PublishChannel publish_channel_to_value publish_channel_from_value PublishReply publish_reply_to_value publish_reply_from_value pubr_correlation_id
  by unfold_locales (simp add: correlation_id_def io_bind_Inr)

interpretation x_sub: control_exchange Subscribe subscribe_to_value subscribe_from_value SubscribeReply subscribe_reply_to_value subscribe_reply_from_value subr_correlation_id
  by unfold_locales (simp add: correlation_id_def io_bind_Inr)

interpretation x_exp: control_exchange ExposeFunction expose_function_to_value expose_function_from_value ExposeReply expose_reply_to_value expose_reply_from_value expr_correlation_id
  by unfold_locales (simp add: correlation_id_def io_bind_Inr)

interpretation x_lkp: control_exchange LookupFunction lookup_function_to_value lookup_function_from_value LookupReply lookup_reply_to_value lookup_reply_from_value lkpr_correlation_id
  by unfold_locales (simp add: correlation_id_def io_bind_Inr)

interpretation x_lst: control_exchange ListChannels list_channels_to_value list_channels_from_value ChannelList channel_list_to_value channel_list_from_value chl_correlation_id
  by unfold_locales (simp add: correlation_id_def io_bind_Inr)

section \<open>Publishing\<close>

lemma ring_attach_seg:
  "ring_attach seg base m = Inr r \<Longrightarrow> seg_len sg = seg_len seg \<Longrightarrow> ring_attach sg base m = Inr (r\<lparr>ring_seg := sg\<rparr>)"
  by (auto simp: ring_attach_def Let_def split: if_splits)

text \<open>An arena in place: whoever opens it by name gets the same ring, at rest and empty.\<close>

definition arena_at :: "string \<Rightarrow> ring \<Rightarrow> shm \<Rightarrow> bool" where
  "arena_at nm r w \<longleftrightarrow> (\<forall>os. os_calm os \<longrightarrow> segment_open os nm w = Inr (ring_seg r)) \<and>
     ring_attach (ring_seg r) 0 (ring_mem r w) = Inr r \<and> ring_empty r w"

lemma arena_at_other:
  assumes "arena_at nm r w" "p \<noteq> seg_ptr (ring_seg r)"
  shows "arena_at nm r (set_obj p m w)"
  using assms segment_open_other [of _ nm w "ring_seg r" p m] by (simp add: arena_at_def ring_mem_def)

lemma arena_at_kept:
  assumes "arena_at nm r w" "sys_open nm w' = sys_open nm w" "shm_obj w' (seg_ptr (ring_seg r)) = shm_obj w (seg_ptr (ring_seg r))"
  shows "arena_at nm r w'"
proof -
  have "segment_open os nm w' = Inr (ring_seg r)" if "os_calm os" for os
  proof -
    have o: "segment_open os nm w = Inr (ring_seg r)" using assms(1) that by (simp add: arena_at_def)
    have "segment_open os nm w' = segment_open os nm w"
      using segment_open_Inr(2) [OF o] assms(2,3) by (simp add: segment_open_def Let_def split: option.split)
    with o show ?thesis by simp
  qed
  with assms(1,3) show ?thesis by (simp add: arena_at_def ring_empty_def ring_mem_def)
qed

lemma arena_at_same:
  "arena_at nm r w \<Longrightarrow> same_but p w w' \<Longrightarrow> p \<noteq> seg_ptr (ring_seg r) \<Longrightarrow> arena_at nm r w'"
  by (rule arena_at_kept) (auto simp: same_but_sys_open same_but_def)

lemma attach_arena_at:
  "arena_at nm r (cn_shm c) \<Longrightarrow> os_calm (ce_os env) \<Longrightarrow> attach_arena env nm ts c = Some (Inr r, ts, c)"
  by (simp add: arena_at_def attach_arena_def ring_mem_def)

text \<open>What a segment just created and formatted looks like, whoever made it.\<close>

lemma fresh_ring_calm:
  assumes os: "os_calm os" and nn: "\<not> has_nul nm" and fresh: "sys_open nm w = None"
    and cap: "is_power_of_two cap" "cap < 2 ^ 32"
  obtains seg w1 r m where "segment_create os nm (ring_bytes cap) w = (Inr seg, w1)"
    "ring_format seg 0 cap (shm_obj w1 (seg_ptr seg)) = (Inr r, m)"
    "seg = \<lparr>seg_name = nm, seg_ptr = shm_next w, seg_len = ring_bytes cap, owns_unlink = True\<rparr>"
    "ring_seg r = seg" "ring_cap r = cap" "\<forall>p < shm_next w. shm_obj (set_obj (seg_ptr seg) m w1) p = shm_obj w p"
    "shm_next w \<le> shm_next w1" "\<forall>n. shm_path n \<noteq> shm_path nm \<longrightarrow> sys_open n w1 = sys_open n w"
    "arena_at nm (r\<lparr>ring_seg := seg\<lparr>owns_unlink := False\<rparr>\<rparr>) (set_obj (seg_ptr seg) m w1)"
    "sys_open nm w1 = Some (seg_ptr seg)"
proof -
  have pos: "0 < ring_bytes cap" by (simp add: ring_bytes_def)
  obtain seg w1 where c: "segment_create os nm (ring_bytes cap) w = (Inr seg, w1)"
    and w1: "\<forall>ob. ob \<noteq> seg_ptr seg \<longrightarrow> ob < shm_next w \<longrightarrow> shm_obj w1 ob = shm_obj w ob" "seg_ptr seg = shm_next w"
      "shm_next w \<le> shm_next w1" "\<forall>n. shm_path n \<noteq> shm_path nm \<longrightarrow> sys_open n w1 = sys_open n w"
    using segment_create_calm [OF os nn pos, of w] fresh by blast
  note made = segment_create_Inr [OF c]
  have seg: "seg = \<lparr>seg_name = nm, seg_ptr = shm_next w, seg_len = ring_bytes cap, owns_unlink = True\<rparr>"
    using made w1(2) by (cases seg) simp
  obtain r m where f: "ring_format seg 0 cap (shm_obj w1 (seg_ptr seg)) = (Inr r, m)"
    using cap(1) made(2,5) by (auto simp: ring_format_def Let_def)
  have "length (shm_obj w1 (seg_ptr seg)) = seg_len seg" using made by simp
  note fm = ring_format_Inr [OF f this cap(2)]
  let ?w = "set_obj (seg_ptr seg) m w1" and ?sg = "seg\<lparr>owns_unlink := False\<rparr>"
  let ?r = "r\<lparr>ring_seg := ?sg\<rparr>"
  have len: "length m = ring_bytes cap" using fm(3) made by simp
  have "segment_open os' nm ?w = Inr \<lparr>seg_name = nm, seg_ptr = seg_ptr seg, seg_len = ring_bytes cap, owns_unlink = False\<rparr>"
    if "os_calm os'" for os'
    using segment_open_calm [OF that nn, of ?w "seg_ptr seg"] made(4) len pos by fastforce
  then have sg: "segment_open os' nm ?w = Inr ?sg" if "os_calm os'" for os' using that seg by simp
  have att: "ring_attach ?sg 0 m = Inr ?r" using ring_attach_seg [OF fm(7), of ?sg] by simp
  have "ring_idle r m" "ring_list r m = []" using ring_idleI [OF fm(1,2)] ring_holdsD [OF fm(1)] by simp_all
  then have at: "arena_at nm ?r ?w" using sg att by (simp add: arena_at_def ring_mem_def ring_empty_def)
  have keep: "\<forall>p < shm_next w. shm_obj ?w p = shm_obj w p" using w1(1,2) by simp
  show ?thesis by (rule that [OF c f seg fm(5,4) keep w1(3,4) at made(4)])
qed

lemma make_arena_calm:
  assumes os: "os_calm os" and nm: "nm \<in> arena_space" and fresh: "sys_open nm w = None" "hm_get (br_arenas b) nm = None"
    and cap: "is_power_of_two cap" "cap < 2 ^ 32"
  obtains w' r where "make_arena os nm cap b w = (Inr nm, b\<lparr>br_arenas := hm_insert nm \<lparr>seg_name = nm, seg_ptr = shm_next w,
      seg_len = ring_bytes cap, owns_unlink = True\<rparr> (br_arenas b)\<rparr>, w')"
    "grown w w'" "arena_at nm r w'" "ring_cap r = cap" "seg_ptr (ring_seg r) = shm_next w"
proof -
  obtain seg w1 r m where c: "segment_create os nm (ring_bytes cap) w = (Inr seg, w1)"
    "ring_format seg 0 cap (shm_obj w1 (seg_ptr seg)) = (Inr r, m)"
    and seg: "seg = \<lparr>seg_name = nm, seg_ptr = shm_next w, seg_len = ring_bytes cap, owns_unlink = True\<rparr>"
    and r: "ring_cap r = cap" "\<forall>p < shm_next w. shm_obj (set_obj (seg_ptr seg) m w1) p = shm_obj w p"
    "shm_next w \<le> shm_next w1" "\<forall>n. shm_path n \<noteq> shm_path nm \<longrightarrow> sys_open n w1 = sys_open n w" "arena_at nm (r\<lparr>ring_seg := seg\<lparr>owns_unlink := False\<rparr>\<rparr>) (set_obj (seg_ptr seg) m w1)"
    using fresh_ring_calm [OF os bus_name_nul [OF arena_space_bus [OF nm]] fresh(1) cap] by metis
  have "make_arena os nm cap b w = (Inr nm, b\<lparr>br_arenas := hm_insert nm seg (br_arenas b)\<rparr>, set_obj (seg_ptr seg) m w1)"
    by (simp only: make_arena_def c fresh(2) Let_def sum.case prod.case option.case)
  moreover have "grown w (set_obj (seg_ptr seg) m w1)"
    using r(2-4) nm bus_name_path_inject [OF _ arena_space_bus [OF nm]] by (auto simp: grown_def)
  ultimately show ?thesis using r(1,5) seg that [of "set_obj (seg_ptr seg) m w1" "r\<lparr>ring_seg := seg\<lparr>owns_unlink := False\<rparr>\<rparr>"] by simp
qed

text \<open>The same for the broker's own names, with what that does to its directory.\<close>

lemma new_arena_calm:
  assumes inv: "broker_inv b" "world_ok b w" and os: "os_calm os" and nm: "nm \<in> arena_space" "nm \<notin> arena_names (br_reg b)"
    and sg: "sg = \<lparr>seg_name = nm, seg_ptr = shm_next w, seg_len = ring_bytes (clamp_arena_cap k), owns_unlink = True\<rparr>"
  obtains w1 r where "make_arena os nm (clamp_arena_cap k) (b\<lparr>br_reg := g\<rparr>) w =
      (Inr nm, b\<lparr>br_reg := g, br_arenas := hm_insert nm sg (br_arenas b)\<rparr>, w1)"
    "grown w w1" "arena_at nm r w1" "ring_cap r = clamp_arena_cap k" "seg_ptr (ring_seg r) = shm_next w"
    "\<forall>b'. br_arenas b' = hm_insert nm sg (br_arenas b) \<longrightarrow> world_ok b' w1"
proof -
  have none: "hm_get (br_arenas (b\<lparr>br_reg := g\<rparr>)) nm = None"
    using inv(1) nm(2) by (auto simp: broker_inv_def hm_contains_def)
  have free: "sys_open nm w = None" using inv(2) none nm(1) by (simp add: world_ok_def)
  obtain w1 r where mk: "make_arena os nm (clamp_arena_cap k) (b\<lparr>br_reg := g\<rparr>) w =
      (Inr nm, (b\<lparr>br_reg := g\<rparr>)\<lparr>br_arenas := hm_insert nm sg (br_arenas (b\<lparr>br_reg := g\<rparr>))\<rparr>, w1)"
    and w1: "grown w w1" "arena_at nm r w1"
      "ring_cap r = clamp_arena_cap k" "seg_ptr (ring_seg r) = shm_next w"
    unfolding sg by (rule make_arena_calm [OF os nm(1) free none clamp_bounds])
  have "\<forall>b'. br_arenas b' = hm_insert nm sg (br_arenas b) \<longrightarrow> world_ok b' w1"
    using make_arena_world(1) [OF _ _ nm(1) none clamp_bounds mk] os inv(2) by (simp add: os_calm_def world_ok_def)
  with w1 mk show thesis by (intro that) simp_all
qed

text \<open>A control call whose handler makes an arena: when it returns the arena is there.\<close>

context control_exchange
begin

lemma exchange_arena:
  assumes bus: "same_bus benv env" and link: "sub_linked b c" "rings_apart c" "rep_linked b1 cid c"
    and n: "next_corr env c = (corr, c1)" and m: "msg corr c1 = m" "reply_corr resp = corr"
    and fits: "sendable (ce_lib env) (ce_cat env) to_v k m (sub_ring c) (cn_shm c)"
      "sendable (ce_lib env) (ce_cat env) rto_v rk resp (rep_ring c) (cn_shm c)"
    and handle: "\<And>f w1. received k from_v env f m \<Longrightarrow> same_but (seg_ptr (ring_seg (sub_ring c))) (cn_shm c) w1 \<Longrightarrow>
      \<exists>w2 r. handle benv (frame_encode f) b w1 = reply benv rto_v cid rk resp b1 w2 \<and> grown w1 w2 \<and> arena_at nm r w2 \<and>
        ring_cap r = cap \<and> seg_ptr (ring_seg r) = shm_next w1 \<and> world_ok b1 w2"
  obtains c4 r where "control_round_trip env to_v k msg rfrom_v rk [bus_turn benv env b] c = Some (Inr resp, [], c4)"
    "served benv (to_frame (ce_lib env) (ce_cat env) to_v k m) c b b1"
    "quiet_after c (cn_shm c4)" "in_transport (cn_inner c4) = in_transport (cn_inner c)" "one_call c c4"
    "arena_at nm r (cn_shm c4)" "ring_cap r = cap" "seg_ptr (ring_seg r) = shm_next (cn_shm c)" "world_ok b1 (cn_shm c4)"
proof -
  let ?Q = "\<lambda>w. \<exists>r. arena_at nm r w \<and> ring_cap r = cap \<and> seg_ptr (ring_seg r) = shm_next (cn_shm c) \<and> world_ok b1 w"
  have h: "\<exists>w2. handle benv (frame_encode f) b w1 = reply benv rto_v cid rk resp b1 w2 \<and> grown w1 w2 \<and> ?Q w2"
    if "received k from_v env f m" "same_but (seg_ptr (ring_seg (sub_ring c))) (cn_shm c) w1" for f w1
    using handle [OF that] that(2) by (auto simp: same_but_def)
  have st: "?Q (set_obj (seg_ptr (ring_seg (rep_ring c))) m' w)" if q: "?Q w" for m' w
  proof -
    obtain r where r: "arena_at nm r w" "ring_cap r = cap" "seg_ptr (ring_seg r) = shm_next (cn_shm c)" "world_ok b1 w"
      using q by blast
    have "seg_ptr (ring_seg (rep_ring c)) \<noteq> seg_ptr (ring_seg r)" using link(2) r(3) by (simp add: rings_apart_def)
    from arena_at_other [OF r(1) this] r(2,3) world_ok_mem [of "set_obj (seg_ptr (ring_seg (rep_ring c))) m' w" w b1] r(4)
    show ?thesis by (intro exI [of _ r]) simp
  qed
  show thesis
    by (rule exchange [where msg = msg and Q = ?Q, OF bus link n m fits h st]) (auto intro: that)
qed

end
text \<open>The channel a publication grants, and the broker that has granted it.\<close>

definition granted_channel :: "'sc broker_env \<Rightarrow> publish_channel \<Rightarrow> fingerprint \<Rightarrow> broker \<Rightarrow> channel_meta" where
  "granted_channel benv m fp b =
     \<lparr>ch_id = rg_next_channel (br_reg b), ch_name = pub_channel m, ch_owner = pub_client_id m, ch_schema_fp = fp,
      ch_key = access_policy (be_sha benv) (pub_access_key m),
      ch_arena = channel_arena (word_of_int (rg_next_channel (br_reg b)))\<rparr>"

definition granted_reply :: "publish_channel \<Rightarrow> fingerprint \<Rightarrow> broker \<Rightarrow> publish_reply" where
  "granted_reply m fp b =
     \<lparr>pubr_correlation_id = pub_correlation_id m, pubr_channel_id = rg_next_channel (br_reg b),
      pubr_schema_fp = fp_to_i64 fp, pubr_arena = channel_arena (word_of_int (rg_next_channel (br_reg b))),
      pubr_status = STATUS_OK, pubr_message = []\<rparr>"

definition granted :: "'sc broker_env \<Rightarrow> publish_channel \<Rightarrow> fingerprint \<Rightarrow> nat \<Rightarrow> broker \<Rightarrow> broker" where
  "granted benv m fp ob b =
     (let c = granted_channel benv m fp b in
      b\<lparr>br_arenas := hm_insert (ch_arena c) \<lparr>seg_name = ch_arena c, seg_ptr = ob,
          seg_len = ring_bytes (clamp_arena_cap (nat (max (pub_arena_cap m) 0))), owns_unlink = True\<rparr> (br_arenas b),
        br_reg := insert_channel c (snd (alloc_channel_id (br_reg b)))\<rparr>)"

lemma publish_new_calm:
  assumes inv: "broker_inv b" "world_ok b w" and os: "os_calm (be_os benv)"
    and schema: "avro_parse (be_lib benv) (pub_schema_json m) = Inr (sc, fp)"
  obtains w1 r where "publish_new benv m b w = reply benv publish_reply_to_value (pub_client_id m) PublishReply
      (granted_reply m fp b) (granted benv m fp (shm_next w) b) w1"
    "grown w w1" "arena_at (channel_arena (word_of_int (rg_next_channel (br_reg b)))) r w1"
    "ring_cap r = clamp_arena_cap (nat (max (pub_arena_cap m) 0))" "seg_ptr (ring_seg r) = shm_next w"
    "world_ok (granted benv m fp (shm_next w) b) w1"
proof -
  let ?id = "rg_next_channel (br_reg b)"
  let ?nm = "channel_arena (word_of_int ?id)" and ?k = "nat (max (pub_arena_cap m) 0)" and ?g = "snd (alloc_channel_id (br_reg b))"
  have nm: "?nm \<in> arena_space" "?nm \<notin> arena_names (br_reg b)"
    using inv(1) fresh_channel_arena [of "br_reg b"] by (simp_all add: arena_space_def broker_inv_def)
  have id: "alloc_channel_id (br_reg b) = (?id, ?g)" by (simp add: alloc_channel_id_def)
  obtain w1 r where mk: "make_arena (be_os benv) ?nm (clamp_arena_cap ?k) (b\<lparr>br_reg := ?g\<rparr>) w = (Inr ?nm, b\<lparr>br_reg := ?g,
        br_arenas := hm_insert ?nm \<lparr>seg_name = ?nm, seg_ptr = shm_next w, seg_len = ring_bytes (clamp_arena_cap ?k), owns_unlink = True\<rparr>
          (br_arenas b)\<rparr>, w1)"
    and w1: "grown w w1" "arena_at ?nm r w1"
      "ring_cap r = clamp_arena_cap ?k" "seg_ptr (ring_seg r) = shm_next w"
    and world: "\<forall>b'. br_arenas b' = hm_insert ?nm \<lparr>seg_name = ?nm, seg_ptr = shm_next w, seg_len = ring_bytes (clamp_arena_cap ?k),
        owns_unlink = True\<rparr> (br_arenas b) \<longrightarrow> world_ok b' w1"
    by (rule new_arena_calm [OF inv os nm refl])
  have "publish_new benv m b w = reply benv publish_reply_to_value (pub_client_id m) PublishReply
      (granted_reply m fp b) (granted benv m fp (shm_next w) b) w1"
    unfolding publish_new_def schema sum.case prod.case Let_def
    by (subst id) (simp add: mk granted_def granted_channel_def granted_reply_def Let_def)
  moreover have "world_ok (granted benv m fp (shm_next w) b) w1"
    using world by (simp add: granted_def granted_channel_def Let_def)
  ultimately show ?thesis using w1 by (intro that)
qed

lemma granted_simps [simp]:
  "br_reply_rings (granted benv m fp ob b) = br_reply_rings b" "br_submission (granted benv m fp ob b) = br_submission b"
  "br_reg (granted benv m fp ob b) = insert_channel (granted_channel benv m fp b) (snd (alloc_channel_id (br_reg b)))"
  by (simp_all add: granted_def Let_def)

text \<open>
  A name that is free is granted: the client gets the ring of the new arena and the schema's
  fingerprint, the broker has the channel in its registry, and the arena can be opened by anyone.
\<close>

lemma do_publish_served:
  assumes bus: "same_bus benv env" and inv: "client_linked b c" "broker_inv b" "world_ok b (cn_shm c)"
    and corr: "next_corr env c = (corr, c1)"
    and m: "m = \<lparr>pub_correlation_id = corr, pub_client_id = client_id c, pub_channel = nm, pub_schema_json = schema,
      pub_access_key = key_str key, pub_arena_cap = cap\<rparr>"
    and schema: "avro_parse (ce_lib env) schema = Inr (sc, fp)" and free: "\<not> channel_name_taken nm (br_reg b)"
    and fits: "sendable (ce_lib env) (ce_cat env) publish_channel_to_value PublishChannel m (sub_ring c) (cn_shm c)"
      "sendable (ce_lib env) (ce_cat env) publish_reply_to_value PublishReply (granted_reply m fp b) (rep_ring c) (cn_shm c)"
  shows "\<exists>r c4. do_publish env nm schema key cap [bus_turn benv env b] c = Some (Inr (r, fp), [], c4) \<and>
    served benv (to_frame (ce_lib env) (ce_cat env) publish_channel_to_value PublishChannel m) c b
      (granted benv m fp (shm_next (cn_shm c)) b) \<and>
    arena_at (channel_arena (word_of_int (rg_next_channel (br_reg b)))) r (cn_shm c4) \<and>
    ring_cap r = clamp_arena_cap (nat (max cap 0)) \<and> seg_ptr (ring_seg r) = shm_next (cn_shm c) \<and>
    quiet_after c (cn_shm c4) \<and> in_transport (cn_inner c4) = in_transport (cn_inner c) \<and>
    world_ok (granted benv m fp (shm_next (cn_shm c)) b) (cn_shm c4) \<and> one_call c c4"
proof -
  let ?b = "granted benv m fp (shm_next (cn_shm c)) b" and ?a = "channel_arena (word_of_int (rg_next_channel (br_reg b)))"
  let ?msg = "\<lambda>corr c. \<lparr>pub_correlation_id = corr, pub_client_id = client_id c, pub_channel = nm,
      pub_schema_json = schema, pub_access_key = key_str key, pub_arena_cap = cap\<rparr>"
  note laws = bus [unfolded same_bus_def]
  have link: "sub_linked b c" "rings_apart c" "rep_linked ?b (client_id c) c"
    using inv(1) by (simp_all add: client_linked_def rep_linked_def)
  have msg: "?msg corr c1 = m" "pubr_correlation_id (granted_reply m fp b) = corr"
    using m corr by (auto simp: next_corr_def client_id_def granted_reply_def)
  have h: "\<exists>w2 r. handle benv (frame_encode f) b w1 =
        reply benv publish_reply_to_value (client_id c) PublishReply (granted_reply m fp b) ?b w2 \<and> grown w1 w2 \<and> arena_at ?a r w2 \<and>
      ring_cap r = clamp_arena_cap (nat (max cap 0)) \<and> seg_ptr (ring_seg r) = shm_next w1 \<and> world_ok ?b w2"
    if f: "received PublishChannel publish_channel_from_value env f m"
      and sb: "same_but (seg_ptr (ring_seg (sub_ring c))) (cn_shm c) w1" for f w1
  proof -
    have w: "world_ok b w1" "shm_next w1 = shm_next (cn_shm c)"
      using inv(3) same_but_world [OF sb] sb by (simp_all add: same_but_def)
    have p: "os_calm (be_os benv)" "avro_parse (be_lib benv) (pub_schema_json m) = Inr (sc, fp)" using laws schema m by simp_all
    have e: "handle benv (frame_encode f) b w1 = publish_new benv m b w1"
      using laws f free m by (simp add: received_def handle_def on_publish_def)
    from m have m2: "pub_client_id m = client_id c" "pub_arena_cap m = cap" by simp_all
    show ?thesis
      unfolding e w(2) [symmetric] m2 [symmetric]
      by (rule publish_new_calm [OF inv(2) w(1) p]) (intro exI conjI, assumption+)
  qed
  obtain c4 r where rt: "control_round_trip env publish_channel_to_value PublishChannel ?msg
        publish_reply_from_value PublishReply [bus_turn benv env b] c = Some (Inr (granted_reply m fp b), [], c4)"
    and rest: "served benv (to_frame (ce_lib env) (ce_cat env) publish_channel_to_value PublishChannel m) c b ?b"
      "quiet_after c (cn_shm c4)" "in_transport (cn_inner c4) = in_transport (cn_inner c)" "one_call c c4"
    and r: "arena_at ?a r (cn_shm c4)" "ring_cap r = clamp_arena_cap (nat (max cap 0))" "seg_ptr (ring_seg r) = shm_next (cn_shm c)"
      "world_ok ?b (cn_shm c4)"
    by (rule x_pub.exchange_arena [where msg = ?msg, OF bus link corr msg fits h])
  have "do_publish env nm schema key cap [bus_turn benv env b] c = Some (Inr (r, fp), [], c4)"
    using rt attach_arena_at [OF r(1), of env] laws
    by (simp add: do_publish_def act_bind_def granted_reply_def fp_transport)
  with rest r show ?thesis by blast
qed

section \<open>Subscribing\<close>

definition subscribed_reply :: "subscribe \<Rightarrow> channel_meta \<Rightarrow> subscribe_reply" where
  "subscribed_reply m ch =
     \<lparr>subr_correlation_id = sub_correlation_id m, subr_arena = ch_arena ch, subr_schema_fp = fp_to_i64 (ch_schema_fp ch),
      subr_status = STATUS_OK, subr_message = []\<rparr>"

text \<open>A subscriber with the key and the schema of a channel whose arena is in place gets the arena's ring.\<close>

lemma do_subscribe_served:
  assumes bus: "same_bus benv env" and linked: "client_linked b c"
    and corr: "next_corr env c = (corr, c1)"
    and m: "m = \<lparr>sub_correlation_id = corr, sub_client_id = client_id c, sub_channel_id = i,
      sub_access_key = key_str key, sub_expected_fp = fp_to_i64 fp\<rparr>"
    and ch: "hm_get (rg_channels (br_reg b)) i = Some ch" "check_key (be_sha benv) (ch_key ch) (key_str key) = Inr ()"
      "check_fp fp (ch_schema_fp ch) = Inr ()"
    and arena: "arena_at (ch_arena ch) r (cn_shm c)" "seg_ptr (ring_seg r) \<noteq> seg_ptr (ring_seg (sub_ring c))"
      "seg_ptr (ring_seg r) \<noteq> seg_ptr (ring_seg (rep_ring c))"
    and fits: "sendable (ce_lib env) (ce_cat env) subscribe_to_value Subscribe m (sub_ring c) (cn_shm c)"
      "sendable (ce_lib env) (ce_cat env) subscribe_reply_to_value SubscribeReply (subscribed_reply m ch) (rep_ring c) (cn_shm c)"
  shows "\<exists>c4. do_subscribe env i key fp [bus_turn benv env b] c = Some (Inr (r, ch_schema_fp ch), [], c4) \<and>
    served benv (to_frame (ce_lib env) (ce_cat env) subscribe_to_value Subscribe m) c b
      (b\<lparr>br_reg := mark_subscribed i (br_reg b)\<rparr>) \<and>
    arena_at (ch_arena ch) r (cn_shm c4) \<and>
    quiet_after c (cn_shm c4) \<and> in_transport (cn_inner c4) = in_transport (cn_inner c)"
proof -
  let ?b = "b\<lparr>br_reg := mark_subscribed i (br_reg b)\<rparr>"
  let ?msg = "\<lambda>corr c. \<lparr>sub_correlation_id = corr, sub_client_id = client_id c, sub_channel_id = i,
      sub_access_key = key_str key, sub_expected_fp = fp_to_i64 fp\<rparr>"
  note laws = bus [unfolded same_bus_def]
  have link: "sub_linked b c" "rings_apart c" "rep_linked ?b (client_id c) c"
    using linked by (simp_all add: client_linked_def rep_linked_def)
  have msg: "?msg corr c1 = m" "subr_correlation_id (subscribed_reply m ch) = corr"
    using m corr by (auto simp: next_corr_def client_id_def subscribed_reply_def)
  have h: "\<exists>w2. handle benv (frame_encode f) b w1 =
        reply benv subscribe_reply_to_value (client_id c) SubscribeReply (subscribed_reply m ch) ?b w2 \<and>
      grown w1 w2 \<and> arena_at (ch_arena ch) r w2"
    if f: "received Subscribe subscribe_from_value env f m" and sb: "same_but (seg_ptr (ring_seg (sub_ring c))) (cn_shm c) w1" for f w1
  proof -
    have "resolve_subscribe (be_sha benv) i (key_str key) fp (br_reg b) = Inr (ch_arena ch, ch_schema_fp ch)"
      using ch by (simp add: resolve_subscribe_def)
    then have "handle benv (frame_encode f) b w1 =
        reply benv subscribe_reply_to_value (client_id c) SubscribeReply (subscribed_reply m ch) ?b w1"
      using laws f m by (simp add: received_def handle_def on_subscribe_def subscribed_reply_def fp_transport)
    moreover have "arena_at (ch_arena ch) r w1" using arena_at_same [OF arena(1) sb] arena(2) by simp
    ultimately show ?thesis by (intro exI [of _ w1]) simp
  qed
  have st: "arena_at (ch_arena ch) r (set_obj (seg_ptr (ring_seg (rep_ring c))) m' w)" if "arena_at (ch_arena ch) r w" for m' w
    using arena_at_other [OF that] arena(3) by simp
  obtain c4 where rt: "control_round_trip env subscribe_to_value Subscribe ?msg
        subscribe_reply_from_value SubscribeReply [bus_turn benv env b] c = Some (Inr (subscribed_reply m ch), [], c4)"
    and rest: "served benv (to_frame (ce_lib env) (ce_cat env) subscribe_to_value Subscribe m) c b ?b"
      "arena_at (ch_arena ch) r (cn_shm c4)" "quiet_after c (cn_shm c4)" "in_transport (cn_inner c4) = in_transport (cn_inner c)"
    by (rule x_sub.exchange [where msg = ?msg and Q = "arena_at (ch_arena ch) r", OF bus link corr msg fits h st])
  have "do_subscribe env i key fp [bus_turn benv env b] c = Some (Inr (r, ch_schema_fp ch), [], c4)"
    using rt attach_arena_at [OF rest(2), of env] laws
    by (simp add: do_subscribe_def act_bind_def subscribed_reply_def fp_transport)
  with rest show ?thesis by blast
qed

section \<open>Connecting\<close>

text \<open>A broker that can be found: its control segment is there by name, and holds its submission ring, empty.\<close>

definition broker_open :: "broker \<Rightarrow> shm \<Rightarrow> bool" where
  "broker_open b w \<longleftrightarrow>
     (let ob = seg_ptr (ring_seg (br_submission b));
          sg = \<lparr>seg_name = CONTROL_SEGMENT, seg_ptr = ob, seg_len = length (shm_obj w ob), owns_unlink = False\<rparr>
      in sys_open CONTROL_SEGMENT w = Some ob \<and> shm_obj w ob \<noteq> [] \<and>
         attach_control sg (shm_obj w ob) = Inr ((br_submission b)\<lparr>ring_seg := sg\<rparr>) \<and> ring_empty (br_submission b) w)"

text \<open>A client that has bootstrapped: its reply segment can be opened by name, its rings are empty.\<close>

definition client_ready :: "broker \<Rightarrow> conn \<Rightarrow> segment \<Rightarrow> bool" where
  "client_ready b c sg \<longleftrightarrow> sub_linked b c \<and> rings_apart c \<and> ring_empty (sub_ring c) (cn_shm c) \<and> \<not> owns_unlink sg \<and>
     seg_ptr sg = seg_ptr (ring_seg (rep_ring c)) \<and> arena_at (reply_segment c) ((rep_ring c)\<lparr>ring_seg := sg\<rparr>) (cn_shm c)"

text \<open>A client whose reply ring others can open by the name of its segment.\<close>

definition reply_open :: "conn \<Rightarrow> bool" where
  "reply_open c \<longleftrightarrow> (\<exists>n sg. reply_segment c = client_segment n \<and> seg_ptr sg = seg_ptr (ring_seg (rep_ring c)) \<and>
     arena_at (reply_segment c) ((rep_ring c)\<lparr>ring_seg := sg\<rparr>) (cn_shm c))"

lemma world_ok_fresh:
  assumes "world_ok b w" "shm_ok w'" "n \<in> bus_names" "n \<notin> arena_space"
    and "\<And>nm. shm_path nm \<noteq> shm_path n \<Longrightarrow> sys_open nm w' = sys_open nm w"
  shows "world_ok b w'"
  unfolding world_ok_def
proof (intro conjI ballI)
  fix nm assume "nm \<in> arena_space"
  then have "shm_path nm \<noteq> shm_path n" using assms(3,4) bus_name_path_inject arena_space_bus by metis
  then show "sys_open nm w' = map_option seg_ptr (hm_get (br_arenas b) nm)"
    using assms(1,5) \<open>nm \<in> arena_space\<close> by (simp add: world_ok_def)
qed (rule assms(2))

lemma bootstrap_calm:
  assumes os: "os_calm (ce_os env)" and w: "world_ok b w" "broker_open b w"
    and fresh: "sys_open (client_segment (random_u64 (ce_random env dr))) w = None"
  obtains tp w' sg where "bootstrap env cap dr w = (Inr tp, Suc dr, w')" "world_ok b w'" "broker_open b w'"
    "\<forall>p < shm_next w. shm_obj w' p = shm_obj w p" "shm_next w \<le> shm_next w'"
    "\<forall>n. shm_path n \<noteq> shm_path (client_segment (random_u64 (ce_random env dr))) \<longrightarrow> sys_open n w' = sys_open n w"
    "client_ready b \<lparr>cn_inner = client_start app cap tp, cn_shm = w', cn_draws = Suc dr\<rparr> sg"
    "ring_cap (tp_reply_ring tp) = clamp_arena_cap (if cap = 0 then REPLY_CAP else cap)"
    "tp_nonce tp = random_u64 (ce_random env dr)" "tp_reply_segment tp = client_segment (random_u64 (ce_random env dr))"
    "seg_ptr (ring_seg (tp_reply_ring tp)) = shm_next w"
proof -
  let ?n = "client_segment (random_u64 (ce_random env dr))" and ?cap = "clamp_arena_cap (if cap = 0 then REPLY_CAP else cap)"
  define ob where "ob = seg_ptr (ring_seg (br_submission b))"
  define sg0 where "sg0 = \<lparr>seg_name = CONTROL_SEGMENT, seg_ptr = ob, seg_len = length (shm_obj w ob), owns_unlink = False\<rparr>"
  have ctl: "sys_open CONTROL_SEGMENT w = Some ob" "shm_obj w ob \<noteq> []"
    "attach_control sg0 (shm_obj w ob) = Inr ((br_submission b)\<lparr>ring_seg := sg0\<rparr>)" "ring_empty (br_submission b) w"
    using w(2) by (simp_all add: broker_open_def Let_def ob_def sg0_def)
  have lt: "ob < shm_next w" using ctl(1) w(1) by (auto simp: world_ok_def shm_ok_def sys_open_def)
  have op: "segment_open (ce_os env) CONTROL_SEGMENT w = Inr sg0"
    unfolding sg0_def by (rule segment_open_calm [OF os _ ctl(1,2)]) (rule bus_name_nul, simp add: bus_names_def)
  have bus: "?n \<in> bus_names" "\<not> has_nul ?n" by (simp_all add: bus_names_def bus_name_nul)
  obtain seg w1 r m where c: "segment_create (ce_os env) ?n (ring_bytes ?cap) w = (Inr seg, w1)"
    "ring_format seg 0 ?cap (shm_obj w1 (seg_ptr seg)) = (Inr r, m)"
    and seg: "seg = \<lparr>seg_name = ?n, seg_ptr = shm_next w, seg_len = ring_bytes ?cap, owns_unlink = True\<rparr>"
    and r: "ring_seg r = seg" "ring_cap r = ?cap" "\<forall>p < shm_next w. shm_obj (set_obj (seg_ptr seg) m w1) p = shm_obj w p"
    "shm_next w \<le> shm_next w1" "\<forall>n. shm_path n \<noteq> shm_path ?n \<longrightarrow> sys_open n w1 = sys_open n w"
    "arena_at ?n (r\<lparr>ring_seg := seg\<lparr>owns_unlink := False\<rparr>\<rparr>) (set_obj (seg_ptr seg) m w1)"
    "sys_open ?n w1 = Some (seg_ptr seg)"
    by (rule fresh_ring_calm [OF os bus(2) fresh clamp_bounds])
  let ?w = "set_obj (seg_ptr seg) m w1" and ?tp = "\<lparr>tp_submission = (br_submission b)\<lparr>ring_seg := sg0\<rparr>, tp_reply_ring = r,
      tp_reply_segment = ?n, tp_nonce = random_u64 (ce_random env dr), tp_client_id = 0,
      tp_epoch = broker_epoch (shm_obj w ob), tp_control_seg = sg0, tp_reply_seg = seg\<rparr>"
  have b: "bootstrap env cap dr w = (Inr ?tp, Suc dr, ?w)"
    by (simp only: bootstrap_def op ctl(3) c Let_def sum.case prod.case sg0_def segment.simps
        op [unfolded sg0_def] ctl(3) [unfolded sg0_def])
  have ok: "shm_ok ?w" using shm_ok_create [of w "ce_os env" ?n "ring_bytes ?cap"] w(1) c(1) by (simp add: world_ok_def)
  have sp: "?n \<notin> arena_space" by (auto simp: arena_space_def)
  have world: "world_ok b ?w" by (rule world_ok_fresh [OF w(1) ok bus(1) sp]) (simp add: r(5))
  have path: "shm_path CONTROL_SEGMENT \<noteq> shm_path ?n" by (subst bus_name_path_inject) (simp_all add: bus_names_def)
  have ob: "shm_obj ?w ob = shm_obj w ob" using r(3) lt by blast
  then have emp: "ring_empty (br_submission b) ?w" using ctl(4) by (simp add: ring_empty_def ring_mem_def ob_def)
  have open': "broker_open b ?w"
    using ctl r(5) path ob emp unfolding broker_open_def Let_def ob_def [symmetric] sg0_def by simp
  have ptr: "seg_ptr seg < shm_next ?w" using ok r(7) by (auto simp: shm_ok_def sys_open_def)
  have ready: "client_ready b \<lparr>cn_inner = client_start app cap ?tp, cn_shm = ?w, cn_draws = Suc dr\<rparr> (seg\<lparr>owns_unlink := False\<rparr>)"
    using r lt ptr emp seg
    by (simp add: client_ready_def linked_defs client_start_def sg0_def ob_def reply_segment_def ring_empty_def ring_mem_def)
      (rule exI [of _ "ring_seg (br_submission b)"], simp)
  show ?thesis
    by (rule that [OF b world open' r(3) _ _ ready]) (use r seg in simp_all)
qed

lemma do_register_served:
  assumes bus: "same_bus benv env" and c: "client_ready b c sg" "world_ok b (cn_shm c)" and corr: "next_corr env c = (corr, c1)"
    and m: "m = \<lparr>reg_correlation_id = corr, reg_app_name = in_app_name (cn_inner c),
      reg_nonce = sint (tp_nonce (in_transport (cn_inner c))), reg_reply_segment = reply_segment c,
      reg_heartbeat_ms = 1000, reg_pid = int (ce_pid env)\<rparr>"
    and fits: "sendable (ce_lib env) (ce_cat env) register_to_value Register m (sub_ring c) (cn_shm c)"
      "sendable (ce_lib env) (ce_cat env) register_reply_to_value RegisterReply (register_ok (rg_next_client (br_reg b)) m)
         (rep_ring c) (cn_shm c)"
  shows "\<exists>c4. do_register env [bus_turn benv env b] c = Some (Inr (rg_next_client (br_reg b)), [], c4) \<and>
    served benv (to_frame (ce_lib env) (ce_cat env) register_to_value Register m) c b
      (registered m sg ((rep_ring c)\<lparr>ring_seg := sg\<rparr>) b) \<and> world_ok b (cn_shm c4) \<and> quiet_after c (cn_shm c4) \<and>
    in_transport (cn_inner c4) = (in_transport (cn_inner c))\<lparr>tp_client_id := rg_next_client (br_reg b)\<rparr> \<and>
    one_call c c4"
proof -
  let ?r = "(rep_ring c)\<lparr>ring_seg := sg\<rparr>" and ?cid = "rg_next_client (br_reg b)"
  let ?b = "registered m sg ?r b"
  let ?msg = "\<lambda>corr c. \<lparr>reg_correlation_id = corr, reg_app_name = in_app_name (cn_inner c),
      reg_nonce = sint (tp_nonce (in_transport (cn_inner c))), reg_reply_segment = reply_segment c,
      reg_heartbeat_ms = 1000, reg_pid = int (ce_pid env)\<rparr>"
  note laws = bus [unfolded same_bus_def]
  have arena: "arena_at (reply_segment c) ?r (cn_shm c)" and ptr: "seg_ptr sg = seg_ptr (ring_seg (rep_ring c))"
    using c(1) by (simp_all add: client_ready_def)
  have link: "sub_linked b c" "rings_apart c" "rep_linked ?b ?cid c"
    using c(1) ptr by (auto simp: client_ready_def rep_linked_def registered_def)
  have msg: "?msg corr c1 = m" "regr_correlation_id (register_ok ?cid m) = corr"
    using m corr by (auto simp: next_corr_def reply_segment_def register_ok_def)
  have h: "\<exists>w2. handle benv (frame_encode f) b w1 =
        reply benv register_reply_to_value ?cid RegisterReply (register_ok ?cid m) ?b w2 \<and> grown w1 w2 \<and> world_ok b w2"
    if f: "received Register register_from_value env f m" and sb: "same_but (seg_ptr (ring_seg (sub_ring c))) (cn_shm c) w1" for f w1
  proof -
    have at: "arena_at (reply_segment c) ?r w1"
      using arena_at_same [OF arena sb] c(1) ptr by (simp add: client_ready_def rings_apart_def)
    have op: "segment_open (be_os benv) (reply_segment c) w1 = Inr sg" "ring_attach sg 0 (shm_obj w1 (seg_ptr sg)) = Inr ?r"
      using at laws by (simp_all add: arena_at_def ring_mem_def)
    have cid: "fst (add_client a p g) = rg_next_client g" for a p g by (simp add: add_client_def Let_def)
    have "handle benv (frame_encode f) b w1 = reply benv register_reply_to_value ?cid RegisterReply (register_ok ?cid m) ?b w1"
      using laws f m op cid
      by (simp add: received_def handle_def on_register_def registered_def register_ok_def Let_def case_prod_beta)
    then show ?thesis using same_but_world [OF sb] c(2) by (intro exI [of _ w1]) simp
  qed
  have st: "world_ok b (set_obj p m' w)" if "world_ok b w" for p m' w using that world_ok_mem [of "set_obj p m' w" w b] by simp
  obtain c4 where rt: "control_round_trip env register_to_value Register ?msg register_reply_from_value RegisterReply
      [bus_turn benv env b] c = Some (Inr (register_ok ?cid m), [], c4)"
    and rest: "served benv (to_frame (ce_lib env) (ce_cat env) register_to_value Register m) c b ?b"
      "world_ok b (cn_shm c4)" "quiet_after c (cn_shm c4)" "in_transport (cn_inner c4) = in_transport (cn_inner c)" "one_call c c4"
    by (rule x_reg.exchange [where msg = ?msg and Q = "world_ok b", OF bus link corr msg fits h st])
  let ?c = "upd_inner (\<lambda>n. n\<lparr>in_transport := (in_transport n)\<lparr>tp_client_id := ?cid\<rparr>\<rparr>) c4"
  have "do_register env [bus_turn benv env b] c = Some (Inr ?cid, [], ?c)"
    using rt by (simp add: do_register_def act_bind_def register_ok_def)
  with rest show ?thesis
    by (intro exI [of _ ?c]) (simp add: upd_inner_def conn_static_def one_call_def)
qed

lemma ring_ready_sub:
  assumes "sub_linked b c" "ring_empty (sub_ring c) w'" "ring_ready (br_submission b) w bs"
  shows "ring_ready (sub_ring c) w' bs"
  using assms by (auto simp: sub_linked_def ring_ready_def ring_empty_def)

lemma client_linked_registered:
  assumes "broker_inv b" "client_linked b d" "shm_next (cn_shm d) \<le> shm_next w"
  shows "client_linked (registered m sg r b) (d\<lparr>cn_shm := w\<rparr>)"
proof -
  have "hm_contains (rg_clients (br_reg b)) (client_id d)"
    using assms(1,2) by (auto simp: broker_inv_def linked_defs hm_contains_def)
  then have "client_id d \<noteq> rg_next_client (br_reg b)" using assms(1) by (auto simp: broker_inv_def reg_ok_defs)
  with assms(2,3) show ?thesis by (auto simp: linked_defs registered_def client_id_def)
qed

text \<open>The registration a new connection sends.\<close>

definition reg_request :: "'sc client_env \<Rightarrow> string \<Rightarrow> nat \<Rightarrow> register" where
  "reg_request env app draws =
     \<lparr>reg_correlation_id = sint (random_u64 (ce_random env (Suc draws))), reg_app_name = app,
      reg_nonce = sint (random_u64 (ce_random env draws)),
      reg_reply_segment = client_segment (random_u64 (ce_random env draws)),
      reg_heartbeat_ms = 1000, reg_pid = int (ce_pid env)\<rparr>"

text \<open>
  C7: connecting works and disturbs nobody. A program that connects to a broker in its loop gets a
  connection: the broker has it in its registry under an identifier never given before, with its
  name and process, replies on the reply ring of the capacity asked for, both rings between them
  are empty, and the broker's invariant holds. Every client that was linked to the broker still is.
\<close>

theorem connect_end_to_end:
  assumes bus: "same_bus benv env" and b: "broker_inv b" "world_ok b w" "broker_open b w" "reg_count (br_reg b) < 2 ^ 63 - 1"
    and fresh: "sys_open (client_segment (random_u64 (ce_random env draws))) w = None"
    and m: "m = reg_request env app draws" and cid: "cid = rg_next_client (br_reg b)"
    and req: "sendable (ce_lib env) (ce_cat env) register_to_value Register m (br_submission b) w"
    and ans: "has_type (kind_type RegisterReply) (register_reply_to_value (register_ok cid m))"
      "\<forall>g. to_frame (ce_lib env) (ce_cat env) register_reply_to_value RegisterReply (register_ok cid m) = Inr g \<longrightarrow>
         4 + length (frame_encode g) \<le> clamp_arena_cap (if cap = 0 then REPLY_CAP else cap)"
  shows "\<exists>x c0 b1. connect_with_reply_cap env app cap [bus_turn benv env b] draws w = Some (Inr ([], x)) \<and>
    served benv (to_frame (ce_lib env) (ce_cat env) register_to_value Register m) c0 b b1 \<and>
    client_linked b1 (cx_conn x) \<and> client_id (cx_conn x) = cid \<and> \<not> hm_contains (rg_clients (br_reg b)) cid \<and>
    hm_get (rg_clients (br_reg b1)) cid = Some \<lparr>cm_app_name = app, cm_pid = wrap_i32 (int (ce_pid env))\<rparr> \<and>
    ring_empty (sub_ring (cx_conn x)) (cn_shm (cx_conn x)) \<and> ring_empty (rep_ring (cx_conn x)) (cn_shm (cx_conn x)) \<and>
    connection_reply_capacity x = clamp_arena_cap (if cap = 0 then REPLY_CAP else cap) \<and>
    broker_inv b1 \<and> world_ok b1 (cn_shm (cx_conn x)) \<and>
    (\<forall>d. client_linked b d \<longrightarrow> cn_shm d = w \<longrightarrow> client_linked b1 (d\<lparr>cn_shm := cn_shm (cx_conn x)\<rparr>))"
proof -
  have os: "os_calm (ce_os env)" using bus by (simp add: same_bus_def)
  obtain tp w' sg where boot: "bootstrap env cap draws w = (Inr tp, Suc draws, w')" "world_ok b w'"
    and nx: "shm_next w \<le> shm_next w'"
    and ready: "client_ready b \<lparr>cn_inner = client_start app cap tp, cn_shm = w', cn_draws = Suc draws\<rparr> sg"
    and tp: "ring_cap (tp_reply_ring tp) = clamp_arena_cap (if cap = 0 then REPLY_CAP else cap)"
      "tp_nonce tp = random_u64 (ce_random env draws)" "tp_reply_segment tp = client_segment (random_u64 (ce_random env draws))"
    by (rule bootstrap_calm [OF os b(2,3) fresh]) blast
  define c where "c = \<lparr>cn_inner = client_start app cap tp, cn_shm = w', cn_draws = Suc draws\<rparr>"
  have c: "cn_shm c = w'" "in_transport (cn_inner c) = tp" "in_app_name (cn_inner c) = app"
    by (simp_all add: c_def client_start_def)
  note ready = ready [folded c_def]
  obtain corr c1 where corr: "next_corr env c = (corr, c1)" by fastforce
  have m': "m = \<lparr>reg_correlation_id = corr, reg_app_name = in_app_name (cn_inner c),
      reg_nonce = sint (tp_nonce (in_transport (cn_inner c))), reg_reply_segment = reply_segment c,
      reg_heartbeat_ms = 1000, reg_pid = int (ce_pid env)\<rparr>"
    using corr c tp by (auto simp: m reg_request_def next_corr_def reply_segment_def c_def)
  have sub: "sub_linked b c" "ring_empty (sub_ring c) (cn_shm c)" "ring_empty (rep_ring c) (cn_shm c)" "rings_apart c"
    and sg: "\<not> owns_unlink sg" "seg_ptr sg = seg_ptr (ring_seg (rep_ring c))"
    using ready by (auto simp: client_ready_def arena_at_def ring_empty_def ring_mem_def)
  have f1: "sendable (ce_lib env) (ce_cat env) register_to_value Register m (sub_ring c) (cn_shm c)"
    by (rule sendable_mono [OF req ring_ready_sub [OF sub(1,2)]])
  have f2: "sendable (ce_lib env) (ce_cat env) register_reply_to_value RegisterReply
      (register_ok (rg_next_client (br_reg b)) m) (rep_ring c) (cn_shm c)"
    using ans sub(3) tp(1) c cid by (simp add: sendable_def ring_ready_def ring_empty_def)
  let ?r = "(rep_ring c)\<lparr>ring_seg := sg\<rparr>"
  let ?b = "registered m sg ?r b"
  obtain c4 where reg: "do_register env [bus_turn benv env b] c = Some (Inr cid, [], c4)"
    and run: "served benv (to_frame (ce_lib env) (ce_cat env) register_to_value Register m) c b ?b"
    and c4: "world_ok b (cn_shm c4)" "quiet_after c (cn_shm c4)"
      "in_transport (cn_inner c4) = (in_transport (cn_inner c))\<lparr>tp_client_id := cid\<rparr>"
    using do_register_served [OF bus ready _ corr m' f1 f2] boot(2) c(1) cid by auto
  let ?x = "\<lparr>cx_conn = c4, cx_threads = [DispatcherThread, WatcherThread], cx_service_workers = DEFAULT_SERVICE_WORKERS\<rparr>"
  have con: "connect_with_reply_cap env app cap [bus_turn benv env b] draws w = Some (Inr ([], ?x))"
    using boot(1) reg by (simp add: connect_with_reply_cap_def client_connect_def c_def)
  have keep: "keeps (be_os benv) b w ?b w" by (rule keeps_registered [OF b(1,4) sg(1)])
  have link: "client_linked ?b c4"
    using sub(1,4) sg(2) c4(2,3) by (auto simp: linked_defs registered_def client_id_def cid quiet_after_def)
  have empty: "ring_empty (sub_ring c4) (cn_shm c4)" "ring_empty (rep_ring c4) (cn_shm c4)"
    using c4(2,3) by (simp_all add: quiet_after_def)
  have meta: "hm_get (rg_clients (br_reg ?b)) cid = Some \<lparr>cm_app_name = app, cm_pid = wrap_i32 (int (ce_pid env))\<rparr>"
    by (simp add: registered_def add_client_def Let_def m reg_request_def cid)
  have new: "\<not> hm_contains (rg_clients (br_reg b)) cid" using b(1) by (auto simp: broker_inv_def reg_ok_defs cid)
  have capx: "connection_reply_capacity ?x = clamp_arena_cap (if cap = 0 then REPLY_CAP else cap)"
    using c4(3) c tp(1) by (simp add: connection_reply_capacity_def reply_capacity_def)
  have others: "client_linked ?b (d\<lparr>cn_shm := cn_shm c4\<rparr>)" if "client_linked b d" "cn_shm d = w" for d
    using client_linked_registered [OF b(1) that(1)] that(2) nx c4(2) c(1) by (simp add: quiet_after_def)
  have world: "world_ok ?b (cn_shm c4)" using c4(1) by (simp add: world_ok_def registered_def)
  show ?thesis
    by (intro exI [of _ ?x] exI [of _ c] exI [of _ ?b] conjI allI impI)
      (use con run link empty meta new capx others world keep c4(3) in \<open>simp_all add: client_id_def keeps_def\<close>)
qed

section \<open>From publisher to subscriber\<close>

text \<open>The requests a connection makes next.\<close>

definition pub_request :: "'sc client_env \<Rightarrow> string \<Rightarrow> string \<Rightarrow> string option \<Rightarrow> usize \<Rightarrow> conn \<Rightarrow> publish_channel" where
  "pub_request env nm schema key cap c =
     \<lparr>pub_correlation_id = fst (next_corr env c), pub_client_id = client_id c, pub_channel = nm, pub_schema_json = schema,
      pub_access_key = key_str key, pub_arena_cap = wrap_i64 (int cap)\<rparr>"

definition sub_request :: "'sc client_env \<Rightarrow> i64 \<Rightarrow> string option \<Rightarrow> fingerprint \<Rightarrow> conn \<Rightarrow> subscribe" where
  "sub_request env i key fp c =
     \<lparr>sub_correlation_id = fst (next_corr env c), sub_client_id = client_id c, sub_channel_id = i,
      sub_access_key = key_str key, sub_expected_fp = fp_to_i64 fp\<rparr>"

lemma own_key: "check_key sha (access_policy sha key) key = Inr ()"
  by (simp add: check_key_def access_policy_def key_matches_def fold_diff_zero)

text \<open>A request one client has had served leaves the rings of another as they were.\<close>

lemma after_ready:
  assumes c: "client_linked b c" and d: "client_linked b d" "cn_shm d = cn_shm c"
    and ne: "seg_ptr (ring_seg (rep_ring d)) \<noteq> seg_ptr (ring_seg (rep_ring c))" and q: "quiet_after c w"
  shows "ring_ready (sub_ring d) (cn_shm c) bs \<Longrightarrow> ring_ready (sub_ring d) w bs"
    and "ring_ready (rep_ring d) (cn_shm c) bs \<Longrightarrow> ring_ready (rep_ring d) w bs" and "rings_apart (d\<lparr>cn_shm := w\<rparr>)"
proof -
  obtain s s' where "br_submission b = (sub_ring c)\<lparr>ring_seg := s\<rparr>" "seg_ptr s = seg_ptr (ring_seg (sub_ring c))"
    "br_submission b = (sub_ring d)\<lparr>ring_seg := s'\<rparr>" "seg_ptr s' = seg_ptr (ring_seg (sub_ring d))"
    using c d by (auto simp: linked_defs)
  then have same: "seg_ptr (ring_seg (sub_ring d)) = seg_ptr (ring_seg (sub_ring c))"
    "sub_ring d = (sub_ring c)\<lparr>ring_seg := ring_seg (sub_ring d)\<rparr>"
    by (metis ring.select_convs(1) ring.surjective ring.update_convs(1))+
  have "ring_empty (sub_ring c) w" using q by (simp add: quiet_after_def)
  then have "ring_empty (sub_ring d) w"
    using same(1) by (subst same(2)) (simp add: ring_empty_def ring_mem_def)
  then show "ring_ready (sub_ring d) (cn_shm c) bs \<Longrightarrow> ring_ready (sub_ring d) w bs"
    by (simp add: ring_ready_def ring_empty_def)
  have "shm_obj w (seg_ptr (ring_seg (rep_ring d))) = shm_obj (cn_shm c) (seg_ptr (ring_seg (rep_ring d)))"
    using q d ne same(1) by (simp add: quiet_after_def linked_defs)
  then show "ring_ready (rep_ring d) (cn_shm c) bs \<Longrightarrow> ring_ready (rep_ring d) w bs"
    using ring_ready_same by blast
  show "rings_apart (d\<lparr>cn_shm := w\<rparr>)" using q d by (simp add: quiet_after_def linked_defs)
qed

text \<open>The two operations of the interface: a publisher and a subscriber with a cell of their own for the arena's ring.\<close>

lemma publish_channel_done:
  assumes "avro_parse (ce_lib env) schema = Inr (sc, fp0)"
    and "do_publish env nm schema key (wrap_i64 (int cap)) ts (cx_conn x) = Some (Inr (r, fp), ts', c4)"
  shows "\<exists>p x1. publish_channel_with_arena env nm schema key cap ts x = Some (Inr p, ts', x1) \<and>
    pb_schema p = sc \<and> pb_schema_fp p = fp \<and> in_cells (cn_inner (cx_conn x1)) (pb_ring p) = r \<and>
    cn_shm (cx_conn x1) = cn_shm c4 \<and> in_transport (cn_inner (cx_conn x1)) = in_transport (cn_inner c4)"
  using assms by (simp add: publish_channel_with_arena_def lift_act_def act_bind_def with_reconnect_def new_cell_def
      register_entry_def publisher_new_def Let_def)

lemma subscribe_channel_done:
  assumes "avro_parse (ce_lib env) schema = Inr (sc, fp0)"
    and "do_subscribe env i key fp0 ts (cx_conn x) = Some (Inr (r, fp), ts', c4)"
  shows "\<exists>s x1. subscribe_channel env i key schema ts x = Some (Inr s, ts', x1) \<and>
    sb_schema s = sc \<and> sb_schema_fp s = fp \<and> in_cells (cn_inner (cx_conn x1)) (sb_ring s) = r \<and>
    cn_shm (cx_conn x1) = cn_shm c4 \<and> in_transport (cn_inner (cx_conn x1)) = in_transport (cn_inner c4)"
  using assms by (simp add: subscribe_channel_def lift_act_def act_bind_def with_reconnect_def new_cell_def
      subscriber_new_def Let_def)

text \<open>
  C5: publishing and subscribing make a channel. With a broker in its loop and two registered
  clients, one publishes a name nobody holds: its request crosses the submission ring, the broker
  creates the arena and replies, and the call returns a publisher. The other subscribes to the
  identifier granted with the same key and schema, and the call returns a subscriber. The two
  handles are the ends of one ring, which is empty and has the capacity asked for, clamped: they
  meet the conditions under which a channel is a queue.
\<close>

theorem publish_subscribe_end_to_end:
  assumes cd: "cx_conn x = c" "cx_conn y = d" and bus: "same_bus benv env" "same_bus benv env'" and inv: "broker_inv b" "world_ok b (cn_shm c)"
    and linked: "client_linked b c" "client_linked b d" "cn_shm d = cn_shm c"
      "seg_ptr (ring_seg (rep_ring d)) \<noteq> seg_ptr (ring_seg (rep_ring c))"
    and schema: "avro_parse (ce_lib env) schema = Inr (sc, fp)" and free: "\<not> channel_name_taken nm (br_reg b)"
    and m: "m = pub_request env nm schema key cap c" and n: "n = sub_request env' (rg_next_channel (br_reg b)) key fp d"
    and fits: "sendable (ce_lib env) (ce_cat env) publish_channel_to_value PublishChannel m (sub_ring c) (cn_shm c)"
      "sendable (ce_lib env) (ce_cat env) publish_reply_to_value PublishReply (granted_reply m fp b) (rep_ring c) (cn_shm c)"
      "sendable (ce_lib env') (ce_cat env') subscribe_to_value Subscribe n (sub_ring d) (cn_shm d)"
      "sendable (ce_lib env') (ce_cat env') subscribe_reply_to_value SubscribeReply
         (subscribed_reply n (granted_channel benv m fp b)) (rep_ring d) (cn_shm d)"
  shows "\<exists>p s x1 y1 b1. publish_channel_with_arena env nm schema key cap [bus_turn benv env b] x = Some (Inr p, [], x1) \<and>
    served benv (to_frame (ce_lib env) (ce_cat env) publish_channel_to_value PublishChannel m) c b b1 \<and>
    hm_get (rg_chan_by_name (br_reg b1)) nm = Some (rg_next_channel (br_reg b)) \<and>
    subscribe_channel env' (rg_next_channel (br_reg b)) key schema [bus_turn benv env' b1]
      (y\<lparr>cx_conn := d\<lparr>cn_shm := cn_shm (cx_conn x1)\<rparr>\<rparr>) = Some (Inr s, [], y1) \<and>
    chan_linked p s ((cx_conn x1)\<lparr>cn_shm := cn_shm (cx_conn y1)\<rparr>, cx_conn y1) \<and>
    chan_holds env to_v from_v ty p [] ((cx_conn x1)\<lparr>cn_shm := cn_shm (cx_conn y1)\<rparr>) \<and>
    pb_schema p = sc \<and> pb_schema_fp p = fp \<and>
    publisher_capacity p (cx_conn x1) = clamp_arena_cap (nat (max (wrap_i64 (int cap)) 0))"
proof -
  let ?i = "rg_next_channel (br_reg b)" and ?ch = "granted_channel benv m fp b"
  let ?b1 = "granted benv m fp (shm_next (cn_shm c)) b"
  obtain corr c1 where corr: "next_corr env c = (corr, c1)" by fastforce
  have m': "m = \<lparr>pub_correlation_id = corr, pub_client_id = client_id c, pub_channel = nm, pub_schema_json = schema,
      pub_access_key = key_str key, pub_arena_cap = wrap_i64 (int cap)\<rparr>" using m corr by (simp add: pub_request_def)
  obtain r c4 where pub: "do_publish env nm schema key (wrap_i64 (int cap)) [bus_turn benv env b] c = Some (Inr (r, fp), [], c4)"
    and b1: "served benv (to_frame (ce_lib env) (ce_cat env) publish_channel_to_value PublishChannel m) c b ?b1"
    and r: "arena_at (ch_arena ?ch) r (cn_shm c4)" "ring_cap r = clamp_arena_cap (nat (max (wrap_i64 (int cap)) 0))"
      "seg_ptr (ring_seg r) = shm_next (cn_shm c)" and quiet: "quiet_after c (cn_shm c4)"
    using do_publish_served [OF bus(1) linked(1) inv corr m' schema free fits(1,2)] by (auto simp: granted_channel_def)
  obtain p x1 where p: "publish_channel_with_arena env nm schema key cap [bus_turn benv env b] x = Some (Inr p, [], x1)"
    "pb_schema p = sc" "pb_schema_fp p = fp" "in_cells (cn_inner (cx_conn x1)) (pb_ring p) = r" "cn_shm (cx_conn x1) = cn_shm c4"
    using publish_channel_done [OF schema pub [folded cd(1)]] by blast
  let ?d = "d\<lparr>cn_shm := cn_shm c4\<rparr>"
  note ready = after_ready [OF linked quiet]
  obtain corr' d1 where corr': "next_corr env' ?d = (corr', d1)" by fastforce
  have n': "n = \<lparr>sub_correlation_id = corr', sub_client_id = client_id ?d, sub_channel_id = ?i,
      sub_access_key = key_str key, sub_expected_fp = fp_to_i64 fp\<rparr>"
    using n corr' by (simp add: sub_request_def next_corr_def client_id_def)
  have link: "client_linked ?b1 ?d"
    using linked(2) ready(3) by (simp add: client_linked_def sub_linked_def rep_linked_def client_id_def)
  have ch: "hm_get (rg_channels (br_reg ?b1)) ?i = Some ?ch" "hm_get (rg_chan_by_name (br_reg ?b1)) nm = Some ?i"
    by (simp_all add: insert_channel_def granted_channel_def m')
  have key: "check_key (be_sha benv) (ch_key ?ch) (key_str key) = Inr ()" "check_fp fp (ch_schema_fp ?ch) = Inr ()"
    by (simp_all add: granted_channel_def m' own_key check_fp_def)
  have apart: "seg_ptr (ring_seg r) \<noteq> seg_ptr (ring_seg (sub_ring ?d))" "seg_ptr (ring_seg r) \<noteq> seg_ptr (ring_seg (rep_ring ?d))"
    using linked(2,3) r(3) by (auto simp: linked_defs)
  have f: "sendable (ce_lib env') (ce_cat env') subscribe_to_value Subscribe n (sub_ring ?d) (cn_shm ?d)"
    "sendable (ce_lib env') (ce_cat env') subscribe_reply_to_value SubscribeReply (subscribed_reply n ?ch) (rep_ring ?d) (cn_shm ?d)"
    using fits(3,4) linked(3) ready(1,2) by (auto intro: sendable_mono)
  have arena: "arena_at (ch_arena ?ch) r (cn_shm ?d)" using r(1) by simp
  obtain d4 where sub: "do_subscribe env' ?i key fp [bus_turn benv env' ?b1] ?d = Some (Inr (r, fp), [], d4)"
    and r4: "arena_at (ch_arena ?ch) r (cn_shm d4)"
    using do_subscribe_served [OF bus(2) link corr' n' ch(1) key arena apart f] by (auto simp: granted_channel_def)
  have schema': "avro_parse (ce_lib env') schema = Inr (sc, fp)" using bus schema by (simp add: same_bus_def)
  let ?y = "y\<lparr>cx_conn := ?d\<rparr>"
  have "do_subscribe env' ?i key fp [bus_turn benv env' ?b1] (cx_conn ?y) = Some (Inr (r, fp), [], d4)" using sub by simp
  then obtain s y1 where s: "subscribe_channel env' ?i key schema [bus_turn benv env' ?b1] ?y = Some (Inr s, [], y1)"
    "sb_schema s = sc" "sb_schema_fp s = fp" "in_cells (cn_inner (cx_conn y1)) (sb_ring s) = r" "cn_shm (cx_conn y1) = cn_shm d4"
    using subscribe_channel_done [OF schema'] by blast
  have link2: "chan_linked p s ((cx_conn x1)\<lparr>cn_shm := cn_shm (cx_conn y1)\<rparr>, cx_conn y1)"
    using p s by (auto simp: chan_linked_def intro: exI [of _ "ring_seg r"])
  have holds: "chan_holds env to_v from_v ty p [] ((cx_conn x1)\<lparr>cn_shm := cn_shm (cx_conn y1)\<rparr>)"
    using r4 p(4) s(5) by (simp add: chan_holds_def arena_at_def ring_empty_def)
  have cap: "publisher_capacity p (cx_conn x1) = clamp_arena_cap (nat (max (wrap_i64 (int cap)) 0))"
    using p(4) r(2) by (simp add: publisher_capacity_def)
  show ?thesis
    by (intro exI [of _ p] exI [of _ s] exI [of _ x1] exI [of _ y1] exI [of _ ?b1] conjI) (use p s b1 ch(2) link2 holds cap in simp_all)
qed

section \<open>A bus with two clients\<close>

lemma demo_same_bus: "same_bus demo_env demo_cenv"
  using proto_lib_laws proto_cat_build proto_lib_distinct demo_calm
  by (simp add: same_bus_def demo_env_def demo_cenv_def)

lemma demo_open: "broker_open demo_broker demo_world"
  unfolding broker_open_def Let_def demo_control_seg(6)
  using demo_control_seg(1,3,5) demo_control(3,4) by (simp add: ring_empty_def)

lemma demo_new_reg: "br_reg demo_broker = registry_new"
  using start_cases [OF demo_start] by (metis broker.select_convs(3))

lemma demo_sendable:
  assumes "has_type (kind_type k) (to_v m)" "length (ref_enc (to_v m)) \<le> 4000" "ring_empty r w" "2 ^ 16 \<le> ring_cap r"
  shows "sendable proto_lib proto_cat to_v k m r w"
  using assms by (auto simp: sendable_def ring_ready_def ring_empty_def FRAME_HEADER_def dest: proto_frame_body)

lemma demo_fits:
  assumes "has_type (kind_type k) (to_v m)" "length (ref_enc (to_v m)) \<le> 4000" "2 ^ 16 \<le> cap"
  shows "msg_fits proto_lib proto_cat to_v k m cap"
  using assms by (auto simp: msg_fits_def FRAME_HEADER_def dest: proto_frame_body)

lemma demo_register_small:
  "has_type (kind_type Register) (register_to_value (reg_request demo_cenv ''demo'' n))"
  "length (ref_enc (register_to_value (reg_request demo_cenv ''demo'' n))) \<le> 4000"
  "has_type (kind_type RegisterReply) (register_reply_to_value (register_ok 1 (reg_request demo_cenv ''demo'' n)))"
  "length (ref_enc (register_reply_to_value (register_ok 1 (reg_request demo_cenv ''demo'' n)))) \<le> 4000"
  using length_client_segment [of "random_u64 (ce_random demo_cenv n)"] sint_range
  by (simp_all add: kind_type_def register_to_value_def register_reply_to_value_def register_ok_def reg_request_def
      STATUS_OK_def, simp_all add: demo_cenv_def)

theorem connect_end_to_end_witness:
  "\<exists>x b1. connect_with_reply_cap demo_cenv ''demo'' 0 [bus_turn demo_env demo_cenv demo_broker] 0 demo_world = Some (Inr ([], x)) \<and>
    client_linked b1 (cx_conn x) \<and> client_id (cx_conn x) = 1 \<and> broker_inv b1"
proof -
  have cid: "1 = rg_next_client (br_reg demo_broker)" by (simp add: demo_new_reg registry_new_def)
  have env: "ce_lib demo_cenv = proto_lib" "ce_cat demo_cenv = proto_cat" by (simp_all add: demo_cenv_def)
  have e: "ring_empty (br_submission demo_broker) demo_world" "2 ^ 16 \<le> ring_cap (br_submission demo_broker)"
    using demo_control(3,4) demo_control_seg(8) by (simp_all add: ring_empty_def SUBMISSION_CAP_def)
  have req: "sendable (ce_lib demo_cenv) (ce_cat demo_cenv) register_to_value Register (reg_request demo_cenv ''demo'' 0)
      (br_submission demo_broker) demo_world"
    unfolding env by (rule demo_sendable) (use demo_register_small(1,2) e in auto)
  have ans: "\<forall>g. to_frame (ce_lib demo_cenv) (ce_cat demo_cenv) register_reply_to_value RegisterReply
      (register_ok 1 (reg_request demo_cenv ''demo'' 0)) = Inr g \<longrightarrow>
    4 + length (frame_encode g) \<le> clamp_arena_cap (if (0::nat) = 0 then REPLY_CAP else 0)"
    unfolding env using demo_register_small(4) [of 0] clamp_range(1) [of REPLY_CAP]
    by (auto simp: FRAME_HEADER_def dest!: proto_frame_body)
  have "reg_count (br_reg demo_broker) < 2 ^ 63 - 1" by (simp add: demo_inv(3))
  from connect_end_to_end [OF demo_same_bus demo_inv(1,2) demo_open this demo_control_seg(7) refl cid req demo_register_small(3) ans]
  show ?thesis by (elim exE conjE) (intro exI conjI, assumption+)
qed

text \<open>Two clients that have bootstrapped one after the other and are registered as 1 and 2.\<close>

lemma demo_two_clients:
  "\<exists>b c d. broker_inv b \<and> world_ok b (cn_shm c) \<and> client_linked b c \<and> client_linked b d \<and> cn_shm d = cn_shm c \<and>
     seg_ptr (ring_seg (rep_ring d)) \<noteq> seg_ptr (ring_seg (rep_ring c)) \<and> client_id c = 1 \<and> client_id d = 2 \<and>
     rg_next_channel (br_reg b) = 1 \<and> rg_chan_by_name (br_reg b) = hm_empty \<and>
     rg_next_fn (br_reg b) = 1 \<and> rg_fn_by_name (br_reg b) = hm_empty \<and> reply_open d \<and> in_callees (cn_inner d) = hm_empty \<and>
     (\<forall>r \<in> {sub_ring c, rep_ring c, sub_ring d, rep_ring d}. ring_empty r (cn_shm c) \<and> 2 ^ 16 \<le> ring_cap r) \<and>
     owns_reply (in_transport (cn_inner c))"
proof -
  let ?w = demo_world and ?seg = "\<lambda>n. client_segment (random_u64 (ce_random demo_cenv n))"
  obtain tc w1 sc where c: "world_ok demo_broker w1" "broker_open demo_broker w1" "shm_next ?w \<le> shm_next w1"
    "\<forall>n. shm_path n \<noteq> shm_path (?seg 0) \<longrightarrow> sys_open n w1 = sys_open n ?w"
    "client_ready demo_broker \<lparr>cn_inner = client_start ''pub'' 0 tc, cn_shm = w1, cn_draws = Suc 0\<rparr> sc"
    "ring_cap (tp_reply_ring tc) = clamp_arena_cap (if 0 = (0::nat) then REPLY_CAP else 0)"
    "bootstrap demo_cenv 0 0 ?w = (Inr tc, Suc 0, w1)"
    by (rule bootstrap_calm [OF demo_calm demo_inv(2) demo_open demo_control_seg(7)]) blast
  have "random_u64 (ce_random demo_cenv 0) \<noteq> random_u64 (ce_random demo_cenv 1)"
    by (simp add: demo_cenv_def random_u64_def)
  then have "shm_path (?seg 1) \<noteq> shm_path (?seg 0)"
    by (subst bus_name_path_inject) (simp_all add: bus_names_def)
  then have fresh: "sys_open (?seg 1) w1 = None" using c(4) demo_control_seg(7) by simp
  obtain td w2 sd where d: "world_ok demo_broker w2" "\<forall>p < shm_next w1. shm_obj w2 p = shm_obj w1 p" "shm_next w1 \<le> shm_next w2"
    "client_ready demo_broker \<lparr>cn_inner = client_start ''sub'' 0 td, cn_shm = w2, cn_draws = Suc 1\<rparr> sd"
    "ring_cap (tp_reply_ring td) = clamp_arena_cap (if 0 = (0::nat) then REPLY_CAP else 0)"
    "seg_ptr (ring_seg (tp_reply_ring td)) = shm_next w1" "tp_reply_segment td = ?seg 1"
    by (rule bootstrap_calm [OF demo_calm c(1,2) fresh]) blast
  let ?c0 = "\<lparr>cn_inner = client_start ''pub'' 0 tc, cn_shm = w1, cn_draws = Suc 0\<rparr>"
  let ?c = "\<lparr>cn_inner = client_start ''pub'' 0 (tc\<lparr>tp_client_id := 1\<rparr>), cn_shm = w2, cn_draws = 5\<rparr>"
  let ?d = "\<lparr>cn_inner = client_start ''sub'' 0 (td\<lparr>tp_client_id := 2\<rparr>), cn_shm = w2, cn_draws = 7\<rparr>"
  let ?m = "reg_request demo_cenv ''demo''"
  let ?b1 = "registered (?m 0) sc ((tp_reply_ring tc)\<lparr>ring_seg := sc\<rparr>) demo_broker"
  let ?b = "registered (?m 1) sd ((tp_reply_ring td)\<lparr>ring_seg := sd\<rparr>) ?b1"
  have tp: "in_transport (cn_inner ?c) = tc\<lparr>tp_client_id := 1\<rparr>" "in_transport (cn_inner ?d) = td\<lparr>tp_client_id := 2\<rparr>"
    "client_id ?c = 1" "client_id ?d = 2" by (simp_all add: client_start_def client_id_def)
  have nc: "rg_next_client (br_reg demo_broker) = 1" "rg_next_client (br_reg ?b1) = 2"
    by (simp_all add: registered_def add_client_def demo_new_reg registry_new_def wrap_i64_def)
  have rc: "\<not> owns_unlink sc" "\<not> owns_unlink sd" using c(5) d(4) by (simp_all add: client_ready_def)
  have k1: "keeps demo_os demo_broker w2 ?b1 w2" by (rule keeps_registered [OF demo_inv(1) _ rc(1)]) (simp add: demo_inv(3))
  have k2: "keeps demo_os ?b1 w2 ?b w2"
    by (rule keeps_registered [OF _ _ rc(2)]) (use k1 in \<open>auto simp: keeps_def counted_def demo_inv(3)\<close>)
  have world: "world_ok ?b w2" using d(1) by (simp add: world_ok_def registered_def)
  have sub: "br_submission ?b = br_submission demo_broker" by (simp add: registered_def)
  have lc: "client_linked ?b ?c"
    using c(5) d(3) tp nc
    by (auto simp: client_ready_def linked_defs client_start_def registered_def client_id_def)
  have ld: "client_linked ?b ?d"
    using d(4) tp nc
    by (auto simp: client_ready_def linked_defs client_start_def registered_def client_id_def)
  have ne: "seg_ptr (ring_seg (tp_reply_ring td)) \<noteq> seg_ptr (ring_seg (tp_reply_ring tc))"
    using c(5) d(6) by (auto simp: client_ready_def rings_apart_def client_start_def)
  have emp: "ring_empty (tp_reply_ring tc) w2"
    using c(5) d(2) by (auto simp: client_ready_def linked_defs client_start_def arena_at_def ring_empty_def ring_mem_def)
  have cap: "2 ^ 16 \<le> ring_cap (tp_submission tc)"
    using c(5) demo_control_seg(8) by (auto simp: client_ready_def linked_defs client_start_def SUBMISSION_CAP_def)
  have cap2: "2 ^ 16 \<le> ring_cap (tp_submission td)"
    using d(4) demo_control_seg(8) by (auto simp: client_ready_def linked_defs client_start_def SUBMISSION_CAP_def)
  have em1: "ring_empty (tp_submission tc) w2"
    using c(5) d(2) by (simp add: client_ready_def rings_apart_def client_start_def ring_empty_def ring_mem_def)
  have em2: "ring_empty (tp_submission td) w2" "ring_empty (tp_reply_ring td) w2"
    using d(4) by (auto simp: client_ready_def client_start_def arena_at_def ring_empty_def ring_mem_def)
  have inv: "broker_inv ?b" using k2 by (simp add: keeps_def)
  have reg: "rg_next_channel (br_reg ?b) = 1" "rg_chan_by_name (br_reg ?b) = hm_empty"
    "rg_next_fn (br_reg ?b) = 1" "rg_fn_by_name (br_reg ?b) = hm_empty"
    by (simp_all add: registered_def add_client_def demo_new_reg registry_new_def Let_def)
  obtain b where b: "broker_inv b" "world_ok b w2" "client_linked b ?c" "client_linked b ?d"
    "rg_next_channel (br_reg b) = 1" "rg_chan_by_name (br_reg b) = hm_empty"
    "rg_next_fn (br_reg b) = 1" "rg_fn_by_name (br_reg b) = hm_empty"
    using inv world lc ld reg by blast
  have op: "reply_open ?d"
    using d(4,7) by (auto simp: reply_open_def client_ready_def client_start_def reply_segment_def)
  have own: "owns_reply (in_transport (cn_inner ?c))" using bootstrap_owns [OF c(7)] by (simp add: owns_reply_def client_start_def)
  show ?thesis
    by (intro exI [of _ b] exI [of _ ?c] exI [of _ ?d])
      (use b op own tp(3,4) ne emp em1 em2 cap cap2 c(6) d(5) clamp_range(1) [of REPLY_CAP] in \<open>simp add: client_start_def\<close>)
qed

theorem publish_subscribe_end_to_end_witness:
  "\<exists>b x y p s x1 y1 b1. broker_inv b \<and>
    publish_channel_with_arena demo_cenv ''beats'' (schema_for Heartbeat) None 0 [bus_turn demo_env demo_cenv b] x =
      Some (Inr p, [], x1) \<and>
    subscribe_channel demo_cenv 1 None (schema_for Heartbeat) [bus_turn demo_env demo_cenv b1]
      (y\<lparr>cx_conn := (cx_conn y)\<lparr>cn_shm := cn_shm (cx_conn x1)\<rparr>\<rparr>) = Some (Inr s, [], y1) \<and>
    chan_linked p s ((cx_conn x1)\<lparr>cn_shm := cn_shm (cx_conn y1)\<rparr>, cx_conn y1)"
proof -
  obtain b c d where b: "broker_inv b" "world_ok b (cn_shm c)" "client_linked b c" "client_linked b d" "cn_shm d = cn_shm c"
    "seg_ptr (ring_seg (rep_ring d)) \<noteq> seg_ptr (ring_seg (rep_ring c))" "client_id c = 1" "client_id d = 2"
    "rg_next_channel (br_reg b) = 1" "rg_chan_by_name (br_reg b) = hm_empty"
    "\<forall>r \<in> {sub_ring c, rep_ring c, sub_ring d, rep_ring d}. ring_empty r (cn_shm c) \<and> 2 ^ 16 \<le> ring_cap r"
    using demo_two_clients by (elim exE conjE) (rule that, assumption+)
  have env: "ce_lib demo_cenv = proto_lib" "ce_cat demo_cenv = proto_cat" by (simp_all add: demo_cenv_def)
  let ?fp = "sv_req_fp demo_service" and ?m = "pub_request demo_cenv ''beats'' (schema_for Heartbeat) None 0 c"
  let ?n = "sub_request demo_cenv 1 None ?fp d"
  have len: "length (schema_for Heartbeat) \<le> 1000" by (simp add: schema_json_def)
  have arena: "length (channel_arena 1) \<le> 64"
    by (simp add: channel_arena_def show_nat_def show_base.simps)
  have free: "\<not> channel_name_taken ''beats'' (br_reg b)" by (simp add: channel_name_taken_def b(10) hm_contains_def)
  have fp: "- (2 ^ 63) \<le> fp_to_i64 ?fp" "fp_to_i64 ?fp < 2 ^ 63" using sint_range by (simp_all add: fp_to_i64_def)
  note defs = kind_type_def pub_request_def publish_channel_to_value_def granted_reply_def publish_reply_to_value_def
    sub_request_def subscribe_to_value_def subscribed_reply_def subscribe_reply_to_value_def granted_channel_def
    next_corr_def key_str_def wrap_i64_def STATUS_OK_def b(7-9)
  have t1: "sendable proto_lib proto_cat publish_channel_to_value PublishChannel ?m (sub_ring c) (cn_shm c)"
    by (rule demo_sendable) (use len sint_range b(11) in \<open>auto simp: defs\<close>)
  have t2: "sendable proto_lib proto_cat publish_reply_to_value PublishReply (granted_reply ?m ?fp b) (rep_ring c) (cn_shm c)"
    by (rule demo_sendable) (use arena fp sint_range b(11) in \<open>auto simp: defs\<close>)
  have t3: "sendable proto_lib proto_cat subscribe_to_value Subscribe ?n (sub_ring d) (cn_shm d)"
    by (rule demo_sendable) (use fp sint_range b(5,11) in \<open>auto simp: defs\<close>)
  have t4: "sendable proto_lib proto_cat subscribe_reply_to_value SubscribeReply
      (subscribed_reply ?n (granted_channel demo_env ?m ?fp b)) (rep_ring d) (cn_shm d)"
    by (rule demo_sendable) (use arena fp sint_range b(5,11) in \<open>auto simp: defs\<close>)
  let ?x = "\<lparr>cx_conn = c, cx_threads = [], cx_service_workers = 1\<rparr>" and ?y = "\<lparr>cx_conn = d, cx_threads = [], cx_service_workers = 1\<rparr>"
  have xy: "cx_conn ?x = c" "cx_conn ?y = d" by simp_all
  obtain p s x1 y1 b1 where
    "publish_channel_with_arena demo_cenv ''beats'' (schema_for Heartbeat) None 0 [bus_turn demo_env demo_cenv b] ?x =
      Some (Inr p, [], x1)"
    "subscribe_channel demo_cenv 1 None (schema_for Heartbeat) [bus_turn demo_env demo_cenv b1]
      (?y\<lparr>cx_conn := d\<lparr>cn_shm := cn_shm (cx_conn x1)\<rparr>\<rparr>) = Some (Inr s, [], y1)"
    "chan_linked p s ((cx_conn x1)\<lparr>cn_shm := cn_shm (cx_conn y1)\<rparr>, cx_conn y1)"
    using publish_subscribe_end_to_end [where to_v = heartbeat_to_value and from_v = "\<lambda>_. None" and ty = TLong, OF xy demo_same_bus demo_same_bus b(1-6) _ free refl refl, unfolded env b(9),
        OF demo_parse(1) t1 t2 t3 t4] by (elim exE conjE) (rule that)
  then show ?thesis using b(1) xy by (intro exI [of _ b] exI [of _ ?x] exI [of _ ?y] exI [of _ p] exI [of _ s] exI [of _ x1]
        exI [of _ y1] exI [of _ b1]) simp
qed

end
