(* ===== verification/Ring_Service.thy ===== *)
theory Ring_Service
  imports Ring_Bus
begin

text \<open>
  Functions over the bus: a service exposes a function through the broker, which makes its request arena; a caller
  looks the function up, opens the arena and calls. Together with the rings, the worker and the dispatcher this
  is a remote call from two connections that know no more of each other than the name of the function.
\<close>

section \<open>Exposing\<close>

text \<open>The function an exposure grants, and the broker that has granted it.\<close>

definition exposed_fn :: "'sc broker_env \<Rightarrow> expose_function \<Rightarrow> fingerprint \<Rightarrow> fingerprint \<Rightarrow> broker \<Rightarrow> function_meta" where
  "exposed_fn benv m rfp sfp b =
     \<lparr>fm_id = rg_next_fn (br_reg b), fm_name = exp_fn_name m, fm_owner = exp_client_id m, fm_req_fp = rfp, fm_resp_fp = sfp,
      fm_key = access_policy (be_sha benv) (exp_access_key m),
      fm_req_arena = function_arena (word_of_int (rg_next_fn (br_reg b)))\<rparr>"

definition exposed_reply :: "expose_function \<Rightarrow> fingerprint \<Rightarrow> fingerprint \<Rightarrow> broker \<Rightarrow> expose_reply" where
  "exposed_reply m rfp sfp b =
     \<lparr>expr_correlation_id = exp_correlation_id m, expr_fn_id = rg_next_fn (br_reg b), expr_req_fp = fp_to_i64 rfp,
      expr_resp_fp = fp_to_i64 sfp, expr_req_arena = function_arena (word_of_int (rg_next_fn (br_reg b))),
      expr_status = STATUS_OK, expr_message = []\<rparr>"

definition exposed :: "'sc broker_env \<Rightarrow> expose_function \<Rightarrow> fingerprint \<Rightarrow> fingerprint \<Rightarrow> nat \<Rightarrow> broker \<Rightarrow> broker" where
  "exposed benv m rfp sfp ob b =
     (let f = exposed_fn benv m rfp sfp b in
      b\<lparr>br_arenas := hm_insert (fm_req_arena f) \<lparr>seg_name = fm_req_arena f, seg_ptr = ob,
          seg_len = ring_bytes (clamp_arena_cap (nat (max (exp_req_arena_cap m) 0))), owns_unlink = True\<rparr> (br_arenas b),
        br_reg := insert_function f (snd (alloc_fn_id (br_reg b)))\<rparr>)"

lemma exposed_simps [simp]:
  "br_reply_rings (exposed benv m rfp sfp ob b) = br_reply_rings b" "br_submission (exposed benv m rfp sfp ob b) = br_submission b"
  "br_reg (exposed benv m rfp sfp ob b) = insert_function (exposed_fn benv m rfp sfp b) (snd (alloc_fn_id (br_reg b)))"
  by (simp_all add: exposed_def Let_def)

lemma expose_new_calm:
  assumes inv: "broker_inv b" "world_ok b w" and os: "os_calm (be_os benv)"
    and schema: "avro_parse (be_lib benv) (exp_req_schema_json m) = Inr (rsc, rfp)"
      "avro_parse (be_lib benv) (exp_resp_schema_json m) = Inr (ssc, sfp)"
  obtains w1 r where "expose_new benv m b w = reply benv expose_reply_to_value (exp_client_id m) ExposeReply
      (exposed_reply m rfp sfp b) (exposed benv m rfp sfp (shm_next w) b) w1"
    "grown w w1" "arena_at (function_arena (word_of_int (rg_next_fn (br_reg b)))) r w1"
    "ring_cap r = clamp_arena_cap (nat (max (exp_req_arena_cap m) 0))" "seg_ptr (ring_seg r) = shm_next w"
    "world_ok (exposed benv m rfp sfp (shm_next w) b) w1"
proof -
  let ?id = "rg_next_fn (br_reg b)"
  let ?nm = "function_arena (word_of_int ?id)" and ?k = "nat (max (exp_req_arena_cap m) 0)" and ?g = "snd (alloc_fn_id (br_reg b))"
  have nm: "?nm \<in> arena_space" "?nm \<notin> arena_names (br_reg b)"
    using inv(1) fresh_function_arena [of "br_reg b"] by (simp_all add: arena_space_def broker_inv_def)
  have id: "alloc_fn_id (br_reg b) = (?id, ?g)" by (simp add: alloc_fn_id_def)
  obtain w1 r where mk: "make_arena (be_os benv) ?nm (clamp_arena_cap ?k) (b\<lparr>br_reg := ?g\<rparr>) w = (Inr ?nm, b\<lparr>br_reg := ?g,
        br_arenas := hm_insert ?nm \<lparr>seg_name = ?nm, seg_ptr = shm_next w, seg_len = ring_bytes (clamp_arena_cap ?k), owns_unlink = True\<rparr>
          (br_arenas b)\<rparr>, w1)"
    and w1: "grown w w1" "arena_at ?nm r w1" "ring_cap r = clamp_arena_cap ?k" "seg_ptr (ring_seg r) = shm_next w"
    and world: "\<forall>b'. br_arenas b' = hm_insert ?nm \<lparr>seg_name = ?nm, seg_ptr = shm_next w, seg_len = ring_bytes (clamp_arena_cap ?k),
        owns_unlink = True\<rparr> (br_arenas b) \<longrightarrow> world_ok b' w1"
    by (rule new_arena_calm [OF inv os nm refl])
  have "expose_new benv m b w = reply benv expose_reply_to_value (exp_client_id m) ExposeReply
      (exposed_reply m rfp sfp b) (exposed benv m rfp sfp (shm_next w) b) w1"
    unfolding expose_new_def schema sum.case prod.case Let_def
    by (subst id) (simp add: mk exposed_def exposed_fn_def exposed_reply_def Let_def)
  moreover have "world_ok (exposed benv m rfp sfp (shm_next w) b) w1"
    using world by (simp add: exposed_def exposed_fn_def Let_def)
  ultimately show ?thesis using w1 by (intro that)
qed

text \<open>The request a service makes, and what it gets when the name is free.\<close>

definition expose_msg :: "i64 \<Rightarrow> i64 \<Rightarrow> string \<Rightarrow> string \<Rightarrow> string \<Rightarrow> string option \<Rightarrow> i64 \<Rightarrow> expose_function" where
  "expose_msg corr cid nm req resp key cap =
     \<lparr>exp_correlation_id = corr, exp_client_id = cid, exp_fn_name = nm, exp_req_schema_json = req,
      exp_resp_schema_json = resp, exp_access_key = key_str key, exp_req_arena_cap = cap\<rparr>"

lemma do_expose_served:
  assumes bus: "same_bus benv env" and inv: "client_linked b c" "broker_inv b" "world_ok b (cn_shm c)"
    and m: "m = expose_msg (fst (next_corr env c)) (client_id c) nm req resp key cap"
    and schema: "avro_parse (ce_lib env) req = Inr (rsc, rfp)" "avro_parse (ce_lib env) resp = Inr (ssc, sfp)"
    and free: "\<not> function_name_taken nm (br_reg b)"
    and fits: "sendable (ce_lib env) (ce_cat env) expose_function_to_value ExposeFunction m (sub_ring c) (cn_shm c)"
      "sendable (ce_lib env) (ce_cat env) expose_reply_to_value ExposeReply (exposed_reply m rfp sfp b) (rep_ring c) (cn_shm c)"
  obtains r c4 where "do_expose env nm req resp key cap [bus_turn benv env b] c = Some (Inr (r, rfp, sfp), [], c4)"
    "served benv (to_frame (ce_lib env) (ce_cat env) expose_function_to_value ExposeFunction m) c b
      (exposed benv m rfp sfp (shm_next (cn_shm c)) b)"
    "quiet_after c (cn_shm c4)" "in_transport (cn_inner c4) = in_transport (cn_inner c)" "one_call c c4"
    "arena_at (function_arena (word_of_int (rg_next_fn (br_reg b)))) r (cn_shm c4)"
    "ring_cap r = clamp_arena_cap (nat (max cap 0))" "seg_ptr (ring_seg r) = shm_next (cn_shm c)"
    "world_ok (exposed benv m rfp sfp (shm_next (cn_shm c)) b) (cn_shm c4)"
proof -
  let ?b = "exposed benv m rfp sfp (shm_next (cn_shm c)) b" and ?a = "function_arena (word_of_int (rg_next_fn (br_reg b)))"
  let ?msg = "\<lambda>corr c. \<lparr>exp_correlation_id = corr, exp_client_id = client_id c, exp_fn_name = nm,
      exp_req_schema_json = req, exp_resp_schema_json = resp, exp_access_key = key_str key, exp_req_arena_cap = cap\<rparr>"
  note laws = bus [unfolded same_bus_def]
  obtain corr c1 where corr: "next_corr env c = (corr, c1)" by fastforce
  note m = m [unfolded corr expose_msg_def, simplified]
  have link: "sub_linked b c" "rings_apart c" "rep_linked ?b (client_id c) c"
    using inv(1) by (simp_all add: client_linked_def rep_linked_def)
  have msg: "?msg corr c1 = m" "expr_correlation_id (exposed_reply m rfp sfp b) = corr"
    using m corr by (auto simp: next_corr_def client_id_def exposed_reply_def)
  have h: "\<exists>w2 r. handle benv (frame_encode f) b w1 =
        reply benv expose_reply_to_value (client_id c) ExposeReply (exposed_reply m rfp sfp b) ?b w2 \<and> grown w1 w2 \<and>
      arena_at ?a r w2 \<and> ring_cap r = clamp_arena_cap (nat (max cap 0)) \<and> seg_ptr (ring_seg r) = shm_next w1 \<and> world_ok ?b w2"
    if f: "received ExposeFunction expose_function_from_value env f m"
      and sb: "same_but (seg_ptr (ring_seg (sub_ring c))) (cn_shm c) w1" for f w1
  proof -
    have w: "world_ok b w1" "shm_next w1 = shm_next (cn_shm c)"
      using inv(3) same_but_world [OF sb] sb by (simp_all add: same_but_def)
    have p: "os_calm (be_os benv)" "avro_parse (be_lib benv) (exp_req_schema_json m) = Inr (rsc, rfp)"
      "avro_parse (be_lib benv) (exp_resp_schema_json m) = Inr (ssc, sfp)" using laws schema m by simp_all
    have e: "handle benv (frame_encode f) b w1 = expose_new benv m b w1"
      using laws f free m by (simp add: received_def handle_def on_expose_def)
    from m have m2: "exp_client_id m = client_id c" "exp_req_arena_cap m = cap" by simp_all
    show ?thesis
      unfolding e w(2) [symmetric] m2 [symmetric]
      by (rule expose_new_calm [OF inv(2) w(1) p]) (intro exI conjI, assumption+)
  qed
  obtain c4 r where rt: "control_round_trip env expose_function_to_value ExposeFunction ?msg
        expose_reply_from_value ExposeReply [bus_turn benv env b] c = Some (Inr (exposed_reply m rfp sfp b), [], c4)"
    and rest: "served benv (to_frame (ce_lib env) (ce_cat env) expose_function_to_value ExposeFunction m) c b ?b"
      "quiet_after c (cn_shm c4)" "in_transport (cn_inner c4) = in_transport (cn_inner c)" "one_call c c4"
    and r: "arena_at ?a r (cn_shm c4)" "ring_cap r = clamp_arena_cap (nat (max cap 0))" "seg_ptr (ring_seg r) = shm_next (cn_shm c)"
      "world_ok ?b (cn_shm c4)"
    by (rule x_exp.exchange_arena [where msg = ?msg, OF bus link corr msg fits h])
  have "do_expose env nm req resp key cap [bus_turn benv env b] c = Some (Inr (r, rfp, sfp), [], c4)"
    using rt attach_arena_at [OF r(1), of env] laws
    by (simp add: do_expose_def act_bind_def exposed_reply_def fp_transport)
  from this rest r show thesis by (rule that)
qed


section \<open>Looking up\<close>

definition found_reply :: "lookup_function \<Rightarrow> function_meta \<Rightarrow> lookup_reply" where
  "found_reply m f =
     \<lparr>lkpr_correlation_id = lkp_correlation_id m, lkpr_fn_id = fm_id f, lkpr_req_fp = fp_to_i64 (fm_req_fp f),
      lkpr_resp_fp = fp_to_i64 (fm_resp_fp f), lkpr_req_arena = fm_req_arena f, lkpr_status = STATUS_OK, lkpr_message = []\<rparr>"

definition lookup_msg :: "i64 \<Rightarrow> i64 \<Rightarrow> string \<Rightarrow> string option \<Rightarrow> lookup_function" where
  "lookup_msg corr cid nm key =
     \<lparr>lkp_correlation_id = corr, lkp_client_id = cid, lkp_fn_name = nm, lkp_access_key = key_str key\<rparr>"

text \<open>A function that is there is found with its key: the caller gets its interface and the ring of its arena, and keeps both.\<close>

lemma resolve_callee_served:
  assumes bus: "same_bus benv env" and linked: "client_linked b c"
    and m: "m = lookup_msg (fst (next_corr env c)) (client_id c) nm key"
    and fn: "find_function_by_name nm (br_reg b) = Some fm" "check_key (be_sha benv) (fm_key fm) (key_str key) = Inr ()"
    and arena: "arena_at (fm_req_arena fm) r (cn_shm c)" "seg_ptr (ring_seg r) \<noteq> seg_ptr (ring_seg (sub_ring c))"
      "seg_ptr (ring_seg r) \<noteq> seg_ptr (ring_seg (rep_ring c))"
    and new: "hm_get (in_callees (cn_inner c)) (callee_key nm key) = None"
    and fits: "sendable (ce_lib env) (ce_cat env) lookup_function_to_value LookupFunction m (sub_ring c) (cn_shm c)"
      "sendable (ce_lib env) (ce_cat env) lookup_reply_to_value LookupReply (found_reply m fm) (rep_ring c) (cn_shm c)"
    and ca: "ca = \<lparr>ca_req_fp = fm_req_fp fm, ca_resp_fp = fm_resp_fp fm, ca_ring = r\<rparr>"
  obtains c4 where "\<forall>ts. resolve_callee env nm key (bus_turn benv env b # ts) c = Some (Inr ca, ts, c4)"
    "served benv (to_frame (ce_lib env) (ce_cat env) lookup_function_to_value LookupFunction m) c b b"
    "arena_at (fm_req_arena fm) r (cn_shm c4)" "quiet_after c (cn_shm c4)"
    "in_transport (cn_inner c4) = in_transport (cn_inner c)" "cn_draws c4 = Suc (cn_draws c)"
    "hm_get (in_callees (cn_inner c4)) (callee_key nm key) = Some ca"
proof -
  let ?msg = "\<lambda>corr c. \<lparr>lkp_correlation_id = corr, lkp_client_id = client_id c, lkp_fn_name = nm, lkp_access_key = key_str key\<rparr>"
  let ?Q = "arena_at (fm_req_arena fm) r"
  note laws = bus [unfolded same_bus_def]
  obtain corr c1 where corr: "next_corr env c = (corr, c1)" by fastforce
  note m = m [unfolded corr lookup_msg_def, simplified]
  have link: "sub_linked b c" "rings_apart c" "rep_linked b (client_id c) c"
    using linked by (simp_all add: client_linked_def)
  have msg: "?msg corr c1 = m" "lkpr_correlation_id (found_reply m fm) = corr"
    using m corr by (auto simp: next_corr_def client_id_def found_reply_def)
  have h: "\<exists>w2. handle benv (frame_encode f) b w1 =
        reply benv lookup_reply_to_value (client_id c) LookupReply (found_reply m fm) b w2 \<and> grown w1 w2 \<and> ?Q w2"
    if f: "received LookupFunction lookup_function_from_value env f m"
      and sb: "same_but (seg_ptr (ring_seg (sub_ring c))) (cn_shm c) w1" for f w1
  proof -
    have "handle benv (frame_encode f) b w1 = reply benv lookup_reply_to_value (client_id c) LookupReply (found_reply m fm) b w1"
      using laws f m fn by (simp add: received_def handle_def on_lookup_def found_reply_def resolve_lookup_def)
    moreover have "?Q w1" using arena_at_same [OF arena(1) sb] arena(2) by simp
    ultimately show ?thesis by (intro exI [of _ w1]) simp
  qed
  have st: "?Q (set_obj (seg_ptr (ring_seg (rep_ring c))) m' w)" if "?Q w" for m' w
    using arena_at_other [OF that] arena(3) by simp
  obtain c4 where rt: "control_round_trip env lookup_function_to_value LookupFunction ?msg lookup_reply_from_value LookupReply
      [bus_turn benv env b] c = Some (Inr (found_reply m fm), [], c4)"
    and rest: "served benv (to_frame (ce_lib env) (ce_cat env) lookup_function_to_value LookupFunction m) c b b"
      "?Q (cn_shm c4)" "quiet_after c (cn_shm c4)" "in_transport (cn_inner c4) = in_transport (cn_inner c)" "one_call c c4"
    by (rule x_lkp.exchange [where msg = ?msg and Q = ?Q, OF bus link corr msg fits h st])
  let ?c = "upd_inner (\<lambda>n. n\<lparr>in_callees := hm_insert (callee_key nm key) ca (in_callees n)\<rparr>) c4"
  have "resolve_callee env nm key (bus_turn benv env b # ts) c = Some (Inr ca, ts, ?c)" for ts
    using round_trip_more [OF rt, of ts] attach_arena_at [OF rest(2), of env] laws new ca
    by (simp add: resolve_callee_def do_lookup_def act_bind_def found_reply_def fp_transport act_return_def Let_def)
  with rest show thesis by (intro that [of ?c]) (simp_all add: upd_inner_def one_call_def)
qed


section \<open>The caller's reply ring\<close>

text \<open>It can still be opened by name after calls of others, and after the caller's own.\<close>

lemma sub_ring_shared:
  assumes "sub_linked b c" "sub_linked b d"
  shows "seg_ptr (ring_seg (sub_ring d)) = seg_ptr (ring_seg (sub_ring c))"
proof -
  obtain s s' where "br_submission b = (sub_ring c)\<lparr>ring_seg := s\<rparr>" "seg_ptr s = seg_ptr (ring_seg (sub_ring c))"
    "br_submission b = (sub_ring d)\<lparr>ring_seg := s'\<rparr>" "seg_ptr s' = seg_ptr (ring_seg (sub_ring d))"
    using assms by (auto simp: sub_linked_def)
  then show ?thesis by (metis ring.select_convs(1) ring.surjective ring.update_convs(1))
qed

lemma reply_open_other:
  assumes "reply_open d" "cn_shm d = cn_shm c" "quiet_after c w" "client_linked b c" "client_linked b d"
    and "seg_ptr (ring_seg (rep_ring d)) \<noteq> seg_ptr (ring_seg (rep_ring c))"
  shows "reply_open (d\<lparr>cn_shm := w\<rparr>)"
proof -
  obtain n sg where o: "reply_segment d = client_segment n" "seg_ptr sg = seg_ptr (ring_seg (rep_ring d))"
    "arena_at (reply_segment d) ((rep_ring d)\<lparr>ring_seg := sg\<rparr>) (cn_shm c)"
    using assms(1,2) by (auto simp: reply_open_def)
  have "client_segment n \<in> bus_names - arena_space" by (auto simp: bus_names_def arena_space_def)
  then have "sys_open (reply_segment d) w = sys_open (reply_segment d) (cn_shm c)"
    using assms(3) o(1) by (simp add: quiet_after_def)
  moreover have "seg_ptr (ring_seg (rep_ring d)) \<noteq> seg_ptr (ring_seg (sub_ring c))"
    using assms(4,5) sub_ring_shared [of b c d] by (auto simp: client_linked_def rings_apart_def)
  then have "shm_obj w (seg_ptr sg) = shm_obj (cn_shm c) (seg_ptr sg)"
    using assms(2,3,5,6) o(2) by (simp add: quiet_after_def linked_defs)
  ultimately have "arena_at (reply_segment d) ((rep_ring d)\<lparr>ring_seg := sg\<rparr>) w" using arena_at_kept [OF o(3)] by simp
  with o(1,2) show ?thesis by (auto simp: reply_open_def reply_segment_def)
qed

lemma reply_open_reachable:
  assumes "reply_open d" "quiet_after d w" "os_calm (ce_os env)" "hm_get cache (reply_segment d) = None"
  shows "reply_reachable env cache (reply_segment d) (rep_ring d) w"
proof -
  let ?r = "rep_ring d" and ?nm = "reply_segment d"
  obtain n sg where o: "?nm = client_segment n" "seg_ptr sg = seg_ptr (ring_seg ?r)"
    "arena_at ?nm (?r\<lparr>ring_seg := sg\<rparr>) (cn_shm d)"
    using assms(1) by (auto simp: reply_open_def)
  have "client_segment n \<in> bus_names - arena_space" by (auto simp: bus_names_def arena_space_def)
  then have nm: "sys_open ?nm w = sys_open ?nm (cn_shm d)" using assms(2) o(1) by (simp add: quiet_after_def)
  have op: "segment_open (ce_os env) ?nm (cn_shm d) = Inr sg" and at: "ring_attach sg 0 (ring_mem ?r (cn_shm d)) = Inr (?r\<lparr>ring_seg := sg\<rparr>)"
    using o(2,3) assms(3) by (simp_all add: arena_at_def ring_mem_def)
  have out: "same_outside ?r (ring_mem ?r (cn_shm d)) (ring_mem ?r w)" using assms(2) by (simp add: quiet_after_def)
  have len: "length (shm_obj w (seg_ptr sg)) = length (shm_obj (cn_shm d) (seg_ptr sg))"
    using out o(2) by (simp add: same_outside_def ring_mem_def)
  then have "shm_obj w (seg_ptr sg) = [] \<longleftrightarrow> shm_obj (cn_shm d) (seg_ptr sg) = []" by (metis length_0_conv)
  then have "segment_open (ce_os env) ?nm w = Inr sg"
    using op segment_open_Inr(2) [OF op] nm len by (simp add: segment_open_def Let_def split: option.splits if_splits)
  moreover have "ring_attach sg 0 (ring_mem ?r w) = Inr (?r\<lparr>ring_seg := sg\<rparr>)"
    using ring_attach_same [OF out, of sg] at ring_attach_Inr(1) [OF at] by simp
  ultimately show ?thesis using o(2) assms(4) by (auto simp: reply_reachable_def)
qed

section \<open>A call\<close>

lemma expose_function_done:
  assumes "avro_parse (ce_lib env) req = Inr (rsc, rfp0)" "avro_parse (ce_lib env) resp = Inr (ssc, sfp0)"
    and "do_expose env nm req resp key (wrap_i64 (int cap)) ts (cx_conn x) = Some (Inr (r, rfp, sfp), ts', c4)"
    and "sv = \<lparr>sv_req_schema = rsc, sv_resp_schema = ssc, sv_req_fp = rfp, sv_resp_fp = sfp, sv_de_req = de, sv_ser_resp = ser, sv_handler = h\<rparr>"
  shows "\<exists>cell x1. expose_function_with_arena env nm req resp key cap de ser h ts x =
      Some (Inr (cell, sv, pool_new (cx_service_workers x)), ts', x1) \<and>
    in_cells (cn_inner (cx_conn x1)) cell = r \<and> cn_shm (cx_conn x1) = cn_shm c4"
  using assms by (simp add: expose_function_with_arena_def with_reconnect_def new_cell_def register_entry_def Let_def)

text \<open>A call that has to look the function up first goes on as one that has it in its cache.\<close>

lemma call_resolved:
  assumes "avro_parse (ce_lib env) req = Inr (rsc, ca_req_fp ca)" "avro_parse (ce_lib env) resp = Inr (ssc, ca_resp_fp ca)"
    and "resolve_callee env nm key (t # ts) c = Some (Inr ca, ts, c')"
    and "hm_get (in_callees (cn_inner c')) (callee_key nm key) = Some ca"
  shows "call env to_req nm key x req resp (t # ts) c = call env to_req nm key x req resp ts c'"
  using assms by (simp add: call_def matching_callee_def act_bind_def resolve_callee_def [of env nm key ts c'])


text \<open>The first half: the service is exposed, and the caller holds its interface and the other end of its request ring.\<close>

lemma exposed_then_resolved:
  assumes cx: "cx_conn x = c" and bus: "same_bus benv env" "same_bus benv env'"
    and inv: "broker_inv b" "world_ok b (cn_shm c)"
    and linked: "client_linked b c" "client_linked b d" "cn_shm d = cn_shm c"
      "seg_ptr (ring_seg (rep_ring d)) \<noteq> seg_ptr (ring_seg (rep_ring c))" "reply_open d"
    and schema: "avro_parse (ce_lib env) req_text = Inr (rsc, rfp)" "avro_parse (ce_lib env) resp_text = Inr (ssc, sfp)"
    and free: "\<not> function_name_taken nm (br_reg b)" "hm_get (in_callees (cn_inner d)) (callee_key nm key) = None"
    and m: "m = expose_msg (fst (next_corr env c)) (client_id c) nm req_text resp_text key (wrap_i64 (int cap))"
      "n = lookup_msg (fst (next_corr env' d)) (client_id d) nm key"
    and sv: "sv = \<lparr>sv_req_schema = rsc, sv_resp_schema = ssc, sv_req_fp = rfp, sv_resp_fp = sfp, sv_de_req = de,
      sv_ser_resp = ser, sv_handler = handler\<rparr>"
    and fits: "sendable (ce_lib env) (ce_cat env) expose_function_to_value ExposeFunction m (sub_ring c) (cn_shm c)"
      "sendable (ce_lib env) (ce_cat env) expose_reply_to_value ExposeReply (exposed_reply m rfp sfp b) (rep_ring c) (cn_shm c)"
      "sendable (ce_lib env) (ce_cat env) lookup_function_to_value LookupFunction n (sub_ring d) (cn_shm d)"
      "sendable (ce_lib env) (ce_cat env) lookup_reply_to_value LookupReply (found_reply n (exposed_fn benv m rfp sfp b)) (rep_ring d) (cn_shm d)"
    and b1: "b1 = exposed benv m rfp sfp (shm_next (cn_shm c)) b" and ca: "ca = \<lparr>ca_req_fp = rfp, ca_resp_fp = sfp, ca_ring = r0\<rparr>"
  obtains r cell x1 d4 where
    "expose_function_with_arena env nm req_text resp_text key cap de ser handler [bus_turn benv env b] x =
      Some (Inr (cell, sv, pool_new (cx_service_workers x)), [], x1)"
    "served benv (to_frame (ce_lib env) (ce_cat env) expose_function_to_value ExposeFunction m) c b b1"
    "call env' to_req nm key v req_text resp_text [bus_turn benv env' b1, no_wait] (d\<lparr>cn_shm := cn_shm (cx_conn x1)\<rparr>) =
      call env' to_req nm key v req_text resp_text [no_wait] d4"
    "in_cells (cn_inner (cx_conn x1)) cell = r" "ring_cap r = clamp_arena_cap (nat (max (wrap_i64 (int cap)) 0))"
    "seg_ptr (ring_seg (rep_ring d)) \<noteq> seg_ptr (ring_seg r)"
    "in_transport (cn_inner d4) = in_transport (cn_inner d)" "cn_draws d4 = Suc (cn_draws d)"
    "hm_get (in_callees (cn_inner d4)) (callee_key nm key) = Some (ca\<lparr>ca_ring := r\<rparr>)"
    "ring_empty r (cn_shm d4)" "ring_empty (rep_ring d) (cn_shm d4)"
    "reply_reachable env hm_empty (reply_segment d4) (rep_ring d) (cn_shm d4)"
proof -
  let ?fm = "exposed_fn benv m rfp sfp b" and ?b1 = b1
  have same: "ce_lib env' = ce_lib env" "ce_cat env' = ce_cat env" using bus by (simp_all add: same_bus_def)
  obtain r c4 where ex: "do_expose env nm req_text resp_text key (wrap_i64 (int cap)) [bus_turn benv env b] c = Some (Inr (r, rfp, sfp), [], c4)"
    and sv1: "served benv (to_frame (ce_lib env) (ce_cat env) expose_function_to_value ExposeFunction m) c b ?b1"
    and quiet: "quiet_after c (cn_shm c4)"
    and r: "arena_at (fm_req_arena ?fm) r (cn_shm c4)" "ring_cap r = clamp_arena_cap (nat (max (wrap_i64 (int cap)) 0))"
      "seg_ptr (ring_seg r) = shm_next (cn_shm c)"
    by (rule do_expose_served [OF bus(1) linked(1) inv m(1) schema free(1) fits(1,2), folded b1]) (simp add: exposed_fn_def)
  obtain cell x1 where x1: "expose_function_with_arena env nm req_text resp_text key cap de ser handler [bus_turn benv env b] x =
      Some (Inr (cell, sv, pool_new (cx_service_workers x)), [], x1)"
    "in_cells (cn_inner (cx_conn x1)) cell = r" "cn_shm (cx_conn x1) = cn_shm c4"
    using expose_function_done [OF schema ex [folded cx] sv] by blast
  let ?d = "d\<lparr>cn_shm := cn_shm c4\<rparr>" and ?ca = "\<lparr>ca_req_fp = rfp, ca_resp_fp = sfp, ca_ring = r\<rparr>"
  note ready = after_ready [OF linked(1-4) quiet]
  have link: "client_linked ?b1 ?d"
    using linked(2) ready(3) by (simp add: b1 client_linked_def sub_linked_def rep_linked_def client_id_def)
  have fn: "find_function_by_name nm (br_reg ?b1) = Some ?fm" "check_key (be_sha benv) (fm_key ?fm) (key_str key) = Inr ()"
    by (simp_all add: b1 find_function_by_name_def insert_function_def exposed_fn_def m(1) expose_msg_def own_key)
  have apart: "seg_ptr (ring_seg r) \<noteq> seg_ptr (ring_seg (sub_ring ?d))" "seg_ptr (ring_seg r) \<noteq> seg_ptr (ring_seg (rep_ring ?d))"
    using linked(2,3) r(3) by (auto simp: linked_defs)
  have f: "sendable (ce_lib env') (ce_cat env') lookup_function_to_value LookupFunction n (sub_ring ?d) (cn_shm ?d)"
    "sendable (ce_lib env') (ce_cat env') lookup_reply_to_value LookupReply (found_reply n ?fm) (rep_ring ?d) (cn_shm ?d)"
    unfolding same using fits(3,4) linked(3) ready(1,2) by (auto intro: sendable_mono)
  have n: "n = lookup_msg (fst (next_corr env' ?d)) (client_id ?d) nm key" by (simp add: m(2) next_corr_def client_id_def)
  obtain d4 where d4: "\<forall>ts. resolve_callee env' nm key (bus_turn benv env' ?b1 # ts) ?d = Some (Inr ?ca, ts, d4)"
    "arena_at (fm_req_arena ?fm) r (cn_shm d4)" "quiet_after ?d (cn_shm d4)" "in_transport (cn_inner d4) = in_transport (cn_inner d)"
    "cn_draws d4 = Suc (cn_draws d)" "hm_get (in_callees (cn_inner d4)) (callee_key nm key) = Some ?ca"
    by (rule resolve_callee_served [OF bus(2) link n fn _ apart _ f]) (use r(1) free(2) in \<open>simp_all add: exposed_fn_def\<close>)
  have call: "call env' to_req nm key v req_text resp_text [bus_turn benv env' b1, no_wait] ?d =
      call env' to_req nm key v req_text resp_text [no_wait] d4"
    by (rule call_resolved [of _ _ rsc ?ca _ ssc]) (use d4 schema same in simp_all)
  have rep: "reply_segment d4 = reply_segment ?d" "rep_ring d = rep_ring ?d" using d4(4) by (simp_all add: reply_segment_def)
  have reach: "reply_reachable env hm_empty (reply_segment d4) (rep_ring d) (cn_shm d4)"
    unfolding rep
    by (rule reply_open_reachable [OF reply_open_other [OF linked(5,3) quiet linked(1,2,4)] d4(3)]) (use bus(1) in \<open>simp_all add: same_bus_def\<close>)
  have e: "ring_empty r (cn_shm d4)" "ring_empty (rep_ring d) (cn_shm d4)"
    using d4(2,3) by (simp_all add: arena_at_def quiet_after_def)
  show thesis
    by (rule that [OF x1(1) sv1 _ x1(2) r(2) _ d4(4,5) _ e reach]) (use call x1(3) apart(2) d4(6) ca in simp_all)
qed

text \<open>
  C4: a remote call, from end to end. Of two connections to one broker, one exposes a function: the broker
  makes the request arena and the call returns the service. The other knows the name, the key and the schemas, and
  calls: the broker resolves the name, the arena is opened, the request goes through it to the service's reader, the
  worker opens the caller's reply ring by name and puts the answer there, the dispatcher routes it, and the executor
  returns what the handler returned for the caller's argument, or, when it panicked, the error that says so.
  Nothing waits anywhere on the way, and the call leaves no entry behind.
\<close>

theorem rpc_end_to_end:
  assumes cx: "cx_conn x = c" and bus: "same_bus benv env" "same_bus benv env'"
    and inv: "broker_inv b" "world_ok b (cn_shm c)"
    and linked: "client_linked b c" "client_linked b d" "cn_shm d = cn_shm c"
      "seg_ptr (ring_seg (rep_ring d)) \<noteq> seg_ptr (ring_seg (rep_ring c))" "reply_open d"
    and req: "avro_schema_law (ce_lib env) req_ty" "parse_str (ce_lib env) (type_json req_ty) = Inr rsc"
      "avro_parse (ce_lib env) req_text = Inr (rsc, rfp)"
    and resp: "avro_schema_law (ce_lib env) resp_ty" "parse_str (ce_lib env) (type_json resp_ty) = Inr ssc"
      "avro_parse (ce_lib env) resp_text = Inr (ssc, sfp)"
    and v: "chan_value to_req de req_ty v" "avro_encode (ce_lib env) (\<lambda>x. Inr (to_req x)) rsc v = Inr args"
      "\<forall>y. handler v = Some y \<longrightarrow> chan_value to_resp from_resp resp_ty y"
    and free: "\<not> function_name_taken nm (br_reg b)" "hm_get (in_callees (cn_inner d)) (callee_key nm key) = None"
    and m: "m = expose_msg (fst (next_corr env c)) (client_id c) nm req_text resp_text key (wrap_i64 (int cap))"
      "n = lookup_msg (fst (next_corr env' d)) (client_id d) nm key"
    and sv: "sv = \<lparr>sv_req_schema = rsc, sv_resp_schema = ssc, sv_req_fp = rfp, sv_resp_fp = sfp, sv_de_req = de,
      sv_ser_resp = (\<lambda>y. Inr (to_resp y)), sv_handler = handler\<rparr>"
    and rq: "rq = placed_request env' (d\<lparr>cn_draws := Suc (cn_draws d)\<rparr>) rfp args"
    and fits: "sendable (ce_lib env) (ce_cat env) expose_function_to_value ExposeFunction m (sub_ring c) (cn_shm c)"
      "sendable (ce_lib env) (ce_cat env) expose_reply_to_value ExposeReply (exposed_reply m rfp sfp b) (rep_ring c) (cn_shm c)"
      "sendable (ce_lib env) (ce_cat env) lookup_function_to_value LookupFunction n (sub_ring d) (cn_shm d)"
      "sendable (ce_lib env) (ce_cat env) lookup_reply_to_value LookupReply (found_reply n (exposed_fn benv m rfp sfp b)) (rep_ring d) (cn_shm d)"
      "msg_fits (ce_lib env) (ce_cat env) rpc_request_to_value RpcRequest rq (clamp_arena_cap (nat (max (wrap_i64 (int cap)) 0)))"
      "msg_fits (ce_lib env) (ce_cat env) rpc_response_to_value RpcResponse (serve_request env sv rq) (ring_cap (rep_ring d))"
  shows "\<exists>cell x1 b1 fut d1 c1 cache w2 d2 d3.
    expose_function_with_arena env nm req_text resp_text key cap de (\<lambda>y. Inr (to_resp y)) handler [bus_turn benv env b] x =
      Some (Inr (cell, sv, pool_new (cx_service_workers x)), [], x1) \<and>
    served benv (to_frame (ce_lib env) (ce_cat env) expose_function_to_value ExposeFunction m) c b b1 \<and>
    call env' (\<lambda>x. Inr (to_req x)) nm key v req_text resp_text [bus_turn benv env' b1, no_wait] (d\<lparr>cn_shm := cn_shm (cx_conn x1)\<rparr>) =
      Some (Inr fut, [], d1) \<and>
    read_request env cell no_wait ((cx_conn x1)\<lparr>cn_shm := cn_shm d1\<rparr>) = Some (Some rq, c1) \<and>
    serve_job env sv no_wait rq hm_empty (cn_shm c1) = Some (cache, w2) \<and>
    dispatch_turn env' 0 [] (d1\<lparr>cn_shm := w2\<rparr>) = Some d2 \<and>
    block_on env' from_resp fut [] d2 =
      Some (Some (case handler v of
                    Some y \<Rightarrow> Inr y
                  | None \<Rightarrow> Inl (IoOther ''remote function error (4): handler panicked'')), d3) \<and>
    pending_of d3 (rq_correlation_id rq) = None"
proof -
  have same: "ce_lib env' = ce_lib env" "ce_cat env' = ce_cat env" using bus by (simp_all add: same_bus_def)
  note laws = bus(2) [unfolded same_bus_def]
  let ?b1 = "exposed benv m rfp sfp (shm_next (cn_shm c)) b"
  obtain r cell x1 d4 where x1: "expose_function_with_arena env nm req_text resp_text key cap de (\<lambda>y. Inr (to_resp y)) handler [bus_turn benv env b] x =
      Some (Inr (cell, sv, pool_new (cx_service_workers x)), [], x1)"
      "served benv (to_frame (ce_lib env) (ce_cat env) expose_function_to_value ExposeFunction m) c b ?b1"
    and call: "call env' (\<lambda>x. Inr (to_req x)) nm key v req_text resp_text [bus_turn benv env' ?b1, no_wait] (d\<lparr>cn_shm := cn_shm (cx_conn x1)\<rparr>) =
      call env' (\<lambda>x. Inr (to_req x)) nm key v req_text resp_text [no_wait] d4"
    and cell: "in_cells (cn_inner (cx_conn x1)) cell = r" "ring_cap r = clamp_arena_cap (nat (max (wrap_i64 (int cap)) 0))"
      "seg_ptr (ring_seg (rep_ring d)) \<noteq> seg_ptr (ring_seg r)"
    and d4: "in_transport (cn_inner d4) = in_transport (cn_inner d)" "cn_draws d4 = Suc (cn_draws d)"
      "hm_get (in_callees (cn_inner d4)) (callee_key nm key) = Some (\<lparr>ca_req_fp = rfp, ca_resp_fp = sfp, ca_ring = rep_ring d\<rparr>\<lparr>ca_ring := r\<rparr>)"
    and e: "ring_empty r (cn_shm d4)" "ring_empty (rep_ring d) (cn_shm d4)"
    and reach: "reply_reachable env hm_empty (reply_segment d4) (rep_ring d) (cn_shm d4)"
    by (rule exposed_then_resolved [OF cx bus inv linked req(3) resp(3) free m sv fits(1-4) refl refl])
  let ?ca = "\<lparr>ca_req_fp = rfp, ca_resp_fp = sfp, ca_ring = r\<rparr>"
  have rq': "rq = placed_request env' d4 (sv_req_fp sv) args"
    using d4(1,2) by (simp add: rq sv placed_request_def next_corr_def client_id_def reply_segment_def)
  have rep: "rep_ring d = tp_reply_ring (in_transport (cn_inner d4))" using d4(1) by simp
  have rooms: "ring_ready (ca_ring ?ca) (cn_shm d4) (frame_encode f)"
    if "to_frame (ce_lib env') (ce_cat env') rpc_request_to_value RpcRequest rq = Inr f" for f
    using fits(5) that e(1) cell(2) same by (simp add: msg_fits_def ring_ready_def ring_empty_def)
  have rooms': "ring_ready (rep_ring d) (cn_shm d4) (frame_encode f)"
    if "to_frame (ce_lib env') (ce_cat env') rpc_response_to_value RpcResponse (serve_request env sv rq) = Inr f" for f
    using fits(6) that e(2) same by (simp add: msg_fits_def ring_ready_def ring_empty_def)
  have ty: "has_type (kind_type RpcRequest) (rpc_request_to_value rq)"
    "has_type (kind_type RpcResponse) (rpc_response_to_value (serve_request env sv rq))"
    using fits(5,6) by (simp_all add: msg_fits_def)
  have "\<exists>fut d1 c1 cache' w2 d2 d3.
    call env' (\<lambda>x. Inr (to_req x)) nm key v req_text resp_text [no_wait] d4 = Some (Inr fut, [], d1) \<and>
    read_request env cell no_wait ((cx_conn x1)\<lparr>cn_shm := cn_shm d1\<rparr>) = Some (Some rq, c1) \<and>
    serve_job env sv no_wait rq hm_empty (cn_shm c1) = Some (cache', w2) \<and>
    dispatch_turn env' 0 [] (d1\<lparr>cn_shm := w2\<rparr>) = Some d2 \<and>
    block_on env' from_resp fut [] d2 = Some (Some (case sv_handler sv v of Some y \<Rightarrow> Inr y
      | None \<Rightarrow> Inl (IoOther ''remote function error (4): handler panicked'')), d3) \<and>
    pending_of d3 (rq_correlation_id rq) = None"
    by (rule rpc_round_trip [where ca = ?ca and sg = "ring_seg r" and rep = "rep_ring d" and req_ty = req_ty and resp_ty = resp_ty
          and to_resp = to_resp and args = args])
      (use laws req resp v same d4(3) cell(1,3) rq' ty rep reach rooms rooms' in \<open>simp_all add: sv\<close>)
  then show ?thesis
    unfolding call [symmetric] sv using x1 [unfolded sv] by (elim exE conjE) (intro exI conjI, assumption+, simp_all)
qed


theorem rpc_end_to_end_witness:
  "\<exists>b x d cell x1 b1 fut d1 c1 rq cache w2 d2 d3.
    expose_function_with_arena demo_cenv ''beat'' (schema_for Heartbeat) (schema_for Unregister) None 0 (heartbeat_from_value proto_lib)
      (\<lambda>y. Inr (unregister_to_value y)) (sv_handler demo_service) [bus_turn demo_env demo_cenv b] x =
      Some (Inr (cell, demo_service, pool_new 1), [], x1) \<and>
    call demo_cenv (\<lambda>x. Inr (heartbeat_to_value x)) ''beat'' None demo_beat (schema_for Heartbeat) (schema_for Unregister)
      [bus_turn demo_env demo_cenv b1, no_wait] (d\<lparr>cn_shm := cn_shm (cx_conn x1)\<rparr>) = Some (Inr fut, [], d1) \<and>
    read_request demo_cenv cell no_wait ((cx_conn x1)\<lparr>cn_shm := cn_shm d1\<rparr>) = Some (Some rq, c1) \<and>
    serve_job demo_cenv demo_service no_wait rq hm_empty (cn_shm c1) = Some (cache, w2) \<and>
    dispatch_turn demo_cenv 0 [] (d1\<lparr>cn_shm := w2\<rparr>) = Some d2 \<and>
    block_on demo_cenv (unregister_from_value proto_lib) fut [] d2 =
      Some (Some (Inr \<lparr>unreg_correlation_id = 5, unreg_client_id = 9\<rparr>), d3)"
proof -
  obtain b c d where b: "broker_inv b" "world_ok b (cn_shm c)" "client_linked b c" "client_linked b d" "cn_shm d = cn_shm c"
    "seg_ptr (ring_seg (rep_ring d)) \<noteq> seg_ptr (ring_seg (rep_ring c))" "client_id c = 1" "client_id d = 2"
    "rg_next_fn (br_reg b) = 1" "rg_fn_by_name (br_reg b) = hm_empty" "reply_open d" "in_callees (cn_inner d) = hm_empty"
    "\<forall>r \<in> {sub_ring c, rep_ring c, sub_ring d, rep_ring d}. ring_empty r (cn_shm c) \<and> 2 ^ 16 \<le> ring_cap r"
    using demo_two_clients by (elim exE conjE) (rule that, assumption+)
  let ?rfp = "sv_req_fp demo_service" and ?sfp = "sv_resp_fp demo_service" and ?args = "ref_enc (heartbeat_to_value demo_beat)"
  let ?m = "expose_msg (fst (next_corr demo_cenv c)) (client_id c) ''beat'' (schema_for Heartbeat) (schema_for Unregister) None (wrap_i64 (int 0))"
  let ?n = "lookup_msg (fst (next_corr demo_cenv d)) (client_id d) ''beat'' None"
  let ?rq = "placed_request demo_cenv (d\<lparr>cn_draws := Suc (cn_draws d)\<rparr>) ?rfp ?args"
  let ?x = "\<lparr>cx_conn = c, cx_threads = [], cx_service_workers = 1\<rparr>"
  have env: "ce_lib demo_cenv = proto_lib" "ce_cat demo_cenv = proto_cat" by (simp_all add: demo_cenv_def)
  have len: "length (schema_for Heartbeat) \<le> 1000" "length (schema_for Unregister) \<le> 1000" by (simp_all add: schema_json_def)
  have arena: "length (function_arena 1) \<le> 64" by (simp add: function_arena_def show_nat_def show_base.simps)
  have free: "\<not> function_name_taken ''beat'' (br_reg b)" by (simp add: function_name_taken_def b(10) hm_contains_def)
  have new: "hm_get (in_callees (cn_inner d)) (callee_key ''beat'' None) = None" by (simp add: b(12))
  have fp: "- (2 ^ 63) \<le> fp_to_i64 f" "fp_to_i64 f < 2 ^ 63" for f using sint_range by (simp_all add: fp_to_i64_def)
  note defs = kind_type_def expose_msg_def expose_function_to_value_def exposed_reply_def expose_reply_to_value_def lookup_msg_def
    lookup_function_to_value_def found_reply_def lookup_reply_to_value_def exposed_fn_def next_corr_def key_str_def wrap_i64_def
    STATUS_OK_def b(7-9)
  have t1: "sendable proto_lib proto_cat expose_function_to_value ExposeFunction ?m (sub_ring c) (cn_shm c)"
    by (rule demo_sendable) (use len sint_range b(13) in \<open>auto simp: defs\<close>)
  have t2: "sendable proto_lib proto_cat expose_reply_to_value ExposeReply (exposed_reply ?m ?rfp ?sfp b) (rep_ring c) (cn_shm c)"
    by (rule demo_sendable) (use arena fp sint_range b(13) in \<open>auto simp: defs\<close>)
  have t3: "sendable proto_lib proto_cat lookup_function_to_value LookupFunction ?n (sub_ring d) (cn_shm d)"
    by (rule demo_sendable) (use sint_range b(5,13) in \<open>auto simp: defs\<close>)
  have t4: "sendable proto_lib proto_cat lookup_reply_to_value LookupReply (found_reply ?n (exposed_fn demo_env ?m ?rfp ?sfp b)) (rep_ring d) (cn_shm d)"
    by (rule demo_sendable) (use arena fp sint_range b(5,13) in \<open>auto simp: defs\<close>)
  obtain n0 where seg: "reply_segment d = client_segment n0" using b(11) by (auto simp: reply_open_def)
  have rq: "reply_segment (d\<lparr>cn_draws := Suc (cn_draws d)\<rparr>) = client_segment n0" "client_id (d\<lparr>cn_draws := Suc (cn_draws d)\<rparr>) = 2"
    using seg b(8) by (simp_all add: reply_segment_def client_id_def)
  have t5: "msg_fits proto_lib proto_cat rpc_request_to_value RpcRequest ?rq (clamp_arena_cap (nat (max (wrap_i64 (int 0)) 0)))"
    by (rule demo_fits) (use length_client_segment [of n0] sint_range fp rq clamp_range(1) [of "nat (max (wrap_i64 (int 0)) 0)"] in
        \<open>auto simp: placed_request_def kind_type_def rpc_request_to_value_def next_corr_def heartbeat_to_value_def\<close>)
  have t6: "msg_fits proto_lib proto_cat rpc_response_to_value RpcResponse (serve_request demo_cenv demo_service ?rq) (ring_cap (rep_ring d))"
    by (rule demo_fits) (use sint_range fp b(13) in
        \<open>auto simp: demo_answer placed_request_def kind_type_def rpc_response_to_value_def unregister_to_value_def next_corr_def\<close>)
  have h: "sv_handler demo_service demo_beat = Some \<lparr>unreg_correlation_id = 5, unreg_client_id = 9\<rparr>" by (simp add: demo_service_laws)
  have y: "\<forall>y. sv_handler demo_service demo_beat = Some y \<longrightarrow>
      chan_value unregister_to_value (unregister_from_value proto_lib) (kind_type Unregister) y"
    using demo_values(2) unfolding h by simp
  have sv: "demo_service = \<lparr>sv_req_schema = sv_req_schema demo_service, sv_resp_schema = sv_resp_schema demo_service, sv_req_fp = ?rfp,
      sv_resp_fp = ?sfp, sv_de_req = heartbeat_from_value proto_lib, sv_ser_resp = (\<lambda>y. Inr (unregister_to_value y)),
      sv_handler = sv_handler demo_service\<rparr>" using demo_service_laws(2,3) by (intro service.equality) simp_all
  have x: "cx_conn ?x = c" by simp
  from rpc_end_to_end [of ?x c demo_env demo_cenv demo_cenv b d "kind_type Heartbeat" "sv_req_schema demo_service" "schema_for Heartbeat" ?rfp
      "kind_type Unregister" "sv_resp_schema demo_service" "schema_for Unregister" ?sfp heartbeat_to_value "heartbeat_from_value proto_lib"
      demo_beat ?args "sv_handler demo_service" unregister_to_value "unregister_from_value proto_lib" "''beat''" None _ 0 _ demo_service,
      unfolded env, OF x demo_same_bus demo_same_bus b(1-6,11) demo_service_laws(1) demo_service_schemas(1) demo_parse(1)
      demo_service_laws(1) demo_service_schemas(2) demo_parse(2) demo_values(1) [unfolded demo_service_laws(3)] proto_lib_encode y free new
      refl refl sv refl t1 t2 t3 t4 t5 t6]
  show ?thesis unfolding h option.case
    by (elim exE conjE) (rule exI [of _ b], rule exI [of _ ?x], rule exI [of _ d], intro exI conjI, (simp; fail | assumption)+)
qed

end
