(* ===== verification/Ring_Access.thy ===== *)
theory Ring_Access
  imports Ring_Service
begin

text \<open>
  What a connection is refused, over the bus: a broker that does not grant a subscription or a lookup answers with
  the reason, the connector's call returns it as its error, and neither of them keeps anything. With it, keys
  protect channels and functions from end to end.
\<close>

section \<open>Refusals\<close>

definition refused_subscribe :: "subscribe \<Rightarrow> i32 \<Rightarrow> string \<Rightarrow> subscribe_reply" where
  "refused_subscribe m code text =
     \<lparr>subr_correlation_id = sub_correlation_id m, subr_arena = [], subr_schema_fp = 0, subr_status = code, subr_message = text\<rparr>"

definition refused_lookup :: "lookup_function \<Rightarrow> i32 \<Rightarrow> string \<Rightarrow> lookup_reply" where
  "refused_lookup m code text =
     \<lparr>lkpr_correlation_id = lkp_correlation_id m, lkpr_fn_id = 0, lkpr_req_fp = 0, lkpr_resp_fp = 0, lkpr_req_arena = [],
      lkpr_status = code, lkpr_message = text\<rparr>"

text \<open>Whatever the registry's reason is, the call of the client returns it, and the broker is as it was.\<close>

lemma do_subscribe_refused:
  assumes bus: "same_bus benv env" and linked: "client_linked b c"
    and m: "m = sub_request env i key fp c"
    and no: "resolve_subscribe (be_sha benv) i (key_str key) fp (br_reg b) = Inl (code, text)" "code \<noteq> STATUS_OK"
    and fits: "sendable (ce_lib env) (ce_cat env) subscribe_to_value Subscribe m (sub_ring c) (cn_shm c)"
      "sendable (ce_lib env) (ce_cat env) subscribe_reply_to_value SubscribeReply (refused_subscribe m code text) (rep_ring c) (cn_shm c)"
  obtains c4 where "do_subscribe env i key fp [bus_turn benv env b] c = Some (Inl (IoOther (''subscribe failed: '' @ text)), [], c4)"
    "served benv (to_frame (ce_lib env) (ce_cat env) subscribe_to_value Subscribe m) c b b"
    "quiet_after c (cn_shm c4)" "one_call c c4"
proof -
  let ?msg = "\<lambda>corr c. \<lparr>sub_correlation_id = corr, sub_client_id = client_id c, sub_channel_id = i,
      sub_access_key = key_str key, sub_expected_fp = fp_to_i64 fp\<rparr>"
  note laws = bus [unfolded same_bus_def]
  obtain corr c1 where corr: "next_corr env c = (corr, c1)" by fastforce
  note m = m [unfolded sub_request_def corr, simplified]
  have link: "sub_linked b c" "rings_apart c" "rep_linked b (client_id c) c"
    using linked by (simp_all add: client_linked_def)
  have msg: "?msg corr c1 = m" "subr_correlation_id (refused_subscribe m code text) = corr"
    using m corr by (auto simp: next_corr_def client_id_def refused_subscribe_def)
  have h: "\<exists>w2. handle benv (frame_encode f) b w1 =
        reply benv subscribe_reply_to_value (client_id c) SubscribeReply (refused_subscribe m code text) b w2 \<and> grown w1 w2 \<and> True"
    if "received Subscribe subscribe_from_value env f m" for f w1
    using laws that m no by (intro exI [of _ w1])
      (simp add: received_def handle_def on_subscribe_def refused_subscribe_def fp_transport)
  obtain c4 where rt: "control_round_trip env subscribe_to_value Subscribe ?msg
        subscribe_reply_from_value SubscribeReply [bus_turn benv env b] c = Some (Inr (refused_subscribe m code text), [], c4)"
    and rest: "served benv (to_frame (ce_lib env) (ce_cat env) subscribe_to_value Subscribe m) c b b"
      "quiet_after c (cn_shm c4)" "one_call c c4"
    by (rule x_sub.exchange [where msg = ?msg and Q = "\<lambda>_. True", OF bus link corr msg fits h]) simp_all
  have "do_subscribe env i key fp [bus_turn benv env b] c = Some (Inl (IoOther (''subscribe failed: '' @ text)), [], c4)"
    using rt no(2) by (simp add: do_subscribe_def act_bind_def refused_subscribe_def act_fail_def)
  then show thesis using rest by (rule that)
qed

lemma do_lookup_refused:
  assumes bus: "same_bus benv env" and linked: "client_linked b c"
    and m: "m = lookup_msg (fst (next_corr env c)) (client_id c) nm key"
    and no: "resolve_lookup (be_sha benv) nm (key_str key) (br_reg b) = Inl (code, text)" "code \<noteq> STATUS_OK"
    and fits: "sendable (ce_lib env) (ce_cat env) lookup_function_to_value LookupFunction m (sub_ring c) (cn_shm c)"
      "sendable (ce_lib env) (ce_cat env) lookup_reply_to_value LookupReply (refused_lookup m code text) (rep_ring c) (cn_shm c)"
  obtains c4 where "do_lookup env nm key [bus_turn benv env b] c = Some (Inl (IoOther (''lookup failed: '' @ text)), [], c4)"
    "served benv (to_frame (ce_lib env) (ce_cat env) lookup_function_to_value LookupFunction m) c b b"
    "quiet_after c (cn_shm c4)" "one_call c c4"
proof -
  let ?msg = "\<lambda>corr c. \<lparr>lkp_correlation_id = corr, lkp_client_id = client_id c, lkp_fn_name = nm, lkp_access_key = key_str key\<rparr>"
  note laws = bus [unfolded same_bus_def]
  obtain corr c1 where corr: "next_corr env c = (corr, c1)" by fastforce
  note m = m [unfolded corr lookup_msg_def, simplified]
  have link: "sub_linked b c" "rings_apart c" "rep_linked b (client_id c) c"
    using linked by (simp_all add: client_linked_def)
  have msg: "?msg corr c1 = m" "lkpr_correlation_id (refused_lookup m code text) = corr"
    using m corr by (auto simp: next_corr_def client_id_def refused_lookup_def)
  have h: "\<exists>w2. handle benv (frame_encode f) b w1 =
        reply benv lookup_reply_to_value (client_id c) LookupReply (refused_lookup m code text) b w2 \<and> grown w1 w2 \<and> True"
    if "received LookupFunction lookup_function_from_value env f m" for f w1
    using laws that m no by (intro exI [of _ w1]) (simp add: received_def handle_def on_lookup_def refused_lookup_def)
  obtain c4 where rt: "control_round_trip env lookup_function_to_value LookupFunction ?msg lookup_reply_from_value LookupReply
      [bus_turn benv env b] c = Some (Inr (refused_lookup m code text), [], c4)"
    and rest: "served benv (to_frame (ce_lib env) (ce_cat env) lookup_function_to_value LookupFunction m) c b b"
      "quiet_after c (cn_shm c4)" "one_call c c4"
    by (rule x_lkp.exchange [where msg = ?msg and Q = "\<lambda>_. True", OF bus link corr msg fits h]) simp_all
  have "do_lookup env nm key [bus_turn benv env b] c = Some (Inl (IoOther (''lookup failed: '' @ text)), [], c4)"
    using rt no(2) by (simp add: do_lookup_def act_bind_def refused_lookup_def act_fail_def)
  then show thesis using rest by (rule that)
qed

section \<open>Listing\<close>

text \<open>The channels a client is told of are those of the broker's registry.\<close>

lemma client_list_channels_served:
  assumes bus: "same_bus benv env" and linked: "client_linked b c"
    and m: "m = \<lparr>lst_correlation_id = fst (next_corr env c), lst_client_id = client_id c\<rparr>"
    and r: "r = \<lparr>chl_correlation_id = lst_correlation_id m, chl_channels = registry_list_channels (br_reg b)\<rparr>"
    and fits: "sendable (ce_lib env) (ce_cat env) list_channels_to_value ListChannels m (sub_ring c) (cn_shm c)"
      "sendable (ce_lib env) (ce_cat env) channel_list_to_value ChannelList r (rep_ring c) (cn_shm c)"
  shows "\<exists>c4. client_list_channels env [bus_turn benv env b] c = Some (Inr (registry_list_channels (br_reg b)), [], c4) \<and>
    served benv (to_frame (ce_lib env) (ce_cat env) list_channels_to_value ListChannels m) c b b \<and>
    quiet_after c (cn_shm c4) \<and> one_call c c4"
proof -
  let ?msg = "\<lambda>corr c. \<lparr>lst_correlation_id = corr, lst_client_id = client_id c\<rparr>"
  note laws = bus [unfolded same_bus_def]
  obtain corr c1 where corr: "next_corr env c = (corr, c1)" by fastforce
  note m = m [unfolded corr, simplified]
  have link: "sub_linked b c" "rings_apart c" "rep_linked b (client_id c) c"
    using linked by (simp_all add: client_linked_def)
  have msg: "?msg corr c1 = m" "chl_correlation_id r = corr"
    using m r corr by (auto simp: next_corr_def client_id_def)
  have h: "\<exists>w2. handle benv (frame_encode f) b w1 =
        reply benv channel_list_to_value (client_id c) ChannelList r b w2 \<and> grown w1 w2 \<and> True"
    if "received ListChannels list_channels_from_value env f m" for f w1
    using laws that m r by (intro exI [of _ w1]) (simp add: received_def handle_def on_list_def)
  obtain c4 where rt: "control_round_trip env list_channels_to_value ListChannels ?msg channel_list_from_value ChannelList
      [bus_turn benv env b] c = Some (Inr r, [], c4)"
    and rest: "served benv (to_frame (ce_lib env) (ce_cat env) list_channels_to_value ListChannels m) c b b"
      "quiet_after c (cn_shm c4)" "one_call c c4"
    by (rule x_lst.exchange [where msg = ?msg and Q = "\<lambda>_. True", OF bus link corr msg fits h]) simp_all
  have "client_list_channels env [bus_turn benv env b] c = Some (Inr (registry_list_channels (br_reg b)), [], c4)"
    using rt r by (simp add: client_list_channels_def act_bind_def act_return_def)
  with rest show ?thesis by blast
qed

section \<open>Keys\<close>

text \<open>A refusal is not taken for a broker that is gone, so it is not retried.\<close>

lemma refusal_final: "\<not> broker_unreachable os (IoOther ''subscribe failed: invalid access key'')"
  by (simp add: broker_unreachable_def starts_with_def)

text \<open>
  C8: keys protect from end to end. A connection that presents a key whose hash is not the one a function or a
  channel was registered with can neither call the function nor subscribe to the channel, though it knows
  their name, their number and their schemas: the broker answers in one turn and stays as it was, the connector's
  operation returns the broker's reason as its error without reconnecting, no ring is attached, no callee is cached,
  and no object of the shared memory other than the two rings to the broker has changed.
\<close>

theorem wrong_key_refused:
  assumes cx: "cx_conn x = c" and bus: "same_bus benv env" and linked: "client_linked b c"
    and sha: "\<forall>bs. length (be_sha benv bs) = 32" "key_hash (be_sha benv) (key_str key) \<noteq> key_hash (be_sha benv) good"
    and fn: "find_function_by_name nm (br_reg b) = Some fm" "fm_key fm = Some (key_hash (be_sha benv) good)"
      "hm_get (in_callees (cn_inner c)) (callee_key nm key) = None"
    and ch: "hm_get (rg_channels (br_reg b)) i = Some ch" "ch_key ch = Some (key_hash (be_sha benv) good)"
    and schema: "avro_parse (ce_lib env) req_text = Inr (rsc, rfp)" "avro_parse (ce_lib env) resp_text = Inr (ssc, sfp)"
      "avro_parse (ce_lib env) text = Inr (sc, fp)"
    and m: "m = lookup_msg (fst (next_corr env c)) (client_id c) nm key" "n = sub_request env i key fp c"
    and fits: "sendable (ce_lib env) (ce_cat env) lookup_function_to_value LookupFunction m (sub_ring c) (cn_shm c)"
      "sendable (ce_lib env) (ce_cat env) lookup_reply_to_value LookupReply
         (refused_lookup m ERR_DENIED ''invalid access key'') (rep_ring c) (cn_shm c)"
      "sendable (ce_lib env) (ce_cat env) subscribe_to_value Subscribe n (sub_ring c) (cn_shm c)"
      "sendable (ce_lib env) (ce_cat env) subscribe_reply_to_value SubscribeReply
         (refused_subscribe n ERR_DENIED ''invalid access key'') (rep_ring c) (cn_shm c)"
  shows "\<exists>c4 x4.
    call env to_req nm key v req_text resp_text [bus_turn benv env b] c =
      Some (Inl (IoOther ''lookup failed: invalid access key''), [], c4) \<and>
    served benv (to_frame (ce_lib env) (ce_cat env) lookup_function_to_value LookupFunction m) c b b \<and>
    quiet_after c (cn_shm c4) \<and> in_callees (cn_inner c4) = in_callees (cn_inner c) \<and>
    subscribe_channel env i key text [bus_turn benv env b] x =
      Some (Inl (IoOther ''subscribe failed: invalid access key''), [], x4) \<and>
    served benv (to_frame (ce_lib env) (ce_cat env) subscribe_to_value Subscribe n) c b b \<and>
    quiet_after c (cn_shm (cx_conn x4)) \<and> in_cells (cn_inner (cx_conn x4)) = in_cells (cn_inner c)"
proof -
  have no: "\<not> key_matches (be_sha benv) (key_str key) (key_hash (be_sha benv) good)"
    using sha by (simp add: key_matches_eq key_hash_def)
  obtain c4 where l: "do_lookup env nm key [bus_turn benv env b] c = Some (Inl (IoOther ''lookup failed: invalid access key''), [], c4)"
    "served benv (to_frame (ce_lib env) (ce_cat env) lookup_function_to_value LookupFunction m) c b b"
    "quiet_after c (cn_shm c4)" "one_call c c4"
    by (rule do_lookup_refused [OF bus linked m(1) _ _ fits(1,2)])
      (use fn no in \<open>simp_all add: resolve_lookup_def check_key_def status_defs\<close>)
  obtain c5 where s: "do_subscribe env i key fp [bus_turn benv env b] c = Some (Inl (IoOther ''subscribe failed: invalid access key''), [], c5)"
    "served benv (to_frame (ce_lib env) (ce_cat env) subscribe_to_value Subscribe n) c b b"
    "quiet_after c (cn_shm c5)" "one_call c c5"
    by (rule do_subscribe_refused [OF bus linked m(2) _ _ fits(3,4)])
      (use ch no in \<open>simp_all add: resolve_subscribe_def check_key_def status_defs\<close>)
  have "call env to_req nm key v req_text resp_text [bus_turn benv env b] c =
      Some (Inl (IoOther ''lookup failed: invalid access key''), [], c4)"
    using l(1) schema fn(3) by (simp add: call_def matching_callee_def resolve_callee_def act_bind_def)
  moreover have "subscribe_channel env i key text [bus_turn benv env b] x =
      Some (Inl (IoOther ''subscribe failed: invalid access key''), [], x\<lparr>cx_conn := c5\<rparr>)"
    using s(1) schema(3) cx refusal_final [of "ce_os env"]
    by (simp add: subscribe_channel_def lift_act_def with_reconnect_def act_bind_def)
  ultimately show ?thesis
    using l s by (intro exI [of _ c4] exI [of _ "x\<lparr>cx_conn := c5\<rparr>"]) (simp add: one_call_def conn_static_def)
qed

text \<open>A broker with a function and a channel under the key \<^verbatim>\<open>s3\<close>, and a client that tries another.\<close>

definition demo_fn :: function_meta where
  "demo_fn = \<lparr>fm_id = 7, fm_name = ''beat'', fm_owner = 1, fm_req_fp = sv_req_fp demo_service, fm_resp_fp = sv_resp_fp demo_service,
     fm_key = Some (key_hash demo_sha ''s3''), fm_req_arena = function_arena 7\<rparr>"

definition demo_ch :: channel_meta where
  "demo_ch = \<lparr>ch_id = 4, ch_name = ''beats'', ch_owner = 1, ch_schema_fp = sv_req_fp demo_service,
     ch_key = Some (key_hash demo_sha ''s3''), ch_arena = channel_arena 4\<rparr>"

lemma demo_keys: "key_hash demo_sha ''s4'' \<noteq> key_hash demo_sha ''s3''"
  by (simp add: key_hash_def demo_sha_def string_bytes_def)

theorem wrong_key_refused_witness:
  "\<exists>b x c4 x4.
    call demo_cenv (\<lambda>x. Inr (heartbeat_to_value x)) ''beat'' (Some ''s4'') demo_beat (schema_for Heartbeat) (schema_for Unregister)
      [bus_turn demo_env demo_cenv b] (cx_conn x) = Some (Inl (IoOther ''lookup failed: invalid access key''), [], c4) \<and>
    subscribe_channel demo_cenv 4 (Some ''s4'') (schema_for Heartbeat) [bus_turn demo_env demo_cenv b] x =
      Some (Inl (IoOther ''subscribe failed: invalid access key''), [], x4)"
proof -
  obtain b0 c d where b0: "client_linked b0 d" "cn_shm d = cn_shm c" "client_id d = 2" "in_callees (cn_inner d) = hm_empty"
    "\<forall>r \<in> {sub_ring c, rep_ring c, sub_ring d, rep_ring d}. ring_empty r (cn_shm c) \<and> 2 ^ 16 \<le> ring_cap r"
    using demo_two_clients by (elim exE conjE) (rule that, assumption+)
  let ?b = "b0\<lparr>br_reg := insert_function demo_fn (insert_channel demo_ch (br_reg b0))\<rparr>"
  let ?m = "lookup_msg (fst (next_corr demo_cenv d)) (client_id d) ''beat'' (Some ''s4'')"
  let ?n = "sub_request demo_cenv 4 (Some ''s4'') (sv_req_fp demo_service) d"
  let ?x = "\<lparr>cx_conn = d, cx_threads = [], cx_service_workers = 1\<rparr>"
  have env: "ce_lib demo_cenv = proto_lib" "ce_cat demo_cenv = proto_cat" "be_sha demo_env = demo_sha"
    by (simp_all add: demo_cenv_def demo_env_def)
  have link: "client_linked ?b d" using b0(1) by (simp add: linked_defs)
  have fn: "find_function_by_name ''beat'' (br_reg ?b) = Some demo_fn"
    by (simp add: find_function_by_name_def insert_function_def demo_fn_def)
  have ch: "hm_get (rg_channels (br_reg ?b)) 4 = Some demo_ch"
    by (simp add: insert_function_def insert_channel_def demo_ch_def)
  have keys: "fm_key demo_fn = Some (key_hash demo_sha ''s3'')" "ch_key demo_ch = Some (key_hash demo_sha ''s3'')"
    by (simp_all add: demo_fn_def demo_ch_def)
  have new: "hm_get (in_callees (cn_inner d)) (callee_key ''beat'' (Some ''s4'')) = None" by (simp add: b0(4))
  have bad: "key_hash demo_sha (key_str (Some ''s4'')) \<noteq> key_hash demo_sha ''s3''" using demo_keys by (simp add: key_str_def)
  have fp: "- (2 ^ 63) \<le> fp_to_i64 f" "fp_to_i64 f < 2 ^ 63" for f using sint_range by (simp_all add: fp_to_i64_def)
  note defs = kind_type_def lookup_msg_def lookup_function_to_value_def refused_lookup_def lookup_reply_to_value_def
    sub_request_def subscribe_to_value_def refused_subscribe_def subscribe_reply_to_value_def next_corr_def key_str_def status_defs b0(3)
  have t1: "sendable proto_lib proto_cat lookup_function_to_value LookupFunction ?m (sub_ring d) (cn_shm d)"
    by (rule demo_sendable) (use sint_range b0(2,5) in \<open>auto simp: defs\<close>)
  have t2: "sendable proto_lib proto_cat lookup_reply_to_value LookupReply (refused_lookup ?m ERR_DENIED ''invalid access key'') (rep_ring d) (cn_shm d)"
    by (rule demo_sendable) (use sint_range b0(2,5) in \<open>auto simp: defs\<close>)
  have t3: "sendable proto_lib proto_cat subscribe_to_value Subscribe ?n (sub_ring d) (cn_shm d)"
    by (rule demo_sendable) (use fp sint_range b0(2,5) in \<open>auto simp: defs\<close>)
  have t4: "sendable proto_lib proto_cat subscribe_reply_to_value SubscribeReply (refused_subscribe ?n ERR_DENIED ''invalid access key'') (rep_ring d) (cn_shm d)"
    by (rule demo_sendable) (use sint_range b0(2,5) in \<open>auto simp: defs\<close>)
  have x: "cx_conn ?x = d" and len: "\<forall>bs. length (demo_sha bs) = 32" by simp_all
  show ?thesis
    using wrong_key_refused [where to_req = "\<lambda>x. Inr (heartbeat_to_value x)" and v = demo_beat, OF x demo_same_bus link _ _ fn _ new ch,
        unfolded env, OF len bad keys demo_parse(1,2,1) refl refl t1 t2 t3 t4]
    by (elim exE conjE) (rule exI [of _ ?b], rule exI [of _ ?x], unfold x, blast)
qed

end
