(* ===== verification/Ring_Leave.thy ===== *)
theory Ring_Leave
  imports Ring_Service
begin

text \<open>
  The end of a connection, over the bus: the farewell a connector sends when it is dropped, and what the broker has
  forgotten one turn later.
\<close>

definition farewell :: "'sc client_env \<Rightarrow> conn \<Rightarrow> unregister" where
  "farewell env c = \<lparr>unreg_correlation_id = fst (next_corr env c), unreg_client_id = client_id c\<rparr>"

text \<open>The connector's side: one record on the submission ring, without waiting for an answer, and no reply segment any more.\<close>

lemma connection_drop_sends:
  assumes "cx_conn x = c" "ring_ready (sub_ring c) (cn_shm c) (frame_encode f)"
    and "to_frame (ce_lib env) (ce_cat env) unregister_to_value Unregister (farewell env c) = Inr f"
  obtains mm x1 where "connection_drop env False [no_wait] x = Some (Inr (), [], x1)"
    "cn_shm (cx_conn x1) = transport_drop (ce_os env) (in_transport (cn_inner c)) (set_ring_mem (sub_ring c) mm (cn_shm c))"
    "ring_idle (sub_ring c) mm" "ring_list (sub_ring c) mm = [frame_encode f]" "\<not> in_running (cn_inner (cx_conn x1))" "cx_threads x1 = []"
proof -
  obtain corr c1 where n: "next_corr env c = (corr, c1)" by fastforce
  have c1: "cn_inner c1 = cn_inner c" "cn_shm c1 = cn_shm c" using n by (auto simp: next_corr_def)
  then have "ring_ready (sub_ring c) (cn_shm c1) (frame_encode f)" using assms(2) by simp
  then obtain mm where mm: "push_ring no_wait (sub_ring c) (frame_encode f) c1 = Some (True, c1\<lparr>cn_shm := set_ring_mem (sub_ring c) mm (cn_shm c1)\<rparr>)"
    "ring_idle (sub_ring c) mm" "ring_list (sub_ring c) mm = [frame_encode f]" by (rule ring_ready_push)
  let ?c1 = "upd_inner (\<lambda>n. n\<lparr>in_running := False\<rparr>) (c1\<lparr>cn_shm := set_ring_mem (sub_ring c) mm (cn_shm c)\<rparr>)"
  let ?x = "x\<lparr>cx_conn := ?c1\<lparr>cn_shm := transport_drop (ce_os env) (in_transport (cn_inner c)) (set_ring_mem (sub_ring c) mm (cn_shm c))\<rparr>, cx_threads := []\<rparr>"
  have "connection_drop env False [no_wait] x = Some (Inr (), [], ?x)"
    using assms(1,3) n c1 mm(1)
    by (simp add: connection_drop_def send_unregister_def farewell_def client_id_def act_bind_def act_return_def Let_def)
  then show thesis using mm(2,3) by (intro that) (auto simp: upd_inner_def)
qed

text \<open>Dropping the transport takes one name away, and no bytes.\<close>

lemma transport_drop_spec:
  assumes "os_steady os" "owns_reply tp"
  shows "shm_obj (transport_drop os tp w) = shm_obj w" "sys_open (tp_reply_segment tp) (transport_drop os tp w) = None"
    and "nm \<in> bus_names \<Longrightarrow> nm \<noteq> tp_reply_segment tp \<Longrightarrow> sys_open nm (transport_drop os tp w) = sys_open nm w"
    and "shm_ok w \<Longrightarrow> shm_ok (transport_drop os tp w)"
proof -
  have eq: "transport_drop os tp w = snd (unlink os (tp_reply_segment tp) w)" and bus: "tp_reply_segment tp \<in> bus_names"
    using assms(2) by (auto simp: owns_reply_def transport_drop_def segment_drop_def bus_names_def)
  show "shm_obj (transport_drop os tp w) = shm_obj w" by (simp add: eq unlink_dir(3))
  show "sys_open (tp_reply_segment tp) (transport_drop os tp w) = None"
    unfolding eq by (rule unlink_gone [OF assms(1) bus_name_nul [OF bus]])
  show "nm \<in> bus_names \<Longrightarrow> nm \<noteq> tp_reply_segment tp \<Longrightarrow> sys_open nm (transport_drop os tp w) = sys_open nm w"
    using unlink_steady [OF assms(1) bus] by (simp add: eq)
  show "shm_ok w \<Longrightarrow> shm_ok (transport_drop os tp w)" by (auto simp: eq)
qed

text \<open>Reclaiming arenas takes names of arenas away and nothing else: whoever still maps them keeps their bytes.\<close>

lemma reclaims_elsewhere:
  assumes "\<forall>n sg. hm_get (br_arenas (fst s)) n = Some sg \<longrightarrow> seg_name sg = n" "set ns \<subseteq> arena_space" "nm \<in> bus_names - arena_space"
  shows "shm_obj (snd (fold (reclaim_arena os) ns s)) = shm_obj (snd s) \<and> sys_open nm (snd (fold (reclaim_arena os) ns s)) = sys_open nm (snd s)"
  using assms(1,2)
proof (induction ns arbitrary: s)
  case (Cons n ns)
  obtain b w where s: "s = (b, w)" by (cases s)
  show ?case
  proof (cases "hm_get (br_arenas b) n")
    case None
    then show ?thesis using Cons s by (simp add: reclaim_arena_def)
  next
    case (Some sg)
    then have "seg_name sg = n" "n \<in> arena_space" using Cons.prems s by auto
    then have "shm_path nm \<noteq> shm_path (seg_name sg)" using assms(3) arena_space_bus bus_name_path_inject by blast
    then have "shm_obj (segment_drop os sg w) = shm_obj w \<and> sys_open nm (segment_drop os sg w) = sys_open nm w"
      by (simp add: segment_drop_def unlink_dir)
    moreover have "\<forall>n' sg. hm_get (hm_remove n (br_arenas b)) n' = Some sg \<longrightarrow> seg_name sg = n'"
      using Cons.prems(1) s by simp
    ultimately show ?thesis
      using Cons.IH [of "(b\<lparr>br_arenas := hm_remove n (br_arenas b)\<rparr>, segment_drop os sg w)"] Cons.prems(2) Some s
      by (simp add: reclaim_arena_def)
  qed
qed simp

lemma release_client_elsewhere:
  assumes "broker_inv b" "release_client os cid b w = (b', w')" "nm \<in> bus_names - arena_space"
  shows "shm_obj w' = shm_obj w" "sys_open nm w' = sys_open nm w"
proof -
  have "\<forall>n sg. hm_get (br_arenas b) n = Some sg \<longrightarrow> seg_name sg = n" "reg_ok (br_reg b)" using assms(1) by (simp_all add: broker_inv_def)
  moreover from this(2) have "set (released_arenas cid (br_reg b)) \<subseteq> arena_space" by (rule released_arenas_space)
  ultimately show "shm_obj w' = shm_obj w" "sys_open nm w' = sys_open nm w"
    using reclaims_elsewhere [of "(b, w)" "released_arenas cid (br_reg b)" nm os] assms(3) release_client_eq(2) [OF assms(2)] by simp_all
qed

text \<open>
  C9: a connection that is dropped leaves nothing behind. Let it be the last holder of its client (no publisher and no
  call in flight), its farewell fit into the submission ring, which is at rest and empty, and the kernel refuse nothing.
  Dropping the connection stops its threads, puts one record on the submission ring, without waiting for the broker,
  and unlinks its reply segment. One turn of the broker's loop later everything the connection owned
  is gone: its channels and functions, their names, their arenas in the broker and in the shared memory directory, its
  registration, the broker's end of its reply ring and the name of the reply segment. What belongs to other clients is
  untouched, all other segments of the bus keep their names, the ring is empty again, and the broker's invariant and its
  agreement with the shared memory directory hold.
\<close>

theorem disconnect_end_to_end:
  assumes cx: "cx_conn x = c" and bus: "same_bus benv env" and linked: "client_linked b c"
    and inv: "broker_inv b" "world_ok b (cn_shm c)" and own: "owns_reply (in_transport (cn_inner c))"
    and fits: "sendable (ce_lib env) (ce_cat env) unregister_to_value Unregister (farewell env c) (sub_ring c) (cn_shm c)"
  shows "\<exists>x1 b1 w1. connection_drop env False [no_wait] x = Some (Inr (), [], x1) \<and>
    \<not> in_running (cn_inner (cx_conn x1)) \<and> cx_threads x1 = [] \<and>
    run [(benv, id, 0, [])] (be_now benv) b (cn_shm (cx_conn x1)) = Some (b1, w1) \<and>
    departed (client_id c) b b1 w1 \<and> sys_open (reply_segment c) w1 = None \<and>
    (\<forall>nm \<in> bus_names - arena_space - {reply_segment c}. sys_open nm w1 = sys_open nm (cn_shm c)) \<and>
    broker_inv b1 \<and> world_ok b1 w1 \<and> ring_empty (sub_ring c) w1"
proof -
  let ?r = "sub_ring c" and ?n = "reply_segment c" and ?tp = "in_transport (cn_inner c)"
  note laws = bus [unfolded same_bus_def]
  have os: "os_steady (ce_os env)" "os_steady (be_os benv)" using laws by (simp_all add: os_calm_def)
  note td = transport_drop_spec [OF os(1) own]
  have n: "?n = tp_reply_segment ?tp" "?n \<in> bus_names - arena_space" using own
    by (auto simp: reply_segment_def owns_reply_def bus_names_def arena_space_def)
  obtain f where f: "to_frame (ce_lib env) (ce_cat env) unregister_to_value Unregister (farewell env c) = Inr f"
    "ring_ready ?r (cn_shm c) (frame_encode f)" "frame_decode (frame_encode f) = Inr f" "kind_of (ce_cat env) (frame_schema_fp f) = Some Unregister"
    "from_frame (ce_lib env) (ce_cat env) unregister_from_value Unregister f = Inr (farewell env c)"
    using m_unreg.sent [OF _ _ _ fits] laws by blast
  obtain mm x1 where x1: "connection_drop env False [no_wait] x = Some (Inr (), [], x1)"
    "cn_shm (cx_conn x1) = transport_drop (ce_os env) ?tp (set_ring_mem ?r mm (cn_shm c))"
    "ring_idle ?r mm" "ring_list ?r mm = [frame_encode f]" "\<not> in_running (cn_inner (cx_conn x1))" "cx_threads x1 = []"
    by (rule connection_drop_sends [OF cx f(2,1)])
  let ?w = "cn_shm (cx_conn x1)"
  have names: "sys_open nm (set_ring_mem ?r mm (cn_shm c)) = sys_open nm (cn_shm c)" for nm by (simp add: sys_open_def set_ring_mem_def)
  have "shm_ok ?w" using inv(2) unfolding x1(2) by (intro td(4)) (simp add: world_ok_def shm_ok_def set_ring_mem_def)
  then have ok: "world_ok b ?w"
    using inv(2) td(3) n names arena_space_bus unfolding x1(2) world_ok_def by (metis DiffD2)
  obtain s where s: "br_submission b = ?r\<lparr>ring_seg := s\<rparr>" "seg_ptr s = seg_ptr (ring_seg ?r)"
    using linked by (auto simp: linked_defs)
  let ?Q = "\<lambda>b1 w2. departed (client_id c) b b1 w2 \<and> sys_open ?n w2 = None \<and>
      (\<forall>nm \<in> bus_names - arena_space - {?n}. sys_open nm w2 = sys_open nm (cn_shm c)) \<and> broker_inv b1 \<and> world_ok b1 w2 \<and> ring_empty ?r w2"
  have h: "\<exists>b1 w2. handle benv (frame_encode f) b w1 = Some (Inr (), b1, w2) \<and> ?Q b1 w2"
    if w1: "same_but (seg_ptr (ring_seg ?r)) ?w w1" "ring_empty ?r w1" for w1
  proof -
    obtain b1 w2 where rel: "release_client (be_os benv) (client_id c) b w1 = (b1, w2)" by fastforce
    note e = release_client_elsewhere [OF inv(1) rel]
    have "world_ok b w1" using ok world_ok_mem [of w1 ?w b] w1(1) by (simp add: same_but_def)
    then have "departed (client_id c) b b1 w2 \<and> broker_inv b1 \<and> world_ok b1 w2"
      using release_client_spec [OF inv(1) _ os(2) rel] by simp
    moreover have "ring_empty ?r w2" using w1(2) e(1) [OF n(2)] by (simp add: ring_empty_def ring_mem_def)
    moreover have "sys_open nm w2 = sys_open nm ?w" if "nm \<in> bus_names - arena_space" for nm
      using e(2) [OF that] w1(1) by (simp add: same_but_def sys_open_def)
    then have "sys_open ?n w2 = None" "\<forall>nm \<in> bus_names - arena_space - {?n}. sys_open nm w2 = sys_open nm (cn_shm c)"
      using td(2,3) n names by (simp_all add: x1(2))
    moreover have "handle benv (frame_encode f) b w1 = Some (Inr (), b1, w2)"
      using f(3-5) laws rel by (simp add: handle_def on_unregister_def farewell_def)
    ultimately show ?thesis by blast
  qed
  have "ring_idle ?r (ring_mem ?r ?w)" "ring_list ?r (ring_mem ?r ?w) = [frame_encode f]"
    using x1(3,4) by (simp_all add: x1(2) ring_mem_def td(1) set_ring_mem_def)
  from broker_turn_any [OF s this, of benv ?Q] h
  show ?thesis using x1(1,5,6) by blast
qed

theorem disconnect_end_to_end_witness:
  "\<exists>b x x1 b1 w1. client_id (cx_conn x) = 1 \<and> hm_contains (br_reply_rings b) 1 \<and>
    connection_drop demo_cenv False [no_wait] x = Some (Inr (), [], x1) \<and>
    run [(demo_env, id, 0, [])] 0 b (cn_shm (cx_conn x1)) = Some (b1, w1) \<and> \<not> hm_contains (br_reply_rings b1) 1 \<and>
    sys_open (reply_segment (cx_conn x)) w1 = None \<and> broker_inv b1"
proof -
  obtain b c d where b: "broker_inv b" "world_ok b (cn_shm c)" "client_linked b c" "client_id c = 1"
    "\<forall>r \<in> {sub_ring c, rep_ring c, sub_ring d, rep_ring d}. ring_empty r (cn_shm c) \<and> 2 ^ 16 \<le> ring_cap r"
    "owns_reply (in_transport (cn_inner c))"
    using demo_two_clients by (elim exE conjE) (rule that, assumption+)
  let ?x = "\<lparr>cx_conn = c, cx_threads = [], cx_service_workers = 1\<rparr>"
  have env: "ce_lib demo_cenv = proto_lib" "ce_cat demo_cenv = proto_cat" "be_now demo_env = 0"
    by (simp_all add: demo_cenv_def demo_env_def)
  have t: "sendable proto_lib proto_cat unregister_to_value Unregister (farewell demo_cenv c) (sub_ring c) (cn_shm c)"
    by (rule demo_sendable) (use sint_range b(5) in
        \<open>auto simp: kind_type_def farewell_def unregister_to_value_def next_corr_def wrap_i64_def b(4)\<close>)
  have x: "cx_conn ?x = c" by simp
  obtain x1 b1 w1 where x1: "connection_drop demo_cenv False [no_wait] ?x = Some (Inr (), [], x1)"
    "run [(demo_env, id, 0, [])] 0 b (cn_shm (cx_conn x1)) = Some (b1, w1)" "departed 1 b b1 w1" "broker_inv b1"
    "sys_open (reply_segment c) w1 = None"
    using disconnect_end_to_end [OF x demo_same_bus b(3,1,2,6), unfolded env b(4), OF t] by (elim exE conjE) (rule that)
  have "hm_contains (br_reply_rings b) 1" using b(3,4) by (auto simp: linked_defs hm_contains_def)
  moreover have "\<not> hm_contains (br_reply_rings b1) 1" using x1(3) by (simp add: departed_def hm_contains_def)
  ultimately show ?thesis using x x1 b(4)
    by (intro exI [of _ b] exI [of _ ?x] exI [of _ x1] exI [of _ b1] exI [of _ w1]) simp
qed

end
