(* ===== verification/Ring_Reconnect.thy ===== *)
theory Ring_Reconnect
  imports Ring_Service
begin

text \<open>
  A restart of the broker seen from a connection (\<^verbatim>\<open>reconnect\<close>, \<^verbatim>\<open>replay\<close> and \<^verbatim>\<open>run_watcher\<close> of
  \<^verbatim>\<open>connector/src/client.rs\<close>, with the broker in its loop on the other side): the watcher finds another
  epoch in the control segment, the connection gets new rings, registers and publishes every channel it
  owns again, and the handles of its publishers point into the new arenas.
\<close>

section \<open>Calls with more turns to come\<close>

lemma do_register_more:
  assumes "do_register env [t] c = Some (Inr v, [], c')"
  shows "do_register env (t # ts) c = Some (Inr v, ts, c')"
proof -
  from assms obtain rr c1 where "control_round_trip env register_to_value Register
      (\<lambda>corr c. \<lparr>reg_correlation_id = corr, reg_app_name = in_app_name (cn_inner c),
        reg_nonce = sint (tp_nonce (in_transport (cn_inner c))), reg_reply_segment = reply_segment c,
        reg_heartbeat_ms = 1000, reg_pid = int (ce_pid env)\<rparr>)
      register_reply_from_value RegisterReply [t] c = Some (Inr rr, [], c1)" and r: "regr_status rr = STATUS_OK"
    "v = regr_client_id rr" "c' = upd_inner (\<lambda>n. n\<lparr>in_transport := (in_transport n)\<lparr>tp_client_id := regr_client_id rr\<rparr>\<rparr>) c1"
    by (auto simp: do_register_def act_bind_def split: option.splits sum.splits if_splits)
  from round_trip_more [OF this(1), of ts] r show ?thesis by (simp add: do_register_def act_bind_def)
qed

lemma do_publish_more:
  assumes "do_publish env nm schema key cap [t] c = Some (Inr v, [], c')"
  shows "do_publish env nm schema key cap (t # ts) c = Some (Inr v, ts, c')"
proof -
  from assms obtain pr where "control_round_trip env publish_channel_to_value PublishChannel
      (\<lambda>corr c. \<lparr>pub_correlation_id = corr, pub_client_id = client_id c, pub_channel = nm,
        pub_schema_json = schema, pub_access_key = key_str key, pub_arena_cap = cap\<rparr>)
      publish_reply_from_value PublishReply [t] c = Some (Inr pr, [], c')" and r: "pubr_status pr = STATUS_OK"
    "io_bind (segment_open (ce_os env) (pubr_arena pr) (cn_shm c')) (\<lambda>seg.
       ring_attach seg 0 (shm_obj (cn_shm c') (seg_ptr seg))) = Inr (fst v)" "snd v = i64_to_fp (pubr_schema_fp pr)"
    by (auto simp: do_publish_def act_bind_def act_return_def act_fail_def attach_arena_def
        split: option.splits sum.splits if_splits)
  from round_trip_more [OF this(1), of ts] r show ?thesis
    by (cases v) (simp add: do_publish_def act_bind_def act_return_def attach_arena_def)
qed

lemma do_expose_more:
  assumes "do_expose env nm req resp key cap [t] c = Some (Inr v, [], c')"
  shows "do_expose env nm req resp key cap (t # ts) c = Some (Inr v, ts, c')"
proof -
  from assms obtain er where "control_round_trip env expose_function_to_value ExposeFunction
      (\<lambda>corr c. \<lparr>exp_correlation_id = corr, exp_client_id = client_id c, exp_fn_name = nm,
        exp_req_schema_json = req, exp_resp_schema_json = resp, exp_access_key = key_str key, exp_req_arena_cap = cap\<rparr>)
      expose_reply_from_value ExposeReply [t] c = Some (Inr er, [], c')" and r: "expr_status er = STATUS_OK"
    "io_bind (segment_open (ce_os env) (expr_req_arena er) (cn_shm c')) (\<lambda>seg.
       ring_attach seg 0 (shm_obj (cn_shm c') (seg_ptr seg))) = Inr (fst v)"
    "snd v = (i64_to_fp (expr_req_fp er), i64_to_fp (expr_resp_fp er))"
    by (auto simp: do_expose_def act_bind_def act_return_def act_fail_def attach_arena_def
        split: option.splits sum.splits if_splits)
  from round_trip_more [OF this(1), of ts] r show ?thesis
    by (cases v) (simp add: do_expose_def act_bind_def act_return_def attach_arena_def)
qed

section \<open>A client and its broker between two calls\<close>

definition at_rest :: "broker \<Rightarrow> conn \<Rightarrow> bool" where
  "at_rest b c \<longleftrightarrow> client_linked b c \<and> broker_inv b \<and> world_ok b (cn_shm c) \<and>
     ring_empty (sub_ring c) (cn_shm c) \<and> ring_empty (rep_ring c) (cn_shm c)"

lemma served_inv:
  assumes "served benv fr c b b1" "broker_inv b" "reg_count (br_reg b) < 2 ^ 63 - 1"
  shows "broker_inv b1" "reg_count (br_reg b1) \<le> reg_count (br_reg b) + 1"
proof -
  obtain w w1 where "run [(benv, id, 0, [])] (be_now benv) b w = Some (b1, w1)" using assms(1) by (auto simp: served_def)
  then have "b1 = b \<or> (\<exists>bs w2 res w1'. handle benv bs b w2 = Some (res, b1, w1'))"
    by (auto simp: Let_def SWEEP_INTERVAL_def split: option.splits)
  moreover have "broker_inv b1 \<and> counted b b1" if "handle benv bs b w2 = Some (res, b1, w1')" for bs w2 res w1'
    using keeps_handle [OF assms(2,3) that] by (simp add: keeps_def)
  ultimately have "broker_inv b1 \<and> counted b b1" using assms(2) by (auto simp: counted_def)
  then show "broker_inv b1" "reg_count (br_reg b1) \<le> reg_count (br_reg b) + 1" by (simp_all add: counted_def)
qed

section \<open>What a replay brings back\<close>

text \<open>What a reconnect sends for an entry of the registry, with the correlation id drawn at \<open>dr\<close>.\<close>

definition drawn :: "'sc client_env \<Rightarrow> nat \<Rightarrow> i64" where
  "drawn env dr = sint (random_u64 (ce_random env dr))"

lemma drawn_corr: "fst (next_corr env c) = drawn env (cn_draws c)"
  by (simp add: next_corr_def drawn_def)

definition publish_msg :: "i64 \<Rightarrow> i64 \<Rightarrow> string \<Rightarrow> string \<Rightarrow> string option \<Rightarrow> i64 \<Rightarrow> publish_channel" where
  "publish_msg corr cid nm schema key cap =
     \<lparr>pub_correlation_id = corr, pub_client_id = cid, pub_channel = nm, pub_schema_json = schema,
      pub_access_key = key_str key, pub_arena_cap = cap\<rparr>"

text \<open>Channels and functions have name spaces of their own.\<close>

definition re_id :: "reg \<Rightarrow> bool \<times> string" where
  "re_id r = (is_RegChannel r, re_name r)"

fun name_taken :: "reg \<Rightarrow> registry \<Rightarrow> bool" where
  "name_taken (RegChannel nm _ _ _ _) g = channel_name_taken nm g"
| "name_taken (RegFunction nm _ _ _ _ _) g = function_name_taken nm g"

text \<open>A client that owns what an entry of its registry says, with its arena.\<close>

fun owns :: "broker \<Rightarrow> i64 \<Rightarrow> reg \<Rightarrow> string \<Rightarrow> bool" where
  "owns b cid (RegChannel nm _ _ _ _) a \<longleftrightarrow>
     (\<exists>i ch. hm_get (rg_chan_by_name (br_reg b)) nm = Some i \<and> hm_get (rg_channels (br_reg b)) i = Some ch \<and>
        ch_owner ch = cid \<and> ch_arena ch = a)"
| "owns b cid (RegFunction nm _ _ _ _ _) a \<longleftrightarrow>
     (\<exists>i f. hm_get (rg_fn_by_name (br_reg b)) nm = Some i \<and> hm_get (rg_functions (br_reg b)) i = Some f \<and>
        fm_owner f = cid \<and> fm_req_arena f = a)"

text \<open>What an entry of the registry has after the replay: the broker knows the name, with this client
  as the owner, and the handle's cell is the ring of the arena, at rest and empty.\<close>

definition replayed :: "broker \<Rightarrow> conn \<Rightarrow> reg \<Rightarrow> bool" where
  "replayed b c r \<longleftrightarrow>
     (\<exists>a. owns b (client_id c) r a \<and> arena_at a (in_cells (cn_inner c) (re_ring r)) (cn_shm c) \<and>
        seg_ptr (ring_seg (in_cells (cn_inner c) (re_ring r))) \<notin> {seg_ptr (ring_seg (sub_ring c)), seg_ptr (ring_seg (rep_ring c))})"

lemma owns_arena: "owns b cid r a \<Longrightarrow> a \<in> arena_names (br_reg b)"
  by (cases r) (auto simp: arena_names_def)

lemma owns_granted:
  assumes "reg_ok (br_reg b)" "owns b cid x a" "re_id x \<noteq> (True, pub_channel m)"
  shows "owns (granted benv m fp ob b) cid x a"
  using assms fresh_channel [OF assms(1)]
  by (cases x) (auto simp: re_id_def insert_channel_def granted_channel_def alloc_channel_id_def)

lemma owns_exposed:
  assumes "reg_ok (br_reg b)" "owns b cid x a" "re_id x \<noteq> (False, exp_fn_name m)"
  shows "owns (exposed benv m rfp sfp ob b) cid x a"
  using assms fresh_function [OF assms(1)]
  by (cases x) (auto simp: re_id_def insert_function_def exposed_fn_def alloc_fn_id_def)

lemma arenas_granted:
  assumes "reg_ok (br_reg b)" "a \<in> arena_names (br_reg b)"
  shows "hm_get (br_arenas (granted benv m fp ob b)) a = hm_get (br_arenas b) a"
  using assms fresh_channel_arena [OF assms(1)] by (auto simp: granted_def granted_channel_def Let_def)

lemma arenas_exposed:
  assumes "reg_ok (br_reg b)" "a \<in> arena_names (br_reg b)"
  shows "hm_get (br_arenas (exposed benv m rfp sfp ob b)) a = hm_get (br_arenas b) a"
  using assms fresh_function_arena [OF assms(1)] by (auto simp: exposed_def exposed_fn_def Let_def)

lemma taken_granted: "name_taken x (br_reg (granted benv m fp ob b)) \<longleftrightarrow> re_id x = (True, pub_channel m) \<or> name_taken x (br_reg b)"
  by (cases x) (auto simp: re_id_def channel_name_taken_def function_name_taken_def hm_contains_def insert_channel_def
      granted_channel_def alloc_channel_id_def)

lemma taken_exposed: "name_taken x (br_reg (exposed benv m rfp sfp ob b)) \<longleftrightarrow> re_id x = (False, exp_fn_name m) \<or> name_taken x (br_reg b)"
  by (cases x) (auto simp: re_id_def channel_name_taken_def function_name_taken_def hm_contains_def insert_function_def
      exposed_fn_def alloc_fn_id_def)

text \<open>What was replayed before stays as it is while something else is.\<close>

lemma replayed_kept:
  assumes old: "replayed b c x" and rest: "at_rest b c" "at_rest b' c'"
    and b': "\<forall>cid a. owns b cid x a \<longrightarrow> owns b' cid x a" "\<forall>a \<in> arena_names (br_reg b). hm_get (br_arenas b') a = hm_get (br_arenas b) a"
    and c': "c' = set_cell cell ring c4" "in_transport (cn_inner c4) = in_transport (cn_inner c)" "one_call c c4" "quiet_after c (cn_shm c4)"
    and other: "re_ring x \<noteq> cell"
  shows "replayed b' c' x"
proof -
  let ?r = "in_cells (cn_inner c) (re_ring x)"
  obtain a where a: "owns b (client_id c) x a" "arena_at a ?r (cn_shm c)"
    and ptr: "seg_ptr (ring_seg ?r) \<notin> {seg_ptr (ring_seg (sub_ring c)), seg_ptr (ring_seg (rep_ring c))}"
    using old by (auto simp: replayed_def)
  have ok: "reg_ok (br_reg b)" "world_ok b (cn_shm c)" "world_ok b' (cn_shm c')" using rest by (simp_all add: at_rest_def broker_inv_def)
  have mem: "a \<in> arena_names (br_reg b)" using owns_arena [OF a(1)] .
  then have op: "sys_open a (cn_shm c') = sys_open a (cn_shm c)"
    using ok(2,3) b'(2) arena_names_space [OF ok(1)] by (auto simp: world_ok_def)
  have "segment_open (ce_os demo_cenv) a (cn_shm c) = Inr (ring_seg ?r)" using a(2) demo_calm by (simp add: arena_at_def)
  then have "sys_open a (cn_shm c) = Some (seg_ptr (ring_seg ?r))" using segment_open_Inr(2) by simp
  then have "seg_ptr (ring_seg ?r) < shm_next (cn_shm c)" using ok(2) by (auto simp: world_ok_def shm_ok_def sys_open_def)
  then have obj: "shm_obj (cn_shm c') (seg_ptr (ring_seg ?r)) = shm_obj (cn_shm c) (seg_ptr (ring_seg ?r))"
    using c'(1,4) ptr by (simp add: quiet_after_def set_cell_def)
  have cells: "in_cells (cn_inner c') (re_ring x) = ?r" using c'(1,3) other by (simp add: one_call_def conn_static_def set_cell_def)
  have "in_transport (cn_inner c') = in_transport (cn_inner c)" "client_id c' = client_id c"
    using c'(1,2) by (simp_all add: set_cell_def client_id_def)
  with a(1) b'(1) arena_at_kept [OF a(2) op obj] ptr cells show ?thesis by (auto simp: replayed_def)
qed

text \<open>One entry replayed: what the next one finds.\<close>

definition replay_step :: "'sc broker_env \<Rightarrow> broker \<Rightarrow> conn \<Rightarrow> reg \<Rightarrow> broker \<Rightarrow> conn \<Rightarrow> bool" where
  "replay_step benv b c r b' c' \<longleftrightarrow> (\<exists>fr. served benv fr c b b') \<and> at_rest b' c' \<and>
     in_transport (cn_inner c') = in_transport (cn_inner c) \<and> in_registry (cn_inner c') = in_registry (cn_inner c) \<and>
     reg_count (br_reg b') \<le> reg_count (br_reg b) + 1 \<and> replayed b' c' r \<and>
     (\<forall>x. replayed b c x \<longrightarrow> re_id x \<noteq> re_id r \<longrightarrow> re_ring x \<noteq> re_ring r \<longrightarrow> replayed b' c' x) \<and>
     (\<forall>x. name_taken x (br_reg b') \<longleftrightarrow> re_id x = re_id r \<or> name_taken x (br_reg b))"

lemma replay_stepI:
  assumes rest: "at_rest b c" "reg_count (br_reg b) < 2 ^ 63 - 1" and sv: "served benv fr c b b'"
    and c4: "quiet_after c (cn_shm c4)" "in_transport (cn_inner c4) = in_transport (cn_inner c)" "one_call c c4" "world_ok b' (cn_shm c4)"
    and b': "br_submission b' = br_submission b" "br_reply_rings b' = br_reply_rings b"
      "\<forall>cid x a. owns b cid x a \<longrightarrow> re_id x \<noteq> re_id r \<longrightarrow> owns b' cid x a"
      "\<forall>a \<in> arena_names (br_reg b). hm_get (br_arenas b') a = hm_get (br_arenas b) a"
      "\<forall>x. name_taken x (br_reg b') \<longleftrightarrow> re_id x = re_id r \<or> name_taken x (br_reg b)"
    and new: "owns b' (client_id c) r a" "arena_at a ring (cn_shm c4)" "seg_ptr (ring_seg ring) = shm_next (cn_shm c)"
  shows "replay_step benv b c r b' (set_cell (re_ring r) ring c4)"
proof -
  let ?c = "set_cell (re_ring r) ring c4"
  have R: "client_linked b c" "broker_inv b" using rest(1) by (simp_all add: at_rest_def)
  note inv = served_inv [OF sv R(2) rest(2)]
  have link: "client_linked b' ?c"
    using R c4(1,2) b'(1,2) by (auto simp: linked_defs quiet_after_def client_id_def set_cell_def)
  have rest': "at_rest b' ?c"
    using link inv(1) c4 rest(1) by (simp add: at_rest_def quiet_after_def set_cell_def)
  have "replayed b' ?c r"
    using new c4(2) R(1) unfolding replayed_def by (auto simp: client_id_def set_cell_def linked_defs)
  moreover have "replayed b' ?c x" if "replayed b c x" "re_id x \<noteq> re_id r" "re_ring x \<noteq> re_ring r" for x
    by (rule replayed_kept [OF that(1) rest(1) rest' _ b'(4) refl c4(2,3,1) that(3)]) (use b'(3) that(2) in blast)
  ultimately show ?thesis
    using sv rest' c4(2,3) inv(2) b'(5) by (auto simp: replay_step_def set_cell_def one_call_def conn_static_def)
qed

section \<open>The calls of a replay\<close>

text \<open>The two passes over the registry as one list of calls.\<close>

definition replay_call :: "'sc client_env \<Rightarrow> reg \<Rightarrow> ring act" where
  "replay_call env r =
     (case r of
        RegChannel nm schema key cap cell \<Rightarrow> act_bind (do_publish env nm schema key cap) (\<lambda>(r, _). act_return r)
      | RegFunction nm req resp key cap cell \<Rightarrow> act_bind (do_expose env nm req resp key cap) (\<lambda>(r, _). act_return r))"

fun replay_list :: "'sc client_env \<Rightarrow> reg list \<Rightarrow> unit act" where
  "replay_list env [] ts c = Some (Inr (), ts, c)"
| "replay_list env (r # rs) ts c =
     (case replay_call env r ts c of
        None \<Rightarrow> None
      | Some (Inr ring, ts1, c1) \<Rightarrow> replay_list env rs ts1 (set_cell (re_ring r) ring c1)
      | Some (Inl e, ts1, c1) \<Rightarrow> replay_list env rs ts1 c1)"

lemma replay_channels_list: "replay_channels env rs ts c = replay_list env (filter is_RegChannel rs) ts c"
  by (induction env rs ts c rule: replay_channels.induct)
    (auto simp: replay_call_def act_bind_def act_return_def split: option.split sum.split prod.split)

lemma replay_functions_list: "replay_functions env rs ts c = replay_list env (filter (\<lambda>r. \<not> is_RegChannel r) rs) ts c"
  by (induction env rs ts c rule: replay_functions.induct)
    (auto simp: replay_call_def act_bind_def act_return_def split: option.split sum.split prod.split)

lemma replay_list_append:
  "replay_list env (xs @ ys) ts c = act_bind (replay_list env xs) (\<lambda>_. replay_list env ys) ts c"
  by (induction xs arbitrary: ts c) (auto simp: act_bind_def split: option.split sum.split prod.split)

lemma replay_as_list:
  "replay env ts c = (let rs = map snd (hm_entries (in_registry (cn_inner c)))
     in replay_list env (filter is_RegChannel rs @ filter (\<lambda>r. \<not> is_RegChannel r) rs) ts c)"
  by (simp add: replay_def Let_def replay_list_append replay_channels_list [abs_def] replay_functions_list [abs_def])

lemma split_filter:
  "set (filter P xs @ filter (\<lambda>x. \<not> P x) xs) = set xs" "length (filter P xs @ filter (\<lambda>x. \<not> P x) xs) = length xs"
  "distinct (map f (filter P xs @ filter (\<lambda>x. \<not> P x) xs)) = distinct (map f xs)"
proof -
  have perm: "mset (filter P xs @ filter (\<lambda>x. \<not> P x) xs) = mset xs" by simp
  show "set (filter P xs @ filter (\<lambda>x. \<not> P x) xs) = set xs" using perm by (rule mset_eq_setD)
  show "length (filter P xs @ filter (\<lambda>x. \<not> P x) xs) = length xs" using perm by (metis size_mset)
  have "mset (map f (filter P xs @ filter (\<lambda>x. \<not> P x) xs)) = mset (map f xs)" unfolding mset_map perm ..
  then show "distinct (map f (filter P xs @ filter (\<lambda>x. \<not> P x) xs)) = distinct (map f xs)" by (rule mset_eq_imp_distinct_iff)
qed

text \<open>An entry whose schemas parse and whose request and reply fit the two rings, whatever the numbers in them.\<close>

fun replayable :: "'sc client_env \<Rightarrow> usize \<Rightarrow> usize \<Rightarrow> i64 \<Rightarrow> reg \<Rightarrow> bool" where
  "replayable env scap rcap cid (RegChannel nm schema key cap cell) \<longleftrightarrow>
     (\<exists>sc fp. avro_parse (ce_lib env) schema = Inr (sc, fp) \<and>
        (\<forall>dr. msg_fits (ce_lib env) (ce_cat env) publish_channel_to_value PublishChannel (publish_msg (drawn env dr) cid nm schema key cap) scap \<and>
           (\<forall>b. reg_ok (br_reg b) \<longrightarrow> msg_fits (ce_lib env) (ce_cat env) publish_reply_to_value PublishReply
              (granted_reply (publish_msg (drawn env dr) cid nm schema key cap) fp b) rcap)))"
| "replayable env scap rcap cid (RegFunction nm req resp key cap cell) \<longleftrightarrow>
     (\<exists>rsc rfp ssc sfp. avro_parse (ce_lib env) req = Inr (rsc, rfp) \<and> avro_parse (ce_lib env) resp = Inr (ssc, sfp) \<and>
        (\<forall>dr. msg_fits (ce_lib env) (ce_cat env) expose_function_to_value ExposeFunction (expose_msg (drawn env dr) cid nm req resp key cap) scap \<and>
           (\<forall>b. reg_ok (br_reg b) \<longrightarrow> msg_fits (ce_lib env) (ce_cat env) expose_reply_to_value ExposeReply
              (exposed_reply (expose_msg (drawn env dr) cid nm req resp key cap) rfp sfp b) rcap)))"

declare replayable.simps [simp del]

lemma replay_channel_step:
  assumes bus: "same_bus benv env" and rest: "at_rest b c" "reg_count (br_reg b) < 2 ^ 63 - 1"
    and r: "r = RegChannel nm schema key cap cell" "replayable env (ring_cap (sub_ring c)) (ring_cap (rep_ring c)) (client_id c) r"
      "\<not> name_taken r (br_reg b)"
  obtains ring c4 b' where "\<forall>ts. replay_call env r (bus_turn benv env b # ts) c = Some (Inr ring, ts, c4)"
    "replay_step benv b c r b' (set_cell (re_ring r) ring c4)"
proof -
  define m where "m = publish_msg (drawn env (cn_draws c)) (client_id c) nm schema key cap"
  have R: "client_linked b c" "broker_inv b" "world_ok b (cn_shm c)" "ring_empty (sub_ring c) (cn_shm c)" "ring_empty (rep_ring c) (cn_shm c)"
    using rest(1) by (simp_all add: at_rest_def)
  have ok: "reg_ok (br_reg b)" using R(2) by (simp add: broker_inv_def)
  obtain sc fp where schema: "avro_parse (ce_lib env) schema = Inr (sc, fp)"
    and fits: "msg_fits (ce_lib env) (ce_cat env) publish_channel_to_value PublishChannel m (ring_cap (sub_ring c))"
      "msg_fits (ce_lib env) (ce_cat env) publish_reply_to_value PublishReply (granted_reply m fp b) (ring_cap (rep_ring c))"
    using r(2) ok by (auto simp: r(1) replayable.simps m_def)
  let ?b = "granted benv m fp (shm_next (cn_shm c)) b" and ?a = "channel_arena (word_of_int (rg_next_channel (br_reg b)))"
  obtain corr c1 where corr: "next_corr env c = (corr, c1)" by fastforce
  have m': "m = \<lparr>pub_correlation_id = corr, pub_client_id = client_id c, pub_channel = nm, pub_schema_json = schema,
      pub_access_key = key_str key, pub_arena_cap = cap\<rparr>"
    using drawn_corr [of env c] corr by (simp add: m_def publish_msg_def)
  have free: "\<not> channel_name_taken nm (br_reg b)" using r(1,3) by simp
  obtain ring c4 where pub: "do_publish env nm schema key cap [bus_turn benv env b] c = Some (Inr (ring, fp), [], c4)"
    and sv: "served benv (to_frame (ce_lib env) (ce_cat env) publish_channel_to_value PublishChannel m) c b ?b"
    and a: "arena_at ?a ring (cn_shm c4)" "seg_ptr (ring_seg ring) = shm_next (cn_shm c)"
    and c4: "quiet_after c (cn_shm c4)" "in_transport (cn_inner c4) = in_transport (cn_inner c)" "world_ok ?b (cn_shm c4)" "one_call c c4"
    using do_publish_served [OF bus R(1-3) corr m' schema free msg_fits_sendable [OF fits(1) R(4)] msg_fits_sendable [OF fits(2) R(5)]]
    by (elim conjE exE) (rule that, assumption+)
  have id: "re_id r = (True, pub_channel m)" by (simp add: re_id_def r(1) m')
  have new: "owns ?b (client_id c) r ?a" by (simp add: r(1) insert_channel_def granted_channel_def m')
  have "\<forall>ts. replay_call env r (bus_turn benv env b # ts) c = Some (Inr ring, ts, c4)"
    using do_publish_more [OF pub] by (simp add: replay_call_def r(1) act_bind_def act_return_def)
  moreover have "replay_step benv b c r ?b (set_cell (re_ring r) ring c4)"
    by (rule replay_stepI [OF rest sv c4(1,2,4,3) _ _ _ _ _ new a])
      (simp_all add: id taken_granted owns_granted [OF ok] arenas_granted [OF ok] del: granted_simps(3))
  ultimately show thesis by (rule that)
qed

lemma replay_function_step:
  assumes bus: "same_bus benv env" and rest: "at_rest b c" "reg_count (br_reg b) < 2 ^ 63 - 1"
    and r: "r = RegFunction nm req resp key cap cell" "replayable env (ring_cap (sub_ring c)) (ring_cap (rep_ring c)) (client_id c) r"
      "\<not> name_taken r (br_reg b)"
  obtains ring c4 b' where "\<forall>ts. replay_call env r (bus_turn benv env b # ts) c = Some (Inr ring, ts, c4)"
    "replay_step benv b c r b' (set_cell (re_ring r) ring c4)"
proof -
  define m where "m = expose_msg (drawn env (cn_draws c)) (client_id c) nm req resp key cap"
  have R: "client_linked b c" "broker_inv b" "world_ok b (cn_shm c)" "ring_empty (sub_ring c) (cn_shm c)" "ring_empty (rep_ring c) (cn_shm c)"
    using rest(1) by (simp_all add: at_rest_def)
  have ok: "reg_ok (br_reg b)" using R(2) by (simp add: broker_inv_def)
  obtain rsc rfp ssc sfp where schema: "avro_parse (ce_lib env) req = Inr (rsc, rfp)" "avro_parse (ce_lib env) resp = Inr (ssc, sfp)"
    and fits: "msg_fits (ce_lib env) (ce_cat env) expose_function_to_value ExposeFunction m (ring_cap (sub_ring c))"
      "msg_fits (ce_lib env) (ce_cat env) expose_reply_to_value ExposeReply (exposed_reply m rfp sfp b) (ring_cap (rep_ring c))"
    using r(2) ok by (auto simp: r(1) replayable.simps m_def)
  let ?b = "exposed benv m rfp sfp (shm_next (cn_shm c)) b" and ?a = "function_arena (word_of_int (rg_next_fn (br_reg b)))"
  have m': "m = expose_msg (fst (next_corr env c)) (client_id c) nm req resp key cap" by (simp add: m_def drawn_corr)
  have free: "\<not> function_name_taken nm (br_reg b)" using r(1,3) by simp
  obtain ring c4 where ex: "do_expose env nm req resp key cap [bus_turn benv env b] c = Some (Inr (ring, rfp, sfp), [], c4)"
    and sv: "served benv (to_frame (ce_lib env) (ce_cat env) expose_function_to_value ExposeFunction m) c b ?b"
    and c4: "quiet_after c (cn_shm c4)" "in_transport (cn_inner c4) = in_transport (cn_inner c)" "one_call c c4"
    and a: "arena_at ?a ring (cn_shm c4)" "seg_ptr (ring_seg ring) = shm_next (cn_shm c)" and world: "world_ok ?b (cn_shm c4)"
    by (rule do_expose_served [OF bus R(1-3) m' schema free msg_fits_sendable [OF fits(1) R(4)] msg_fits_sendable [OF fits(2) R(5)]])
  have id: "re_id r = (False, exp_fn_name m)" by (simp add: re_id_def r(1) m' expose_msg_def)
  have new: "owns ?b (client_id c) r ?a" by (simp add: r(1) insert_function_def exposed_fn_def m' expose_msg_def)
  have "\<forall>ts. replay_call env r (bus_turn benv env b # ts) c = Some (Inr ring, ts, c4)"
    using do_expose_more [OF ex] by (simp add: replay_call_def r(1) act_bind_def act_return_def)
  moreover have "replay_step benv b c r ?b (set_cell (re_ring r) ring c4)"
    by (rule replay_stepI [OF rest sv c4 world _ _ _ _ _ new a])
      (simp_all add: id taken_exposed owns_exposed [OF ok] arenas_exposed [OF ok] del: exposed_simps(3))
  ultimately show thesis by (rule that)
qed

text \<open>The broker between the calls: one turn of its loop for each, on what the client has put on the ring.\<close>

fun broker_turns :: "'sc broker_env \<Rightarrow> broker \<Rightarrow> broker list \<Rightarrow> broker \<Rightarrow> bool" where
  "broker_turns benv b [] b' = (b' = b)"
| "broker_turns benv b (x # xs) b' = (x = b \<and> (\<exists>fr c b1. served benv fr c b b1 \<and> broker_turns benv b1 xs b'))"

lemma replay_list_served:
  assumes bus: "same_bus benv env"
  shows "at_rest b c \<Longrightarrow> reg_count (br_reg b) + int (length rs) < 2 ^ 63 \<Longrightarrow>
    distinct (map re_id rs) \<Longrightarrow> distinct (map re_ring rs) \<Longrightarrow>
    \<forall>r \<in> set rs. replayable env (ring_cap (sub_ring c)) (ring_cap (rep_ring c)) (client_id c) r \<and> \<not> name_taken r (br_reg b) \<Longrightarrow>
    \<exists>bs b' c'. length bs = length rs \<and> broker_turns benv b bs b' \<and>
      replay_list env rs (map (bus_turn benv env) bs @ ts) c = Some (Inr (), ts, c') \<and> at_rest b' c' \<and>
      in_transport (cn_inner c') = in_transport (cn_inner c) \<and> in_registry (cn_inner c') = in_registry (cn_inner c) \<and>
      (\<forall>r \<in> set rs. replayed b' c' r) \<and>
      (\<forall>r. replayed b c r \<longrightarrow> re_id r \<notin> re_id ` set rs \<longrightarrow> re_ring r \<notin> re_ring ` set rs \<longrightarrow> replayed b' c' r)"
proof (induction rs arbitrary: b c)
  case Nil
  then show ?case by (intro exI [of _ "[]"] exI [of _ b] exI [of _ c]) simp
next
  case (Cons r rs)
  have cnt: "reg_count (br_reg b) < 2 ^ 63 - 1" using Cons.prems(2) by simp
  have r: "replayable env (ring_cap (sub_ring c)) (ring_cap (rep_ring c)) (client_id c) r" "\<not> name_taken r (br_reg b)"
    using Cons.prems(5) by simp_all
  obtain ring c4 b1 where call: "\<forall>ts. replay_call env r (bus_turn benv env b # ts) c = Some (Inr ring, ts, c4)"
    and step: "replay_step benv b c r b1 (set_cell (re_ring r) ring c4)"
    by (cases r) (erule replay_channel_step [OF bus Cons.prems(1) cnt _ r] replay_function_step [OF bus Cons.prems(1) cnt _ r]; blast)+
  let ?c = "set_cell (re_ring r) ring c4"
  from step obtain fr where sv: "served benv fr c b b1" and rest: "at_rest b1 ?c"
    and c: "in_transport (cn_inner ?c) = in_transport (cn_inner c)" "in_registry (cn_inner ?c) = in_registry (cn_inner c)"
    and cnt1: "reg_count (br_reg b1) \<le> reg_count (br_reg b) + 1" and new: "replayed b1 ?c r"
    and kept: "\<forall>x. replayed b c x \<longrightarrow> re_id x \<noteq> re_id r \<longrightarrow> re_ring x \<noteq> re_ring r \<longrightarrow> replayed b1 ?c x"
    and taken: "\<forall>x. name_taken x (br_reg b1) \<longleftrightarrow> re_id x = re_id r \<or> name_taken x (br_reg b)"
    unfolding replay_step_def by (elim exE conjE) (rule that)
  have left: "\<forall>x \<in> set rs. replayable env (ring_cap (sub_ring ?c)) (ring_cap (rep_ring ?c)) (client_id ?c) x \<and> \<not> name_taken x (br_reg b1)"
    using Cons.prems(3,5) c(1) taken by (auto simp: client_id_def image_iff)
  have "reg_count (br_reg b1) + int (length rs) < 2 ^ 63" "distinct (map re_id rs)" "distinct (map re_ring rs)"
    using Cons.prems(2-4) cnt1 by simp_all
  from Cons.IH [OF rest this left] obtain bs b' c' where ih: "length bs = length rs" "broker_turns benv b1 bs b'"
    "replay_list env rs (map (bus_turn benv env) bs @ ts) ?c = Some (Inr (), ts, c')" "at_rest b' c'"
    "in_transport (cn_inner c') = in_transport (cn_inner ?c)" "in_registry (cn_inner c') = in_registry (cn_inner ?c)"
    "\<forall>x \<in> set rs. replayed b' c' x"
    "\<forall>x. replayed b1 ?c x \<longrightarrow> re_id x \<notin> re_id ` set rs \<longrightarrow> re_ring x \<notin> re_ring ` set rs \<longrightarrow> replayed b' c' x"
    by (elim exE conjE) (rule that)
  show ?case
  proof (intro exI [of _ "b # bs"] exI [of _ b'] exI [of _ c'] conjI allI impI)
    show "replay_list env (r # rs) (map (bus_turn benv env) (b # bs) @ ts) c = Some (Inr (), ts, c')"
      using call ih(3) by simp
    show "\<forall>x \<in> set (r # rs). replayed b' c' x"
      using ih(7,8) new Cons.prems(3,4) by auto
    show "replayed b' c' x" if "replayed b c x" "re_id x \<notin> re_id ` set (r # rs)" "re_ring x \<notin> re_ring ` set (r # rs)" for x
      using ih(8) kept that by auto
  qed (use ih sv c in auto)
qed

section \<open>A broker that was restarted\<close>

text \<open>The old transport goes, and its reply segment with it; the new one is as the bootstrap left it.\<close>

lemma install_ready:
  assumes ready: "client_ready b \<lparr>cn_inner = client_start app cap tp, cn_shm = w, cn_draws = d\<rparr> sg" "world_ok b w"
    and names: "seg_name (tp_reply_seg (in_transport (cn_inner c))) = client_segment k" "tp_reply_segment tp = client_segment n" "n \<noteq> k"
    and c0: "c0 = install_transport os tp (c\<lparr>cn_draws := d, cn_shm := w\<rparr>)"
  shows "client_ready b c0 sg" "world_ok b (cn_shm c0)" "shm_next (cn_shm c0) = shm_next w"
proof -
  let ?old = "tp_reply_seg (in_transport (cn_inner c))"
  have shm: "cn_shm c0 = segment_drop os ?old w" and tp: "in_transport (cn_inner c0) = tp"
    by (simp_all add: c0 install_transport_def)
  have mem: "shm_obj (cn_shm c0) = shm_obj w" "shm_next (cn_shm c0) = shm_next w"
    by (simp_all add: shm segment_drop_def unlink_dir)
  show "shm_next (cn_shm c0) = shm_next w" by (rule mem(2))
  have open': "sys_open nm (cn_shm c0) = sys_open nm w" if "shm_path nm \<noteq> shm_path (client_segment k)" for nm
    using that names(1) by (simp add: shm segment_drop_def unlink_dir(2))
  have bus: "client_segment x \<in> bus_names" for x by (simp add: bus_names_def)
  have "shm_ok (cn_shm c0)" unfolding shm by (rule shm_ok_drop) (use ready(2) in \<open>simp add: world_ok_def\<close>)
  then show "world_ok b (cn_shm c0)"
    by (rule world_ok_fresh [OF ready(2) _ bus [of k]]) (auto simp: arena_space_def intro: open')
  have "shm_path (client_segment n) \<noteq> shm_path (client_segment k)"
    by (subst bus_name_path_inject) (use names(3) in \<open>simp_all add: bus\<close>)
  then have "sys_open (tp_reply_segment tp) (cn_shm c0) = sys_open (tp_reply_segment tp) w" using open' names(2) by simp
  moreover have "arena_at (tp_reply_segment tp) ((tp_reply_ring tp)\<lparr>ring_seg := sg\<rparr>) w"
    using ready(1) by (simp add: client_ready_def client_start_def reply_segment_def)
  ultimately have "arena_at (tp_reply_segment tp) ((tp_reply_ring tp)\<lparr>ring_seg := sg\<rparr>) (cn_shm c0)"
    using arena_at_kept mem(1) by simp
  with ready(1) mem tp show "client_ready b c0 sg"
    by (simp add: client_ready_def client_start_def linked_defs reply_segment_def ring_empty_def ring_mem_def)
qed

lemma bootstrap_live:
  assumes "bootstrap env cap d w = (Inr tp, d', w')"
  shows "live_broker_epoch (ce_os env) w = Inr (tp_epoch tp)"
  by (rule bootstrap_Inr [OF assms]) (simp add: live_broker_epoch_def)

text \<open>A registration on a transport just installed leaves the client at rest with the broker.\<close>

lemma register_again:
  assumes bus: "same_bus benv env" and b: "broker_inv b" "reg_count (br_reg b) < 2 ^ 63 - 1"
    and c: "client_ready b c sg" "world_ok b (cn_shm c)"
    and m: "m = \<lparr>reg_correlation_id = sint (random_u64 (ce_random env (cn_draws c))), reg_app_name = in_app_name (cn_inner c),
      reg_nonce = sint (tp_nonce (in_transport (cn_inner c))), reg_reply_segment = reply_segment c,
      reg_heartbeat_ms = 1000, reg_pid = int (ce_pid env)\<rparr>"
    and fits: "msg_fits (ce_lib env) (ce_cat env) register_to_value Register m (ring_cap (sub_ring c))"
      "msg_fits (ce_lib env) (ce_cat env) register_reply_to_value RegisterReply (register_ok (rg_next_client (br_reg b)) m) (ring_cap (rep_ring c))"
  obtains b1 c4 where "\<forall>ts. do_register env (bus_turn benv env b # ts) c = Some (Inr (rg_next_client (br_reg b)), ts, c4)"
    "served benv (to_frame (ce_lib env) (ce_cat env) register_to_value Register m) c b b1" "at_rest b1 c4"
    "in_transport (cn_inner c4) = (in_transport (cn_inner c))\<lparr>tp_client_id := rg_next_client (br_reg b)\<rparr>" "one_call c c4"
    "rg_chan_by_name (br_reg b1) = rg_chan_by_name (br_reg b)" "rg_fn_by_name (br_reg b1) = rg_fn_by_name (br_reg b)"
    "reg_count (br_reg b1) \<le> reg_count (br_reg b) + 1"
proof -
  let ?b = "registered m sg ((rep_ring c)\<lparr>ring_seg := sg\<rparr>) b" and ?cid = "rg_next_client (br_reg b)"
  obtain corr c1 where corr: "next_corr env c = (corr, c1)" by fastforce
  have m': "m = \<lparr>reg_correlation_id = corr, reg_app_name = in_app_name (cn_inner c),
      reg_nonce = sint (tp_nonce (in_transport (cn_inner c))), reg_reply_segment = reply_segment c,
      reg_heartbeat_ms = 1000, reg_pid = int (ce_pid env)\<rparr>"
    using corr by (auto simp: m next_corr_def)
  have e: "ring_empty (sub_ring c) (cn_shm c)" "ring_empty (rep_ring c) (cn_shm c)" and sg: "seg_ptr sg = seg_ptr (ring_seg (rep_ring c))"
    using c(1) by (auto simp: client_ready_def arena_at_def ring_empty_def ring_mem_def)
  obtain c4 where reg: "do_register env [bus_turn benv env b] c = Some (Inr ?cid, [], c4)"
    and sv: "served benv (to_frame (ce_lib env) (ce_cat env) register_to_value Register m) c b ?b"
    and c4: "world_ok b (cn_shm c4)" "quiet_after c (cn_shm c4)"
      "in_transport (cn_inner c4) = (in_transport (cn_inner c))\<lparr>tp_client_id := ?cid\<rparr>" "one_call c c4"
    using do_register_served [OF bus c corr m' msg_fits_sendable [OF fits(1) e(1)] msg_fits_sendable [OF fits(2) e(2)]]
    by (elim exE conjE) (rule that)
  note inv = served_inv [OF sv b]
  have link: "client_linked ?b c4"
    using c(1) sg c4(2,3) by (auto simp: client_ready_def linked_defs registered_def client_id_def quiet_after_def)
  have rest: "at_rest ?b c4"
    using link inv(1) c4(1-3) by (simp add: at_rest_def quiet_after_def world_ok_def registered_def)
  have names: "rg_chan_by_name (br_reg ?b) = rg_chan_by_name (br_reg b)" "rg_fn_by_name (br_reg ?b) = rg_fn_by_name (br_reg b)" by (simp_all add: registered_def add_client_def Let_def)
  show thesis by (rule that [OF _ sv rest c4(3,4) names inv(2)]) (use do_register_more [OF reg] in blast)
qed


text \<open>The first half of a reconnect: a bootstrap with the broker that is there now, and the transport put in place.\<close>

lemma new_transport:
  assumes os: "os_calm (ce_os env)" and b: "world_ok b (cn_shm c)" "broker_open b (cn_shm c)"
    and n: "n = random_u64 (ce_random env (cn_draws c))" "sys_open (client_segment n) (cn_shm c) = None"
    and old: "seg_name (tp_reply_seg (in_transport (cn_inner c))) = client_segment k" "n \<noteq> k"
  obtains tp w' c0 sg where "bootstrap env (in_reply_cap (cn_inner c)) (cn_draws c) (cn_shm c) = (Inr tp, Suc (cn_draws c), w')"
    "c0 = install_transport (ce_os env) tp (c\<lparr>cn_draws := Suc (cn_draws c), cn_shm := w'\<rparr>)"
    "client_ready b c0 sg" "world_ok b (cn_shm c0)" "in_transport (cn_inner c0) = tp"
    "ring_cap (tp_submission tp) = ring_cap (br_submission b)"
    "ring_cap (tp_reply_ring tp) = clamp_arena_cap (if in_reply_cap (cn_inner c) = 0 then REPLY_CAP else in_reply_cap (cn_inner c))"
    "tp_nonce tp = n" "tp_reply_segment tp = client_segment n"
    "tp_epoch tp = broker_epoch (shm_obj (cn_shm c) (seg_ptr (ring_seg (br_submission b))))"
proof -
  let ?cap = "in_reply_cap (cn_inner c)" and ?ob = "seg_ptr (ring_seg (br_submission b))"
  obtain tp w' sg where boot: "bootstrap env ?cap (cn_draws c) (cn_shm c) = (Inr tp, Suc (cn_draws c), w')" "world_ok b w'"
    and ready: "client_ready b \<lparr>cn_inner = client_start [] ?cap tp, cn_shm = w', cn_draws = Suc (cn_draws c)\<rparr> sg"
    and tp: "ring_cap (tp_reply_ring tp) = clamp_arena_cap (if ?cap = 0 then REPLY_CAP else ?cap)" "tp_nonce tp = n"
      "tp_reply_segment tp = client_segment n"
    unfolding n(1) by (rule bootstrap_calm [OF os b n(2) [unfolded n(1)]]) blast
  define c0 where "c0 = install_transport (ce_os env) tp (c\<lparr>cn_draws := Suc (cn_draws c), cn_shm := w'\<rparr>)"
  note inst = install_ready [OF ready boot(2) old(1) tp(3) old(2) c0_def]
  have c0: "in_transport (cn_inner c0) = tp" by (simp add: c0_def install_transport_def)
  have sub: "ring_cap (tp_submission tp) = ring_cap (br_submission b)"
    using inst(1) c0 by (auto simp: client_ready_def sub_linked_def)
  have live: "tp_epoch tp = broker_epoch (shm_obj (cn_shm c) ?ob)"
    using bootstrap_live [OF boot(1)] b(2) segment_open_calm [OF os, of CONTROL_SEGMENT "cn_shm c" ?ob]
    by (simp add: live_broker_epoch_def broker_open_def Let_def bus_name_nul bus_names_def)
  show thesis by (rule that [OF boot(1) c0_def inst(1,2) c0 sub tp live])
qed

text \<open>
  C6: a connection survives a restart of the broker. Let the connection run with automatic reconnection on, on a
  kernel that refuses nothing; let the name it draws for its new reply segment be free, the names of its channels and
  functions be free at the new broker, its requests and their replies fit the rings. When its watcher finds the epoch of
  another broker in the control segment, and that broker is in its loop, one turn of the watcher puts everything
  back: the connection is linked to the new broker under a new identifier, with its epoch and with empty rings,
  its own registry is unchanged, every channel and every function it owns is registered again with this client as
  its owner, and the handle of each publisher and service points to the ring of its new arena.
\<close>

theorem reconnect_end_to_end:
  assumes bus: "same_bus benv env" and b: "broker_inv b" "world_ok b (cn_shm c)" "broker_open b (cn_shm c)"
    and run: "in_running (cn_inner c)" "auto_reconnect c"
    and epoch: "broker_epoch (shm_obj (cn_shm c) (seg_ptr (ring_seg (br_submission b)))) \<noteq> epoch_of c"
    and nonce: "n = random_u64 (ce_random env (cn_draws c))" "sys_open (client_segment n) (cn_shm c) = None"
    and old: "seg_name (tp_reply_seg (in_transport (cn_inner c))) = client_segment k" "n \<noteq> k"
    and m: "m = reg_request env (in_app_name (cn_inner c)) (cn_draws c)" and cid: "cid = rg_next_client (br_reg b)"
    and cap: "scap = ring_cap (br_submission b)"
      "rcap = clamp_arena_cap (if in_reply_cap (cn_inner c) = 0 then REPLY_CAP else in_reply_cap (cn_inner c))"
    and fits: "msg_fits (ce_lib env) (ce_cat env) register_to_value Register m scap"
      "msg_fits (ce_lib env) (ce_cat env) register_reply_to_value RegisterReply (register_ok cid m) rcap"
    and rs: "rs = map snd (hm_entries (in_registry (cn_inner c)))" "distinct (map re_id rs)" "distinct (map re_ring rs)"
      "\<forall>r \<in> set rs. replayable env scap rcap cid r \<and> \<not> name_taken r (br_reg b)"
    and count: "reg_count (br_reg b) + int (length rs) + 1 < 2 ^ 63"
  shows "\<exists>bs b' c'. length bs = Suc (length rs) \<and> broker_turns benv b bs b' \<and>
    watch_turn env (map (bus_turn benv env) bs @ ts) c = Some (ts, c') \<and>
    broker_inv b' \<and> world_ok b' (cn_shm c') \<and> client_linked b' c' \<and> client_id c' = cid \<and>
    epoch_of c' = broker_epoch (shm_obj (cn_shm c) (seg_ptr (ring_seg (br_submission b)))) \<and>
    ring_empty (sub_ring c') (cn_shm c') \<and> ring_empty (rep_ring c') (cn_shm c') \<and>
    in_registry (cn_inner c') = in_registry (cn_inner c) \<and> (\<forall>r \<in> set rs. replayed b' c' r)"
proof -
  have os: "os_calm (ce_os env)" using bus by (simp add: same_bus_def)
  let ?ob = "seg_ptr (ring_seg (br_submission b))"
  obtain tp w' c0 sg where boot: "bootstrap env (in_reply_cap (cn_inner c)) (cn_draws c) (cn_shm c) = (Inr tp, Suc (cn_draws c), w')"
    and c0: "c0 = install_transport (ce_os env) tp (c\<lparr>cn_draws := Suc (cn_draws c), cn_shm := w'\<rparr>)"
    and inst: "client_ready b c0 sg" "world_ok b (cn_shm c0)" "in_transport (cn_inner c0) = tp"
    and tp: "ring_cap (tp_submission tp) = scap" "ring_cap (tp_reply_ring tp) = rcap" "tp_nonce tp = n"
      "tp_reply_segment tp = client_segment n" "tp_epoch tp = broker_epoch (shm_obj (cn_shm c) ?ob)"
    unfolding cap by (rule new_transport [OF os b(2,3) nonce old])
  have m': "m = \<lparr>reg_correlation_id = sint (random_u64 (ce_random env (cn_draws c0))), reg_app_name = in_app_name (cn_inner c0),
      reg_nonce = sint (tp_nonce (in_transport (cn_inner c0))), reg_reply_segment = reply_segment c0,
      reg_heartbeat_ms = 1000, reg_pid = int (ce_pid env)\<rparr>"
    using inst(3) by (simp add: m reg_request_def c0 install_transport_def tp reply_segment_def nonce(1))
  have cnt: "reg_count (br_reg b) < 2 ^ 63 - 1" using count by simp
  have f: "msg_fits (ce_lib env) (ce_cat env) register_to_value Register m (ring_cap (sub_ring c0))"
    "msg_fits (ce_lib env) (ce_cat env) register_reply_to_value RegisterReply (register_ok (rg_next_client (br_reg b)) m) (ring_cap (rep_ring c0))"
    using fits inst(3) tp(1,2) cid by simp_all
  obtain b1 c4 where reg: "\<forall>ts. do_register env (bus_turn benv env b # ts) c0 = Some (Inr cid, ts, c4)"
    and sv: "served benv (to_frame (ce_lib env) (ce_cat env) register_to_value Register m) c0 b b1" and rest: "at_rest b1 c4"
    and c4: "in_transport (cn_inner c4) = (in_transport (cn_inner c0))\<lparr>tp_client_id := cid\<rparr>" "one_call c0 c4"
    and b1: "rg_chan_by_name (br_reg b1) = rg_chan_by_name (br_reg b)" "rg_fn_by_name (br_reg b1) = rg_fn_by_name (br_reg b)"
      "reg_count (br_reg b1) \<le> reg_count (br_reg b) + 1"
    unfolding cid by (rule register_again [OF bus b(1) cnt inst(1,2) m' f])
  have own: "in_registry (cn_inner c4) = in_registry (cn_inner c)" using c4(2) by (simp add: c0 install_transport_def one_call_def conn_static_def)
  let ?rs = "filter is_RegChannel rs @ filter (\<lambda>r. \<not> is_RegChannel r) rs"
  note set = split_filter [where P = is_RegChannel and xs = rs]
  have dist: "distinct (map re_id ?rs)" "distinct (map re_ring ?rs)" using rs(2,3) unfolding set by blast+
  have "name_taken r (br_reg b1) = name_taken r (br_reg b)" for r
    using b1(1,2) by (cases r) (simp_all add: channel_name_taken_def function_name_taken_def)
  then have left: "\<forall>r \<in> set ?rs. replayable env (ring_cap (sub_ring c4)) (ring_cap (rep_ring c4)) (client_id c4) r \<and>
      \<not> name_taken r (br_reg b1)"
    unfolding set(1) using rs(4) c4(1) inst(3) tp(1,2) by (simp add: client_id_def)
  have "reg_count (br_reg b1) + int (length ?rs) < 2 ^ 63" unfolding set(2) using b1(3) count by simp
  from replay_list_served [OF bus rest this dist left, of ts] obtain bs b' c' where
    bs: "length bs = length rs" "broker_turns benv b1 bs b'"
    and rep: "replay_list env ?rs (map (bus_turn benv env) bs @ ts) c4 = Some (Inr (), ts, c')" "at_rest b' c'"
    and c': "in_transport (cn_inner c') = in_transport (cn_inner c4)" "in_registry (cn_inner c') = in_registry (cn_inner c4)"
      "\<forall>r \<in> set rs. replayed b' c' r"
    unfolding set by (elim exE conjE) (rule that)
  have "reconnect env (epoch_of c) (bus_turn benv env b # map (bus_turn benv env) bs @ ts) c = Some (Inr (), ts, c')"
    using boot reg rep(1) rs(1) own
    by (simp add: reconnect_def act_bind_def c0 [symmetric] replay_as_list Let_def)
  then have "watch_turn env (map (bus_turn benv env) (b # bs) @ ts) c = Some (ts, c')"
    using run epoch bootstrap_live [OF boot] tp(5) by (simp add: watch_turn_def Let_def)
  moreover have "broker_turns benv b (b # bs) b'" using sv bs(2) by auto
  moreover have "epoch_of c' = tp_epoch tp" "client_id c' = cid" using c'(1) c4(1) inst(3) by (simp_all add: epoch_of_def client_id_def)
  ultimately show ?thesis
    using bs(1) rep(2) c' own tp(5) by (intro exI [of _ "b # bs"] exI [of _ b'] exI [of _ c']) (simp add: at_rest_def)
qed


section \<open>A connection with a channel and a function\<close>

lemma length_arena: "length (channel_arena n) \<le> 64" "length (function_arena n) \<le> 64"
proof -
  have "length (show_base 10 (unat n)) \<le> 20" using unat_bound [of n] by (intro show_base_length; simp)
  then show "length (channel_arena n) \<le> 64" "length (function_arena n) \<le> 64"
    by (simp_all add: channel_arena_def function_arena_def show_nat_def)
qed

lemma demo_replayable:
  assumes "2 ^ 16 \<le> scap" "2 ^ 16 \<le> rcap"
  shows "replayable demo_cenv scap rcap 1 (RegChannel ''beats'' (schema_for Heartbeat) None 0 cell)"
    and "replayable demo_cenv scap rcap 1 (RegFunction ''beat'' (schema_for Heartbeat) (schema_for Unregister) None 0 cell)"
proof -
  let ?rfp = "sv_req_fp demo_service" and ?sfp = "sv_resp_fp demo_service"
  let ?m = "\<lambda>dr. publish_msg (drawn demo_cenv dr) 1 ''beats'' (schema_for Heartbeat) None 0"
  let ?e = "\<lambda>dr. expose_msg (drawn demo_cenv dr) 1 ''beat'' (schema_for Heartbeat) (schema_for Unregister) None 0"
  have env: "ce_lib demo_cenv = proto_lib" "ce_cat demo_cenv = proto_cat" by (simp_all add: demo_cenv_def)
  have len: "length (schema_for Heartbeat) \<le> 1000" "length (schema_for Unregister) \<le> 1000" by (simp_all add: schema_json_def)
  have fp: "- (2 ^ 63) \<le> fp_to_i64 f" "fp_to_i64 f < 2 ^ 63" "- (2 ^ 63) \<le> drawn demo_cenv dr" "drawn demo_cenv dr < 2 ^ 63" for f dr
    using sint_range by (simp_all add: fp_to_i64_def drawn_def)
  have next_id: "0 < rg_next_channel g" "rg_next_channel g < 2 ^ 63" "0 < rg_next_fn g" "rg_next_fn g < 2 ^ 63" if "reg_ok g" for g
    using that by (auto simp: reg_ok_def counters_ok_def)
  note defs = kind_type_def publish_msg_def publish_channel_to_value_def expose_msg_def expose_function_to_value_def key_str_def
    granted_reply_def publish_reply_to_value_def exposed_reply_def expose_reply_to_value_def STATUS_OK_def
  have t1: "msg_fits proto_lib proto_cat publish_channel_to_value PublishChannel (?m dr) scap" for dr
    by (rule demo_fits) (use len assms fp in \<open>auto simp: defs\<close>)
  have t2: "msg_fits proto_lib proto_cat publish_reply_to_value PublishReply (granted_reply (?m dr) ?rfp b) rcap"
    if "reg_ok (br_reg b)" for dr b
    by (rule demo_fits) (use next_id [OF that] length_arena(1) [of "word_of_int (rg_next_channel (br_reg b))"] assms fp in \<open>auto simp: defs\<close>)
  have t3: "msg_fits proto_lib proto_cat expose_function_to_value ExposeFunction (?e dr) scap" for dr
    by (rule demo_fits) (use len assms fp in \<open>auto simp: defs\<close>)
  have t4: "msg_fits proto_lib proto_cat expose_reply_to_value ExposeReply (exposed_reply (?e dr) ?rfp ?sfp b) rcap"
    if "reg_ok (br_reg b)" for dr b
    by (rule demo_fits) (use next_id [OF that] length_arena(2) [of "word_of_int (rg_next_fn (br_reg b))"] assms fp in \<open>auto simp: defs\<close>)
  show "replayable demo_cenv scap rcap 1 (RegChannel ''beats'' (schema_for Heartbeat) None 0 cell)"
    unfolding replayable.simps env using t1 t2 demo_parse(1) by blast
  show "replayable demo_cenv scap rcap 1 (RegFunction ''beat'' (schema_for Heartbeat) (schema_for Unregister) None 0 cell)"
    unfolding replayable.simps env using t3 t4 demo_parse by blast
qed

theorem reconnect_end_to_end_witness:
  "\<exists>c bs b' c'. epoch_of c = 1 \<and>
     map snd (hm_entries (in_registry (cn_inner c))) =
       [RegFunction ''beat'' (schema_for Heartbeat) (schema_for Unregister) None 0 1, RegChannel ''beats'' (schema_for Heartbeat) None 0 0] \<and>
     watch_turn demo_cenv (map (bus_turn demo_env demo_cenv) bs) c = Some ([], c') \<and> length bs = 3 \<and>
     client_linked b' c' \<and> epoch_of c' = 99 \<and> client_id c' = 1 \<and>
     replayed b' c' (RegChannel ''beats'' (schema_for Heartbeat) None 0 0)"
proof -
  let ?k = "random_u64 (ce_random demo_cenv 0)" and ?n = "random_u64 (ce_random demo_cenv 1)"
  let ?rs = "[RegFunction ''beat'' (schema_for Heartbeat) (schema_for Unregister) None 0 1, RegChannel ''beats'' (schema_for Heartbeat) None 0 0]"
  let ?tp = "demo_tp\<lparr>tp_epoch := 1, tp_reply_seg := \<lparr>seg_name = client_segment ?k, seg_ptr = 7, seg_len = 64, owns_unlink = True\<rparr>\<rparr>"
  define c where "c = \<lparr>cn_inner = (client_start ''demo'' 0 ?tp)\<lparr>in_registry := [(2, ?rs ! 0), (1, ?rs ! 1)]\<rparr>,
      cn_shm = demo_world, cn_draws = 1\<rparr>"
  have c: "cn_shm c = demo_world" "in_running (cn_inner c)" "auto_reconnect c" "epoch_of c = 1" "cn_draws c = 1"
    "seg_name (tp_reply_seg (in_transport (cn_inner c))) = client_segment ?k" "in_app_name (cn_inner c) = ''demo''"
    "in_reply_cap (cn_inner c) = 0" "map snd (hm_entries (in_registry (cn_inner c))) = ?rs"
    by (simp_all add: c_def client_start_def auto_reconnect_def epoch_of_def hm_entries_def)
  have cid: "1 = rg_next_client (br_reg demo_broker)" by (simp add: demo_new_reg registry_new_def)
  have env: "ce_lib demo_cenv = proto_lib" "ce_cat demo_cenv = proto_cat" by (simp_all add: demo_cenv_def)
  have ne: "?n \<noteq> ?k" by (simp add: demo_cenv_def random_u64_def)
  have cap: "2 ^ 16 \<le> SUBMISSION_CAP" "2 ^ 16 \<le> clamp_arena_cap REPLY_CAP"
    using clamp_range(1) [of REPLY_CAP] by (simp_all add: SUBMISSION_CAP_def)
  have f: "msg_fits proto_lib proto_cat register_to_value Register (reg_request demo_cenv ''demo'' 1) SUBMISSION_CAP"
    "msg_fits proto_lib proto_cat register_reply_to_value RegisterReply (register_ok 1 (reg_request demo_cenv ''demo'' 1)) (clamp_arena_cap REPLY_CAP)"
    by (rule demo_fits, rule demo_register_small(1), rule demo_register_small(2), rule cap(1))
      (rule demo_fits, rule demo_register_small(3), rule demo_register_small(4), rule cap(2))
  have r: "\<forall>r \<in> set ?rs. replayable demo_cenv SUBMISSION_CAP (clamp_arena_cap REPLY_CAP) 1 r \<and> \<not> name_taken r (br_reg demo_broker)"
    using demo_replayable [OF cap] by (simp add: demo_new_reg registry_new_def channel_name_taken_def function_name_taken_def hm_contains_def)
  have dist: "distinct (map re_id ?rs)" "distinct (map re_ring ?rs)" by (simp_all add: re_id_def)
  have count: "reg_count (br_reg demo_broker) + int (length ?rs) + 1 < 2 ^ 63" by (simp add: demo_inv(3))
  have ep: "broker_epoch (shm_obj demo_world (seg_ptr (ring_seg (br_submission demo_broker)))) \<noteq> 1"
    using demo_control_seg(4,6) by simp
  obtain bs b' c' where "length bs = Suc (length ?rs)" "watch_turn demo_cenv (map (bus_turn demo_env demo_cenv) bs @ []) c = Some ([], c')"
    "client_linked b' c'" "client_id c' = 1" "epoch_of c' = broker_epoch (shm_obj demo_world (seg_ptr (ring_seg (br_submission demo_broker))))"
    "\<forall>r \<in> set ?rs. replayed b' c' r"
    using reconnect_end_to_end [where c = c and env = demo_cenv and ts = "[]", unfolded c env,
        OF demo_same_bus demo_inv(1,2) demo_open c(2,3) ep refl demo_control_seg(7) refl ne refl cid demo_control_seg(8) [symmetric] _ _ _ refl,
        unfolded simp_thms if_True, OF refl f dist r count] by (elim exE conjE) (rule that)
  then show ?thesis using c(4,9) demo_control_seg(4,6)
    by (intro exI [of _ c] exI [of _ bs] exI [of _ b'] exI [of _ c']) simp
qed

end
