(* ===== verification/Ring_Threads.thy ===== *)
theory Ring_Threads
  imports Ring_Buffer
begin

text \<open>
  The ring under concurrency (\<^verbatim>\<open>crates/core/src/ring.rs\<close> and \<^verbatim>\<open>futex.rs\<close>): any number of producers and
  the one consumer, each at a point of its program, take turns on the bytes of one segment. A step
  is one access to shared memory (a load, a store, a read-modify-write, the copy of a length or of a
  payload) or one call of the kernel; any thread may take the next step, so the runs are all the sequentially
  consistent interleavings of these accesses. Clocks are not modelled: a wait with a time-out may end at any
  time. The bytes that a producer writes are shown to be apart from those the consumer reads, the lock to
  exclude, and the consumer never to be left asleep on a record. A producer that waits for space has no such
  luck: its wake-up can be lost.
\<close>

section \<open>Futex words\<close>

text \<open>
  \<^verbatim>\<open>futex::wait\<close>: the kernel compares and parks in one go; a parked thread comes back when it is woken,
  when its time is over, or for no reason. \<^verbatim>\<open>futex::wake\<close>: of the threads parked on a word, \<open>n\<close> come back
  (all of them if they are fewer), which ones is the kernel's choice.
\<close>

definition futex_wait :: "u32 \<Rightarrow> u32 \<Rightarrow> bool" where
  "futex_wait word expected \<longleftrightarrow> word = expected"

definition parked :: "('t \<Rightarrow> bool) \<Rightarrow> 't list \<Rightarrow> nat set" where
  "parked asleep ts = {j. j < length ts \<and> asleep (ts ! j)}"

definition rouse_all :: "nat set \<Rightarrow> ('t \<Rightarrow> 't) \<Rightarrow> 't list \<Rightarrow> 't list" where
  "rouse_all A rouse ts = map (\<lambda>j. if j \<in> A then rouse (ts ! j) else ts ! j) [0..<length ts]"

definition futex_wake :: "nat \<Rightarrow> ('t \<Rightarrow> bool) \<Rightarrow> ('t \<Rightarrow> 't) \<Rightarrow> 't list \<Rightarrow> 't list \<Rightarrow> bool" where
  "futex_wake n asleep rouse ts ts' \<longleftrightarrow>
     (\<exists>A \<subseteq> parked asleep ts. card A = min n (card (parked asleep ts)) \<and> ts' = rouse_all A rouse ts)"

section \<open>Threads\<close>

text \<open>What a producer goes on with once the lock is free again: \<^verbatim>\<open>push_locked\<close> gave true; it gave
  false and the push blocks, with the space sequence it has seen; it gave false and the push does not block.\<close>

datatype after_unlock = AfterPush | AfterFull bytes u32 | AfterRefusal

text \<open>
  Where a producer is in \<^verbatim>\<open>try_push\<close> or \<^verbatim>\<open>push_blocking\<close>, with the data and whether it blocks: outside; at the
  compare-exchange of the lock; at the swap; about to wait for the lock; asleep there; holding the lock, about
  to load \<^verbatim>\<open>head\<close>, about to load \<^verbatim>\<open>tail\<close>, about to copy the length, the payload, to store \<^verbatim>\<open>head\<close>; without
  room, about to load the space sequence; about to unlock; about to wake a waiter of the lock; about to
  count the push; about to wake the consumer; about to wait for space; asleep there.
\<close>

datatype producer =
    PIdle | PLock bytes bool | PSlow bytes bool | PPark bytes bool | PAsleep bytes bool
  | PHead bytes bool | PTail bytes bool u64 | PLen bytes bool u64 | PBody bytes bool u64 | PStore bytes bool u64
  | PFull bytes | PUnlock after_unlock | PUnlockWake after_unlock | PSeq | PWakeData
  | PSpace bytes u32 | PSpaceAsleep bytes u32

text \<open>What called \<^verbatim>\<open>try_pop\<close>: a caller of it; the spin, with so many rounds left; the last look before a wait.\<close>

datatype pop_ctx = PopOnce | PopSpin nat | PopLast u32

text \<open>
  Where the consumer is in \<^verbatim>\<open>try_pop\<close> or \<^verbatim>\<open>pop_blocking\<close>: outside; about to load \<^verbatim>\<open>tail\<close>, \<^verbatim>\<open>head\<close>, to read the
  length, the payload, to store \<^verbatim>\<open>tail\<close>, to count the pop, to wake the producers; about to load the data
  sequence; about to wait; asleep.
\<close>

datatype consumer =
    CIdle | CTail pop_ctx | CHead pop_ctx u64 | CLen u64 | CBody u64 nat | CStore u64 nat bytes
  | CSpace bytes | CWake bytes | CSeen | CWait u32 | CAsleep u32

text \<open>
  The last four fields are history: who holds the lock, the records stored and taken in order, and the
  pushes counted since the consumer last looked at the data sequence.
\<close>

record ring_state =
  rs_mem :: bytes
  rs_prods :: "producer list"
  rs_cons :: consumer
  rs_owner :: "nat option"
  rs_pushed :: "bytes list"
  rs_popped :: "bytes list"
  rs_counted :: nat

definition prod_at :: "ring_state \<Rightarrow> nat \<Rightarrow> producer \<Rightarrow> bool" where
  "prod_at s i p \<longleftrightarrow> i < length (rs_prods s) \<and> rs_prods s ! i = p"

definition set_prod :: "nat \<Rightarrow> producer \<Rightarrow> ring_state \<Rightarrow> ring_state" where
  "set_prod i p s = s\<lparr>rs_prods := (rs_prods s)[i := p]\<rparr>"

fun resume :: "after_unlock \<Rightarrow> producer" where
  "resume AfterPush = PSeq"
| "resume (AfterFull d seen) = PSpace d seen"
| "resume AfterRefusal = PIdle"

fun lock_asleep :: "producer \<Rightarrow> bool" where
  "lock_asleep (PAsleep d b) = True" | "lock_asleep _ = False"

fun rouse_lock :: "producer \<Rightarrow> producer" where
  "rouse_lock (PAsleep d b) = PSlow d b" | "rouse_lock p = p"

fun space_asleep :: "producer \<Rightarrow> bool" where
  "space_asleep (PSpaceAsleep d seen) = True" | "space_asleep _ = False"

fun rouse_space :: "producer \<Rightarrow> producer" where
  "rouse_space (PSpaceAsleep d seen) = PLock d True" | "rouse_space p = p"

definition no_room :: "bool \<Rightarrow> bytes \<Rightarrow> producer" where
  "no_room b d = (if b then PFull d else PUnlock AfterRefusal)"

section \<open>Steps of a producer\<close>

inductive prod_step :: "ring \<Rightarrow> nat \<Rightarrow> ring_state \<Rightarrow> ring_state \<Rightarrow> bool" for r :: ring and i :: nat where
  push_call: "prod_at s i PIdle \<Longrightarrow> prod_step r i s (set_prod i (PLock d b) s)"
| lock_fast: "prod_at s i (PLock d b) \<Longrightarrow> prod_lock r (rs_mem s) = 0 \<Longrightarrow>
    prod_step r i s (set_prod i (PHead d b) (s\<lparr>rs_mem := set_prod_lock r 1 (rs_mem s), rs_owner := Some i\<rparr>))"
| lock_busy: "prod_at s i (PLock d b) \<Longrightarrow> prod_lock r (rs_mem s) \<noteq> 0 \<Longrightarrow> prod_step r i s (set_prod i (PSlow d b) s)"
| lock_take: "prod_at s i (PSlow d b) \<Longrightarrow> prod_lock r (rs_mem s) = 0 \<Longrightarrow>
    prod_step r i s (set_prod i (PHead d b) (s\<lparr>rs_mem := set_prod_lock r 2 (rs_mem s), rs_owner := Some i\<rparr>))"
| lock_mark: "prod_at s i (PSlow d b) \<Longrightarrow> prod_lock r (rs_mem s) \<noteq> 0 \<Longrightarrow>
    prod_step r i s (set_prod i (PPark d b) (s\<lparr>rs_mem := set_prod_lock r 2 (rs_mem s)\<rparr>))"
| lock_sleep: "prod_at s i (PPark d b) \<Longrightarrow> futex_wait (prod_lock r (rs_mem s)) 2 \<Longrightarrow>
    prod_step r i s (set_prod i (PAsleep d b) s)"
| lock_missed: "prod_at s i (PPark d b) \<Longrightarrow> \<not> futex_wait (prod_lock r (rs_mem s)) 2 \<Longrightarrow>
    prod_step r i s (set_prod i (PSlow d b) s)"
| lock_timeout: "prod_at s i (PAsleep d b) \<Longrightarrow> prod_step r i s (set_prod i (PSlow d b) s)"
| never_fits: "prod_at s i (PHead d b) \<Longrightarrow> 4 + length d > ring_cap r \<Longrightarrow> prod_step r i s (set_prod i (no_room b d) s)"
| load_head: "prod_at s i (PHead d b) \<Longrightarrow> 4 + length d \<le> ring_cap r \<Longrightarrow>
    prod_step r i s (set_prod i (PTail d b (head r (rs_mem s))) s)"
| load_tail_full: "prod_at s i (PTail d b h) \<Longrightarrow>
    usize_sub (ring_cap r) (unat (h - tail r (rs_mem s))) < 4 + length d \<Longrightarrow> prod_step r i s (set_prod i (no_room b d) s)"
| load_tail_room: "prod_at s i (PTail d b h) \<Longrightarrow>
    \<not> usize_sub (ring_cap r) (unat (h - tail r (rs_mem s))) < 4 + length d \<Longrightarrow> prod_step r i s (set_prod i (PLen d b h) s)"
| write_len: "prod_at s i (PLen d b h) \<Longrightarrow>
    prod_step r i s (set_prod i (PBody d b h)
      (s\<lparr>rs_mem := write_wrapped r h (u32_to_le_bytes (word_of_nat (length d))) (rs_mem s)\<rparr>))"
| write_body: "prod_at s i (PBody d b h) \<Longrightarrow>
    prod_step r i s (set_prod i (PStore d b h) (s\<lparr>rs_mem := write_wrapped r (h + 4) d (rs_mem s)\<rparr>))"
| store_head: "prod_at s i (PStore d b h) \<Longrightarrow>
    prod_step r i s (set_prod i (PUnlock AfterPush)
      (s\<lparr>rs_mem := set_head r (h + word_of_nat (4 + length d)) (rs_mem s), rs_pushed := rs_pushed s @ [d]\<rparr>))"
| load_space: "prod_at s i (PFull d) \<Longrightarrow>
    prod_step r i s (set_prod i (PUnlock (AfterFull d (space_seq r (rs_mem s)))) s)"
| unlock_quiet: "prod_at s i (PUnlock a) \<Longrightarrow> prod_lock r (rs_mem s) \<noteq> 2 \<Longrightarrow>
    prod_step r i s (set_prod i (resume a) (s\<lparr>rs_mem := set_prod_lock r 0 (rs_mem s), rs_owner := None\<rparr>))"
| unlock_waiters: "prod_at s i (PUnlock a) \<Longrightarrow> prod_lock r (rs_mem s) = 2 \<Longrightarrow>
    prod_step r i s (set_prod i (PUnlockWake a) (s\<lparr>rs_mem := set_prod_lock r 0 (rs_mem s), rs_owner := None\<rparr>))"
| wake_waiter: "prod_at s i (PUnlockWake a) \<Longrightarrow> futex_wake 1 lock_asleep rouse_lock (rs_prods s) ps \<Longrightarrow>
    prod_step r i s (set_prod i (resume a) (s\<lparr>rs_prods := ps\<rparr>))"
| count_push: "prod_at s i PSeq \<Longrightarrow>
    prod_step r i s (set_prod i PWakeData
      (s\<lparr>rs_mem := set_data_seq r (data_seq r (rs_mem s) + 1) (rs_mem s), rs_counted := rs_counted s + 1\<rparr>))"
| wake_consumer: "prod_at s i PWakeData \<Longrightarrow>
    prod_step r i s (set_prod i PIdle
      (s\<lparr>rs_cons := (case rs_cons s of CAsleep v \<Rightarrow> CTail (PopSpin (SPIN_LIMIT - 1)) | c \<Rightarrow> c)\<rparr>))"
| push_timeout: "prod_at s i (PSpace d seen) \<Longrightarrow> prod_step r i s (set_prod i PIdle s)"
| space_sleep: "prod_at s i (PSpace d seen) \<Longrightarrow> futex_wait (space_seq r (rs_mem s)) seen \<Longrightarrow>
    prod_step r i s (set_prod i (PSpaceAsleep d seen) s)"
| space_missed: "prod_at s i (PSpace d seen) \<Longrightarrow> \<not> futex_wait (space_seq r (rs_mem s)) seen \<Longrightarrow>
    prod_step r i s (set_prod i (PLock d True) s)"
| space_timeout: "prod_at s i (PSpaceAsleep d seen) \<Longrightarrow> prod_step r i s (set_prod i (PLock d True) s)"

section \<open>Steps of the consumer\<close>

fun found_nothing :: "pop_ctx \<Rightarrow> consumer" where
  "found_nothing PopOnce = CIdle"
| "found_nothing (PopSpin (Suc k)) = CTail (PopSpin k)"
| "found_nothing (PopSpin 0) = CSeen"
| "found_nothing (PopLast seen) = CWait seen"

inductive cons_step :: "ring \<Rightarrow> ring_state \<Rightarrow> ring_state \<Rightarrow> bool" for r :: ring where
  pop_once: "rs_cons s = CIdle \<Longrightarrow> cons_step r s (s\<lparr>rs_cons := CTail PopOnce\<rparr>)"
| pop_spin: "rs_cons s = CIdle \<Longrightarrow> cons_step r s (s\<lparr>rs_cons := CTail (PopSpin (SPIN_LIMIT - 1))\<rparr>)"
| load_tail: "rs_cons s = CTail x \<Longrightarrow> cons_step r s (s\<lparr>rs_cons := CHead x (tail r (rs_mem s))\<rparr>)"
| found_empty: "rs_cons s = CHead x t \<Longrightarrow> head r (rs_mem s) = t \<Longrightarrow> cons_step r s (s\<lparr>rs_cons := found_nothing x\<rparr>)"
| found_some: "rs_cons s = CHead x t \<Longrightarrow> head r (rs_mem s) \<noteq> t \<Longrightarrow> cons_step r s (s\<lparr>rs_cons := CLen t\<rparr>)"
| read_len: "rs_cons s = CLen t \<Longrightarrow>
    cons_step r s (s\<lparr>rs_cons := CBody t (unat (u32_from_le_bytes (read_wrapped r t 4 (rs_mem s))))\<rparr>)"
| read_body: "rs_cons s = CBody t n \<Longrightarrow>
    cons_step r s (s\<lparr>rs_cons := CStore t n (read_wrapped r (t + 4) n (rs_mem s))\<rparr>)"
| store_tail: "rs_cons s = CStore t n p \<Longrightarrow>
    cons_step r s (s\<lparr>rs_mem := set_tail r (t + 4 + word_of_nat n) (rs_mem s), rs_cons := CSpace p,
      rs_popped := rs_popped s @ [p]\<rparr>)"
| count_pop: "rs_cons s = CSpace p \<Longrightarrow>
    cons_step r s (s\<lparr>rs_mem := set_space_seq r (space_seq r (rs_mem s) + 1) (rs_mem s), rs_cons := CWake p\<rparr>)"
| wake_producers: "rs_cons s = CWake p \<Longrightarrow> futex_wake (2 ^ 31 - 1) space_asleep rouse_space (rs_prods s) ps \<Longrightarrow>
    cons_step r s (s\<lparr>rs_prods := ps, rs_cons := CIdle\<rparr>)"
| load_seq: "rs_cons s = CSeen \<Longrightarrow>
    cons_step r s (s\<lparr>rs_counted := 0, rs_cons := CTail (PopLast (data_seq r (rs_mem s)))\<rparr>)"
| pop_timeout: "rs_cons s = CWait seen \<Longrightarrow> cons_step r s (s\<lparr>rs_cons := CIdle\<rparr>)"
| data_sleep: "rs_cons s = CWait seen \<Longrightarrow> futex_wait (data_seq r (rs_mem s)) seen \<Longrightarrow> cons_step r s (s\<lparr>rs_cons := CAsleep seen\<rparr>)"
| data_missed: "rs_cons s = CWait seen \<Longrightarrow> \<not> futex_wait (data_seq r (rs_mem s)) seen \<Longrightarrow>
    cons_step r s (s\<lparr>rs_cons := CTail (PopSpin (SPIN_LIMIT - 1))\<rparr>)"
| data_timeout: "rs_cons s = CAsleep seen \<Longrightarrow> cons_step r s (s\<lparr>rs_cons := CTail (PopSpin (SPIN_LIMIT - 1))\<rparr>)"

inductive ring_step :: "ring \<Rightarrow> ring_state \<Rightarrow> ring_state \<Rightarrow> bool" for r :: ring where
  by_producer: "prod_step r i s s' \<Longrightarrow> ring_step r s s'"
| by_consumer: "cons_step r s s' \<Longrightarrow> ring_step r s s'"

text \<open>
  A ring that was just formatted, and threads that have not begun. The number of producers with a push
  under way is far from what a 32-bit counter can count.
\<close>

definition ring_init :: "ring \<Rightarrow> ring_state \<Rightarrow> bool" where
  "ring_init r s \<longleftrightarrow> ring_holds r (rs_mem s) [] \<and> prod_lock r (rs_mem s) = 0 \<and>
     list_all (\<lambda>p. p = PIdle) (rs_prods s) \<and> length (rs_prods s) + ring_cap r div 4 < 2 ^ 32 \<and> rs_cons s = CIdle \<and>
     rs_owner s = None \<and> rs_pushed s = [] \<and> rs_popped s = []"

section \<open>Parking and waking\<close>

lemma rouse_all_nth:
  "length (rouse_all A f ts) = length ts"
  "j < length ts \<Longrightarrow> rouse_all A f ts ! j = (if j \<in> A then f (ts ! j) else ts ! j)"
  by (simp_all add: rouse_all_def)

lemma futex_wake_nth:
  assumes "futex_wake n asleep f ts ts'"
  shows "length ts' = length ts" "j < length ts \<Longrightarrow> ts' ! j = ts ! j \<or> asleep (ts ! j) \<and> ts' ! j = f (ts ! j)"
  using assms by (auto simp: futex_wake_def rouse_all_nth parked_def split: if_splits)

lemma futex_wake_map:
  assumes "futex_wake n asleep f ts ts'" "\<And>t. asleep t \<Longrightarrow> g (f t) = g t"
  shows "map g ts' = map g ts"
proof (rule nth_equalityI)
  fix j assume "j < length (map g ts')"
  then show "map g ts' ! j = map g ts ! j"
    using futex_wake_nth(1) [OF assms(1)] futex_wake_nth(2) [OF assms(1), of j] assms(2) [of "ts ! j"] by auto
qed (simp add: futex_wake_nth [OF assms(1)])

lemma futex_wake_some:
  assumes "futex_wake n asleep f ts ts'" "0 < n" "j < length ts" "asleep (ts ! j)"
  shows "\<exists>k < length ts. asleep (ts ! k) \<and> ts' ! k = f (ts ! k)"
proof -
  obtain A where A: "A \<subseteq> parked asleep ts" "card A = min n (card (parked asleep ts))" "ts' = rouse_all A f ts"
    using assms(1) by (auto simp: futex_wake_def)
  have "finite (parked asleep ts)" "j \<in> parked asleep ts" using assms(3,4) by (simp_all add: parked_def)
  then have "0 < card A" using A(2) assms(2) by (auto simp: card_gt_0_iff)
  then obtain k where "k \<in> A" by (auto simp: card_gt_0_iff)
  then show ?thesis using A(1,3) by (intro exI [of _ k]) (auto simp: rouse_all_nth parked_def)
qed

lemma futex_wake_none:
  assumes "futex_wake n asleep f ts ts'" "\<forall>t \<in> set ts. \<not> asleep t"
  shows "ts' = ts"
proof (rule nth_equalityI)
  show "ts' ! j = ts ! j" if "j < length ts'" for j
    using futex_wake_nth(2) [OF assms(1), of j] futex_wake_nth(1) [OF assms(1)] assms(2) that by auto
qed (rule futex_wake_nth(1) [OF assms(1)])

lemma futex_wake_ex: "\<exists>ts'. futex_wake n asleep f ts ts'"
proof -
  obtain A where "A \<subseteq> parked asleep ts" "card A = min n (card (parked asleep ts))"
    using obtain_subset_with_card_n [of "min n (card (parked asleep ts))" "parked asleep ts"] by auto
  then show ?thesis unfolding futex_wake_def by blast
qed

section \<open>The producers' lock\<close>

fun holding :: "producer \<Rightarrow> bool" where
  "holding (PHead d b) = True" | "holding (PTail d b h) = True" | "holding (PLen d b h) = True"
| "holding (PBody d b h) = True" | "holding (PStore d b h) = True" | "holding (PFull d) = True"
| "holding (PUnlock a) = True" | "holding _ = False"

text \<open>A producer that will wake a waiter, or will take the lock or mark it contended.\<close>

fun retrying :: "producer \<Rightarrow> bool" where
  "retrying (PSlow d b) = True" | "retrying (PUnlockWake a) = True" | "retrying _ = False"

definition owner_ok :: "ring \<Rightarrow> ring_state \<Rightarrow> bool" where
  "owner_ok r s \<longleftrightarrow> ring_geom r (rs_mem s) \<and>
     (\<forall>i. rs_owner s = Some i \<longleftrightarrow> i < length (rs_prods s) \<and> holding (rs_prods s ! i)) \<and>
     (rs_owner s = None \<longleftrightarrow> prod_lock r (rs_mem s) = 0)"

definition sleepers_ok :: "ring \<Rightarrow> ring_state \<Rightarrow> bool" where
  "sleepers_ok r s \<longleftrightarrow>
     (\<forall>j < length (rs_prods s). lock_asleep (rs_prods s ! j) \<longrightarrow>
        prod_lock r (rs_mem s) = 2 \<or> (\<exists>k < length (rs_prods s). retrying (rs_prods s ! k)))"

lemma set_prod_simps [simp]:
  "rs_prods (set_prod i p s) = (rs_prods s)[i := p]" "rs_mem (set_prod i p s) = rs_mem s"
  "rs_cons (set_prod i p s) = rs_cons s" "rs_owner (set_prod i p s) = rs_owner s"
  "rs_pushed (set_prod i p s) = rs_pushed s" "rs_popped (set_prod i p s) = rs_popped s"
  "rs_counted (set_prod i p s) = rs_counted s"
  by (simp_all add: set_prod_def)

lemma holding_simps [simp]:
  "\<not> holding (resume a)" "holding (no_room b d)" "\<not> lock_asleep (resume a)" "\<not> lock_asleep (no_room b d)"
  "\<not> retrying (resume a)" "\<not> retrying (no_room b d)"
  by (cases a, simp_all add: no_room_def)+

lemma owner_ok_same:
  assumes "owner_ok r s" "prod_at s i p" "rs_prods s' = (rs_prods s)[i := p']"
    and "holding p' = holding p" "rs_owner s' = rs_owner s" "ring_geom r (rs_mem s')"
    and "prod_lock r (rs_mem s') = 0 \<longleftrightarrow> prod_lock r (rs_mem s) = 0"
  shows "owner_ok r s'"
  using assms unfolding owner_ok_def prod_at_def by (auto simp: nth_list_update)

lemma owner_ok_take:
  assumes "owner_ok r s" "prod_at s i p" "prod_lock r (rs_mem s) = 0" "holding p'"
    and "rs_prods s' = (rs_prods s)[i := p']" "rs_owner s' = Some i" "ring_geom r (rs_mem s')" "prod_lock r (rs_mem s') \<noteq> 0"
  shows "owner_ok r s'"
proof -
  have "rs_owner s = None" using assms(1,3) by (simp add: owner_ok_def)
  then have "\<forall>j < length (rs_prods s). \<not> holding (rs_prods s ! j)" using assms(1) unfolding owner_ok_def by (metis option.distinct(1))
  with assms(2,4-8) show ?thesis unfolding owner_ok_def prod_at_def by (auto simp: nth_list_update)
qed

lemma owner_ok_drop:
  assumes "owner_ok r s" "prod_at s i p" "holding p" "\<not> holding p'"
    and "rs_prods s' = (rs_prods s)[i := p']" "rs_owner s' = None" "ring_geom r (rs_mem s')" "prod_lock r (rs_mem s') = 0"
  shows "owner_ok r s'"
proof -
  have "rs_owner s = Some i" using assms(1-3) by (simp add: owner_ok_def prod_at_def)
  then have "\<forall>j < length (rs_prods s). holding (rs_prods s ! j) \<longrightarrow> j = i" using assms(1) unfolding owner_ok_def by (metis option.inject)
  with assms(2,4-8) show ?thesis unfolding owner_ok_def prod_at_def by (auto simp: nth_list_update)
qed

lemma sleepers_ok_set:
  assumes "sleepers_ok r s" "prod_at s i p" "rs_prods s' = (rs_prods s)[i := p']"
    and "prod_lock r (rs_mem s') = 2 \<or> retrying p' \<or>
      (prod_lock r (rs_mem s') = prod_lock r (rs_mem s) \<or> prod_lock r (rs_mem s) \<noteq> 2) \<and> \<not> retrying p \<and> \<not> lock_asleep p'"
  shows "sleepers_ok r s'"
proof (unfold sleepers_ok_def, intro allI impI)
  fix j assume j: "j < length (rs_prods s')" "lock_asleep (rs_prods s' ! j)"
  have i: "i < length (rs_prods s)" "rs_prods s ! i = p" using assms(2) by (simp_all add: prod_at_def)
  show "prod_lock r (rs_mem s') = 2 \<or> (\<exists>k < length (rs_prods s'). retrying (rs_prods s' ! k))"
  proof (cases "prod_lock r (rs_mem s') = 2 \<or> retrying p'")
    case True
    then show ?thesis using i assms(3) by (auto intro!: exI [of _ i])
  next
    case False
    then have "j \<noteq> i" "lock_asleep (rs_prods s ! j)" using j i assms(3,4) by (auto simp: nth_list_update split: if_splits)
    then have "prod_lock r (rs_mem s) = 2 \<or> (\<exists>k < length (rs_prods s). retrying (rs_prods s ! k))"
      using assms(1,3) j by (simp add: sleepers_ok_def)
    then show ?thesis using False i assms(3,4) by (metis length_list_update nth_list_update_neq)
  qed
qed

text \<open>A wake-up of the lock moves its waiters to where they try again, and nobody into or out of the lock.\<close>

lemma owner_ok_wake:
  assumes "owner_ok r s" "futex_wake n asleep f (rs_prods s) ps" "\<And>t. asleep t \<Longrightarrow> holding (f t) = holding t"
  shows "owner_ok r (s\<lparr>rs_prods := ps\<rparr>)"
proof -
  have "holding (ps ! j) = holding (rs_prods s ! j)" if "j < length (rs_prods s)" for j
    using futex_wake_nth(2) [OF assms(2) that] assms(3) by auto
  with futex_wake_nth(1) [OF assms(2)] assms(1) show ?thesis unfolding owner_ok_def by auto
qed

lemma sleepers_ok_wake:
  assumes "sleepers_ok r s" "prod_at s i (PUnlockWake a)" "futex_wake 1 lock_asleep rouse_lock (rs_prods s) ps"
  shows "sleepers_ok r (set_prod i (resume a) (s\<lparr>rs_prods := ps\<rparr>))"
proof (unfold sleepers_ok_def, intro allI impI)
  let ?s = "set_prod i (resume a) (s\<lparr>rs_prods := ps\<rparr>)"
  fix j assume j: "j < length (rs_prods ?s)" "lock_asleep (rs_prods ?s ! j)"
  note wake = futex_wake_nth [OF assms(3)]
  have i: "i < length (rs_prods s)" "rs_prods s ! i = PUnlockWake a" using assms(2) by (simp_all add: prod_at_def)
  have "j \<noteq> i" "lock_asleep (ps ! j)" using j i wake(1) by (auto simp: nth_list_update split: if_splits)
  then have "j < length (rs_prods s)" "lock_asleep (rs_prods s ! j)" using wake(2) [of j] wake(1) j by (auto elim: lock_asleep.elims)
  then obtain k where k: "k < length (rs_prods s)" "lock_asleep (rs_prods s ! k)" "ps ! k = rouse_lock (rs_prods s ! k)"
    using futex_wake_some [OF assms(3)] by auto
  then have "k \<noteq> i" "retrying (ps ! k)" using i by (auto elim: lock_asleep.elims)
  then show "prod_lock r (rs_mem ?s) = 2 \<or> (\<exists>k < length (rs_prods ?s). retrying (rs_prods ?s ! k))"
    using k(1) wake(1) by (intro disjI2 exI [of _ k]) simp
qed

lemma rouse_lock_simps: "lock_asleep t \<Longrightarrow> holding (rouse_lock t) = holding t"
  by (auto elim: lock_asleep.elims)

lemma rouse_space_simps: "space_asleep t \<Longrightarrow> holding (rouse_space t) = holding t \<and> retrying (rouse_space t) = retrying t \<and>
    lock_asleep (rouse_space t) = lock_asleep t"
  by (auto elim: space_asleep.elims)

lemma prod_step_owner:
  assumes "prod_step r i s s'" "owner_ok r s" and geom: "ring_geom r (rs_mem s)"
  shows "owner_ok r s'"
  using assms(1)
proof cases
  case (lock_fast d b)
  with assms(2) show ?thesis by (intro owner_ok_take [OF assms(2) lock_fast(2)]) (simp_all add: owner_ok_def)
next
  case (lock_take d b)
  with assms(2) show ?thesis by (intro owner_ok_take [OF assms(2) lock_take(2)]) (simp_all add: owner_ok_def)
next
  case (unlock_quiet a)
  with assms(2) show ?thesis by (intro owner_ok_drop [OF assms(2) unlock_quiet(2)]) (simp_all add: owner_ok_def)
next
  case (unlock_waiters a)
  with assms(2) show ?thesis by (intro owner_ok_drop [OF assms(2) unlock_waiters(2)]) (simp_all add: owner_ok_def)
next
  case (wake_waiter a ps)
  have i: "prod_at (s\<lparr>rs_prods := ps\<rparr>) i (PUnlockWake a)"
    using wake_waiter(2) futex_wake_nth [OF wake_waiter(3)] by (fastforce simp: prod_at_def)
  show ?thesis
    by (rule owner_ok_same [OF owner_ok_wake [OF assms(2) wake_waiter(3)] i, where p' = "resume a"])
      (simp_all add: wake_waiter rouse_lock_simps geom)
qed (rule owner_ok_same [OF assms(2)], assumption, simp, simp, simp, simp add: geom, simp add: geom)+

lemma prod_step_sleepers:
  assumes "prod_step r i s s'" "sleepers_ok r s" "ring_geom r (rs_mem s)"
  shows "sleepers_ok r s'"
  using assms(1)
proof cases
  case (wake_waiter a ps)
  with sleepers_ok_wake [OF assms(2)] show ?thesis by simp
qed (rule sleepers_ok_set [OF assms(2)], assumption, simp, simp add: futex_wait_def assms(3))+

lemma cons_step_lock:
  assumes "cons_step r s s'" "owner_ok r s" "sleepers_ok r s"
  shows "owner_ok r s' \<and> sleepers_ok r s'"
  using assms(1)
proof cases
  case (wake_producers p ps)
  note wake = futex_wake_nth [OF wake_producers(3)]
  have "holding (ps ! j) = holding (rs_prods s ! j) \<and> retrying (ps ! j) = retrying (rs_prods s ! j) \<and>
      lock_asleep (ps ! j) = lock_asleep (rs_prods s ! j)" if "j < length (rs_prods s)" for j
    using wake(2) [OF that] rouse_space_simps by auto
  with wake(1) assms(2,3) show ?thesis by (auto simp: wake_producers(1) owner_ok_def sleepers_ok_def)
qed (use assms(2,3) in \<open>simp_all add: owner_ok_def sleepers_ok_def\<close>)

section \<open>The records in flight\<close>

text \<open>What a producer inside the lock knows about the memory, and what the consumer knows about the oldest record.\<close>

fun prod_ok :: "ring \<Rightarrow> bytes \<Rightarrow> bytes list \<Rightarrow> producer \<Rightarrow> bool" where
  "prod_ok r m q (PTail d b h) \<longleftrightarrow> h = head r m \<and> 4 + length d \<le> ring_cap r"
| "prod_ok r m q (PLen d b h) \<longleftrightarrow> h = head r m \<and> records_size q + 4 + length d \<le> ring_cap r"
| "prod_ok r m q (PBody d b h) \<longleftrightarrow> h = head r m \<and> records_size q + 4 + length d \<le> ring_cap r \<and>
     window r m (unat h) 4 = u32_to_le_bytes (word_of_nat (length d))"
| "prod_ok r m q (PStore d b h) \<longleftrightarrow> h = head r m \<and> records_size q + 4 + length d \<le> ring_cap r \<and>
     window r m (unat h) (4 + length d) = record_bytes d"
| "prod_ok r m q _ \<longleftrightarrow> True"

fun cons_ok :: "ring \<Rightarrow> bytes \<Rightarrow> bytes list \<Rightarrow> consumer \<Rightarrow> bool" where
  "cons_ok r m q (CHead x t) \<longleftrightarrow> t = tail r m"
| "cons_ok r m q (CLen t) \<longleftrightarrow> t = tail r m \<and> q \<noteq> []"
| "cons_ok r m q (CBody t n) \<longleftrightarrow> t = tail r m \<and> q \<noteq> [] \<and> n = length (hd q)"
| "cons_ok r m q (CStore t n p) \<longleftrightarrow> t = tail r m \<and> q \<noteq> [] \<and> n = length p \<and> p = hd q"
| "cons_ok r m q _ \<longleftrightarrow> True"

definition data_ok :: "ring \<Rightarrow> ring_state \<Rightarrow> bytes list \<Rightarrow> bool" where
  "data_ok r s q \<longleftrightarrow> rs_pushed s = rs_popped s @ q \<and> ring_holds r (rs_mem s) q \<and>
     (\<forall>j < length (rs_prods s). prod_ok r (rs_mem s) q (rs_prods s ! j)) \<and> cons_ok r (rs_mem s) q (rs_cons s)"

lemma prod_ok_outside: "\<not> holding p \<Longrightarrow> prod_ok r m q p"
  by (cases p) simp_all

lemma others_outside:
  assumes "owner_ok r s" "prod_at s i p" "holding p" "j < length (rs_prods s)" "j \<noteq> i"
  shows "\<not> holding (rs_prods s ! j)"
proof
  assume "holding (rs_prods s ! j)"
  then have "rs_owner s = Some j" "rs_owner s = Some i" using assms by (simp_all add: owner_ok_def prod_at_def)
  with assms(5) show False by simp
qed

lemma ring_holds_window:
  assumes "ring_holds r m q" "window r m' (unat (tail r m)) (records_size q) = window r m (unat (tail r m)) (records_size q)"
    and "head r m' = head r m" "tail r m' = tail r m" "length m' = length m"
  shows "ring_holds r m' q"
proof -
  have u: "ring_used r m = records_size q" by (rule ring_holds_used [OF assms(1)])
  have "ring_used r m' = records_size q" using u assms(3,4) by (simp add: ring_used_def)
  then show ?thesis
    using assms(1,2,4) u by (simp add: ring_holds_def ring_stored_def ring_geom_length [OF assms(5)])
qed

text \<open>Writing behind \<^verbatim>\<open>head\<close>, where there is room, changes none of the records before it.\<close>

lemma ring_holds_write:
  assumes h: "ring_holds r m q" and fits: "records_size q + k + length src \<le> ring_cap r"
  shows "ring_holds r (write_wrapped r (head r m + word_of_nat k) src m) q"
proof (rule ring_holds_window [OF h])
  let ?m = "write_wrapped r (head r m + word_of_nat k) src m" and ?t = "unat (tail r m)" and ?n = "records_size q"
  have g: "ring_geom r m" using h by (simp add: ring_holds_def)
  have k: "unat (word_of_nat k :: u64) = k" using fits g by (simp add: unat_u64_of_nat ring_geom_def)
  have "unat (head r m) mod ring_cap r = (?t + ?n) mod ring_cap r"
    by (rule cursor_distance [OF g ring_holds_used [OF h]])
  then have "unat (head r m + word_of_nat k) mod ring_cap r = (?t + (?n + k)) mod ring_cap r"
    using unat_add_mod_cap [OF g, of "head r m" "word_of_nat k"] mod_shift_cong [of "unat (head r m)" "ring_cap r" "?t + ?n" k] k
    by (simp add: add.assoc)
  then have "window r ?m ?t (?n + k) = window r m ?t (?n + k)"
    by (intro window_write_before) (use g fits in auto)
  then show "window r ?m ?t ?n = window r m ?t ?n" unfolding window_append by (simp add: append_eq_append_conv)
qed simp_all

lemma write_len_window:
  assumes "ring_geom r m" "4 \<le> ring_cap r"
  shows "window r (write_wrapped r h (u32_to_le_bytes v) m) (unat h) 4 = u32_to_le_bytes v"
  using window_write_same [of r m "u32_to_le_bytes v" h] assms by simp

lemma write_body_window:
  assumes g: "ring_geom r m" and fits: "4 + length d \<le> ring_cap r"
    and len: "window r m (unat h) 4 = u32_to_le_bytes (word_of_nat (length d))"
  shows "window r (write_wrapped r (h + 4) d m) (unat h) (4 + length d) = record_bytes d"
proof -
  let ?m = "write_wrapped r (h + 4) d m"
  have pos: "unat (h + 4) mod ring_cap r = (unat h + 4) mod ring_cap r" by (simp add: unat_add_mod_cap [OF g])
  have "window r ?m (unat h) 4 = window r m (unat h) 4" by (rule window_write_before [OF g _ pos]) (use fits in simp)
  moreover have "window r ?m (unat h + 4) (length d) = window r ?m (unat (h + 4)) (length d)"
    by (rule window_cong [OF pos [symmetric]])
  moreover have "window r ?m (unat (h + 4)) (length d) = d" by (rule window_write_same [OF g]) (use fits in simp)
  ultimately show ?thesis using len window_append [of r ?m "unat h" 4 "length d"] by (simp add: record_bytes_def)
qed

text \<open>The store of \<^verbatim>\<open>head\<close> is where a record enters the queue.\<close>

lemma ring_holds_store_head:
  assumes h: "ring_holds r m q" and fits: "records_size q + 4 + length d \<le> ring_cap r"
    and rec: "window r m (unat (head r m)) (4 + length d) = record_bytes d"
  shows "ring_holds r (set_head r (head r m + word_of_nat (4 + length d)) m) (q @ [d])"
proof -
  let ?h = "head r m + word_of_nat (4 + length d)" and ?n = "records_size q" and ?t = "unat (tail r m)"
  have g: "ring_geom r m" and u: "ring_used r m = ?n" using h ring_holds_used [OF h] by (simp_all add: ring_holds_def)
  have cap: "ring_cap r < 2 ^ 32" using g by (simp add: ring_geom_def)
  have "head r m - tail r m = word_of_nat ?n" using u unfolding ring_used_def by (metis word_nat_of_unat)
  then have "?h - tail r m = word_of_nat (?n + (4 + length d))"
    by (simp add: add_diff_eq [symmetric] diff_add_eq [symmetric])
  then have used: "ring_used r (set_head r ?h m) = ?n + (4 + length d)"
    using g fits cap by (simp add: ring_used_def unat_u64_of_nat del: of_nat_add)
  have "window r m (?t + ?n) (4 + length d) = record_bytes d"
    using rec window_cong [OF cursor_distance [OF g u], of m "4 + length d"] by simp
  then have "window r m ?t (?n + (4 + length d)) = concat (map record_bytes (q @ [d]))"
    using h u unfolding window_append [of r m ?t ?n] by (simp add: ring_holds_def ring_stored_def)
  with used fits g show ?thesis by (simp add: ring_holds_def ring_stored_def)
qed

text \<open>The consumer reads the oldest record, and the store of \<^verbatim>\<open>tail\<close> is where it leaves the queue.\<close>

lemma ring_holds_pop:
  assumes h: "ring_holds r m (d # q)"
  shows "unat (u32_from_le_bytes (read_wrapped r (tail r m) 4 m)) = length d"
    and "read_wrapped r (tail r m + 4) (length d) m = d"
    and "ring_holds r (set_tail r (tail r m + 4 + word_of_nat (length d)) m) q"
proof -
  let ?n = "unat (u32_from_le_bytes (read_wrapped r (tail r m) 4 m))"
  have ne: "head r m \<noteq> tail r m" using ring_holds_used [OF h] by (auto simp: ring_used_def)
  have len: "length (read_wrapped r p k m) = k" for p k by (simp add: read_wrapped_def Let_def)
  have eq: "try_pop r m = (Some (read_wrapped r (tail r m + 4) ?n m),
      set_space_seq r (space_seq r m + 1) (set_tail r (tail r m + 4 + word_of_nat ?n) m))"
    using ne by (simp add: try_pop_def Let_def)
  with try_pop_holds [OF h] have d: "read_wrapped r (tail r m + 4) ?n m = d"
    and q: "ring_holds r (set_tail r (tail r m + 4 + word_of_nat ?n) m) q" by simp_all
  from d have n: "?n = length d" using len by metis
  show "?n = length d" by (rule n)
  show "read_wrapped r (tail r m + 4) (length d) m = d" using d n by simp
  show "ring_holds r (set_tail r (tail r m + 4 + word_of_nat (length d)) m) q" using q n by simp
qed

text \<open>The other words of the header are no business of the records.\<close>

lemma prod_ok_set [simp]:
  assumes "ring_geom r m"
  shows "prod_ok r (set_prod_lock r w m) q p = prod_ok r m q p" "prod_ok r (set_space_seq r w m) q p = prod_ok r m q p"
    "prod_ok r (set_data_seq r w m) q p = prod_ok r m q p"
  using assms by (cases p; simp)+

lemma prod_ok_resume [simp]: "prod_ok r m q (resume a)" "prod_ok r m q (no_room b d)"
  by (cases a, simp_all add: no_room_def)+

lemma cons_ok_set [simp]:
  assumes "ring_geom r m"
  shows "cons_ok r (set_prod_lock r w m) q c = cons_ok r m q c" "cons_ok r (set_space_seq r w m) q c = cons_ok r m q c"
    "cons_ok r (set_data_seq r w m) q c = cons_ok r m q c" "cons_ok r (set_head r v m) q c = cons_ok r m q c"
    "cons_ok r (write_wrapped r pos src m) q c = cons_ok r m q c"
  using assms by (cases c; simp)+

lemma cons_ok_more: "cons_ok r m q c \<Longrightarrow> cons_ok r m (q @ q') c"
  by (cases c) auto

lemma prod_ok_pop:
  assumes "prod_ok r m (d # q) p" "ring_geom r m"
  shows "prod_ok r (set_tail r w m) q p"
  using assms by (cases p) auto

lemma data_ok_prod:
  assumes "data_ok r s q" "owner_ok r s" "prod_at s i p" "rs_prods s' = (rs_prods s)[i := p']"
    and "holding p \<or> (\<forall>x. prod_ok r (rs_mem s) q x \<longrightarrow> prod_ok r (rs_mem s') q' x)"
    and "ring_holds r (rs_mem s') q'" "rs_pushed s' = rs_popped s' @ q'"
    and "prod_ok r (rs_mem s') q' p'" "cons_ok r (rs_mem s') q' (rs_cons s')"
  shows "data_ok r s' q'"
proof -
  have "prod_ok r (rs_mem s') q' (rs_prods s' ! j)" if "j < length (rs_prods s')" for j
  proof (cases "j = i")
    case True
    with assms(4,8) that show ?thesis by simp
  next
    case False
    then have "prod_ok r (rs_mem s') q' (rs_prods s ! j)"
      using assms(1,5) that prod_ok_outside [OF others_outside [OF assms(2,3) _ _ False]] assms(4)
      by (auto simp: data_ok_def)
    with False assms(4) show ?thesis by simp
  qed
  with assms(6-9) show ?thesis by (simp add: data_ok_def)
qed

lemma room_iff:
  assumes "ring_holds r m q"
  shows "usize_sub (ring_cap r) (unat (head r m - tail r m)) < 4 + length d \<longleftrightarrow> ring_cap r < records_size q + 4 + length d"
proof -
  have "records_size q \<le> ring_cap r" "ring_cap r < 2 ^ 64" using assms ring_holds_used [OF assms]
    by (simp_all add: ring_holds_def ring_geom_def)
  then show ?thesis using usize_sub_ge ring_holds_used [OF assms] by (auto simp: ring_used_def)
qed

lemma data_okD:
  assumes "data_ok r s q"
  shows "ring_geom r (rs_mem s)" "rs_pushed s = rs_popped s @ q" "ring_holds r (rs_mem s) q" "cons_ok r (rs_mem s) q (rs_cons s)"
    "prod_at s i p \<Longrightarrow> prod_ok r (rs_mem s) q p"
  using assms by (auto simp: data_ok_def ring_holds_def prod_at_def)

lemma data_ok_wake:
  assumes "data_ok r s q" "futex_wake n asleep f (rs_prods s) ps" "\<And>t. asleep t \<Longrightarrow> \<not> holding (f t)"
  shows "data_ok r (s\<lparr>rs_prods := ps\<rparr>) q"
proof -
  have "prod_ok r (rs_mem s) q (ps ! j)" if "j < length (rs_prods s)" for j
    using futex_wake_nth(2) [OF assms(2) that] assms(1,3) that prod_ok_outside [of "ps ! j"] by (auto simp: data_ok_def)
  with futex_wake_nth(1) [OF assms(2)] assms(1) show ?thesis by (simp add: data_ok_def)
qed

lemma data_load_tail:
  assumes data: "data_ok r s q" and own: "owner_ok r s" and i: "prod_at s i (PTail d b h)"
    and room: "\<not> usize_sub (ring_cap r) (unat (h - tail r (rs_mem s))) < 4 + length d"
  shows "data_ok r (set_prod i (PLen d b h) s) q"
proof -
  note D = data_okD [OF data]
  have "prod_ok r (rs_mem s) q (PLen d b h)" using room D(5) [OF i] room_iff [OF D(3), of d] by simp
  with D(2-4) show ?thesis by (intro data_ok_prod [OF data own i, where p' = "PLen d b h"]) (simp_all del: prod_ok.simps)
qed

lemma data_write_len:
  assumes data: "data_ok r s q" and own: "owner_ok r s" and i: "prod_at s i (PLen d b h)"
  shows "data_ok r (set_prod i (PBody d b h)
    (s\<lparr>rs_mem := write_wrapped r h (u32_to_le_bytes (word_of_nat (length d))) (rs_mem s)\<rparr>)) q" (is "data_ok r ?s q")
proof -
  note D = data_okD [OF data]
  from D(5) [OF i] have ok: "h = head r (rs_mem s)" "records_size q + 4 + length d \<le> ring_cap r" by simp_all
  have holds: "ring_holds r (rs_mem ?s) q" using ring_holds_write [OF D(3), of 0] ok by simp
  have prod: "prod_ok r (rs_mem ?s) q (PBody d b h)" using ok D(1) write_len_window [OF D(1)] by simp
  show ?thesis by (rule data_ok_prod [OF data own i _ _ holds _ prod]) (use D in simp_all)
qed

lemma data_write_body:
  assumes data: "data_ok r s q" and own: "owner_ok r s" and i: "prod_at s i (PBody d b h)"
  shows "data_ok r (set_prod i (PStore d b h) (s\<lparr>rs_mem := write_wrapped r (h + 4) d (rs_mem s)\<rparr>)) q" (is "data_ok r ?s q")
proof -
  note D = data_okD [OF data]
  from D(5) [OF i] have ok: "h = head r (rs_mem s)" "records_size q + 4 + length d \<le> ring_cap r"
    "window r (rs_mem s) (unat h) 4 = u32_to_le_bytes (word_of_nat (length d))" by auto
  have holds: "ring_holds r (rs_mem ?s) q" using ring_holds_write [OF D(3), of 4] ok by simp
  have prod: "prod_ok r (rs_mem ?s) q (PStore d b h)" using ok D(1) write_body_window [OF D(1) _ ok(3)] by simp
  show ?thesis by (rule data_ok_prod [OF data own i _ _ holds _ prod]) (use D in simp_all)
qed

lemma data_store_head:
  assumes data: "data_ok r s q" and own: "owner_ok r s" and i: "prod_at s i (PStore d b h)"
  shows "data_ok r (set_prod i (PUnlock AfterPush)
    (s\<lparr>rs_mem := set_head r (h + word_of_nat (4 + length d)) (rs_mem s), rs_pushed := rs_pushed s @ [d]\<rparr>)) (q @ [d])"
    (is "data_ok r ?s _")
proof -
  note D = data_okD [OF data]
  from D(5) [OF i] have ok: "h = head r (rs_mem s)" "records_size q + 4 + length d \<le> ring_cap r"
    "window r (rs_mem s) (unat h) (4 + length d) = record_bytes d" by auto
  have holds: "ring_holds r (rs_mem ?s) (q @ [d])" using ring_holds_store_head [OF D(3) ok(2)] ok by simp
  have cons: "cons_ok r (rs_mem ?s) (q @ [d]) (rs_cons ?s)" using cons_ok_more [OF D(4)] D(1) by simp
  show ?thesis
    by (rule data_ok_prod [OF data own i _ _ holds _ _ cons, where p' = "PUnlock AfterPush"]) (use D in simp_all)
qed

lemma prod_step_data:
  assumes step: "prod_step r i s s'" and own: "owner_ok r s" and data: "data_ok r s q"
  shows "\<exists>q'. data_ok r s' q'"
proof -
  note D = data_okD [OF data] and intro_ok = data_ok_prod [OF data own]
  show ?thesis
    using step
  proof cases
    case (wake_waiter a ps)
    let ?t = "s\<lparr>rs_prods := ps\<rparr>"
    have w: "data_ok r ?t q"
      by (rule data_ok_wake [OF data wake_waiter(3)]) (auto elim: lock_asleep.elims)
    have i: "prod_at ?t i (PUnlockWake a)"
      using wake_waiter(2) futex_wake_nth [OF wake_waiter(3)] by (fastforce simp: prod_at_def)
    have "owner_ok r ?t" by (rule owner_ok_wake [OF own wake_waiter(3)]) (rule rouse_lock_simps)
    then have "data_ok r s' q"
      by (rule data_ok_prod [OF w _ i, where p' = "resume a"]) (use D in \<open>simp_all add: wake_waiter\<close>)
    then show ?thesis ..
  next
    case wake_consumer
    have "cons_ok r (rs_mem s') q (rs_cons s')" using wake_consumer D(4) by (simp split: consumer.splits)
    then show ?thesis using wake_consumer D(2,3)
      by (intro exI [of _ q] intro_ok [OF wake_consumer(2), where p' = PIdle]) simp_all
  next
    case (load_tail_room d b h)
    then show ?thesis using data_load_tail [OF data own] by blast
  next
    case (write_len d b h)
    then show ?thesis using data_write_len [OF data own] by blast
  next
    case (write_body d b h)
    then show ?thesis using data_write_body [OF data own] by blast
  next
    case (store_head d b h)
    then show ?thesis using data_store_head [OF data own] by blast
  qed (intro exI [of _ q], rule intro_ok, assumption, simp, simp add: D(1), simp add: D(1,3), simp add: D(2), simp,
      use D(4) in \<open>simp add: D(1)\<close>)+
qed

lemma cons_step_data:
  assumes step: "cons_step r s s'" and data: "data_ok r s q"
  shows "\<exists>q'. data_ok r s' q'"
proof -
  note D = data_okD [OF data]
  have P: "\<forall>j < length (rs_prods s). prod_ok r (rs_mem s) q (rs_prods s ! j)" using data by (simp add: data_ok_def)
  have keep: "data_ok r s' q" if "rs_prods s' = rs_prods s" "rs_pushed s' = rs_pushed s" "rs_popped s' = rs_popped s"
    "rs_mem s' = rs_mem s \<or> (\<exists>w. rs_mem s' = set_space_seq r w (rs_mem s))" "cons_ok r (rs_mem s) q (rs_cons s')"
    using that data D(1) by (auto simp: data_ok_def)
  show ?thesis
    using step
  proof cases
    case (found_empty x t)
    have "cons_ok r (rs_mem s) q (found_nothing x)" by (cases x rule: found_nothing.cases) simp_all
    with found_empty show ?thesis by (intro exI [of _ q] keep) simp_all
  next
    case (found_some x t)
    have "q \<noteq> []" using ring_holds_used [OF D(3)] D(4) found_some by (auto simp: ring_used_def unat_eq_zero)
    with found_some D(4) show ?thesis by (intro exI [of _ q] keep) simp_all
  next
    case (read_len t)
    then obtain d q' where "q = d # q'" "t = tail r (rs_mem s)" using D(4) by (cases q) auto
    with read_len ring_holds_pop(1) [of r "rs_mem s" d q'] D(3) show ?thesis by (intro exI [of _ q] keep) simp_all
  next
    case (read_body t n)
    then obtain d q' where "q = d # q'" "t = tail r (rs_mem s)" "n = length d" using D(4) by (cases q) auto
    with read_body ring_holds_pop(2) [of r "rs_mem s" d q'] D(3) show ?thesis by (intro exI [of _ q] keep) simp_all
  next
    case (store_tail t n p)
    then obtain q' where q: "q = p # q'" "t = tail r (rs_mem s)" "n = length p" using D(4) by (cases q) auto
    have "prod_ok r (rs_mem s') q' (rs_prods s' ! j)" if "j < length (rs_prods s')" for j
      using prod_ok_pop [of r "rs_mem s" p q' "rs_prods s ! j"] D(1) P q store_tail that by simp
    with ring_holds_pop(3) [of r "rs_mem s" p q'] D(2,3) q store_tail have "data_ok r s' q'" by (simp add: data_ok_def)
    then show ?thesis ..
  next
    case (wake_producers p ps)
    have "data_ok r (s\<lparr>rs_prods := ps\<rparr>) q"
      by (rule data_ok_wake [OF data wake_producers(3)]) (auto elim: space_asleep.elims)
    then have "data_ok r s' q" by (simp add: data_ok_def wake_producers(1))
    then show ?thesis ..
  qed (intro exI [of _ q], rule keep, simp, simp, simp, force, use D(4) in simp)+
qed

section \<open>The data sequence\<close>

text \<open>
  A record is pending from the store of \<^verbatim>\<open>head\<close> until its push is counted in \<^verbatim>\<open>data_seq\<close>. The consumer has
  taken note of \<^verbatim>\<open>data_seq\<close> before its last look at the ring; whatever it has not seen there was stored after it
  looked, and is pending or was counted after it took note.
\<close>

fun uncounted :: "producer \<Rightarrow> nat" where
  "uncounted (PUnlock AfterPush) = 1" | "uncounted (PUnlockWake AfterPush) = 1" | "uncounted PSeq = 1" | "uncounted _ = 0"

definition pending :: "ring_state \<Rightarrow> nat" where
  "pending s = sum_list (map uncounted (rs_prods s))"

fun noted :: "consumer \<Rightarrow> u32 option" where
  "noted (CTail (PopLast v)) = Some v" | "noted (CHead (PopLast v) t) = Some v" | "noted (CWait v) = Some v"
| "noted (CAsleep v) = Some v" | "noted _ = None"

fun waiting :: "consumer \<Rightarrow> bool" where
  "waiting (CWait v) = True" | "waiting (CAsleep v) = True" | "waiting _ = False"

fun cons_asleep :: "consumer \<Rightarrow> bool" where
  "cons_asleep (CAsleep v) = True" | "cons_asleep _ = False"

definition in_flight :: "ring_state \<Rightarrow> bytes list" where
  "in_flight s = drop (length (rs_popped s)) (rs_pushed s)"

definition seq_ok :: "ring \<Rightarrow> ring_state \<Rightarrow> bool" where
  "seq_ok r s \<longleftrightarrow>
     (\<forall>v. noted (rs_cons s) = Some v \<longrightarrow> data_seq r (rs_mem s) = v + word_of_nat (rs_counted s) \<and>
        rs_counted s + pending s \<le> length (rs_prods s) + length (in_flight s)) \<and>
     (waiting (rs_cons s) \<longrightarrow> length (in_flight s) \<le> rs_counted s + pending s) \<and>
     (cons_asleep (rs_cons s) \<and> 0 < rs_counted s \<longrightarrow> PWakeData \<in> set (rs_prods s))"

lemma data_ok_in_flight: "data_ok r s q \<Longrightarrow> in_flight s = q"
  by (simp add: data_ok_def in_flight_def)

lemma pending_set:
  assumes "prod_at s i p" "rs_prods s' = (rs_prods s)[i := p']"
  shows "pending s' + uncounted p = pending s + uncounted p'"
  using total_update [of i "rs_prods s" uncounted p'] assms by (simp add: pending_def prod_at_def)

lemma uncounted_resume [simp]: "uncounted (PUnlockWake a) = uncounted (resume a)" "uncounted (PUnlock a) = uncounted (resume a)"
  "uncounted (no_room b d) = 0"
  by (cases a, simp_all add: no_room_def)+

lemma seq_ok_prod:
  assumes seq: "seq_ok r s" and i: "prod_at s i p" and ps: "rs_prods s' = (rs_prods s)[i := p']"
    and cons: "rs_cons s' = rs_cons s" and p: "p \<noteq> PWakeData" "rs_counted s' = rs_counted s \<or> p' = PWakeData"
    and weight: "rs_counted s' + uncounted p' + length (in_flight s) = rs_counted s + uncounted p + length (in_flight s')"
    and word: "data_seq r (rs_mem s') - word_of_nat (rs_counted s') = data_seq r (rs_mem s) - word_of_nat (rs_counted s)"
  shows "seq_ok r s'"
proof -
  note pend = pending_set [OF i ps]
  have wake: "PWakeData \<in> set (rs_prods s')" if "rs_counted s' \<noteq> rs_counted s \<or> PWakeData \<in> set (rs_prods s)"
  proof (cases "p' = PWakeData")
    case True
    with i ps show ?thesis by (simp add: prod_at_def set_update_memI)
  next
    case False
    with that p obtain j where "j < length (rs_prods s)" "rs_prods s ! j = PWakeData" by (auto simp: in_set_conv_nth)
    with i p(1) ps show ?thesis by (metis length_list_update nth_list_update_neq nth_mem prod_at_def)
  qed
  have "data_seq r (rs_mem s') = v + word_of_nat (rs_counted s')"
    if "data_seq r (rs_mem s) = v + word_of_nat (rs_counted s)" for v
    using word that by (simp add: diff_eq_eq)
  with seq pend weight wake show ?thesis unfolding seq_ok_def cons ps by (auto simp: ps)
qed

lemma seq_ok_wake:
  assumes "seq_ok r s" "futex_wake n asleep f (rs_prods s) ps"
    and "\<And>t. asleep t \<Longrightarrow> uncounted (f t) = uncounted t" "\<not> asleep PWakeData"
  shows "seq_ok r (s\<lparr>rs_prods := ps\<rparr>)"
proof -
  have "pending (s\<lparr>rs_prods := ps\<rparr>) = pending s"
    using futex_wake_map [OF assms(2), of uncounted] assms(3) by (simp add: pending_def)
  moreover have "PWakeData \<in> set ps" if "PWakeData \<in> set (rs_prods s)"
    using that futex_wake_nth [OF assms(2)] assms(4) by (metis in_set_conv_nth)
  ultimately show ?thesis using assms(1) futex_wake_nth(1) [OF assms(2)] by (auto simp: seq_ok_def in_flight_def)
qed

lemma in_flight_same [simp]:
  "in_flight (set_prod i p s) = in_flight s" "in_flight (s\<lparr>rs_mem := m\<rparr>) = in_flight s" "in_flight (s\<lparr>rs_owner := x\<rparr>) = in_flight s"
  "in_flight (s\<lparr>rs_prods := ps\<rparr>) = in_flight s" "in_flight (s\<lparr>rs_counted := n\<rparr>) = in_flight s" "in_flight (s\<lparr>rs_cons := c\<rparr>) = in_flight s"
  by (simp_all add: in_flight_def)

lemma prod_step_seq:
  assumes step: "prod_step r i s s'" and data: "data_ok r s (in_flight s)" and seq: "seq_ok r s"
  shows "seq_ok r s'"
proof -
  note g = data_okD(1) [OF data] and keep = seq_ok_prod [OF seq]
  have popped: "length (rs_popped s) \<le> length (rs_pushed s)" using data_okD(2) [OF data] by (metis length_append le_add1)
  show ?thesis
    using step
  proof cases
    case (wake_waiter a ps)
    let ?t = "s\<lparr>rs_prods := ps\<rparr>"
    have w: "seq_ok r ?t" by (rule seq_ok_wake [OF seq wake_waiter(3)]) (auto elim: lock_asleep.elims)
    have i: "prod_at ?t i (PUnlockWake a)"
      using wake_waiter(2) futex_wake_nth [OF wake_waiter(3)] by (fastforce simp: prod_at_def)
    show ?thesis by (rule seq_ok_prod [OF w i, where p' = "resume a"]) (simp_all add: wake_waiter(1))
  next
    case wake_consumer
    have "noted (rs_cons s') = (if cons_asleep (rs_cons s) then None else noted (rs_cons s))" "\<not> cons_asleep (rs_cons s')"
      "waiting (rs_cons s') \<Longrightarrow> waiting (rs_cons s)" "pending s' = pending s"
      using pending_set [OF wake_consumer(2), of s' PIdle] by (auto simp: wake_consumer(1) split: consumer.splits)
    with seq show ?thesis by (auto simp: seq_ok_def wake_consumer(1) split: if_splits)
  next
    case (store_head d b h)
    with popped g show ?thesis by (intro keep [OF store_head(2), where p' = "PUnlock AfterPush"]) (simp_all add: in_flight_def)
  qed (rule keep, assumption, simp, simp, simp, simp, simp, simp add: g)+
qed

lemma length_records: "4 * length q \<le> records_size q"
  by (induction q) auto

lemma pending_le: "pending s \<le> length (rs_prods s)"
proof -
  have "uncounted p \<le> 1" for p by (cases p rule: uncounted.cases) simp_all
  then have "pending s \<le> (\<Sum>p \<leftarrow> rs_prods s. 1)" unfolding pending_def by (rule sum_list_mono)
  then show ?thesis by (simp add: sum_list_triv)
qed

text \<open>The number of pushes counted since the consumer took note is too small to bring the sequence round to the
  same value: unchanged means that nothing was counted.\<close>

lemma seq_no_wrap:
  assumes data: "data_ok r s (in_flight s)" and seq: "seq_ok r s" and few: "length (rs_prods s) + ring_cap r div 4 < 2 ^ 32"
    and v: "noted (rs_cons s) = Some v" "data_seq r (rs_mem s) = v"
  shows "rs_counted s = 0"
proof -
  have "records_size (in_flight s) \<le> ring_cap r"
    using data_okD(3) [OF data] ring_holds_used [of r "rs_mem s" "in_flight s"] by (simp add: ring_holds_def)
  then have "length (in_flight s) \<le> ring_cap r div 4" using length_records [of "in_flight s"] by simp
  then have "rs_counted s < 2 ^ 32" using seq v few by (auto simp: seq_ok_def)
  moreover have "(word_of_nat (rs_counted s) :: u32) = 0" using seq v by (auto simp: seq_ok_def)
  ultimately show ?thesis by (metis unat_u32_of_nat unsigned_0)
qed

lemma cons_step_seq:
  assumes step: "cons_step r s s'" and data: "data_ok r s (in_flight s)" and seq: "seq_ok r s"
    and few: "length (rs_prods s) + ring_cap r div 4 < 2 ^ 32"
  shows "seq_ok r s'"
proof -
  note D = data_okD [OF data]
  have trivial_ok: "seq_ok r s'" if "noted (rs_cons s') = None" "\<not> waiting (rs_cons s')" "\<not> cons_asleep (rs_cons s')"
    using that by (simp add: seq_ok_def)
  have pend: "pending s' = pending s" if "rs_prods s' = rs_prods s" using that by (simp add: pending_def)
  show ?thesis
    using step
  proof cases
    case (load_tail x)
    have "noted (CHead x t) = noted (CTail x)" for t by (cases x) simp_all
    with seq load_tail pend show ?thesis by (simp add: seq_ok_def)
  next
    case (found_empty x t)
    then have "records_size (in_flight s) = 0" using D(4) ring_holds_used [OF D(3)] by (simp add: ring_used_def)
    then have "in_flight s = []" using length_records [of "in_flight s"] by simp
    with seq found_empty pend trivial_ok show ?thesis
      by (cases x rule: found_nothing.cases) (simp_all add: seq_ok_def)
  next
    case load_seq
    with pend pending_le [of s] show ?thesis by (simp add: seq_ok_def)
  next
    case (data_sleep seen)
    with seq_no_wrap [OF data seq few] seq pend show ?thesis by (simp add: seq_ok_def futex_wait_def)
  qed (rule trivial_ok; simp)+
qed

section \<open>Every interleaving\<close>

definition threads_ok :: "ring \<Rightarrow> ring_state \<Rightarrow> bool" where
  "threads_ok r s \<longleftrightarrow> owner_ok r s \<and> sleepers_ok r s \<and> data_ok r s (in_flight s) \<and> seq_ok r s \<and>
     length (rs_prods s) + ring_cap r div 4 < 2 ^ 32"

lemma ring_init_ok:
  assumes "ring_init r s"
  shows "threads_ok r s"
proof -
  have P: "rs_prods s ! j = PIdle" if "j < length (rs_prods s)" for j
    using assms that by (simp add: ring_init_def list_all_length)
  have "ring_geom r (rs_mem s)" using assms by (simp add: ring_init_def ring_holds_def)
  with assms P show ?thesis
    by (auto simp: threads_ok_def ring_init_def owner_ok_def sleepers_ok_def data_ok_def in_flight_def seq_ok_def)
qed

lemma prod_step_length: "prod_step r i s s' \<Longrightarrow> length (rs_prods s') = length (rs_prods s)"
  by (cases rule: prod_step.cases, assumption) (simp_all add: futex_wake_nth)

lemma cons_step_length: "cons_step r s s' \<Longrightarrow> length (rs_prods s') = length (rs_prods s)"
  by (cases rule: cons_step.cases, assumption) (simp_all add: futex_wake_nth)

lemma prod_step_ok:
  assumes "prod_step r i s s'" "threads_ok r s"
  shows "threads_ok r s'"
proof -
  from assms(2) have ok: "owner_ok r s" "sleepers_ok r s" "data_ok r s (in_flight s)" "seq_ok r s"
    by (simp_all add: threads_ok_def)
  note g = data_okD(1) [OF ok(3)]
  obtain q' where "data_ok r s' q'" using prod_step_data [OF assms(1) ok(1,3)] by blast
  then have "data_ok r s' (in_flight s')" by (simp add: data_ok_in_flight)
  with prod_step_owner [OF assms(1) ok(1) g] prod_step_sleepers [OF assms(1) ok(2) g] prod_step_seq [OF assms(1) ok(3,4)]
    prod_step_length [OF assms(1)] assms(2) show ?thesis by (simp add: threads_ok_def)
qed

lemma cons_step_ok:
  assumes "cons_step r s s'" "threads_ok r s"
  shows "threads_ok r s'"
proof -
  from assms(2) have ok: "owner_ok r s" "sleepers_ok r s" "data_ok r s (in_flight s)" "seq_ok r s"
    "length (rs_prods s) + ring_cap r div 4 < 2 ^ 32" by (simp_all add: threads_ok_def)
  obtain q' where "data_ok r s' q'" using cons_step_data [OF assms(1) ok(3)] by blast
  then have "data_ok r s' (in_flight s')" by (simp add: data_ok_in_flight)
  with cons_step_lock [OF assms(1) ok(1,2)] cons_step_seq [OF assms(1) ok(3,4,5)] cons_step_length [OF assms(1)] ok(5)
  show ?thesis by (simp add: threads_ok_def)
qed

interpretation threads: invariant_system "ring_init r" "ring_step r" "threads_ok r" for r
proof unfold_locales
  show "ring_init r s \<Longrightarrow> threads_ok r s" for s by (rule ring_init_ok)
  show "threads_ok r s \<Longrightarrow> ring_step r s t \<Longrightarrow> threads_ok r t" for s t
    using prod_step_ok cons_step_ok by (auto elim: ring_step.cases)
qed

section \<open>Nobody oversleeps\<close>

text \<open>A producer that has stored its record and has not yet called \<^verbatim>\<open>futex::wake\<close> on the data sequence.\<close>

fun waking :: "producer \<Rightarrow> bool" where
  "waking (PUnlock AfterPush) = True" | "waking (PUnlockWake AfterPush) = True" | "waking PSeq = True" | "waking PWakeData = True"
| "waking _ = False"

text \<open>
  The states from which a producer on its own cannot fail to wake the consumer: the consumer is awake, or the producer
  is still in the push whose record it has stored, can take a step, and whatever step it takes leads to such a state.
\<close>

inductive bound_to_wake :: "ring \<Rightarrow> nat \<Rightarrow> ring_state \<Rightarrow> bool" for r :: ring and i :: nat where
  awake: "\<not> cons_asleep (rs_cons s) \<Longrightarrow> bound_to_wake r i s"
| on_its_way: "prod_at s i p \<Longrightarrow> waking p \<Longrightarrow> prod_step r i s t \<Longrightarrow> (\<And>t. prod_step r i s t \<Longrightarrow> bound_to_wake r i t) \<Longrightarrow>
    bound_to_wake r i s"

inductive_cases prod_step_wakeE: "prod_step r i s t"

lemma bound_wake: "prod_at s i PWakeData \<Longrightarrow> bound_to_wake r i s"
  by (rule on_its_way, assumption, simp, erule wake_consumer)
    (erule prod_step_wakeE; auto simp: prod_at_def intro!: awake split: consumer.splits)

lemma bound_seq: "prod_at s i PSeq \<Longrightarrow> bound_to_wake r i s"
  by (rule on_its_way, assumption, simp, erule count_push)
    (erule prod_step_wakeE; auto simp: prod_at_def intro!: bound_wake)

lemma bound_unlock_wake:
  assumes "prod_at s i (PUnlockWake AfterPush)"
  shows "bound_to_wake r i s"
proof -
  obtain ps where ps: "futex_wake 1 lock_asleep rouse_lock (rs_prods s) ps" using futex_wake_ex by blast
  show ?thesis
  proof (rule on_its_way [OF assms _ wake_waiter [OF assms ps]])
    fix t assume "prod_step r i s t"
    then have "prod_at t i PSeq" by (rule prod_step_wakeE) (use assms in \<open>auto simp: prod_at_def futex_wake_nth(1)\<close>)
    then show "bound_to_wake r i t" by (rule bound_seq)
  qed simp
qed

lemma bound_unlock:
  assumes at: "prod_at s i (PUnlock AfterPush)"
  shows "bound_to_wake r i s"
proof -
  have "\<exists>t. prod_step r i s t" using unlock_quiet [OF at] unlock_waiters [OF at] by blast
  then obtain t where t: "prod_step r i s t" ..
  show ?thesis
  proof (rule on_its_way [OF at _ t])
    fix t assume "prod_step r i s t"
    then have "prod_at t i PSeq \<or> prod_at t i (PUnlockWake AfterPush)"
      by (rule prod_step_wakeE) (use at in \<open>auto simp: prod_at_def\<close>)
    then show "bound_to_wake r i t" using bound_seq bound_unlock_wake by blast
  qed simp
qed

lemma waking_bound:
  assumes "prod_at s i p" "waking p"
  shows "bound_to_wake r i s"
  using assms bound_unlock bound_unlock_wake bound_seq bound_wake by (cases p rule: waking.cases) auto

text \<open>Nobody takes a producer off that way.\<close>

lemma waking_undisturbed:
  assumes "prod_at s i p" "waking p"
  shows "prod_step r j s t \<Longrightarrow> j \<noteq> i \<Longrightarrow> prod_at t i p" and "cons_step r s t \<Longrightarrow> prod_at t i p"
proof -
  have p: "\<not> lock_asleep p" "\<not> space_asleep p" using assms(2) by (cases p rule: waking.cases; simp)+
  have wake: "prod_at (s\<lparr>rs_prods := ps\<rparr>) i p" if "futex_wake n asleep f (rs_prods s) ps" "\<not> asleep p" for n asleep f ps
    using assms(1) futex_wake_nth [OF that(1)] that(2) by (auto simp: prod_at_def)
  show "prod_at t i p" if "prod_step r j s t" "j \<noteq> i"
    using that(1) by (rule prod_step_wakeE) (use assms(1) that(2) wake p in \<open>auto simp: prod_at_def\<close>)
  show "prod_at t i p" if "cons_step r s t"
    using that by (rule cons_step.cases) (use assms(1) wake p in \<open>auto simp: prod_at_def\<close>)
qed

lemma sleeper_woken:
  assumes "threads_ok r s" "cons_asleep (rs_cons s)" "in_flight s \<noteq> []"
  shows "\<exists>i p. prod_at s i p \<and> waking p"
proof (cases "rs_counted s = 0")
  case True
  have "waiting (rs_cons s)" using assms(2) by (cases "rs_cons s") simp_all
  then have "length (in_flight s) \<le> pending s" using assms(1) True by (simp add: threads_ok_def seq_ok_def)
  then have "0 < pending s" using assms(3) by (metis length_greater_0_conv less_le_trans)
  then have "pending s \<noteq> 0" by simp
  then obtain p where p: "p \<in> set (rs_prods s)" "0 < uncounted p"
    by (auto simp: pending_def sum_list_eq_0_iff)
  then have "waking p" by (cases p rule: uncounted.cases) simp_all
  with p(1) show ?thesis by (auto simp: in_set_conv_nth prod_at_def)
next
  case False
  then have "PWakeData \<in> set (rs_prods s)" using assms by (auto simp: threads_ok_def seq_ok_def)
  then show ?thesis by (force simp: in_set_conv_nth prod_at_def)
qed

section \<open>Runs\<close>

text \<open>A producer alone: it pushes a record for which there is room, or finds out that there is none.\<close>

lemma set_prod_at [simp]: "i < length (rs_prods s) \<Longrightarrow> prod_at (set_prod i p s) i p"
  by (simp add: prod_at_def)

lemma run_lock:
  assumes i: "prod_at s i PIdle" and lock: "prod_lock r (rs_mem s) = 0"
  shows "(prod_step r i)\<^sup>*\<^sup>* s (set_prod i (PHead d b) (s\<lparr>rs_mem := set_prod_lock r 1 (rs_mem s), rs_owner := Some i\<rparr>))" (is "(prod_step r i)\<^sup>*\<^sup>* s ?u")
proof -
  let ?t = "set_prod i (PLock d b) s"
  have n: "i < length (rs_prods s)" using i by (simp add: prod_at_def)
  have "prod_step r i s ?t" by (rule push_call [OF i])
  moreover have "prod_step r i ?t ?u" using lock_fast [of ?t i d b r] n lock by (simp add: set_prod_def prod_at_def)
  ultimately show ?thesis by (meson converse_rtranclp_into_rtranclp rtranclp.rtrancl_refl)
qed

lemma run_enter:
  assumes i: "prod_at s i PIdle" and lock: "prod_lock r (rs_mem s) = 0" and fits: "4 + length d \<le> ring_cap r"
  shows "(prod_step r i)\<^sup>*\<^sup>* s (set_prod i (PTail d b (head r (rs_mem s)))
    (s\<lparr>rs_mem := set_prod_lock r 1 (rs_mem s), rs_owner := Some i\<rparr>))"
proof -
  define t where "t = set_prod i (PHead d b) (s\<lparr>rs_mem := set_prod_lock r 1 (rs_mem s), rs_owner := Some i\<rparr>)"
  have "(prod_step r i)\<^sup>*\<^sup>* s t" unfolding t_def by (rule run_lock [OF i lock])
  also have "prod_step r i t (set_prod i (PTail d b (head r (rs_mem t))) t)"
    by (rule load_head) (use i fits in \<open>simp_all add: t_def prod_at_def\<close>)
  also have "set_prod i (PTail d b (head r (rs_mem t))) t =
      set_prod i (PTail d b (head r (rs_mem s))) (s\<lparr>rs_mem := set_prod_lock r 1 (rs_mem s), rs_owner := Some i\<rparr>)"
    by (simp add: t_def set_prod_def)
  finally show ?thesis .
qed

lemma run_write:
  assumes i: "prod_at s i PIdle" and lock: "prod_lock r (rs_mem s) = 0" and h: "ring_holds r (rs_mem s) q"
    and room: "records_size q + 4 + length d \<le> ring_cap r"
  shows "\<exists>s'. (prod_step r i)\<^sup>*\<^sup>* s s' \<and> rs_prods s' = (rs_prods s)[i := PUnlock AfterPush] \<and> prod_lock r (rs_mem s') = 1 \<and>
    ring_geom r (rs_mem s') \<and> rs_cons s' = rs_cons s \<and> rs_pushed s' = rs_pushed s @ [d] \<and> rs_popped s' = rs_popped s \<and>
    push_locked r d (set_prod_lock r 1 (rs_mem s)) = (True, rs_mem s')"
proof -
  let ?h = "head r (rs_mem s)"
  have n: "i < length (rs_prods s)" and g: "ring_geom r (rs_mem s)" using i h by (simp_all add: prod_at_def ring_holds_def)
  define t where "t = set_prod i (PTail d False ?h) (s\<lparr>rs_mem := set_prod_lock r 1 (rs_mem s), rs_owner := Some i\<rparr>)"
  define u where "u = set_prod i (PLen d False ?h) t"
  define s1 where "s1 = set_prod i (PBody d False ?h) (u\<lparr>rs_mem := write_wrapped r ?h (u32_to_le_bytes (word_of_nat (length d))) (rs_mem u)\<rparr>)"
  define s2 where "s2 = set_prod i (PStore d False ?h) (s1\<lparr>rs_mem := write_wrapped r (?h + 4) d (rs_mem s1)\<rparr>)"
  define s3 where "s3 = set_prod i (PUnlock AfterPush)
    (s2\<lparr>rs_mem := set_head r (?h + word_of_nat (4 + length d)) (rs_mem s2), rs_pushed := rs_pushed s2 @ [d]\<rparr>)"
  note S = t_def u_def s1_def s2_def s3_def
  have "(prod_step r i)\<^sup>*\<^sup>* s t" unfolding t_def by (rule run_enter [OF i lock]) (use room in simp)
  moreover have "prod_step r i t u" unfolding u_def
    by (rule load_tail_room) (use n room room_iff [OF h, of d] in \<open>simp_all add: t_def\<close>)
  moreover have "prod_step r i u s1" unfolding s1_def by (rule write_len) (use n in \<open>simp add: S\<close>)
  moreover have "prod_step r i s1 s2" unfolding s2_def by (rule write_body) (use n in \<open>simp add: S\<close>)
  moreover have "prod_step r i s2 s3" unfolding s3_def by (rule store_head [where b = False]) (use n in \<open>simp add: S\<close>)
  ultimately have "(prod_step r i)\<^sup>*\<^sup>* s s3" by (meson rtranclp.rtrancl_into_rtrancl)
  moreover have "push_locked r d (set_prod_lock r 1 (rs_mem s)) = (True, rs_mem s3)"
    using room room_iff [OF h, of d] by (simp add: push_locked_def S)
  ultimately show ?thesis by (intro exI [of _ s3]) (use g in \<open>simp add: S\<close>)
qed

lemma run_count:
  assumes i: "prod_at s i (PUnlock AfterPush)" and g: "ring_geom r (rs_mem s)" and lock: "prod_lock r (rs_mem s) = 1"
    and cons: "rs_cons s = CIdle"
  shows "\<exists>s'. (prod_step r i)\<^sup>*\<^sup>* s s' \<and> rs_prods s' = (rs_prods s)[i := PIdle] \<and> prod_lock r (rs_mem s') = 0 \<and>
    rs_cons s' = CIdle \<and> rs_pushed s' = rs_pushed s \<and> rs_popped s' = rs_popped s \<and>
    rs_mem s' = (let m = unlock_producer r (rs_mem s) in set_data_seq r (data_seq r m + 1) m)"
proof -
  have n: "i < length (rs_prods s)" using i by (simp add: prod_at_def)
  define s4 where "s4 = set_prod i (resume AfterPush) (s\<lparr>rs_mem := set_prod_lock r 0 (rs_mem s), rs_owner := None\<rparr>)"
  define s5 where "s5 = set_prod i PWakeData
    (s4\<lparr>rs_mem := set_data_seq r (data_seq r (rs_mem s4) + 1) (rs_mem s4), rs_counted := rs_counted s4 + 1\<rparr>)"
  define s6 where "s6 = set_prod i PIdle
    (s5\<lparr>rs_cons := (case rs_cons s5 of CAsleep v \<Rightarrow> CTail (PopSpin (SPIN_LIMIT - 1)) | c \<Rightarrow> c)\<rparr>)"
  note S = s4_def s5_def s6_def
  have "prod_step r i s s4" unfolding s4_def by (rule unlock_quiet [OF i]) (use lock in simp)
  moreover have "prod_step r i s4 s5" unfolding s5_def by (rule count_push) (use n in \<open>simp add: s4_def\<close>)
  moreover have "prod_step r i s5 s6" unfolding s6_def by (rule wake_consumer) (use n in \<open>simp add: S\<close>)
  ultimately have "(prod_step r i)\<^sup>*\<^sup>* s s6" by (meson converse_rtranclp_into_rtranclp rtranclp.rtrancl_refl)
  then show ?thesis by (intro exI [of _ s6]) (use g cons in \<open>simp add: S unlock_producer_def Let_def\<close>)
qed

lemma run_push:
  assumes ok: "threads_ok r s" and i: "prod_at s i PIdle" and lock: "prod_lock r (rs_mem s) = 0" and cons: "rs_cons s = CIdle"
    and room: "records_size (in_flight s) + 4 + length d \<le> ring_cap r"
  shows "\<exists>s'. (prod_step r i)\<^sup>*\<^sup>* s s' \<and> rs_prods s' = rs_prods s \<and> prod_lock r (rs_mem s') = 0 \<and>
    rs_cons s' = CIdle \<and> rs_pushed s' = rs_pushed s @ [d] \<and> rs_popped s' = rs_popped s \<and>
    try_push r d es (rs_mem s) = Some (True, rs_mem s', es)"
proof -
  have h: "ring_holds r (rs_mem s) (in_flight s)" using ok data_okD(3) by (simp add: threads_ok_def)
  have idle: "(rs_prods s)[i := PIdle] = rs_prods s" using i list_update_id [of "rs_prods s" i] by (simp add: prod_at_def)
  from run_write [OF i lock h room] obtain u where u: "(prod_step r i)\<^sup>*\<^sup>* s u" "rs_prods u = (rs_prods s)[i := PUnlock AfterPush]"
    "prod_lock r (rs_mem u) = 1" "ring_geom r (rs_mem u)" "rs_cons u = CIdle" "rs_pushed u = rs_pushed s @ [d]" "rs_popped u = rs_popped s"
    "push_locked r d (set_prod_lock r 1 (rs_mem s)) = (True, rs_mem u)"
    using cons by auto
  have "prod_at u i (PUnlock AfterPush)" using u(2) i by (simp add: prod_at_def)
  from run_count [OF this u(4,3,5)] obtain s' where s': "(prod_step r i)\<^sup>*\<^sup>* u s'" "rs_prods s' = (rs_prods u)[i := PIdle]"
    "prod_lock r (rs_mem s') = 0" "rs_cons s' = CIdle" "rs_pushed s' = rs_pushed u" "rs_popped s' = rs_popped u"
    "rs_mem s' = (let m = unlock_producer r (rs_mem u) in set_data_seq r (data_seq r m + 1) m)" by blast
  from u(1) s'(1) have "(prod_step r i)\<^sup>*\<^sup>* s s'" by (rule rtranclp_trans)
  moreover have "try_push r d es (rs_mem s) = Some (True, rs_mem s', es)"
    using lock u(8) s'(7) by (simp add: try_push_def lock_producer_def Let_def)
  ultimately show ?thesis using s'(2-6) u(2-7) idle by (intro exI [of _ s']) simp
qed

lemma run_full:
  assumes ok: "threads_ok r s" and i: "prod_at s i PIdle" and lock: "prod_lock r (rs_mem s) = 0"
    and fits: "4 + length d \<le> ring_cap r" and full: "ring_cap r < records_size (in_flight s) + 4 + length d"
  shows "(prod_step r i)\<^sup>*\<^sup>* s (set_prod i (PFull d) (s\<lparr>rs_mem := set_prod_lock r 1 (rs_mem s), rs_owner := Some i\<rparr>))" (is "(prod_step r i)\<^sup>*\<^sup>* s ?u")
proof -
  have g: "ring_geom r (rs_mem s)" and h: "ring_holds r (rs_mem s) (in_flight s)"
    using ok data_okD [of r s "in_flight s"] by (simp_all add: threads_ok_def)
  have n: "i < length (rs_prods s)" using i by (simp add: prod_at_def)
  define t where "t = set_prod i (PTail d True (head r (rs_mem s))) (s\<lparr>rs_mem := set_prod_lock r 1 (rs_mem s), rs_owner := Some i\<rparr>)"
  have "(prod_step r i)\<^sup>*\<^sup>* s t" unfolding t_def by (rule run_enter [OF i lock fits])
  also have "prod_step r i t (set_prod i (no_room True d) t)"
    by (rule load_tail_full) (use n full room_iff [OF h, of d] in \<open>simp_all add: t_def\<close>)
  also have "set_prod i (no_room True d) t = ?u" by (simp add: t_def set_prod_def no_room_def)
  finally show ?thesis .
qed

lemma run_refuse:
  assumes i: "prod_at s i PIdle" and lock: "prod_lock r (rs_mem s) = 0" and h: "ring_holds r (rs_mem s) q"
    and full: "ring_cap r < records_size q + 4 + length d"
  shows "\<exists>s'. (prod_step r i)\<^sup>*\<^sup>* s s' \<and> prod_at s' i PIdle \<and> try_push r d es (rs_mem s) = Some (False, rs_mem s', es)"
proof -
  let ?s1 = "s\<lparr>rs_mem := set_prod_lock r 1 (rs_mem s), rs_owner := Some i\<rparr>"
  have n: "i < length (rs_prods s)" and g: "ring_geom r (rs_mem s)" using i h by (simp_all add: prod_at_def ring_holds_def)
  define t where "t = set_prod i (PUnlock AfterRefusal) ?s1"
  have st: "(prod_step r i)\<^sup>*\<^sup>* s t"
  proof (cases "4 + length d \<le> ring_cap r")
    case True
    let ?u = "set_prod i (PTail d False (head r (rs_mem s))) ?s1"
    have "prod_step r i ?u (set_prod i (no_room False d) ?u)"
      by (rule load_tail_full) (use n full room_iff [OF h, of d] in simp_all)
    moreover have "set_prod i (no_room False d) ?u = t" by (simp add: t_def set_prod_def no_room_def)
    ultimately show ?thesis using run_enter [OF i lock True, of False] by (metis rtranclp.rtrancl_into_rtrancl)
  next
    case False
    let ?u = "set_prod i (PHead d False) ?s1"
    have "prod_step r i ?u (set_prod i (no_room False d) ?u)" by (rule never_fits) (use n False in simp_all)
    moreover have "set_prod i (no_room False d) ?u = t" by (simp add: t_def set_prod_def no_room_def)
    ultimately show ?thesis using run_lock [OF i lock, of d False] by (metis rtranclp.rtrancl_into_rtrancl)
  qed
  define s' where "s' = set_prod i (resume AfterRefusal) (t\<lparr>rs_mem := set_prod_lock r 0 (rs_mem t), rs_owner := None\<rparr>)"
  have "prod_step r i t s'" unfolding s'_def by (rule unlock_quiet) (use n g in \<open>simp_all add: t_def\<close>)
  with st have "(prod_step r i)\<^sup>*\<^sup>* s s'" by (rule rtranclp.rtrancl_into_rtrancl)
  moreover have "push_locked r d (set_prod_lock r 1 (rs_mem s)) = (False, set_prod_lock r 1 (rs_mem s))"
    using full room_iff [OF h, of d] by (simp add: push_locked_def Let_def)
  ultimately show ?thesis using n lock
    by (intro exI [of _ s']) (simp add: s'_def t_def try_push_def lock_producer_def unlock_producer_def Let_def)
qed

text \<open>A producer that found no room, with the lock to itself, goes to sleep on the space sequence it then finds.\<close>

lemma run_sleep:
  assumes i: "prod_at s i (PFull d)" and lock: "prod_lock r (rs_mem s) = 1"
  shows "(prod_step r i)\<^sup>*\<^sup>* s (set_prod i (PSpaceAsleep d (space_seq r (rs_mem s)))
    (s\<lparr>rs_mem := set_prod_lock r 0 (rs_mem s), rs_owner := None\<rparr>))" (is "(prod_step r i)\<^sup>*\<^sup>* s ?u")
proof -
  let ?v = "space_seq r (rs_mem s)"
  have n: "i < length (rs_prods s)" using i by (simp add: prod_at_def)
  define t1 where "t1 = set_prod i (PUnlock (AfterFull d ?v)) s"
  define t2 where "t2 = set_prod i (resume (AfterFull d ?v)) (t1\<lparr>rs_mem := set_prod_lock r 0 (rs_mem t1), rs_owner := None\<rparr>)"
  have "prod_step r i s t1" unfolding t1_def by (rule load_space [OF i])
  moreover have "prod_step r i t1 t2" unfolding t2_def by (rule unlock_quiet) (use n lock in \<open>simp_all add: t1_def\<close>)
  moreover have "prod_step r i t2 (set_prod i (PSpaceAsleep d ?v) t2)"
    by (rule space_sleep) (use n in \<open>simp_all add: t2_def t1_def futex_wait_def\<close>)
  moreover have "set_prod i (PSpaceAsleep d ?v) t2 = ?u" by (simp add: t2_def t1_def set_prod_def)
  ultimately show ?thesis by (metis converse_rtranclp_into_rtranclp rtranclp.rtrancl_refl)
qed

text \<open>The consumer alone, on a ring with a record, and on an empty one.\<close>

lemma run_pop:
  assumes ok: "threads_ok r s" and cons: "rs_cons s = CIdle" and q: "in_flight s = d # q"
  shows "\<exists>s'. (cons_step r)\<^sup>*\<^sup>* s s' \<and> futex_wake (2 ^ 31 - 1) space_asleep rouse_space (rs_prods s) (rs_prods s') \<and> prod_lock r (rs_mem s') = prod_lock r (rs_mem s) \<and>
    rs_cons s' = CIdle \<and> rs_pushed s' = rs_pushed s \<and> rs_popped s' = rs_popped s @ [d] \<and> rs_owner s' = rs_owner s \<and>
    try_pop r (rs_mem s) = (Some d, rs_mem s')"
proof -
  let ?t = "tail r (rs_mem s)"
  have h: "ring_holds r (rs_mem s) (d # q)" using ok data_okD(3) q by (metis threads_ok_def)
  note pop = ring_holds_pop [OF h]
  have ne: "head r (rs_mem s) \<noteq> ?t" using ring_holds_used [OF h] by (auto simp: ring_used_def)
  define s1 where "s1 = s\<lparr>rs_cons := CTail PopOnce\<rparr>"
  define s2 where "s2 = s\<lparr>rs_cons := CHead PopOnce ?t\<rparr>"
  define s3 where "s3 = s\<lparr>rs_cons := CLen ?t\<rparr>"
  define s4 where "s4 = s\<lparr>rs_cons := CBody ?t (length d)\<rparr>"
  define s5 where "s5 = s\<lparr>rs_cons := CStore ?t (length d) d\<rparr>"
  define s6 where "s6 = s\<lparr>rs_mem := set_tail r (?t + 4 + word_of_nat (length d)) (rs_mem s), rs_cons := CSpace d, rs_popped := rs_popped s @ [d]\<rparr>"
  define s7 where "s7 = s6\<lparr>rs_mem := set_space_seq r (space_seq r (rs_mem s6) + 1) (rs_mem s6), rs_cons := CWake d\<rparr>"
  obtain ps where wake: "futex_wake (2 ^ 31 - 1) space_asleep rouse_space (rs_prods s) ps" using futex_wake_ex by blast
  define s8 where "s8 = s7\<lparr>rs_prods := ps, rs_cons := CIdle\<rparr>"
  have "cons_step r s s1" unfolding s1_def by (rule pop_once [OF cons])
  moreover have "cons_step r s1 s2" using load_tail [of s1 PopOnce r] by (simp add: s1_def s2_def)
  moreover have "cons_step r s2 s3" using found_some [of s2 PopOnce ?t r] ne by (simp add: s2_def s3_def)
  moreover have "cons_step r s3 s4" using read_len [of s3 ?t r] pop(1) by (simp add: s3_def s4_def)
  moreover have "cons_step r s4 s5" using read_body [of s4 ?t "length d" r] pop(2) by (simp add: s4_def s5_def)
  moreover have "cons_step r s5 s6" using store_tail [of s5 ?t "length d" d r] by (simp add: s5_def s6_def)
  moreover have "cons_step r s6 s7" unfolding s7_def by (rule count_pop) (simp add: s6_def)
  moreover have "cons_step r s7 s8" unfolding s8_def
    by (rule wake_producers) (use wake in \<open>simp_all add: s7_def s6_def\<close>)
  ultimately have "(cons_step r)\<^sup>*\<^sup>* s s8"
    by (meson converse_rtranclp_into_rtranclp rtranclp.rtrancl_refl)
  moreover have "try_pop r (rs_mem s) = (Some d, rs_mem s8)"
    unfolding try_pop_def Let_def pop(1) pop(2) using ne by (simp add: s8_def s7_def s6_def)
  ultimately show ?thesis using wake by (intro exI [of _ s8]) (simp add: s8_def s7_def s6_def)
qed

lemma run_pop_empty:
  assumes cons: "rs_cons s = CIdle" and h: "ring_holds r (rs_mem s) []"
  shows "(cons_step r)\<^sup>*\<^sup>* s (s\<lparr>rs_cons := CIdle\<rparr>) \<and> try_pop r (rs_mem s) = (None, rs_mem s)"
proof
  let ?a = "s\<lparr>rs_cons := CTail PopOnce\<rparr>" and ?b = "s\<lparr>rs_cons := CHead PopOnce (tail r (rs_mem s))\<rparr>"
  have "head r (rs_mem s) = tail r (rs_mem s)" using ring_holds_used [OF h] by (simp add: ring_used_def unat_eq_zero)
  then have "cons_step r ?b (s\<lparr>rs_cons := CIdle\<rparr>)" using found_empty [of ?b PopOnce "tail r (rs_mem s)" r] by simp
  moreover have "cons_step r s ?a" by (rule pop_once [OF cons])
  moreover have "cons_step r ?a ?b" using load_tail [of ?a PopOnce r] by simp
  ultimately show "(cons_step r)\<^sup>*\<^sup>* s (s\<lparr>rs_cons := CIdle\<rparr>)"
    by (meson converse_rtranclp_into_rtranclp rtranclp.rtrancl_refl)
qed (rule try_pop_empty [OF h])

section \<open>Properties of the concurrent ring\<close>

lemma reach_prod_steps:
  "(prod_step r i)\<^sup>*\<^sup>* s s' \<Longrightarrow> reach (ring_init r) (ring_step r) s \<Longrightarrow> reach (ring_init r) (ring_step r) s'"
  by (induction rule: rtranclp_induct) (auto intro: reach_step by_producer)

lemma reach_cons_steps:
  "(cons_step r)\<^sup>*\<^sup>* s s' \<Longrightarrow> reach (ring_init r) (ring_step r) s \<Longrightarrow> reach (ring_init r) (ring_step r) s'"
  by (induction rule: rtranclp_induct) (auto intro: reach_step by_consumer)

text \<open>A ring of 16 bytes with two producers.\<close>

definition demo_threads :: ring_state where
  "demo_threads = \<lparr>rs_mem = demo_mem, rs_prods = [PIdle, PIdle], rs_cons = CIdle, rs_owner = None, rs_pushed = [],
     rs_popped = [], rs_counted = 0\<rparr>"

lemma demo_threads_init: "ring_init demo_ring demo_threads"
  using demo_holds by (simp add: ring_init_def demo_threads_def demo_ring_def)

lemma demo_threads_pushed:
  "\<exists>s. reach (ring_init demo_ring) (ring_step demo_ring) s \<and> rs_pushed s = [[7, 8]] \<and> rs_popped s = [] \<and>
     rs_prods s = [PIdle, PIdle] \<and> rs_cons s = CIdle"
proof -
  have ok: "threads_ok demo_ring demo_threads" by (rule ring_init_ok [OF demo_threads_init])
  have "prod_at demo_threads 1 PIdle" "prod_lock demo_ring (rs_mem demo_threads) = 0" "rs_cons demo_threads = CIdle"
    "records_size (in_flight demo_threads) + 4 + length [7, 8 :: u8] \<le> ring_cap demo_ring"
    using demo_holds by (simp_all add: demo_threads_def prod_at_def in_flight_def demo_ring_def)
  from run_push [OF ok this] obtain s where s: "(prod_step demo_ring 1)\<^sup>*\<^sup>* demo_threads s" "rs_prods s = rs_prods demo_threads"
    "rs_cons s = CIdle" "rs_pushed s = rs_pushed demo_threads @ [[7, 8]]" "rs_popped s = rs_popped demo_threads" by blast
  have "reach (ring_init demo_ring) (ring_step demo_ring) s"
    by (rule reach_prod_steps [OF s(1) reach_init]) (rule demo_threads_init)
  with s show ?thesis by (intro exI [of _ s]) (simp add: demo_threads_def)
qed

text \<open>C2: First in, first out under concurrency. In every interleaving of any number of producers, pushing
  blocking or not, with the consumer, at every moment: the records taken so far, byte for byte, followed by the
  records that the memory of the ring holds, are the records stored so far, in the order in which the producers
  moved \<^verbatim>\<open>head\<close>. The ring is well formed even while a producer is in the middle of writing a record, and
  never holds more than its capacity.\<close>

theorem ring_threads_fifo:
  assumes "reach (ring_init r) (ring_step r) s"
  shows "rs_pushed s = rs_popped s @ ring_list r (rs_mem s) \<and> ring_inv r (rs_mem s) \<and>
    records_size (ring_list r (rs_mem s)) \<le> ring_cap r"
proof -
  have "data_ok r s (in_flight s)" using threads.inv_reach [OF assms] by (simp add: threads_ok_def)
  note D = data_okD [OF this]
  show ?thesis using D(2,3) ring_holdsD [OF D(3)] ring_holds_used [OF D(3)] by (simp add: ring_holds_def)
qed

theorem ring_threads_fifo_witness:
  "\<exists>s. reach (ring_init demo_ring) (ring_step demo_ring) s \<and> ring_list demo_ring (rs_mem s) = [[7, 8]]"
  using demo_threads_pushed ring_threads_fifo [of demo_ring] by fastforce

text \<open>C10: The producers' futex mutex excludes. In every reachable state the lock word is 0 exactly when no producer
  is between taking the lock and giving it back, and two producers are never both there. No producer stays asleep
  for want of a wake-up: while one sleeps on the lock, either the word says that there are waiters, so whoever holds
  the lock will wake one, or some producer is about to wake one or to take the lock or mark it again.\<close>

theorem producer_lock_excludes:
  assumes "reach (ring_init r) (ring_step r) s"
  shows "(prod_lock r (rs_mem s) = 0 \<longleftrightarrow> (\<forall>p \<in> set (rs_prods s). \<not> holding p)) \<and>
    (\<forall>i j. i < length (rs_prods s) \<longrightarrow> j < length (rs_prods s) \<longrightarrow>
       holding (rs_prods s ! i) \<longrightarrow> holding (rs_prods s ! j) \<longrightarrow> i = j) \<and>
    ((\<exists>p \<in> set (rs_prods s). lock_asleep p) \<longrightarrow>
       prod_lock r (rs_mem s) = 2 \<or> (\<exists>p \<in> set (rs_prods s). retrying p))"
proof -
  have own: "owner_ok r s" and sl: "sleepers_ok r s" using threads.inv_reach [OF assms] by (simp_all add: threads_ok_def)
  have "prod_lock r (rs_mem s) = 0 \<longleftrightarrow> (\<forall>p \<in> set (rs_prods s). \<not> holding p)"
    using own unfolding owner_ok_def by (metis in_set_conv_nth not_None_eq)
  moreover have "i = j" if "i < length (rs_prods s)" "j < length (rs_prods s)" "holding (rs_prods s ! i)" "holding (rs_prods s ! j)" for i j
    using own that unfolding owner_ok_def by (metis option.inject)
  moreover have "prod_lock r (rs_mem s) = 2 \<or> (\<exists>p \<in> set (rs_prods s). retrying p)" if "\<exists>p \<in> set (rs_prods s). lock_asleep p"
    using sl that unfolding sleepers_ok_def by (metis in_set_conv_nth nth_mem)
  ultimately show ?thesis by blast
qed

theorem producer_lock_excludes_witness:
  "\<exists>s. reach (ring_init demo_ring) (ring_step demo_ring) s \<and> rs_pushed s = [[7, 8]] \<and> prod_lock demo_ring (rs_mem s) = 0"
  using demo_threads_pushed producer_lock_excludes [of demo_ring] by fastforce

text \<open>The consumer alone, on an empty ring: it spins, takes note of the data sequence, looks once more and sleeps.\<close>

lemma run_spin:
  assumes "rs_cons s = CTail (PopSpin k)" "head r (rs_mem s) = tail r (rs_mem s)"
  shows "(cons_step r)\<^sup>*\<^sup>* s (s\<lparr>rs_cons := CSeen\<rparr>)"
  using assms
proof (induction k arbitrary: s)
  case 0
  let ?t = "s\<lparr>rs_cons := CHead (PopSpin 0) (tail r (rs_mem s))\<rparr>"
  have "cons_step r s ?t" by (rule load_tail [OF 0(1)])
  moreover have "cons_step r ?t (?t\<lparr>rs_cons := found_nothing (PopSpin 0)\<rparr>)" by (rule found_empty) (use 0 in simp_all)
  ultimately show ?case by (simp add: converse_rtranclp_into_rtranclp)
next
  case (Suc k)
  let ?t = "s\<lparr>rs_cons := CHead (PopSpin (Suc k)) (tail r (rs_mem s))\<rparr>"
  let ?u = "s\<lparr>rs_cons := CTail (PopSpin k)\<rparr>"
  have "cons_step r s ?t" by (rule load_tail [OF Suc.prems(1)])
  moreover have "cons_step r ?t ?u" using found_empty [of ?t "PopSpin (Suc k)" "tail r (rs_mem s)" r] Suc.prems by simp
  moreover have "(cons_step r)\<^sup>*\<^sup>* ?u (s\<lparr>rs_cons := CSeen\<rparr>)" using Suc.IH [of ?u] Suc.prems by simp
  ultimately show ?case by (meson converse_rtranclp_into_rtranclp)
qed

lemma run_doze:
  assumes "rs_cons s = CIdle" "head r (rs_mem s) = tail r (rs_mem s)"
  shows "(cons_step r)\<^sup>*\<^sup>* s (s\<lparr>rs_counted := 0, rs_cons := CAsleep (data_seq r (rs_mem s))\<rparr>)"
proof -
  let ?v = "data_seq r (rs_mem s)"
  let ?a = "s\<lparr>rs_cons := CTail (PopSpin (SPIN_LIMIT - 1))\<rparr>" and ?b = "s\<lparr>rs_cons := CSeen\<rparr>"
  let ?c = "s\<lparr>rs_counted := 0, rs_cons := CTail (PopLast ?v)\<rparr>"
  let ?d = "s\<lparr>rs_counted := 0, rs_cons := CHead (PopLast ?v) (tail r (rs_mem s))\<rparr>"
  let ?e = "s\<lparr>rs_counted := 0, rs_cons := CWait ?v\<rparr>" and ?f = "s\<lparr>rs_counted := 0, rs_cons := CAsleep ?v\<rparr>"
  have "cons_step r s ?a" by (rule pop_spin [OF assms(1)])
  moreover have "(cons_step r)\<^sup>*\<^sup>* ?a ?b" using run_spin [of ?a _ r] assms(2) by simp
  moreover have "cons_step r ?b ?c" using load_seq [of ?b r] by simp
  moreover have "cons_step r ?c ?d" using load_tail [of ?c "PopLast ?v" r] by simp
  moreover have "cons_step r ?d ?e" using found_empty [of ?d "PopLast ?v" "tail r (rs_mem s)" r] assms(2) by simp
  moreover have "cons_step r ?e ?f" using data_sleep [of ?e ?v r] by (simp add: futex_wait_def)
  ultimately show ?thesis by (meson converse_rtranclp_into_rtranclp rtranclp.rtrancl_refl rtranclp_trans)
qed

lemma demo_threads_asleep:
  "\<exists>s. reach (ring_init demo_ring) (ring_step demo_ring) s \<and> cons_asleep (rs_cons s) \<and> rs_pushed s = [[7, 8]] \<and> rs_popped s = []"
proof -
  let ?s = "demo_threads\<lparr>rs_counted := 0, rs_cons := CAsleep (data_seq demo_ring (rs_mem demo_threads))\<rparr>"
  have h: "ring_holds demo_ring (rs_mem demo_threads) []" using demo_holds by (simp add: demo_threads_def)
  have e: "head demo_ring (rs_mem demo_threads) = tail demo_ring (rs_mem demo_threads)"
    using ring_holds_used [OF h] by (simp add: ring_used_def unat_eq_zero)
  have a: "(cons_step demo_ring)\<^sup>*\<^sup>* demo_threads ?s" by (rule run_doze [OF _ e]) (simp add: demo_threads_def)
  have "prod_at ?s 0 PIdle" "prod_lock demo_ring (rs_mem ?s) = 0" "ring_holds demo_ring (rs_mem ?s) []"
    "records_size [] + 4 + length [7, 8 :: u8] \<le> ring_cap demo_ring"
    using demo_holds by (simp_all add: demo_threads_def prod_at_def demo_ring_def)
  from run_write [OF this] obtain u where u: "(prod_step demo_ring 0)\<^sup>*\<^sup>* ?s u" "rs_cons u = rs_cons ?s"
    "rs_pushed u = rs_pushed ?s @ [[7, 8]]" "rs_popped u = rs_popped ?s" by blast
  have "reach (ring_init demo_ring) (ring_step demo_ring) u"
    by (rule reach_prod_steps [OF u(1) reach_cons_steps [OF a reach_init]]) (rule demo_threads_init)
  with u show ?thesis by (intro exI [of _ u]) (simp add: demo_threads_def)
qed

text \<open>C3: The consumer never sleeps on a record. Whenever, in any interleaving, the consumer is asleep in the kernel
  while the ring holds a record, some producer has stored its record and is still in that push, before the wake-up:
  no step of anyone else takes it from there, and by its own steps, whichever they are and waiting for nobody, it
  wakes the consumer before it returns, without starting another push. The store of \<^verbatim>\<open>head\<close>, the
  count in \<^verbatim>\<open>data_seq\<close>, the consumer's last look between reading \<^verbatim>\<open>data_seq\<close> and the kernel's comparison leave no gap,
  and no wrap of the 32-bit sequence hides a push.\<close>

theorem consumer_never_oversleeps:
  assumes "reach (ring_init r) (ring_step r) s" "cons_asleep (rs_cons s)" "ring_list r (rs_mem s) \<noteq> []"
  shows "\<exists>i p. prod_at s i p \<and> waking p \<and> bound_to_wake r i s \<and>
    (\<forall>t j. prod_step r j s t \<and> j \<noteq> i \<or> cons_step r s t \<longrightarrow> prod_at t i p)"
proof -
  have ok: "threads_ok r s" by (rule threads.inv_reach [OF assms(1)])
  then have "in_flight s = ring_list r (rs_mem s)" using data_okD(3) ring_holds_list by (metis threads_ok_def)
  with sleeper_woken [OF ok assms(2)] assms(3) obtain i p where "prod_at s i p" "waking p" by auto
  then show ?thesis using waking_bound waking_undisturbed by blast
qed

theorem consumer_never_oversleeps_witness:
  "\<exists>s i p. rs_pushed s = [[7, 8]] \<and> cons_asleep (rs_cons s) \<and> prod_at s i p \<and> waking p \<and> bound_to_wake demo_ring i s"
proof -
  obtain s where s: "reach (ring_init demo_ring) (ring_step demo_ring) s" "cons_asleep (rs_cons s)" "rs_pushed s = [[7, 8]]" "rs_popped s = []"
    using demo_threads_asleep by blast
  have "data_ok demo_ring s (in_flight s)" using threads.inv_reach [OF s(1)] by (simp add: threads_ok_def)
  then have "ring_list demo_ring (rs_mem s) \<noteq> []" using data_okD(3) ring_holds_list s(3,4) by (fastforce simp: in_flight_def)
  from consumer_never_oversleeps [OF s(1,2) this] s show ?thesis by blast
qed

lemma full_then_asleep:
  assumes r1: "reach (ring_init r) (ring_step r) s" and lock: "prod_lock r (rs_mem s) = 0" and cons: "rs_cons s = CIdle"
    and idle: "\<forall>j < length (rs_prods s). rs_prods s ! j = PIdle" and i: "i < length (rs_prods s)"
    and q: "in_flight s = [d1]" and fits: "4 + length d2 \<le> ring_cap r" and full: "ring_cap r < 8 + length d1 + length d2"
  shows "\<exists>s seen. reach (ring_init r) (ring_step r) s \<and> prod_at s i (PSpaceAsleep d2 seen) \<and> space_seq r (rs_mem s) = seen \<and>
    ring_list r (rs_mem s) = [] \<and> rs_cons s = CIdle \<and> (\<forall>j < length (rs_prods s). j \<noteq> i \<longrightarrow> rs_prods s ! j = PIdle)"
proof -
  note ok = threads.inv_reach
  have g: "ring_geom r (rs_mem s)" using ok [OF r1] by (simp add: threads_ok_def owner_ok_def)
  have at: "prod_at s i PIdle" using idle i by (simp add: prod_at_def)
  define s2 where "s2 = set_prod i (PFull d2) (s\<lparr>rs_mem := set_prod_lock r 1 (rs_mem s), rs_owner := Some i\<rparr>)"
  have "(prod_step r i)\<^sup>*\<^sup>* s s2" unfolding s2_def
    by (rule run_full [OF ok [OF r1] at lock fits]) (use q full in simp)
  then have r2: "reach (ring_init r) (ring_step r) s2" using r1 by (rule reach_prod_steps)
  have "rs_cons s2 = CIdle" "in_flight s2 = d1 # []" using cons q by (simp_all add: s2_def)
  then obtain s3 where s3: "(cons_step r)\<^sup>*\<^sup>* s2 s3" "futex_wake (2 ^ 31 - 1) space_asleep rouse_space (rs_prods s2) (rs_prods s3)" "prod_lock r (rs_mem s3) = prod_lock r (rs_mem s2)"
    "rs_cons s3 = CIdle" "rs_pushed s3 = rs_pushed s2" "rs_popped s3 = rs_popped s2 @ [d1]"
    using run_pop [OF ok [OF r2]] by blast
  have "\<forall>p \<in> set (rs_prods s2). \<not> space_asleep p"
    using idle i by (auto simp: s2_def in_set_conv_nth nth_list_update split: if_splits)
  with s3(2) have p3: "rs_prods s3 = rs_prods s2" by (rule futex_wake_none)
  have r3: "reach (ring_init r) (ring_step r) s3" by (rule reach_cons_steps [OF s3(1) r2])
  define s4 where "s4 = set_prod i (PSpaceAsleep d2 (space_seq r (rs_mem s3))) (s3\<lparr>rs_mem := set_prod_lock r 0 (rs_mem s3), rs_owner := None\<rparr>)"
  have "(prod_step r i)\<^sup>*\<^sup>* s3 s4" unfolding s4_def
    by (rule run_sleep) (use p3 s3(3) i g in \<open>simp_all add: s2_def prod_at_def\<close>)
  then have r4: "reach (ring_init r) (ring_step r) s4" using r3 by (rule reach_prod_steps)
  have "length (rs_pushed s) - length (rs_popped s) = 1" using q by (metis in_flight_def length_drop length_Cons list.size(3) One_nat_def)
  then have "in_flight s4 = []" using s3(5,6) by (simp add: s4_def in_flight_def s2_def)
  then have "ring_list r (rs_mem s4) = []" using ok [OF r4] data_okD(3) ring_holds_list by (metis threads_ok_def)
  with r4 p3 s3(4) i idle show ?thesis
    by (intro exI [of _ s4] exI [of _ "space_seq r (rs_mem s3)"]) (auto simp: s4_def s2_def nth_list_update prod_at_def)
qed

text \<open>C36: A blocked producer can miss its wake-up. Because \<^verbatim>\<open>push_blocking\<close> reads \<^verbatim>\<open>space_seq\<close> only after
  \<^verbatim>\<open>push_locked\<close> has found no room, the consumer can free the space, count it and wake in between. For every ring,
  and any two records that fit one by one but not together, a state is reachable in which the ring is empty, the
  consumer has gone back to its caller, every other producer is outside, and the producer is asleep waiting
  for space with nobody left to wake it: it comes back only by its time-out.\<close>

theorem space_wakeup_lost:
  fixes d1 d2 :: bytes
  assumes "ring_init r s0" "i < length (rs_prods s0)" "4 + length d1 \<le> ring_cap r" "4 + length d2 \<le> ring_cap r"
    and "ring_cap r < 8 + length d1 + length d2"
  shows "\<exists>s seen. reach (ring_init r) (ring_step r) s \<and> prod_at s i (PSpaceAsleep d2 seen) \<and> space_seq r (rs_mem s) = seen \<and>
    ring_list r (rs_mem s) = [] \<and> rs_cons s = CIdle \<and> (\<forall>j < length (rs_prods s). j \<noteq> i \<longrightarrow> rs_prods s ! j = PIdle)"
proof -
  have idle: "\<forall>j < length (rs_prods s0). rs_prods s0 ! j = PIdle"
    using assms(1) by (simp add: ring_init_def list_all_length)
  have r0: "reach (ring_init r) (ring_step r) s0" using assms(1) by (rule reach_init)
  have "prod_at s0 i PIdle" "prod_lock r (rs_mem s0) = 0" "rs_cons s0 = CIdle" "records_size (in_flight s0) + 4 + length d1 \<le> ring_cap r"
    using assms(1-3) idle by (simp_all add: ring_init_def prod_at_def in_flight_def)
  from run_push [OF threads.inv_reach [OF r0] this] obtain s1 where s1: "(prod_step r i)\<^sup>*\<^sup>* s0 s1" "rs_prods s1 = rs_prods s0"
    "prod_lock r (rs_mem s1) = 0" "rs_cons s1 = CIdle" "rs_pushed s1 = rs_pushed s0 @ [d1]" "rs_popped s1 = rs_popped s0" by blast
  have "in_flight s1 = [d1]" using s1 assms(1) by (simp add: in_flight_def ring_init_def)
  with full_then_asleep [OF reach_prod_steps [OF s1(1) r0] s1(3,4)] show ?thesis using idle assms(2,4,5) s1(2) by simp
qed

theorem space_wakeup_lost_witness:
  "\<exists>s seen. reach (ring_init demo_ring) (ring_step demo_ring) s \<and> prod_at s 1 (PSpaceAsleep [2] seen) \<and>
     ring_list demo_ring (rs_mem s) = [] \<and> rs_cons s = CIdle"
  using space_wakeup_lost [OF demo_threads_init, of 1 "replicate 12 1" "[2]"] by (auto simp: demo_threads_def demo_ring_def)



end
