(* ===== verification/Ring_Loop.thy ===== *)
theory Ring_Loop
  imports Ring_Broker_Props
begin

text \<open>
  The control loop comes back from every turn. What can hold it up is a ring whose lock is taken and never given
  back; here every ring is at rest whenever nobody uses it, and the loop is shown to take its messages one by one, in
  their order, and to sweep when a sweep is due.
\<close>

section \<open>Blocking operations among polite processes\<close>

text \<open>
  What another process does to a segment while the broker is parked: it uses the ring there through the ring's own
  operations, so it leaves the ring at rest and touches nothing else.
\<close>

definition polite :: "usize \<Rightarrow> (bytes \<Rightarrow> bytes) \<Rightarrow> bool" where
  "polite base e \<longleftrightarrow> (\<forall>r m. ring_attach (ring_seg r) base m = Inr r \<and> ring_idle r m \<longrightarrow>
     ring_idle r (e m) \<and> same_outside r m (e m))"

lemma ring_attach_base: "ring_attach sg base m = Inr r \<Longrightarrow> ring_base r = base \<and> ring_seg r = sg"
  by (auto simp: ring_attach_def Let_def split: if_splits)

lemma ring_attach_cap: "ring_attach sg base m = Inr r \<Longrightarrow> ring_cap r = unat (u32_at m (base + OFF_CAP))"
  by (auto simp: ring_attach_def Let_def split: if_splits)

lemma politeD:
  assumes "polite base e" "ring_attach (ring_seg r) base m = Inr r" "ring_idle r m"
  shows "ring_idle r (e m)" "same_outside r m (e m)" "ring_attach (ring_seg r) base (e m) = Inr r"
proof -
  show "ring_idle r (e m)" and s: "same_outside r m (e m)" using assms by (auto simp: polite_def)
  show "ring_attach (ring_seg r) base (e m) = Inr r"
    using ring_attach_same [OF s, of "ring_seg r"] ring_attach_base [OF assms(2)] assms(2) by simp
qed

lemma push_blocking_turn:
  assumes idle: "ring_idle r m"
  obtains (finished) ok m' where "push_blocking r d (Some n) es m = Some (ok, m', es)" "ring_idle r m'" "same_outside r m m'"
    | (parked) m' where "0 < n" "ring_idle r m'" "same_outside r m m'"
      "push_blocking r d (Some n) es m = (case es of [] \<Rightarrow> None | e # es' \<Rightarrow> push_blocking r d (Some (n - 1)) es' (e m'))"
proof -
  let ?m1 = "set_prod_lock r 1 m"
  have h: "ring_holds r m (ring_list r m)" "prod_lock r m = 0" using idle ring_idle_holds by (auto simp: ring_idle_def)
  then have h1: "ring_holds r ?m1 (ring_list r m)" by simp
  obtain ok m2 where p: "push_locked r d ?m1 = (ok, m2)" by fastforce
  let ?m3 = "set_prod_lock r 0 m2" and ?m4 = "set_data_seq r (data_seq r (set_prod_lock r 0 m2) + 1) (set_prod_lock r 0 m2)"
  have h2: "ring_holds r m2 (if ok then ring_list r m @ [d] else ring_list r m)" using push_locked_step(2) [OF h1, of d] p by simp
  then have g: "ring_geom r m2" by (rule ring_holds_geom)
  have "same_outside r ?m1 m2" using push_locked_frame [of r ?m1 d] h1 ring_holds_geom p by fastforce
  then have 3: "same_outside r m ?m3" using same_outside_trans same_outside_set(3) by blast
  have i3: "ring_idle r ?m3" using h2 g by (intro ring_idleI) simp_all
  have 4: "same_outside r m ?m4" using same_outside_trans [OF 3 same_outside_set(5)] .
  have i4: "ring_idle r ?m4" using h2 g by (intro ring_idleI) simp_all
  have eq: "push_blocking r d (Some n) es m = (if ok then Some (True, ?m4, es) else if n = 0 then Some (False, ?m3, es)
      else case es of [] \<Rightarrow> None | e # es' \<Rightarrow> push_blocking r d (Some (n - 1)) es' (e ?m3))"
    using h(2) p by (cases es) (simp_all add: push_blocking.simps [of r d "Some n"] lock_producer_def unlock_producer_def)
  show thesis
  proof (cases "ok \<or> n = 0")
    case True
    then show thesis using finished [of True ?m4] finished [of False ?m3] eq 3 4 i3 i4 by (cases ok) simp_all
  next
    case False
    then show thesis using parked [of ?m3] eq 3 i3 by simp
  qed
qed

lemma push_blocking_polite:
  assumes "ring_idle r m" "ring_attach (ring_seg r) base m = Inr r" "\<forall>e \<in> set es. polite base e" "n \<le> length es"
  shows "\<exists>ok m' es'. push_blocking r d (Some n) es m = Some (ok, m', es') \<and> ring_idle r m' \<and> same_outside r m m'"
  using assms
proof (induction es arbitrary: n m)
  case Nil
  show ?case using Nil.prems(1) by (cases rule: push_blocking_turn [where d = d and n = n and es = "[]"]) (use Nil in auto)
next
  case (Cons e es)
  show ?case using Cons.prems(1)
  proof (cases rule: push_blocking_turn [where d = d and n = n and es = "e # es"])
    case (parked m')
    have base: "ring_base r = base" using ring_attach_base [OF Cons.prems(2)] by simp
    have "ring_attach (ring_seg r) base m' = Inr r" using ring_attach_same [OF parked(3), of "ring_seg r"] base Cons.prems(2) by simp
    note e = politeD [OF _ this parked(2), of e]
    have "n - 1 \<le> length es" "polite base e" "\<forall>e \<in> set es. polite base e" using Cons.prems(3,4) by simp_all
    then obtain ok m2 es' where "push_blocking r d (Some (n - 1)) es (e m') = Some (ok, m2, es')" "ring_idle r m2" "same_outside r (e m') m2"
      using Cons.IH [of "e m'" "n - 1"] e by blast
    moreover have "same_outside r m m2"
      using same_outside_trans [OF parked(3)] same_outside_trans [OF e(2)] calculation(3) Cons.prems(3) by simp
    ultimately show ?thesis using parked(4) by simp
  qed blast
qed

text \<open>A pop that finds a record takes the oldest; one that finds none parks, and goes on with what the others left.\<close>

lemma pop_blocking_polite:
  assumes "ring_idle r m" "ring_attach (ring_seg r) base m = Inr r" "\<forall>e \<in> set es. polite base e" "n \<le> length es"
  shows "\<exists>v m' es'. pop_blocking r (Some n) es m = Some (v, m', es') \<and> ring_idle r m' \<and> same_outside r m m' \<and>
    (\<forall>d q. ring_list r m = d # q \<longrightarrow> v = Some d \<and> ring_list r m' = q)"
  using assms
proof (induction es arbitrary: n m)
  case Nil
  have "\<forall>e \<in> set []. \<forall>m. ring_idle r m \<longrightarrow> ring_idle r (e m)" by simp
  from pop_blocking_done [OF Nil.prems(1) this Nil.prems(4)]
  obtain v m' es' where p: "pop_blocking r (Some n) [] m = Some (v, m', es')" "ring_idle r m'"
    "\<forall>d q. ring_list r m = d # q \<longrightarrow> v = Some d \<and> ring_list r m' = q" by blast
  with pop_blocking_frame [OF p(1)] show ?case by blast
next
  case (Cons e es)
  show ?case
  proof (cases "ring_list r m = [] \<and> 0 < n")
    case True
    then have "ring_holds r m []" using Cons.prems(1) ring_idle_holds by metis
    then have eq: "pop_blocking r (Some n) (e # es) m = pop_blocking r (Some (n - 1)) es (e m)"
      using True by (subst pop_blocking.simps) (simp add: spin_pop_empty try_pop_empty)
    note e = politeD [OF _ Cons.prems(2,1), of e]
    have "n - 1 \<le> length es" "polite base e" "\<forall>e \<in> set es. polite base e" using Cons.prems(3,4) by simp_all
    then obtain v m2 es' where "pop_blocking r (Some (n - 1)) es (e m) = Some (v, m2, es')" "ring_idle r m2" "same_outside r (e m) m2"
      using Cons.IH [of "e m" "n - 1"] e by blast
    moreover have "same_outside r m m2" using same_outside_trans [OF e(2)] calculation(3) Cons.prems(3) by simp
    ultimately show ?thesis using eq True by simp
  next
    case False
    have "\<exists>v m'. pop_blocking r (Some n) (e # es) m = Some (v, m', e # es) \<and> pop_blocking r (Some n) [] m = Some (v, m', [])"
    proof (cases "ring_list r m")
      case Nil
      with Cons.prems(1) have "ring_holds r m []" using ring_idle_holds by metis
      with False Nil show ?thesis by (simp add: pop_blocking.simps [of r "Some 0"] spin_pop_empty try_pop_empty)
    next
      case (Cons d q)
      with \<open>ring_idle r m\<close> have "ring_holds r m (d # q)" using ring_idle_holds by metis
      then show ?thesis by (simp add: pop_blocking.simps [of r "Some n"] spin_pop_nonempty SPIN_LIMIT_def)
    qed
    then obtain v m' where p: "pop_blocking r (Some n) (e # es) m = Some (v, m', e # es)" "pop_blocking r (Some n) [] m = Some (v, m', [])"
      by blast
    have "same_outside r m m'" by (rule pop_blocking_frame [OF p(2)])
    moreover have "ring_idle r m' \<and> (\<forall>d q. ring_list r m = d # q \<longrightarrow> v = Some d \<and> ring_list r m' = q)"
    proof (cases "ring_list r m")
      case Nil
      with Cons.prems(1) have "ring_holds r m []" using ring_idle_holds by metis
      with p(2) False Nil Cons.prems(1) show ?thesis by (simp add: pop_blocking.simps [of r "Some 0"] spin_pop_empty try_pop_empty)
    next
      case (Cons d q)
      with \<open>ring_idle r m\<close> have "ring_holds r m (d # q)" using ring_idle_holds by metis
      with p(2) Cons \<open>ring_idle r m\<close> rq.pop_invar [of r m] rq.pop_contents [of r m] show ?thesis
        by (simp add: pop_blocking.simps [of r "Some n"] spin_pop_nonempty SPIN_LIMIT_def)
    qed
    ultimately show ?thesis using p(1) by blast
  qed
qed

section \<open>Memory at rest\<close>

text \<open>
  A segment at rest: whoever attaches to a ring at its beginning finds it well formed and its lock free. And what the
  broker holds: its submission ring and the reply rings, each at rest in an object of its own kind.
\<close>

definition mem_calm :: "bytes \<Rightarrow> bool" where
  "mem_calm m \<longleftrightarrow> (\<forall>sg r. ring_attach sg 0 m = Inr r \<and> seg_len sg = length m \<longrightarrow> ring_idle r m)"

definition shm_calm :: "shm \<Rightarrow> bool" where
  "shm_calm w \<longleftrightarrow> (\<forall>ob < shm_next w. mem_calm (shm_obj w ob))"

definition reply_ring_ok :: "shm \<Rightarrow> ring \<Rightarrow> bool" where
  "reply_ring_ok w r \<longleftrightarrow> ring_attach (ring_seg r) 0 (ring_mem r w) = Inr r \<and> seg_len (ring_seg r) = length (ring_mem r w) \<and>
     seg_ptr (ring_seg r) < shm_next w"

definition sub_ring_ok :: "shm \<Rightarrow> ring \<Rightarrow> bool" where
  "sub_ring_ok w r \<longleftrightarrow> ring_attach (ring_seg r) SUBMISSION_BASE (ring_mem r w) = Inr r \<and> ring_idle r (ring_mem r w) \<and>
     u32_at (ring_mem r w) OFF_MAGIC \<noteq> MAGIC \<and> seg_ptr (ring_seg r) < shm_next w"

definition loop_calm :: "broker \<Rightarrow> shm \<Rightarrow> bool" where
  "loop_calm b w \<longleftrightarrow> sub_ring_ok w (br_submission b) \<and> shm_calm w \<and>
     (\<forall>i r. hm_get (br_reply_rings b) i = Some r \<longrightarrow> reply_ring_ok w r)"

lemma loop_calm_same:
  "br_submission b' = br_submission b \<Longrightarrow> br_reply_rings b' = br_reply_rings b \<Longrightarrow> loop_calm b' w = loop_calm b w"
  by (simp add: loop_calm_def)

lemma attach_not_control: "ring_attach sg 0 m = Inr r \<Longrightarrow> u32_at m OFF_MAGIC = MAGIC"
  by (auto simp: ring_attach_def split: if_splits)

lemma reply_not_sub:
  assumes "reply_ring_ok w r" "sub_ring_ok w s"
  shows "seg_ptr (ring_seg r) \<noteq> seg_ptr (ring_seg s)"
  using assms attach_not_control by (fastforce simp: reply_ring_ok_def sub_ring_ok_def ring_mem_def)

lemma ring_idle_attached:
  assumes "ring_attach sg base m = Inr r" "ring_attach sg' base m = Inr r'" "ring_idle r m'"
  shows "ring_idle r' m'"
proof -
  have "r' = r\<lparr>ring_seg := sg'\<rparr>" using assms(1,2) by (auto simp: ring_attach_def Let_def split: if_splits)
  then show ?thesis using assms(3) by simp
qed

text \<open>A ring at the beginning of a segment that is used politely leaves the segment at rest.\<close>

lemma mem_calm_used:
  assumes "ring_attach sg 0 m = Inr r" "same_outside r m m'" "ring_idle r m'"
  shows "mem_calm m'"
  unfolding mem_calm_def
proof (intro allI impI)
  fix sg' r' assume a: "ring_attach sg' 0 m' = Inr r' \<and> seg_len sg' = length m'"
  have "ring_attach sg' 0 m = Inr r'"
    using ring_attach_same [OF assms(2), of sg'] ring_attach_base [OF assms(1)] a by simp
  then show "ring_idle r' m'" by (rule ring_idle_attached [OF assms(1) _ assms(3)])
qed

lemma reply_ring_ok_used:
  assumes "reply_ring_ok w r" "reply_ring_ok w r'" "same_outside r (ring_mem r w) m'"
  shows "reply_ring_ok (set_ring_mem r m' w) r'"
proof (cases "seg_ptr (ring_seg r') = seg_ptr (ring_seg r)")
  case True
  have "ring_attach (ring_seg r') 0 m' = ring_attach (ring_seg r') 0 (ring_mem r w)"
    using ring_attach_same [OF assms(3), of "ring_seg r'"] ring_attach_base [of "ring_seg r" 0 "ring_mem r w" r] assms(1)
    by (simp add: reply_ring_ok_def)
  with True assms show ?thesis by (simp add: reply_ring_ok_def ring_mem_def set_ring_mem_def same_outside_def)
qed (use assms(2) in \<open>simp add: reply_ring_ok_def ring_mem_def set_ring_mem_def\<close>)

lemma loop_calm_reply:
  assumes "loop_calm b w" "hm_get (br_reply_rings b) i = Some r" "same_outside r (ring_mem r w) m'" "ring_idle r m'"
  shows "loop_calm b (set_ring_mem r m' w) \<and> ring_mem (br_submission b) (set_ring_mem r m' w) = ring_mem (br_submission b) w"
proof -
  have r: "reply_ring_ok w r" and s: "sub_ring_ok w (br_submission b)" using assms(1,2) by (auto simp: loop_calm_def)
  note ne = reply_not_sub [OF r s]
  have "mem_calm m'" using mem_calm_used [OF _ assms(3,4)] r by (auto simp: reply_ring_ok_def)
  then have "shm_calm (set_ring_mem r m' w)" using assms(1) by (simp add: loop_calm_def shm_calm_def set_ring_mem_def)
  moreover have "sub_ring_ok (set_ring_mem r m' w) (br_submission b)"
    using s ne by (simp add: sub_ring_ok_def ring_mem_def set_ring_mem_def)
  ultimately show ?thesis
    using assms(1) reply_ring_ok_used [OF r _ assms(3)] ne by (auto simp: loop_calm_def ring_mem_def set_ring_mem_def)
qed

lemma loop_calm_grown:
  assumes "loop_calm b w" "shm_next w \<le> shm_next w'" "\<forall>ob < shm_next w. shm_obj w' ob = shm_obj w ob"
    and "\<forall>ob. shm_next w \<le> ob \<and> ob < shm_next w' \<longrightarrow> mem_calm (shm_obj w' ob)"
  shows "loop_calm b w'"
proof -
  have "shm_calm w'" unfolding shm_calm_def
    using assms by (metis loop_calm_def shm_calm_def not_le)
  moreover have "reply_ring_ok w' r" if "reply_ring_ok w r" for r
    using that assms(2,3) by (simp add: reply_ring_ok_def ring_mem_def)
  moreover have "sub_ring_ok w' r" if "sub_ring_ok w r" for r
    using that assms(2,3) by (simp add: sub_ring_ok_def ring_mem_def)
  ultimately show ?thesis using assms(1) by (auto simp: loop_calm_def)
qed

section \<open>Handlers return\<close>

text \<open>The loop can go on from one state as from another, and its messages are where they were.\<close>

definition follows :: "broker \<Rightarrow> shm \<Rightarrow> broker \<Rightarrow> shm \<Rightarrow> bool" where
  "follows b w b1 w1 \<longleftrightarrow> loop_calm b1 w1 \<and> br_submission b1 = br_submission b \<and>
     ring_mem (br_submission b) w1 = ring_mem (br_submission b) w"

definition goes_on :: "broker \<Rightarrow> shm \<Rightarrow> outcome \<Rightarrow> bool" where
  "goes_on b w out \<longleftrightarrow> (\<exists>res b1 w1. out = Some (res, b1, w1) \<and> follows b w b1 w1)"

text \<open>Clients that read their replies, or leave them unread: the wait for room ends with its deadline.\<close>

definition env_polite :: "'sc broker_env \<Rightarrow> bool" where
  "env_polite env \<longleftrightarrow> be_parks env \<le> length (be_others env) \<and> (\<forall>e \<in> set (be_others env). polite 0 e)"

lemma follows_refl: "loop_calm b w \<Longrightarrow> follows b w b w"
  by (simp add: follows_def)

lemma follows_trans: "follows b w b1 w1 \<Longrightarrow> follows b1 w1 b2 w2 \<Longrightarrow> follows b w b2 w2"
  by (simp add: follows_def)

lemma follows_fields:
  "follows b w b1 w1 \<Longrightarrow> br_submission b2 = br_submission b1 \<Longrightarrow> br_reply_rings b2 = br_reply_rings b1 \<Longrightarrow> follows b w b2 w1"
  by (simp add: follows_def loop_calm_same [of b2 b1])

lemma goes_on_Some [intro]: "follows b w b1 w1 \<Longrightarrow> goes_on b w (Some (res, b1, w1))"
  by (auto simp: goes_on_def)

lemma goes_on_reply [intro]:
  assumes env: "env_polite env" and f: "follows b w b1 w1"
  shows "goes_on b w (reply env to_v cid k msg b1 w1)"
proof (cases "hm_get (br_reply_rings b1) cid")
  case None
  with f show ?thesis by (auto simp: reply_def)
next
  case (Some r)
  have calm: "loop_calm b1 w1" using f by (simp add: follows_def)
  then have r: "reply_ring_ok w1 r" using Some by (auto simp: loop_calm_def)
  then have at: "ring_attach (ring_seg r) 0 (ring_mem r w1) = Inr r" by (simp add: reply_ring_ok_def)
  have idle: "ring_idle r (ring_mem r w1)"
    using r calm by (auto simp: reply_ring_ok_def loop_calm_def shm_calm_def mem_calm_def ring_mem_def)
  show ?thesis
  proof (cases "to_frame (be_lib env) (be_cat env) to_v k msg")
    case (Inl e)
    with Some f show ?thesis by (auto simp: reply_def)
  next
    case (Inr fr)
    obtain ok m' es' where "push_blocking r (frame_encode fr) (Some (be_parks env)) (be_others env) (ring_mem r w1) = Some (ok, m', es')"
      and m': "ring_idle r m'" "same_outside r (ring_mem r w1) m'"
      using push_blocking_polite [OF idle at, of "be_others env" "be_parks env" "frame_encode fr"] env by (auto simp: env_polite_def)
    moreover have "follows b1 w1 b1 (set_ring_mem r m' w1)"
      using loop_calm_reply [OF calm Some m'(2,1)] by (simp add: follows_def)
    ultimately show ?thesis using Some Inr follows_trans [OF f] by (auto simp: reply_def)
  qed
qed

text \<open>Taking names and rings away leaves the rest as it is.\<close>

lemma reclaim_memory:
  "shm_obj (snd (fold (reclaim_arena os) ns s)) = shm_obj (snd s)" "shm_next (snd (fold (reclaim_arena os) ns s)) = shm_next (snd s)"
  "br_submission (fst (fold (reclaim_arena os) ns s)) = br_submission (fst s)"
  by (induction ns arbitrary: s)
    (auto simp: reclaim_arena_def segment_drop_def unlink_def Let_def split: option.split prod.split)

lemma loop_calm_less:
  assumes "loop_calm b w" "shm_obj w' = shm_obj w" "shm_next w' = shm_next w" "br_submission b' = br_submission b"
    and "\<And>i r. hm_get (br_reply_rings b') i = Some r \<Longrightarrow> hm_get (br_reply_rings b) i = Some r"
  shows "follows b w b' w'"
proof -
  have "sub_ring_ok w' = sub_ring_ok w" "reply_ring_ok w' = reply_ring_ok w" "shm_calm w' = shm_calm w"
    using assms(2,3) by (simp_all add: fun_eq_iff sub_ring_ok_def reply_ring_ok_def shm_calm_def ring_mem_def)
  with assms show ?thesis unfolding follows_def loop_calm_def by (simp add: ring_mem_def) blast
qed

lemma follows_reclaims:
  assumes "loop_calm b w" "fold (reclaim_arena os) ns (b\<lparr>br_reg := g\<rparr>, w) = (b1, w1)"
  shows "follows b w b1 w1"
  by (rule loop_calm_less [OF assms(1)])
    (use reclaim_memory [of os ns "(b\<lparr>br_reg := g\<rparr>, w)"] reclaim_arenas_frame(2) [of os ns "(b\<lparr>br_reg := g\<rparr>, w)"] assms(2) in simp_all)

lemma follows_released:
  assumes "loop_calm b w" "release_client os cid b w = (b1, w1)"
  shows "follows b w b1 w1"
  by (rule loop_calm_less [OF assms(1)])
    (simp_all add: release_client_eq [OF assms(2)] reclaim_memory split: if_splits)

text \<open>A new arena is a ring at rest, in a new object.\<close>

lemma follows_make_arena:
  assumes steady: "os_steady os" and w: "world_ok b w" and nm: "nm \<in> arena_space"
    and fresh: "hm_get (br_arenas b) nm = None" and cap: "is_power_of_two cap" "cap < 2 ^ 32"
    and calm: "loop_calm b w" and m: "make_arena os nm cap b w = (res, b1, w1)"
  shows "follows b w b1 w1"
proof -
  have pos: "0 < ring_bytes cap" by (simp add: ring_bytes_def)
  obtain c w2 where c: "segment_create os nm (ring_bytes cap) w = (c, w2)" by fastforce
  have none: "sys_open nm w = None" using w nm fresh by (simp add: world_ok_def)
  from steady pos c show ?thesis
  proof (cases rule: segment_create_steady)
    case (refused e)
    with c m calm show ?thesis by (auto simp: make_arena_def follows_refl)
  next
    case (created seg)
    have seg: "seg_len seg = ring_bytes cap" "length (shm_obj w2 (seg_ptr seg)) = ring_bytes cap" "seg_ptr seg = shm_next w"
      using segment_create_Inr [of os nm "ring_bytes cap" w seg w2] c created(1,2) sys_creat_fresh [OF none] by auto
    obtain r m' where f: "ring_format seg 0 cap (shm_obj w2 (seg_ptr seg)) = (Inr r, m')"
      using ring_format_ok [of cap 0 seg "shm_obj w2 (seg_ptr seg)"] cap seg by auto
    note fm = ring_format_Inr [OF f _ cap(2)]
    have eq: "b1 = b\<lparr>br_arenas := hm_insert nm seg (br_arenas b)\<rparr>" "w1 = set_obj (seg_ptr seg) m' w2"
      using m c created(1) f fresh by (simp_all add: make_arena_def)
    have "mem_calm m'" using fm(1,2,7) seg mem_calm_used [of seg m' r m'] by (simp add: ring_idleI)
    moreover have nx: "shm_next w2 = Suc (shm_next w)" using created(3) none by (simp add: sys_creat_def)
    moreover have old: "\<forall>ob < shm_next w. shm_obj w1 ob = shm_obj w ob"
      using created(3) seg(3) by (simp add: eq(2) sys_creat_obj_other)
    ultimately have "loop_calm b w1"
      using seg(3) by (intro loop_calm_grown [OF calm]) (auto simp: eq(2) less_Suc_eq)
    moreover have "seg_ptr (ring_seg (br_submission b)) < shm_next w" using calm by (simp add: loop_calm_def sub_ring_ok_def)
    ultimately show ?thesis using old by (simp add: follows_def eq(1) loop_calm_def ring_mem_def)
  qed
qed

lemma goes_on_publish_new:
  assumes env: "env_polite env" and steady: "os_steady (be_os env)" and inv: "broker_inv b" "world_ok b w" and calm: "loop_calm b w"
  shows "goes_on b w (publish_new env m b w)"
proof (cases "avro_parse (be_lib env) (pub_schema_json m)")
  case (Inl e)
  with env calm follows_refl show ?thesis by (auto simp: publish_new_def)
next
  case (Inr x)
  let ?g = "snd (alloc_channel_id (br_reg b))" and ?nm = "channel_arena (word_of_int (rg_next_channel (br_reg b)))"
  let ?cap = "clamp_arena_cap (nat (max (pub_arena_cap m) 0))"
  obtain ar b1 w1 where mk: "make_arena (be_os env) ?nm ?cap (b\<lparr>br_reg := ?g\<rparr>) w = (ar, b1, w1)" by (metis prod_cases3)
  have none: "hm_get (br_arenas (b\<lparr>br_reg := ?g\<rparr>)) ?nm = None"
    using inv fresh_channel_arena [of "br_reg b"] by (auto simp: broker_inv_def hm_contains_def)
  have "follows (b\<lparr>br_reg := ?g\<rparr>) w b1 w1"
    by (rule follows_make_arena [OF steady _ _ none clamp_bounds _ mk]) (use inv(2) calm in \<open>simp_all add: arena_space_def loop_calm_def\<close>)
  then have f: "follows b w b1 w1" by (simp add: follows_def)
  with env Inr mk follows_fields [OF f] show ?thesis
    by (auto simp: publish_new_def alloc_channel_id_def Let_def split: sum.split prod.split)
qed

lemma goes_on_expose_new:
  assumes env: "env_polite env" and steady: "os_steady (be_os env)" and inv: "broker_inv b" "world_ok b w" and calm: "loop_calm b w"
  shows "goes_on b w (expose_new env m b w)"
proof -
  let ?g = "snd (alloc_fn_id (br_reg b))" and ?nm = "function_arena (word_of_int (rg_next_fn (br_reg b)))"
  let ?cap = "clamp_arena_cap (nat (max (exp_req_arena_cap m) 0))"
  obtain ar b1 w1 where mk: "make_arena (be_os env) ?nm ?cap (b\<lparr>br_reg := ?g\<rparr>) w = (ar, b1, w1)" by (metis prod_cases3)
  have none: "hm_get (br_arenas (b\<lparr>br_reg := ?g\<rparr>)) ?nm = None"
    using inv fresh_function_arena [of "br_reg b"] by (auto simp: broker_inv_def hm_contains_def)
  have "follows (b\<lparr>br_reg := ?g\<rparr>) w b1 w1"
    by (rule follows_make_arena [OF steady _ _ none clamp_bounds _ mk]) (use inv(2) calm in \<open>simp_all add: arena_space_def loop_calm_def\<close>)
  then have f: "follows b w b1 w1" by (simp add: follows_def)
  with env mk follows_fields [OF f] follows_refl [OF calm] show ?thesis
    by (auto simp: expose_new_def alloc_fn_id_def Let_def split: sum.split prod.split)
qed

lemma goes_on_register:
  assumes env: "env_polite env" and w: "world_ok b w" and calm: "loop_calm b w"
  shows "goes_on b w (on_register env f b w)"
  using refl
proof (cases rule: on_register_cases [where env = env and f = f and b = b and w = w])
  case (failed e)
  with follows_refl [OF calm] show ?thesis by auto
next
  case (ok m seg r)
  note seg = segment_open_Inr [OF ok(2)]
  have "seg_ptr seg < shm_next w" using w seg(2) by (auto simp: world_ok_def shm_ok_def sys_open_def)
  moreover have "ring_seg r = seg" using ring_attach_base [OF ok(3)] by simp
  ultimately have "reply_ring_ok w r" using ok(3) seg(4) by (simp add: reply_ring_ok_def ring_mem_def)
  then have "follows b w (registered m seg r b) w" using calm by (simp add: follows_def loop_calm_def registered_def)
  with env ok(4) show ?thesis by auto
qed

lemma goes_on_publish:
  assumes env: "env_polite env" and steady: "os_steady (be_os env)" and inv: "broker_inv b" "world_ok b w" and calm: "loop_calm b w"
  shows "goes_on b w (on_publish env f b w)"
proof -
  have g: "reg_ok (br_reg b)" using inv(1) by (simp add: broker_inv_def)
  note new = goes_on_publish_new [OF env steady]
  have after: "goes_on b w (publish_new env m b1 w1)" if "follows b w b1 w1" "keeps (be_os env) b w b1 w1" for m b1 w1
    using new [of b1 w1 m] that follows_trans [OF that(1)] inv steady by (auto simp: keeps_def goes_on_def follows_def)
  show ?thesis using g refl
  proof (cases rule: on_publish_cases [where env = env and f = f and w = w])
    case (free m)
    with new [OF inv calm] show ?thesis by simp
  next
    case (reaped m i c b1 w1)
    with after [OF follows_reclaims [OF calm reaped(6)] keeps_dropped(1) [OF inv(1) reaped(3,6)]] show ?thesis by simp
  next
    case (dead m d b1 w1)
    with after [OF follows_released [OF calm dead(3)] keeps_release_client(1) [OF inv(1) dead(3)]] show ?thesis by simp
  qed (use env follows_refl [OF calm] in auto)
qed

lemma goes_on_expose:
  assumes env: "env_polite env" and steady: "os_steady (be_os env)" and inv: "broker_inv b" "world_ok b w" and calm: "loop_calm b w"
  shows "goes_on b w (on_expose env f b w)"
proof -
  note new = goes_on_expose_new [OF env steady]
  have after: "goes_on b w (expose_new env m b1 w1)" if r: "release_client (be_os env) d b w = (b1, w1)" for m d b1 w1
  proof -
    have "follows b w b1 w1" by (rule follows_released [OF calm r])
    with new [of b1 w1 m] keeps_release_client(1) [OF inv(1) r] follows_trans inv steady show ?thesis
      by (auto simp: keeps_def goes_on_def follows_def)
  qed
  then show ?thesis using env new [OF inv calm] follows_refl [OF calm]
    by (auto simp: on_expose_def split: sum.split option.split prod.split)
qed

text \<open>Whatever the message, the broker is done with it: with an answer, with an error for its log, or with neither.\<close>

lemma goes_on_handle:
  assumes env: "env_polite env" and steady: "os_steady (be_os env)" and inv: "broker_inv b" "world_ok b w" and calm: "loop_calm b w"
  shows "goes_on b w (handle env bs b w)"
proof -
  note here = follows_refl [OF calm]
  have reg: "follows b w (b\<lparr>br_reg := g\<rparr>) w" for g using here by (rule follows_fields) simp_all
  have pair: "goes_on b w (Some (res, s))" if "follows b w (fst s) (snd s)" for res s using that by (cases s) auto
  have "follows b w (fst (release_client os cid b w)) (snd (release_client os cid b w))" for os cid
    using follows_released [OF calm] by (metis prod.collapse)
  then have "goes_on b w (on_unregister env f b w)" for f
    using here pair by (auto simp: on_unregister_def split: sum.split)
  moreover have "follows b w (fst (reclaim_arena os nm (b\<lparr>br_reg := g\<rparr>, w))) (snd (reclaim_arena os nm (b\<lparr>br_reg := g\<rparr>, w)))" for os nm g
    using follows_reclaims [OF calm, of os "[nm]" g] by (metis fold_simps prod.collapse)
  then have "goes_on b w (on_unpublish env f b w)" for f
    using here reg pair by (auto simp: on_unpublish_def split: sum.split prod.split release.split)
  moreover have "goes_on b w (on_list env f b w)" "goes_on b w (on_lookup env f b w)" for f
    using env here by (auto simp: on_list_def on_lookup_def split: sum.split)
  moreover have "goes_on b w (on_subscribe env f b w)" for f
    using env here reg by (auto simp: on_subscribe_def split: sum.split prod.split)
  ultimately show ?thesis
    using here goes_on_register [OF env inv(2) calm] goes_on_publish [OF env steady inv calm] goes_on_expose [OF env steady inv calm]
    by (auto simp: handle_def split: sum.split option.split kind.split)
qed

lemma follows_sweep: "loop_calm b w \<Longrightarrow> sweep env b w = (b1, w1) \<Longrightarrow> follows b w b1 w1"
  by (auto simp: sweep_def Let_def split: prod.splits intro: follows_reclaims)

section \<open>The loop returns\<close>

text \<open>Before each turn, with \<open>k\<close> turns to come: the broker's invariants, memory at rest, and identifiers left.\<close>

definition loop_inv :: "nat \<Rightarrow> broker \<Rightarrow> shm \<Rightarrow> bool" where
  "loop_inv k b w \<longleftrightarrow> broker_inv b \<and> world_ok b w \<and> loop_calm b w \<and> reg_count (br_reg b) + int k < 2 ^ 63"

lemma same_outside_magic:
  assumes "same_outside r m m'" "SUBMISSION_BASE \<le> ring_base r"
  shows "u32_at m' OFF_MAGIC = u32_at m OFF_MAGIC"
proof -
  have "load_bytes m' OFF_MAGIC 4 = load_bytes m OFF_MAGIC 4"
    using assms by (intro nth_equalityI)
      (auto simp: load_bytes_def same_outside_def outside_ring_def ctl_layout ring_layout)
  then show ?thesis by (simp add: u32_at_def)
qed

lemma mem_calm_control: "u32_at m OFF_MAGIC \<noteq> MAGIC \<Longrightarrow> mem_calm m"
  using attach_not_control by (auto simp: mem_calm_def)

lemma loop_calm_submission:
  assumes calm: "loop_calm b w" and m: "ring_idle (br_submission b) m" "same_outside (br_submission b) (ring_mem (br_submission b) w) m"
  shows "loop_calm b (set_ring_mem (br_submission b) m w)"
proof -
  let ?r = "br_submission b"
  have s: "sub_ring_ok w ?r" and w: "shm_calm w" using calm by (simp_all add: loop_calm_def)
  have at: "ring_attach (ring_seg ?r) SUBMISSION_BASE (ring_mem ?r w) = Inr ?r" using s by (simp add: sub_ring_ok_def)
  note base = ring_attach_base [OF at]
  have magic: "u32_at m OFF_MAGIC \<noteq> MAGIC"
    using same_outside_magic [OF m(2)] base s by (simp add: sub_ring_ok_def)
  have "ring_attach (ring_seg ?r) SUBMISSION_BASE m = Inr ?r"
    using ring_attach_same [OF m(2), of "ring_seg ?r"] base at by simp
  then have "sub_ring_ok (set_ring_mem ?r m w) ?r" using s magic m(1) by (simp add: sub_ring_ok_def set_ring_mem_def ring_mem_def)
  moreover have "shm_calm (set_ring_mem ?r m w)"
    using w mem_calm_control [OF magic] by (simp add: shm_calm_def set_ring_mem_def)
  moreover have "reply_ring_ok (set_ring_mem ?r m w) r" if "reply_ring_ok w r" for r
    using that reply_not_sub [OF that s] by (simp add: reply_ring_ok_def set_ring_mem_def ring_mem_def)
  ultimately show ?thesis using calm by (auto simp: loop_calm_def)
qed

text \<open>What a turn does with the message it has, if it has one; and that it comes back, and leaves the next one the same order.\<close>

definition one_turn :: "'sc broker_env \<Rightarrow> bytes option \<Rightarrow> nat \<Rightarrow> broker \<Rightarrow> shm \<Rightarrow> (nat \<times> broker \<times> shm) option" where
  "one_turn env v ls b w =
     (case (case v of None \<Rightarrow> Some (Inr (), b, w) | Some bs \<Rightarrow> handle env bs b w) of
        None \<Rightarrow> None
      | Some (res, b2, w2) \<Rightarrow>
          if SWEEP_INTERVAL \<le> be_now env - ls then Some (be_now env, sweep env b2 w2) else Some (ls, b2, w2))"

lemma run_one_turn:
  "run ((env, others, parks, es) # turns) ls b w =
     (case pop_blocking (br_submission b) (Some parks) es (ring_mem (br_submission b) (others w)) of
        None \<Rightarrow> None
      | Some (v, m, _) \<Rightarrow>
          (case one_turn env v ls b (set_ring_mem (br_submission b) m (others w)) of
             None \<Rightarrow> None
           | Some (ls1, b1, w1) \<Rightarrow> run turns ls1 b1 w1))"
  by (auto simp: one_turn_def Let_def split: option.split prod.split)

lemma one_turn_returns:
  assumes inv: "loop_inv (Suc k) b w" and env: "env_polite env" "os_steady (be_os env)"
  shows "\<exists>ls1 b1 w1. one_turn env v ls b w = Some (ls1, b1, w1) \<and> loop_inv k b1 w1 \<and> br_submission b1 = br_submission b \<and>
    ring_mem (br_submission b) w1 = ring_mem (br_submission b) w"
proof -
  have b: "broker_inv b" "world_ok b w" "loop_calm b w" "reg_count (br_reg b) + int (Suc k) < 2 ^ 63" using inv by (simp_all add: loop_inv_def)
  then have cnt: "reg_count (br_reg b) < 2 ^ 63 - 1" by simp
  obtain res b2 w2 where h: "(case v of None \<Rightarrow> Some (Inr (), b, w) | Some bs \<Rightarrow> handle env bs b w) = Some (res, b2, w2)"
    and f: "follows b w b2 w2" and k: "keeps (be_os env) b w b2 w2"
  proof (cases v)
    case None
    with that follows_refl [OF b(3)] keeps_same [OF b(1)] show thesis by simp
  next
    case (Some bs)
    from goes_on_handle [OF env b(1-3), of bs] obtain res b2 w2 where "handle env bs b w = Some (res, b2, w2)" "follows b w b2 w2"
      by (auto simp: goes_on_def)
    with that [of res b2 w2] Some keeps_handle [OF b(1) cnt this(1)] show thesis by simp
  qed
  have 2: "broker_inv b2" "world_ok b2 w2" "loop_calm b2 w2" "reg_count (br_reg b2) + int k < 2 ^ 63"
    using k f b env(2) by (simp_all add: keeps_def counted_def follows_def)
  show ?thesis
  proof (cases "SWEEP_INTERVAL \<le> be_now env - ls")
    case True
    obtain b3 w3 where sw: "sweep env b2 w2 = (b3, w3)" by (cases "sweep env b2 w2")
    note f3 = follows_sweep [OF 2(3) sw]
    have "reg_count (br_reg b3) = reg_count (br_reg b2)" using sweep_count [of env b2 w2] sw by simp
    then have "loop_inv k b3 w3"
      using keeps_sweep [OF 2(1) sw] 2 env(2) f3 by (simp add: loop_inv_def keeps_def follows_def)
    moreover have "br_submission b3 = br_submission b" "ring_mem (br_submission b) w3 = ring_mem (br_submission b) w"
      using follows_trans [OF f f3] by (simp_all add: follows_def)
    ultimately show ?thesis using h sw True by (simp add: one_turn_def)
  next
    case False
    then show ?thesis using h 2 f by (simp add: one_turn_def loop_inv_def follows_def)
  qed
qed

lemma loop_inv_submission:
  assumes "loop_inv k b w" "ring_idle (br_submission b) m" "same_outside (br_submission b) (ring_mem (br_submission b) w) m"
  shows "loop_inv k b (set_ring_mem (br_submission b) m w)"
proof -
  have "world_ok b (set_ring_mem (br_submission b) m w) = world_ok b w" by (rule world_ok_mem) (simp_all add: set_ring_mem_def)
  then show ?thesis using assms loop_calm_submission [OF _ assms(2,3)] by (simp add: loop_inv_def)
qed

text \<open>
  What other processes do to the shared memory between two turns: they leave the names of arenas to the broker, they
  format a segment before they do anything else with it, and they change a segment through the ring in it.
\<close>

definition uses_ring :: "bytes \<Rightarrow> bytes \<Rightarrow> bool" where
  "uses_ring m m' \<longleftrightarrow> m' = m \<or> (\<exists>sg r. (ring_attach sg 0 m = Inr r \<or> u32_at m OFF_MAGIC \<noteq> MAGIC \<and> ring_attach sg SUBMISSION_BASE m = Inr r) \<and>
     seg_len sg = length m \<and> same_outside r m m' \<and> (ring_idle r m \<longrightarrow> ring_idle r m'))"

definition others_polite :: "(shm \<Rightarrow> shm) \<Rightarrow> bool" where
  "others_polite f \<longleftrightarrow> keeps_names f \<and> (\<forall>w. shm_next w \<le> shm_next (f w) \<and>
     (\<forall>ob < shm_next w. uses_ring (shm_obj w ob) (shm_obj (f w) ob)) \<and>
     (\<forall>ob. shm_next w \<le> ob \<and> ob < shm_next (f w) \<longrightarrow> mem_calm (shm_obj (f w) ob)))"

lemma uses_ring_attach:
  assumes "uses_ring m m'" "ring_attach sg 0 m = Inr r"
  shows "ring_attach sg 0 m' = Inr r" "length m' = length m"
proof -
  have "ring_attach sg 0 m' = Inr r \<and> length m' = length m"
    using assms(1) unfolding uses_ring_def
  proof (elim disjE exE conjE)
    fix sg' r' assume a: "ring_attach sg' 0 m = Inr r'" and so: "same_outside r' m m'"
    from ring_attach_same [OF so, of sg] ring_attach_base [OF a] assms(2) so show ?thesis by (simp add: same_outside_def)
  qed (use assms(2) attach_not_control in auto)
  then show "ring_attach sg 0 m' = Inr r" "length m' = length m" by simp_all
qed

lemma uses_ring_calm:
  assumes "uses_ring m m'" "mem_calm m"
  shows "mem_calm m'"
  using assms(1) unfolding uses_ring_def
proof (elim disjE exE conjE)
  fix sg r assume a: "ring_attach sg 0 m = Inr r" "seg_len sg = length m" "same_outside r m m'" "ring_idle r m \<longrightarrow> ring_idle r m'"
  then have "ring_idle r m" using assms(2) by (auto simp: mem_calm_def)
  with a show ?thesis using mem_calm_used by blast
next
  fix sg r assume a: "u32_at m OFF_MAGIC \<noteq> MAGIC" "ring_attach sg SUBMISSION_BASE m = Inr r" "same_outside r m m'"
  then show ?thesis using same_outside_magic [OF a(3)] ring_attach_base [OF a(2)] mem_calm_control by simp
qed (use assms(2) in simp)

lemma uses_ring_sub:
  assumes u: "uses_ring m m'" and r: "ring_attach (ring_seg r) SUBMISSION_BASE m = Inr r" "ring_idle r m" "u32_at m OFF_MAGIC \<noteq> MAGIC"
  shows "ring_attach (ring_seg r) SUBMISSION_BASE m' = Inr r" "ring_idle r m'" "u32_at m' OFF_MAGIC \<noteq> MAGIC"
proof -
  have "same_outside r m m' \<and> ring_idle r m'" using u unfolding uses_ring_def
  proof (elim disjE exE conjE)
    fix sg r' assume a: "ring_attach sg SUBMISSION_BASE m = Inr r'" "same_outside r' m m'" "ring_idle r' m \<longrightarrow> ring_idle r' m'"
    have "ring_idle r' m" by (rule ring_idle_attached [OF r(1) a(1) r(2)])
    then have "ring_idle r m'" using ring_idle_attached [OF a(1) r(1)] a(3) by blast
    moreover have "ring_base r' = ring_base r \<and> ring_cap r' = ring_cap r"
      using ring_attach_base [OF a(1)] ring_attach_base [OF r(1)] ring_attach_cap [OF a(1)] ring_attach_cap [OF r(1)] by simp
    ultimately show ?thesis using a(2) by (simp add: same_outside_def outside_ring_def)
  qed (use r attach_not_control in auto)
  then show "ring_idle r m'" "ring_attach (ring_seg r) SUBMISSION_BASE m' = Inr r" "u32_at m' OFF_MAGIC \<noteq> MAGIC"
    using ring_attach_same [of r m m' "ring_seg r"] ring_attach_base [OF r(1)] same_outside_magic [of r m m'] r by simp_all
qed

lemma loop_inv_others:
  assumes inv: "loop_inv k b w" and f: "others_polite f"
  shows "loop_inv k b (f w)"
proof -
  have ok: "shm_ok w" and calm: "loop_calm b w" using inv by (simp_all add: loop_inv_def world_ok_def)
  have f': "shm_next w \<le> shm_next (f w)" "\<And>ob. ob < shm_next w \<Longrightarrow> uses_ring (shm_obj w ob) (shm_obj (f w) ob)"
    "\<And>ob. shm_next w \<le> ob \<Longrightarrow> ob < shm_next (f w) \<Longrightarrow> mem_calm (shm_obj (f w) ob)"
    using f by (simp_all add: others_polite_def)
  have "world_ok b (f w)" using inv f ok by (simp add: loop_inv_def world_ok_def others_polite_def keeps_names_def)
  moreover have "shm_calm (f w)" unfolding shm_calm_def
    using f' uses_ring_calm calm by (metis loop_calm_def not_le shm_calm_def)
  moreover have "sub_ring_ok (f w) (br_submission b)"
    using calm f'(1) uses_ring_sub [OF f'(2), of "seg_ptr (ring_seg (br_submission b))" "br_submission b"]
    by (simp add: loop_calm_def sub_ring_ok_def ring_mem_def)
  moreover have "reply_ring_ok (f w) r" if "reply_ring_ok w r" for r
    using that f'(1) uses_ring_attach [OF f'(2), of "seg_ptr (ring_seg r)" "ring_seg r" r] by (simp add: reply_ring_ok_def ring_mem_def)
  ultimately show ?thesis using inv by (auto simp: loop_inv_def loop_calm_def)
qed

definition turn_polite :: "'sc broker_env \<times> (shm \<Rightarrow> shm) \<times> nat \<times> schedule \<Rightarrow> bool" where
  "turn_polite t \<longleftrightarrow> (case t of (env, others, parks, es) \<Rightarrow> env_polite env \<and> os_steady (be_os env) \<and> others_polite others \<and>
     parks \<le> length es \<and> (\<forall>e \<in> set es. polite SUBMISSION_BASE e))"

lemma run_returns:
  assumes "loop_inv (length turns) b w" "\<forall>t \<in> set turns. turn_polite t"
  shows "\<exists>b' w'. run turns ls b w = Some (b', w') \<and> loop_inv 0 b' w'"
  using assms
proof (induction turns arbitrary: ls b w)
  case (Cons t turns)
  obtain env others parks es where t: "t = (env, others, parks, es)" by (cases t)
  have p: "env_polite env" "os_steady (be_os env)" "others_polite others" "parks \<le> length es" "\<forall>e \<in> set es. polite SUBMISSION_BASE e"
    using Cons.prems(2) t by (simp_all add: turn_polite_def)
  have inv: "loop_inv (Suc (length turns)) b (others w)" using loop_inv_others [OF Cons.prems(1) p(3)] by simp
  then have s: "sub_ring_ok (others w) (br_submission b)" by (simp add: loop_inv_def loop_calm_def)
  then obtain v m es' where pop: "pop_blocking (br_submission b) (Some parks) es (ring_mem (br_submission b) (others w)) = Some (v, m, es')"
    "ring_idle (br_submission b) m" "same_outside (br_submission b) (ring_mem (br_submission b) (others w)) m"
    using pop_blocking_polite [OF _ _ p(5,4)] unfolding sub_ring_ok_def by blast
  from one_turn_returns [OF loop_inv_submission [OF inv pop(2,3)] p(1,2), of v ls] obtain ls1 b1 w1
    where "loop_inv (length turns) b1 w1" "one_turn env v ls b (set_ring_mem (br_submission b) m (others w)) = Some (ls1, b1, w1)" by blast
  with Cons.IH [of b1 w1 ls1] Cons.prems(2) show ?case by (simp only: t run_one_turn) (simp add: pop(1))
qed auto

text \<open>
  What clients do is of that kind: a client that attaches to a ring and pushes a record, and one that makes its reply
  segment, as \<^verbatim>\<open>bootstrap\<close> does, when its name is free.
\<close>

lemma push_polite: "polite base (\<lambda>m. case ring_attach sg base m of Inr r \<Rightarrow> snd (push_now r d m) | Inl _ \<Rightarrow> m)"
  unfolding polite_def
proof (intro allI impI, elim conjE)
  fix r m assume at: "ring_attach (ring_seg r) base m = Inr r" and idle: "ring_idle r m"
  let ?m = "case ring_attach sg base m of Inr r \<Rightarrow> snd (push_now r d m) | Inl _ \<Rightarrow> m"
  show "ring_idle r ?m \<and> same_outside r m ?m"
  proof (cases "ring_attach sg base m")
    case (Inr r')
    have i': "ring_idle r' m" by (rule ring_idle_attached [OF at Inr idle])
    have "ring_idle r (snd (push_now r' d m))" by (rule ring_idle_attached [OF Inr at rq.push_invar [OF i']])
    moreover have "same_outside r' m (snd (push_now r' d m))" by (rule push_now_frame) (rule ring_holds_geom [OF ring_idle_holds [OF i']])
    moreover have "ring_base r' = ring_base r" "ring_cap r' = ring_cap r"
      using ring_attach_base [OF at] ring_attach_base [OF Inr] ring_attach_cap [OF at] ring_attach_cap [OF Inr] by simp_all
    ultimately show ?thesis using Inr by (simp add: same_outside_def outside_ring_def)
  qed (simp add: idle)
qed

definition new_segment :: "os_env \<Rightarrow> string \<Rightarrow> usize \<Rightarrow> shm \<Rightarrow> shm" where
  "new_segment os nm cap w =
     (if sys_open nm w \<noteq> None then w
      else case segment_create os nm (ring_bytes cap) w of
        (Inl e, w1) \<Rightarrow> w1
      | (Inr seg, w1) \<Rightarrow> set_obj (seg_ptr seg) (snd (ring_format seg 0 cap (shm_obj w1 (seg_ptr seg)))) w1)"

lemma new_segment_made:
  assumes "os_steady os" "is_power_of_two cap" "cap < 2 ^ 32" "sys_open nm w = None"
  obtains (refused) "new_segment os nm cap w = w"
    | (made) m where "new_segment os nm cap w = set_obj (shm_next w) m (snd (sys_creat nm w))" "mem_calm m"
      "shm_next (snd (sys_creat nm w)) = Suc (shm_next w)"
proof -
  have pos: "0 < ring_bytes cap" by (simp add: ring_bytes_def)
  obtain c w2 where c: "segment_create os nm (ring_bytes cap) w = (c, w2)" by fastforce
  from assms(1) pos c show thesis
  proof (cases rule: segment_create_steady)
    case (refused e)
    with c assms(4) that(1) show thesis by (simp add: new_segment_def)
  next
    case (created seg)
    have seg: "seg_len seg = ring_bytes cap" "length (shm_obj w2 (seg_ptr seg)) = ring_bytes cap" "seg_ptr seg = shm_next w"
      using segment_create_Inr [of os nm "ring_bytes cap" w seg w2] c created(1,2) sys_creat_fresh [OF assms(4)] by auto
    obtain r m where f: "ring_format seg 0 cap (shm_obj w2 (seg_ptr seg)) = (Inr r, m)"
      using ring_format_ok [of cap 0 seg "shm_obj w2 (seg_ptr seg)"] assms(2,3) seg by auto
    note fm = ring_format_Inr [OF f _ assms(3)]
    have "mem_calm m" using fm(1,2,7) seg mem_calm_used [of seg m r m] by (simp add: ring_idleI)
    moreover have "new_segment os nm cap w = set_obj (shm_next w) m (snd (sys_creat nm w))"
      using assms(4) c created f seg(3) by (simp add: new_segment_def set_obj_def)
    ultimately show thesis using that(2) [of m] assms(4) by (simp add: sys_creat_def)
  qed
qed

lemma new_segment_polite:
  assumes "os_steady os" "is_power_of_two cap" "cap < 2 ^ 32" "nm \<in> range client_segment"
  shows "others_polite (new_segment os nm cap)"
proof -
  have names: "shm_path n \<noteq> shm_path nm" if "n \<in> arena_space" for n
    using that assms(4) arena_space_bus [OF that] by (subst bus_name_path_inject) (auto simp: bus_names_def arena_space_def)
  have "(shm_ok w \<longrightarrow> shm_ok (new_segment os nm cap w) \<and> (\<forall>n \<in> arena_space. sys_open n (new_segment os nm cap w) = sys_open n w)) \<and>
    shm_next w \<le> shm_next (new_segment os nm cap w) \<and>
    (\<forall>ob < shm_next w. shm_obj (new_segment os nm cap w) ob = shm_obj w ob) \<and>
    (\<forall>ob. shm_next w \<le> ob \<and> ob < shm_next (new_segment os nm cap w) \<longrightarrow> mem_calm (shm_obj (new_segment os nm cap w) ob))" for w
  proof (cases "sys_open nm w")
    case (Some ob)
    then show ?thesis by (auto simp: new_segment_def)
  next
    case None
    from assms(1-3) None show ?thesis
    proof (cases rule: new_segment_made)
      case refused
      then show ?thesis by auto
    next
      case (made m)
      have "shm_ok (snd (sys_creat nm w))" if "shm_ok w" using shm_ok_creat [OF that] .
      then have "shm_ok w \<longrightarrow> shm_ok (new_segment os nm cap w)" by (simp add: made(1) shm_ok_def)
      moreover have "sys_open n (new_segment os nm cap w) = sys_open n w" if "n \<in> arena_space" for n
        using sys_creat_open_other [OF names [OF that], of w] by (simp add: made(1) sys_open_def)
      moreover have "shm_obj (new_segment os nm cap w) ob = shm_obj w ob" if "ob < shm_next w" for ob
        using that by (simp add: made(1) sys_creat_obj_other)
      moreover have "mem_calm (shm_obj (new_segment os nm cap w) ob)" if "shm_next w \<le> ob \<and> ob < shm_next (new_segment os nm cap w)" for ob
      proof -
        have "ob = shm_next w" using that made(3) by (simp add: made(1))
        then show ?thesis using made(2) by (simp add: made(1))
      qed
      ultimately show ?thesis using made(3) by (simp add: made(1))
    qed
  qed
  then show ?thesis by (simp add: others_polite_def keeps_names_def uses_ring_def)
qed

text \<open>A start leaves memory at rest, if it found it so.\<close>

lemma unlinks_memory:
  "shm_obj (fold (\<lambda>n w. snd (unlink os n w)) ns w) = shm_obj w" "shm_next (fold (\<lambda>n w. snd (unlink os n w)) ns w) = shm_next w"
  by (induction ns arbitrary: w) (simp_all add: unlink_def split: option.split)

lemma control_magic:
  assumes "attach_control sg m = Inr r"
  shows "u32_at m OFF_MAGIC \<noteq> MAGIC"
proof -
  have "u64_to_le_bytes (u64_at m 0) = u64_to_le_bytes CTL_MAGIC"
    using assms by (simp add: attach_control_def ctl_layout split: if_splits)
  then have "load_bytes m 0 8 = string_bytes ''IMPRING'' @ [0]"
    by (simp add: u64_at_def CTL_MAGIC_def u64_le_round_trip' string_bytes_def)
  moreover have "load_bytes m 0 4 = take 4 (load_bytes m 0 8)" by (simp add: load_bytes_def take_map)
  ultimately have "u32_at m 0 = u32_from_le_bytes (take 4 (string_bytes ''IMPRING'' @ [0]))" by (simp add: u32_at_def)
  also have "\<dots> \<noteq> MAGIC" by (simp add: MAGIC_def string_bytes_def u32_from_le_bytes_def)
  finally show ?thesis by (simp add: OFF_MAGIC_def)
qed

lemma format_control_calm:
  assumes "format_control seg pid epoch m = (Inr r, m')" "length m = seg_len seg" "control_segment_bytes \<le> seg_len seg"
  shows "ring_attach seg SUBMISSION_BASE m' = Inr r" "ring_idle r m'" "u32_at m' OFF_MAGIC \<noteq> MAGIC" "ring_seg r = seg"
proof -
  let ?pid = "wrap_i32 pid"
  have "- (2 ^ 31) \<le> ?pid" "?pid < 2 ^ 31" using sint_range_size [of "word_of_int pid :: u32"] by (simp_all add: wrap_i32_def word_size)
  from format_control_ok [OF assms(2,3) this, of epoch]
  have f: "attach_control seg m' = Inr r \<and> ring_idle r m'"
    using assms(1) by (simp add: format_control_def wrap_i32_def split: prod.splits sum.splits)
  then show "ring_idle r m'" by simp
  from f show "u32_at m' OFF_MAGIC \<noteq> MAGIC" by (intro control_magic [of seg]) simp
  from f show at: "ring_attach seg SUBMISSION_BASE m' = Inr r" by (auto simp: attach_control_def Let_def split: if_splits)
  show "ring_seg r = seg" using ring_attach_base [OF at] by simp
qed

lemma start_calm:
  assumes "start env w = (Inr b, w')" "shm_ok w" "shm_calm w" "os_steady (be_os env)"
  shows "loop_calm b w'"
proof -
  obtain w1 seg w2 m r where s: "guard_singleton (be_os env) w = (Inr (), w1)"
    "segment_create (be_os env) CONTROL_SEGMENT control_segment_bytes (cleanup_stale (be_os env) w1) = (Inr seg, w2)"
    "format_control seg (be_pid env) (be_epoch env) (shm_obj w2 (seg_ptr seg)) = (Inr r, m)"
    "b = \<lparr>br_control_seg = seg, br_submission = r, br_reg = registry_new, br_reply_rings = hm_empty,
      br_reply_segs = hm_empty, br_arenas = hm_empty, br_reply_names = []\<rparr>"
    "w' = set_obj (seg_ptr seg) m w2"
    by (rule start_cases [OF assms(1)])
  let ?w = "cleanup_stale (be_os env) w1"
  have g: "shm_obj w1 = shm_obj w \<and> shm_next w1 = shm_next w"
    using s(1) by (auto simp: guard_singleton_def unlink_def segment_drop_def Let_def split: sum.splits if_splits option.splits)
  have mem: "shm_obj ?w = shm_obj w" "shm_next ?w = shm_next w"
    using g by (simp_all add: cleanup_stale_def unlinks_memory split: sum.split)
  have ok: "shm_ok ?w" using shm_ok_guard [OF assms(2), of "be_os env"] s(1) by (simp add: shm_ok_cleanup)
  have new: "seg_ptr seg = fst (sys_creat CONTROL_SEGMENT ?w)"
    "w2 = set_obj (seg_ptr seg) (resize control_segment_bytes (shm_obj (snd (sys_creat CONTROL_SEGMENT ?w)) (seg_ptr seg)))
       (snd (sys_creat CONTROL_SEGMENT ?w))"
    using segment_create_steady [OF assms(4) segment_create_Inr(6) [OF s(2)] s(2)] by (metis Inl_Inr_False sum.inject(2))+
  have lt: "seg_ptr seg < shm_next w2"
    using ok by (simp add: new sys_creat_def shm_ok_def sys_open_def split: option.split)
  have old: "shm_obj w2 ob = shm_obj w ob \<and> ob < shm_next w" if "ob < shm_next w2" "ob \<noteq> seg_ptr seg" for ob
    using that mem by (auto simp: new sys_creat_def split: option.splits)
  note seg = segment_create_Inr [OF s(2)]
  have len: "length (shm_obj w2 (seg_ptr seg)) = seg_len seg" "control_segment_bytes \<le> seg_len seg" using seg by simp_all
  note f = format_control_calm [OF s(3) len]
  have "sub_ring_ok w' r" using f lt by (simp add: sub_ring_ok_def ring_mem_def s(5))
  moreover have "shm_calm w'"
    using mem_calm_control [OF f(3)] old assms(3) by (auto simp: shm_calm_def s(5))
  ultimately show ?thesis by (simp add: loop_calm_def s(4))
qed

section \<open>The loop over a queue\<close>

text \<open>
  No handler looks into the submission ring or writes to it: what is in there when a handler runs makes no
  difference to what the handler does elsewhere.
\<close>

definition stand_in :: "broker \<Rightarrow> shm \<Rightarrow> bytes \<Rightarrow> bool" where
  "stand_in b w m \<longleftrightarrow> length m = length (ring_mem (br_submission b) w) \<and> u32_at m OFF_MAGIC \<noteq> MAGIC"

definition patched :: "ring \<Rightarrow> bytes \<Rightarrow> outcome \<Rightarrow> outcome" where
  "patched r m out = map_option (\<lambda>(res, b, w). (res, b, set_ring_mem r m w)) out"

lemma patched_simps [simp]: "patched r m None = None" "patched r m (Some (res, s)) = Some (res, fst s, set_ring_mem r m (snd s))"
  by (simp_all add: patched_def case_prod_beta)

lemma patched_reply:
  assumes "follows b w b1 w1"
  shows "reply env to_v cid k msg b1 (set_ring_mem (br_submission b) m w1) = patched (br_submission b) m (reply env to_v cid k msg b1 w1)"
proof (cases "hm_get (br_reply_rings b1) cid")
  case (Some r)
  have "reply_ring_ok w1 r" "sub_ring_ok w1 (br_submission b)" using assms Some by (auto simp: follows_def loop_calm_def)
  then have ne: "seg_ptr (ring_seg r) \<noteq> seg_ptr (ring_seg (br_submission b))" by (rule reply_not_sub)
  then have "ring_mem r (set_ring_mem (br_submission b) m w1) = ring_mem r w1" by (simp add: ring_mem_def set_ring_mem_def)
  moreover have "set_ring_mem r m' (set_ring_mem (br_submission b) m w1) = set_ring_mem (br_submission b) m (set_ring_mem r m' w1)" for m'
    using ne by (simp add: set_ring_mem_def set_obj_def fun_upd_twist)
  ultimately show ?thesis using Some by (simp add: reply_def split: sum.split option.split)
qed (simp add: reply_def)

lemma unlink_patched: "snd (unlink os n (set_ring_mem r m w)) = set_ring_mem r m (snd (unlink os n w))"
  by (simp add: unlink_def set_ring_mem_def set_obj_def sys_open_def split: option.split)

lemma segment_drop_patched: "segment_drop os sg (set_ring_mem r m w) = set_ring_mem r m (segment_drop os sg w)"
  by (simp add: segment_drop_def unlink_patched)

lemma reclaims_patched:
  "fold (reclaim_arena os) ns (b, set_ring_mem r m w) =
     (fst (fold (reclaim_arena os) ns (b, w)), set_ring_mem r m (snd (fold (reclaim_arena os) ns (b, w))))"
proof (induction ns arbitrary: b w)
  case (Cons n ns)
  show ?case
  proof (cases "hm_get (br_arenas b) n")
    case (Some sg)
    then show ?thesis using Cons.IH [of "b\<lparr>br_arenas := hm_remove n (br_arenas b)\<rparr>" "segment_drop os sg w"]
      by (simp add: reclaim_arena_def segment_drop_patched)
  qed (use Cons.IH in \<open>simp add: reclaim_arena_def\<close>)
qed simp

lemma reclaim_patched:
  "reclaim_arena os n (b, set_ring_mem r m w) =
     (fst (reclaim_arena os n (b, w)), set_ring_mem r m (snd (reclaim_arena os n (b, w))))"
  using reclaims_patched [of os "[n]" b r m w] by simp

lemma release_client_patched:
  "release_client os cid b (set_ring_mem r m w) =
     (fst (release_client os cid b w), set_ring_mem r m (snd (release_client os cid b w)))"
  by (simp add: release_client_def Let_def case_prod_beta reclaims_patched)

lemma make_arena_patched:
  assumes "sys_open nm w = None" "seg_ptr (ring_seg r) < shm_next w"
  shows "make_arena os nm cap b (set_ring_mem r m w) =
    (let (res, b1, w1) = make_arena os nm cap b w in (res, b1, set_ring_mem r m w1))"
proof -
  let ?nw = "w\<lparr>shm_dir := hm_insert (shm_path nm) (shm_next w) (shm_dir w), shm_obj := (shm_obj w)(shm_next w := []),
      shm_next := Suc (shm_next w)\<rparr>"
  have c: "sys_creat nm (set_ring_mem r m w) = (shm_next w, set_ring_mem r m ?nw)" "sys_creat nm w = (shm_next w, ?nw)"
    using assms by (simp_all add: sys_creat_def sys_open_def set_ring_mem_def set_obj_def fun_upd_twist)
  have o: "shm_obj (set_ring_mem r m x) (shm_next w) = shm_obj x (shm_next w)"
    "set_obj (shm_next w) m' (set_ring_mem r m x) = set_ring_mem r m (set_obj (shm_next w) m' x)" for x m'
    using assms(2) by (simp_all add: set_ring_mem_def set_obj_def fun_upd_twist)
  have "segment_create os nm sz (set_ring_mem r m w) =
      (fst (segment_create os nm sz w), set_ring_mem r m (snd (segment_create os nm sz w)))" for sz
    by (simp add: segment_create_def c o Let_def split: option.split)
  moreover have "seg_ptr sg = shm_next w" if "segment_create os nm sz w = (Inr sg, w')" for sg w' sz
    using that c(2) by (auto simp: segment_create_def Let_def split: option.splits if_splits)
  ultimately show ?thesis
    by (auto simp: make_arena_def o segment_drop_patched Let_def split: prod.split sum.split option.split)
qed

lemma patched_publish_new:
  assumes steady: "os_steady (be_os env)" and inv: "broker_inv b1" "world_ok b1 w1" and f: "follows b w b1 w1"
  shows "publish_new env msg b1 (set_ring_mem (br_submission b) m w1) = patched (br_submission b) m (publish_new env msg b1 w1)"
proof (cases "avro_parse (be_lib env) (pub_schema_json msg)")
  case (Inl e)
  then show ?thesis by (simp add: publish_new_def patched_reply [OF f])
next
  case (Inr x)
  let ?g = "snd (alloc_channel_id (br_reg b1))" and ?nm = "channel_arena (word_of_int (rg_next_channel (br_reg b1)))"
  let ?cap = "clamp_arena_cap (nat (max (pub_arena_cap msg) 0))"
  obtain ar b2 w2 where mk: "make_arena (be_os env) ?nm ?cap (b1\<lparr>br_reg := ?g\<rparr>) w1 = (ar, b2, w2)" by (metis prod_cases3)
  have none: "hm_get (br_arenas (b1\<lparr>br_reg := ?g\<rparr>)) ?nm = None"
    using inv fresh_channel_arena [of "br_reg b1"] by (auto simp: broker_inv_def hm_contains_def)
  have calm: "loop_calm b1 w1" "br_submission b1 = br_submission b" using f by (simp_all add: follows_def)
  have "follows (b1\<lparr>br_reg := ?g\<rparr>) w1 b2 w2"
    by (rule follows_make_arena [OF steady _ _ none clamp_bounds _ mk]) (use inv(2) calm in \<open>simp_all add: arena_space_def loop_calm_def\<close>)
  then have f2: "follows b w b2 w2" using f by (simp add: follows_def)
  have "sys_open ?nm w1 = None" using inv(2) none by (simp add: world_ok_def arena_space_def)
  moreover have "seg_ptr (ring_seg (br_submission b)) < shm_next w1" using calm by (simp add: loop_calm_def sub_ring_ok_def)
  ultimately have "make_arena (be_os env) ?nm ?cap (b1\<lparr>br_reg := ?g\<rparr>) (set_ring_mem (br_submission b) m w1) =
      (ar, b2, set_ring_mem (br_submission b) m w2)"
    using make_arena_patched mk by simp
  moreover have f3: "follows b w (b2\<lparr>br_reg := g\<rparr>) w2" for g using f2 by (rule follows_fields) simp_all
  ultimately show ?thesis using Inr mk
    by (simp add: publish_new_def alloc_channel_id_def Let_def case_prod_beta patched_reply [OF f2] patched_reply [OF f3] split: sum.split)
qed

lemma patched_expose_new:
  assumes steady: "os_steady (be_os env)" and inv: "broker_inv b1" "world_ok b1 w1" and f: "follows b w b1 w1"
  shows "expose_new env msg b1 (set_ring_mem (br_submission b) m w1) = patched (br_submission b) m (expose_new env msg b1 w1)"
proof -
  let ?g = "snd (alloc_fn_id (br_reg b1))" and ?nm = "function_arena (word_of_int (rg_next_fn (br_reg b1)))"
  let ?cap = "clamp_arena_cap (nat (max (exp_req_arena_cap msg) 0))"
  obtain ar b2 w2 where mk: "make_arena (be_os env) ?nm ?cap (b1\<lparr>br_reg := ?g\<rparr>) w1 = (ar, b2, w2)" by (metis prod_cases3)
  have none: "hm_get (br_arenas (b1\<lparr>br_reg := ?g\<rparr>)) ?nm = None"
    using inv fresh_function_arena [of "br_reg b1"] by (auto simp: broker_inv_def hm_contains_def)
  have calm: "loop_calm b1 w1" "br_submission b1 = br_submission b" using f by (simp_all add: follows_def)
  have "follows (b1\<lparr>br_reg := ?g\<rparr>) w1 b2 w2"
    by (rule follows_make_arena [OF steady _ _ none clamp_bounds _ mk]) (use inv(2) calm in \<open>simp_all add: arena_space_def loop_calm_def\<close>)
  then have f2: "follows b w b2 w2" using f by (simp add: follows_def)
  have "sys_open ?nm w1 = None" using inv(2) none by (simp add: world_ok_def arena_space_def)
  moreover have "seg_ptr (ring_seg (br_submission b)) < shm_next w1" using calm by (simp add: loop_calm_def sub_ring_ok_def)
  ultimately have "make_arena (be_os env) ?nm ?cap (b1\<lparr>br_reg := ?g\<rparr>) (set_ring_mem (br_submission b) m w1) =
      (ar, b2, set_ring_mem (br_submission b) m w2)"
    using make_arena_patched mk by simp
  moreover have f3: "follows b w (b2\<lparr>br_reg := g\<rparr>) w2" for g using f2 by (rule follows_fields) simp_all
  ultimately show ?thesis using mk
    by (simp add: expose_new_def alloc_fn_id_def Let_def case_prod_beta patched_reply [OF f] patched_reply [OF f2] patched_reply [OF f3]
        split: sum.split)
qed

text \<open>A client cannot register the control segment as its reply segment: there is no ring at its beginning.\<close>

lemma patched_register:
  assumes calm: "loop_calm b w" and w: "world_ok b w" and m: "stand_in b w m"
  shows "on_register env f b (set_ring_mem (br_submission b) m w) = patched (br_submission b) m (on_register env f b w)"
proof (cases "from_frame_compat (be_lib env) (be_cat env) register_from_value f")
  case (Inl e)
  then show ?thesis by (simp add: on_register_def)
next
  case (Inr msg)
  let ?r = "br_submission b" and ?nm = "reg_reply_segment msg"
  have open_eq: "segment_open (be_os env) ?nm (set_ring_mem ?r m w) = segment_open (be_os env) ?nm w"
  proof -
    have "sys_open ?nm (set_ring_mem ?r m w) = sys_open ?nm w" by (simp add: sys_open_def set_ring_mem_def)
    moreover have "length (shm_obj (set_ring_mem ?r m w) ob) = length (shm_obj w ob)" for ob
      using m by (simp add: stand_in_def set_ring_mem_def ring_mem_def)
    ultimately show ?thesis by (simp add: segment_open_def Let_def split: option.split)
  qed
  show ?thesis
  proof (cases "segment_open (be_os env) ?nm w")
    case (Inl e)
    with Inr open_eq show ?thesis by (simp add: on_register_def)
  next
    case S: (Inr sg)
    have sub: "sub_ring_ok w ?r" using calm by (simp add: loop_calm_def)
    have at: "ring_attach sg 0 (shm_obj (set_ring_mem ?r m w) (seg_ptr sg)) = ring_attach sg 0 (shm_obj w (seg_ptr sg))"
      using m sub by (simp add: stand_in_def sub_ring_ok_def set_ring_mem_def ring_mem_def ring_attach_def)
    show ?thesis
    proof (cases "ring_attach sg 0 (shm_obj w (seg_ptr sg))")
      case (Inl e)
      with Inr S at open_eq show ?thesis by (simp add: on_register_def)
    next
      case A: (Inr r)
      have "reply_ring_ok w r" using ring_attach_base [OF A] A segment_open_Inr [OF S] w
        by (auto simp: reply_ring_ok_def ring_mem_def world_ok_def shm_ok_def sys_open_def)
      then have "follows b w (registered msg sg r b) w" using calm by (simp add: follows_def loop_calm_def registered_def)
      with Inr S A at open_eq show ?thesis
        by (simp add: on_register_def registered_def add_client_def Let_def patched_reply)
    qed
  qed
qed

lemma patched_publish:
  assumes steady: "os_steady (be_os env)" and inv: "broker_inv b" "world_ok b w" and calm: "loop_calm b w"
  shows "on_publish env f b (set_ring_mem (br_submission b) m w) = patched (br_submission b) m (on_publish env f b w)"
proof (cases "from_frame_compat (be_lib env) (be_cat env) publish_channel_from_value f")
  case (Inl e)
  then show ?thesis by (simp add: on_publish_def)
next
  case m: (Inr msg)
  have g: "reg_ok (br_reg b)" using inv(1) by (simp add: broker_inv_def)
  note here = follows_refl [OF calm]
  note new = patched_publish_new [OF steady]
  have after: "publish_new env msg b1 (set_ring_mem (br_submission b) m w1) = patched (br_submission b) m (publish_new env msg b1 w1)"
    if "follows b w b1 w1" "keeps (be_os env) b w b1 w1" for b1 w1
    using new that inv steady by (auto simp: keeps_def)
  obtain ra g' where r: "reap_if_released (pub_channel msg) (br_reg b) = (ra, g')" by fastforce
  show ?thesis
  proof (cases ra)
    case (Some a)
    with r obtain i c where i: "hm_get (rg_channels (br_reg b)) i = Some c" "drop_channel i (br_reg b) = (Some a, g')" "a = ch_arena c"
      using reap_if_released_Some [OF g] by metis
    obtain b1 w1 where s: "reclaim_arena (be_os env) a (b\<lparr>br_reg := g'\<rparr>, w) = (b1, w1)" by fastforce
    then have fo: "fold (reclaim_arena (be_os env)) [ch_arena c] (b\<lparr>br_reg := snd (drop_channel i (br_reg b))\<rparr>, w) = (b1, w1)" using i by simp
    note after [OF follows_reclaims [OF calm fo] keeps_dropped(1) [OF inv(1) i(1) fo]]
    with m r Some s new [OF inv here] show ?thesis by (simp add: on_publish_def reclaim_patched)
  next
    case None
    then have g': "g' = br_reg b" using r reap_if_released_None by simp
    have "publish_new env msg b1 (set_ring_mem (br_submission b) m w1) = patched (br_submission b) m (publish_new env msg b1 w1)"
      if "release_client (be_os env) d b w = (b1, w1)" for d b1 w1
      using after [OF follows_released [OF calm that] keeps_release_client(1) [OF inv(1) that]] .
    then show ?thesis using m r None g' new [OF inv here]
      by (simp add: on_publish_def release_client_patched case_prod_beta patched_reply [OF here] split: option.split)
  qed
qed

lemma patched_expose:
  assumes steady: "os_steady (be_os env)" and inv: "broker_inv b" "world_ok b w" and calm: "loop_calm b w"
  shows "on_expose env f b (set_ring_mem (br_submission b) m w) = patched (br_submission b) m (on_expose env f b w)"
proof -
  note here = follows_refl [OF calm]
  note new = patched_expose_new [OF steady]
  have "expose_new env msg b1 (set_ring_mem (br_submission b) m w1) = patched (br_submission b) m (expose_new env msg b1 w1)"
    if "release_client (be_os env) d b w = (b1, w1)" for msg d b1 w1
    using new follows_released [OF calm that] keeps_release_client(1) [OF inv(1) that] inv steady by (auto simp: keeps_def)
  then show ?thesis using new [OF inv here]
    by (simp add: on_expose_def release_client_patched case_prod_beta patched_reply [OF here] split: option.split sum.split)
qed

lemma patched_handle:
  assumes steady: "os_steady (be_os env)" and inv: "broker_inv b" "world_ok b w" and calm: "loop_calm b w" and m: "stand_in b w m"
  shows "handle env bs b (set_ring_mem (br_submission b) m w) = patched (br_submission b) m (handle env bs b w)"
proof -
  note here = follows_refl [OF calm]
  have reg: "follows b w (b\<lparr>br_reg := g\<rparr>) w" for g using here by (rule follows_fields) simp_all
  note replies = patched_reply [OF here] patched_reply [OF reg]
  have "on_unregister env f b (set_ring_mem (br_submission b) m w) = patched (br_submission b) m (on_unregister env f b w)" for f
    by (simp add: on_unregister_def release_client_patched case_prod_beta split: sum.split)
  moreover have "on_unpublish env f b (set_ring_mem (br_submission b) m w) = patched (br_submission b) m (on_unpublish env f b w)" for f
    by (simp add: on_unpublish_def reclaim_patched case_prod_beta split: sum.split release.split)
  moreover have "on_list env f b (set_ring_mem (br_submission b) m w) = patched (br_submission b) m (on_list env f b w)" for f
    by (simp add: on_list_def replies case_prod_beta split: sum.split)
  moreover have "on_lookup env f b (set_ring_mem (br_submission b) m w) = patched (br_submission b) m (on_lookup env f b w)" for f
    by (simp add: on_lookup_def replies case_prod_beta split: sum.split)
  moreover have "on_subscribe env f b (set_ring_mem (br_submission b) m w) = patched (br_submission b) m (on_subscribe env f b w)" for f
    by (simp add: on_subscribe_def replies case_prod_beta split: sum.split)
  ultimately show ?thesis
    by (simp add: handle_def patched_register [OF calm inv(2) m] patched_publish [OF steady inv calm] patched_expose [OF steady inv calm]
        split: sum.split option.split kind.split)
qed

lemma sweep_patched:
  "sweep env b (set_ring_mem r m w) = (fst (sweep env b w), set_ring_mem r m (snd (sweep env b w)))"
  by (simp add: sweep_def Let_def case_prod_beta reclaims_patched)

lemma one_turn_patched:
  assumes inv: "loop_inv k b w" and env: "env_polite env" "os_steady (be_os env)" and m: "stand_in b w m"
  shows "one_turn env v ls b (set_ring_mem (br_submission b) m w) =
    map_option (\<lambda>(ls1, b1, w1). (ls1, b1, set_ring_mem (br_submission b) m w1)) (one_turn env v ls b w)"
proof -
  have b: "broker_inv b" "world_ok b w" "loop_calm b w" using inv by (simp_all add: loop_inv_def)
  show ?thesis
    by (auto simp: one_turn_def patched_handle [OF env(2) b m] patched_def sweep_patched case_prod_beta split: option.split)
qed

text \<open>
  The loop as its users think of it: there is a queue of messages in place of the ring, with the ring's capacity; a
  message that does not fit is refused. Before a turn messages arrive. A turn takes the oldest one; when there is none it
  waits, and takes the first that arrives, or none when none has arrived in time. It hands what it
  took to the handlers, once, and sweeps if the last sweep is \<open>SWEEP_INTERVAL\<close> ago.
\<close>

definition arrive :: "bytes list \<Rightarrow> bytes list \<Rightarrow> bytes list" where
  "arrive ds q = fold (\<lambda>d q. if records_size q + 4 + length d \<le> SUBMISSION_CAP then q @ [d] else q) ds q"

fun take_message :: "nat \<Rightarrow> bytes list list \<Rightarrow> bytes list \<Rightarrow> bytes option \<times> bytes list" where
  "take_message parks arrivals (d # q) = (Some d, q)"
| "take_message 0 arrivals [] = (None, [])"
| "take_message (Suc n) [] [] = (None, [])"
| "take_message (Suc n) (ds # arrivals) [] = take_message n arrivals (arrive ds [])"

record 'sc queue_turn =
  qt_env :: "'sc broker_env"
  qt_others :: "shm \<Rightarrow> shm"
  qt_before :: "bytes list"
  qt_parks :: nat
  qt_arrivals :: "bytes list list"

fun serve :: "'sc queue_turn list \<Rightarrow> nat \<Rightarrow> bytes list \<Rightarrow> broker \<Rightarrow> shm \<Rightarrow> (bytes list \<times> broker \<times> shm) option" where
  "serve [] last_sweep q b w = Some (q, b, w)"
| "serve (t # turns) last_sweep q b w =
     (let (v, q1) = take_message (qt_parks t) (qt_arrivals t) (arrive (qt_before t) q); w0 = qt_others t w in
      case (case v of None \<Rightarrow> Some (Inr (), b, w0) | Some bs \<Rightarrow> handle (qt_env t) bs b w0) of
        None \<Rightarrow> None
      | Some (_, b1, w1) \<Rightarrow>
          if be_now (qt_env t) - last_sweep < SWEEP_INTERVAL then serve turns last_sweep q1 b1 w1
          else serve turns (be_now (qt_env t)) q1 (fst (sweep (qt_env t) b1 w1)) (snd (sweep (qt_env t) b1 w1)))"

lemma serve_one_turn:
  "serve (t # turns) ls q b w =
     (case one_turn (qt_env t) (fst (take_message (qt_parks t) (qt_arrivals t) (arrive (qt_before t) q))) ls b (qt_others t w) of
        None \<Rightarrow> None
      | Some (ls1, b1, w1) \<Rightarrow> serve turns ls1 (snd (take_message (qt_parks t) (qt_arrivals t) (arrive (qt_before t) q))) b1 w1)"
  by (auto simp: one_turn_def case_prod_beta Let_def not_less split: option.split)

text \<open>The same turn on the ring: the messages are pushed into it, and the rest of the memory changes as it does.\<close>

definition pushes :: "ring \<Rightarrow> bytes list \<Rightarrow> bytes \<Rightarrow> bytes" where
  "pushes r ds m = fold (\<lambda>d m. snd (push_now r d m)) ds m"

definition on_ring :: "ring \<Rightarrow> 'sc queue_turn \<Rightarrow> 'sc broker_env \<times> (shm \<Rightarrow> shm) \<times> nat \<times> schedule" where
  "on_ring r t = (qt_env t, \<lambda>w. set_ring_mem r (pushes r (qt_before t) (ring_mem r w)) (qt_others t w), qt_parks t, map (pushes r) (qt_arrivals t))"

definition queue_turn_ok :: "ring \<Rightarrow> 'sc queue_turn \<Rightarrow> bool" where
  "queue_turn_ok r t \<longleftrightarrow> env_polite (qt_env t) \<and> os_steady (be_os (qt_env t)) \<and> qt_parks t \<le> length (qt_arrivals t) \<and>
     others_polite (qt_others t) \<and> (\<forall>w m. seg_ptr (ring_seg r) < shm_next w \<longrightarrow>
       qt_others t (set_ring_mem r m w) = set_ring_mem r m (qt_others t w) \<and> ring_mem r (qt_others t w) = ring_mem r w)"

lemma pushes_queue:
  assumes "ring_idle r m" "ring_cap r = SUBMISSION_CAP"
  shows "ring_idle r (pushes r ds m)" "same_outside r m (pushes r ds m)" "ring_list r (pushes r ds m) = arrive ds (ring_list r m)"
proof -
  have "ring_idle r (pushes r ds m) \<and> same_outside r m (pushes r ds m) \<and> ring_list r (pushes r ds m) = arrive ds (ring_list r m)"
    using assms(1)
  proof (induction ds arbitrary: m)
    case (Cons d ds)
    let ?m = "snd (push_now r d m)"
    have "ring_geom r m" using ring_holds_geom [OF ring_idle_holds [OF Cons.prems]] .
    then have so: "same_outside r m ?m" by (rule push_now_frame)
    have "ring_list r ?m = (if records_size (ring_list r m) + 4 + length d \<le> SUBMISSION_CAP then ring_list r m @ [d] else ring_list r m)"
      using rq.push_contents [OF Cons.prems, of d] rq.push_accepts [OF Cons.prems, of d] assms(2) by simp
    with Cons.IH [OF rq.push_invar [OF Cons.prems, of d]] same_outside_trans [OF so] show ?case
      by (simp add: pushes_def arrive_def)
  qed (simp add: pushes_def arrive_def)
  then show "ring_idle r (pushes r ds m)" "same_outside r m (pushes r ds m)" "ring_list r (pushes r ds m) = arrive ds (ring_list r m)"
    by simp_all
qed

lemma pop_blocking_now:
  assumes "ring_idle r m" "ring_list r m = d # q"
  shows "pop_blocking r (Some n) es m = Some (Some d, snd (try_pop r m), es)"
    "ring_idle r (snd (try_pop r m))" "ring_list r (snd (try_pop r m)) = q" "same_outside r m (snd (try_pop r m))"
proof -
  have "ring_holds r m (d # q)" using assms ring_idle_holds by metis
  then show p: "pop_blocking r (Some n) es m = Some (Some d, snd (try_pop r m), es)"
    by (simp add: pop_blocking.simps [of r "Some n"] spin_pop_nonempty SPIN_LIMIT_def)
  show "same_outside r m (snd (try_pop r m))" by (rule try_pop_frame)
  show "ring_idle r (snd (try_pop r m))" "ring_list r (snd (try_pop r m)) = q"
    using rq.pop_invar [OF assms(1)] rq.pop_contents [OF assms(1)] assms(2) by simp_all
qed

lemma pop_blocking_none:
  assumes "ring_idle r m" "ring_list r m = []"
  shows "pop_blocking r (Some 0) es m = Some (None, m, es)"
    "pop_blocking r (Some (Suc n)) (e # es) m = pop_blocking r (Some n) es (e m)"
proof -
  have "ring_holds r m []" using assms ring_idle_holds by metis
  then show "pop_blocking r (Some 0) es m = Some (None, m, es)"
    "pop_blocking r (Some (Suc n)) (e # es) m = pop_blocking r (Some n) es (e m)"
    by (simp_all add: pop_blocking.simps [of r "Some 0"] pop_blocking.simps [of r "Some (Suc n)"] spin_pop_empty try_pop_empty)
qed

lemma pop_blocking_queue:
  assumes "ring_cap r = SUBMISSION_CAP" "ring_idle r m" "n \<le> length arrivals"
  shows "\<exists>m' es'. pop_blocking r (Some n) (map (pushes r) arrivals) m = Some (fst (take_message n arrivals (ring_list r m)), m', es') \<and>
    ring_idle r m' \<and> same_outside r m m' \<and> ring_list r m' = snd (take_message n arrivals (ring_list r m))"
  using assms(2,3)
proof (induction arrivals arbitrary: n m)
  case Nil
  then show ?case
    using pop_blocking_now [OF Nil.prems(1)] pop_blocking_none [OF Nil.prems(1)] by (cases "ring_list r m") auto
next
  case (Cons ds arrivals)
  show ?case
  proof (cases "ring_list r m")
    case L: (Cons d q)
    then show ?thesis using pop_blocking_now [OF Cons.prems(1) L] by auto
  next
    case L: Nil
    show ?thesis
    proof (cases n)
      case 0
      then show ?thesis using L pop_blocking_none(1) [OF Cons.prems(1) L] Cons.prems(1) by auto
    next
      case (Suc k)
      note e = pushes_queue [OF Cons.prems(1) assms(1), of ds]
      have "k \<le> length arrivals" using Cons.prems(2) Suc by simp
      from Cons.IH [OF e(1) this] Suc L e(3) pop_blocking_none(2) [OF Cons.prems(1) L] same_outside_trans [OF e(2)]
      show ?thesis by fastforce
    qed
  qed
qed

lemma stand_in_used:
  assumes "loop_calm b w" "same_outside (br_submission b) (ring_mem (br_submission b) w) m"
  shows "stand_in b w m"
proof -
  have s: "sub_ring_ok w (br_submission b)" using assms(1) by (simp add: loop_calm_def)
  have "ring_base (br_submission b) = SUBMISSION_BASE" using s ring_attach_base by (auto simp: sub_ring_ok_def)
  then show ?thesis
    using same_outside_magic [OF assms(2)] s assms(2) by (simp add: stand_in_def sub_ring_ok_def same_outside_def)
qed

lemma run_serves:
  assumes "loop_inv (length turns) b w" "\<forall>t \<in> set turns. queue_turn_ok (br_submission b) t" "ring_cap (br_submission b) = SUBMISSION_CAP"
    and "ring_idle (br_submission b) m" "same_outside (br_submission b) (ring_mem (br_submission b) w) m"
  shows "\<exists>q b' w' m'. serve turns ls (ring_list (br_submission b) m) b w = Some (q, b', w') \<and>
    run (map (on_ring (br_submission b)) turns) ls b (set_ring_mem (br_submission b) m w) = Some (b', set_ring_mem (br_submission b) m' w') \<and>
    ring_idle (br_submission b) m' \<and> ring_list (br_submission b) m' = q"
  using assms
proof (induction turns arbitrary: ls b w m)
  case Nil
  then show ?case by auto
next
  case (Cons t turns)
  let ?r = "br_submission b" and ?w = "qt_others t w"
  let ?m0 = "pushes ?r (qt_before t) m" and ?q0 = "arrive (qt_before t) (ring_list ?r m)"
  let ?v = "fst (take_message (qt_parks t) (qt_arrivals t) ?q0)" and ?q = "snd (take_message (qt_parks t) (qt_arrivals t) ?q0)"
  have t: "env_polite (qt_env t)" "os_steady (be_os (qt_env t))" "qt_parks t \<le> length (qt_arrivals t)" "others_polite (qt_others t)"
    using Cons.prems(2) by (simp_all add: queue_turn_ok_def)
  have lt: "seg_ptr (ring_seg ?r) < shm_next w" using Cons.prems(1) by (simp add: loop_inv_def loop_calm_def sub_ring_ok_def)
  then have o: "qt_others t (set_ring_mem ?r x w) = set_ring_mem ?r x ?w" "ring_mem ?r ?w = ring_mem ?r w" for x
    using Cons.prems(2) by (simp_all add: queue_turn_ok_def)
  note p = pushes_queue [OF Cons.prems(4,3), of "qt_before t"]
  obtain m1 es' where pop: "pop_blocking ?r (Some (qt_parks t)) (map (pushes ?r) (qt_arrivals t)) ?m0 = Some (?v, m1, es')"
    "ring_idle ?r m1" "same_outside ?r ?m0 m1" "ring_list ?r m1 = ?q"
    using pop_blocking_queue [OF Cons.prems(3) p(1) t(3)] p(3) by auto
  have so: "same_outside ?r (ring_mem ?r ?w) m1"
    using same_outside_trans [OF same_outside_trans [OF Cons.prems(5) p(2)] pop(3)] o(2) by simp
  have inv: "loop_inv (Suc (length turns)) b ?w" using loop_inv_others [OF Cons.prems(1) t(4)] by simp
  then have si: "stand_in b ?w m1" using stand_in_used [OF _ so] by (simp add: loop_inv_def)
  obtain ls1 b1 w1 where ot: "one_turn (qt_env t) ?v ls b ?w = Some (ls1, b1, w1)" "loop_inv (length turns) b1 w1" "br_submission b1 = ?r"
    "ring_mem ?r w1 = ring_mem ?r ?w"
    using one_turn_returns [OF inv t(1,2)] by blast
  have ot2: "one_turn (qt_env t) ?v ls b (set_ring_mem ?r m1 ?w) = Some (ls1, b1, set_ring_mem ?r m1 w1)"
    using one_turn_patched [OF inv t(1,2) si, of ?v ls] ot(1) by simp
  have mem: "ring_mem ?r (set_ring_mem ?r x y) = x" "set_ring_mem ?r x (set_ring_mem ?r x' y) = set_ring_mem ?r x y" for x x' y
    by (simp_all add: ring_mem_def set_ring_mem_def set_obj_def)
  have run: "run (map (on_ring ?r) (t # turns)) ls b (set_ring_mem ?r m w) = run (map (on_ring ?r) turns) ls1 b1 (set_ring_mem ?r m1 w1)"
    by (simp only: list.map on_ring_def [of ?r t] run_one_turn mem o(1)) (simp add: pop(1) ot2)
  have srv: "serve (t # turns) ls (ring_list ?r m) b w = serve turns ls1 (ring_list ?r m1) b1 w1"
    by (simp only: serve_one_turn) (simp add: pop(4) ot(1))
  have "\<forall>t \<in> set turns. queue_turn_ok (br_submission b1) t" "ring_cap (br_submission b1) = SUBMISSION_CAP" "ring_idle (br_submission b1) m1"
    "same_outside (br_submission b1) (ring_mem (br_submission b1) w1) m1" using Cons.prems(2,3) pop(2) so ot(3,4) by simp_all
  from Cons.IH [OF ot(2) this, of ls1] show ?case unfolding run srv ot(3) .
qed

text \<open>C26: The control loop serves its messages one by one, in their order. Take a broker that satisfies its invariants,
  with its rings at rest and its identifiers further from \<open>2^63\<close> than there are turns to come, a kernel that sizes and
  maps what it creates and removes names when told to, and processes that push into the submission ring, use the
  other segments through the rings in them, create segments of their own and leave the arenas' names alone. Then every turn
  of the loop comes back, whatever the messages are, and the loop does what the loop over a queue does: it takes
  the messages in the order in which they were pushed, those that arrive while it waits included, hands each to
  its handler exactly once, sweeps in exactly the turns in which \<open>SWEEP_INTERVAL\<close> has passed since the last sweep,
  and leaves in the ring the messages it has not taken yet.\<close>

theorem control_loop_serves:
  assumes "loop_inv (length turns) b w" "ring_cap (br_submission b) = SUBMISSION_CAP" "\<forall>t \<in> set turns. queue_turn_ok (br_submission b) t"
  shows "\<exists>q b' w' m. serve turns last_sweep (ring_list (br_submission b) (ring_mem (br_submission b) w)) b w = Some (q, b', w') \<and>
    run (map (on_ring (br_submission b)) turns) last_sweep b w = Some (b', set_ring_mem (br_submission b) m w') \<and>
    ring_idle (br_submission b) m \<and> ring_list (br_submission b) m = q"
proof -
  let ?r = "br_submission b"
  have "ring_idle ?r (ring_mem ?r w)" using assms(1) by (simp add: loop_inv_def loop_calm_def sub_ring_ok_def)
  moreover have "set_ring_mem ?r (ring_mem ?r w) w = w" by (simp add: set_ring_mem_def ring_mem_def set_obj_def)
  ultimately show ?thesis using run_serves [OF assms(1,3,2), of "ring_mem ?r w" last_sweep] by simp
qed

lemma start_cap: "start env w = (Inr b, w') \<Longrightarrow> ring_cap (br_submission b) = SUBMISSION_CAP"
  by (erule start_cases) (auto simp: format_control_def ring_format_def Let_def split: if_splits prod.splits sum.splits)

lemma shm_calm_empty: "shm_calm shm_empty"
  by (simp add: shm_calm_def shm_empty_def)

lemma demo_loop_inv: "k < 1000 \<Longrightarrow> loop_inv k demo_broker demo_world"
  using demo_inv start_calm [OF demo_start shm_ok_empty shm_calm_empty demo_steady(1)] by (simp add: loop_inv_def)

lemma demo_env_polite: "env_polite demo_env"
  by (simp add: env_polite_def demo_env_def)

lemma others_polite_id: "others_polite id"
  by (auto simp: others_polite_def keeps_names_def uses_ring_def)

theorem control_loop_serves_witness:
  "\<exists>b' w' m. run (map (on_ring (br_submission demo_broker))
        [\<lparr>qt_env = demo_env, qt_others = id, qt_before = [], qt_parks = 1, qt_arrivals = [[[1, 2, 3], [4]]]\<rparr>,
         \<lparr>qt_env = demo_env, qt_others = id, qt_before = [[5, 6]], qt_parks = 0, qt_arrivals = []\<rparr>]) 0 demo_broker demo_world =
      Some (b', set_ring_mem (br_submission demo_broker) m w') \<and>
    ring_list (br_submission demo_broker) m = [[5, 6]]"
proof -
  let ?r = "br_submission demo_broker"
  let ?turns = "[\<lparr>qt_env = demo_env, qt_others = id, qt_before = [], qt_parks = 1, qt_arrivals = [[[1, 2, 3], [4]]]\<rparr>,
     \<lparr>qt_env = demo_env, qt_others = id, qt_before = [[5, 6]], qt_parks = 0, qt_arrivals = []\<rparr>]"
  have "loop_inv (length ?turns) demo_broker demo_world" by (simp add: demo_loop_inv)
  moreover have "\<forall>t \<in> set ?turns. queue_turn_ok ?r t"
    by (simp add: queue_turn_ok_def demo_env_polite demo_steady(1) others_polite_id)
  ultimately obtain q b' w' m where s: "serve ?turns 0 [] demo_broker demo_world = Some (q, b', w')"
    and r: "run (map (on_ring ?r) ?turns) 0 demo_broker demo_world = Some (b', set_ring_mem ?r m w')" "ring_list ?r m = q"
    using control_loop_serves [of ?turns demo_broker demo_world 0] demo_control(4) start_cap [OF demo_start] by metis
  from s have "q = [[5, 6]]" by (auto simp: Let_def arrive_def SUBMISSION_CAP_def split: option.splits if_splits)
  with r show ?thesis by blast
qed

end
