(* ===== verification/Ring_Daemon.thy ===== *)
theory Ring_Daemon
  imports Ring_Loop Ring_Bus
begin

text \<open>
  The executable (\<^verbatim>\<open>crates/impulsed/src/main.rs\<close>): the broker is started, the handlers of \<^verbatim>\<open>SIGINT\<close> and
  \<^verbatim>\<open>SIGTERM\<close> set a flag, a watcher thread carries the flag over to the run flag that the control loop
  looks at before each turn, and the broker is dropped when the loop has ended. A script says what happens before
  each turn (signals, rounds of the watcher) and what the turn finds. The log is left out.
\<close>

section \<open>Signals\<close>

datatype signal = SIGINT | SIGTERM

record daemon =
  dm_flag :: bool
  dm_running :: bool
  dm_watching :: bool

definition handler :: "daemon \<Rightarrow> daemon" where
  "handler d = d\<lparr>dm_flag := True\<rparr>"

definition watcher_round :: "daemon \<Rightarrow> daemon" where
  "watcher_round d =
     (if \<not> dm_watching d then d
      else if dm_flag d then d\<lparr>dm_running := False, dm_watching := False\<rparr>
      else d)"

text \<open>\<^verbatim>\<open>install_signal_handler\<close>, with the run flag that \<^verbatim>\<open>main\<close> made: nothing was caught yet, the watcher runs.\<close>

definition install_signal_handler :: "bool \<Rightarrow> daemon" where
  "install_signal_handler running = \<lparr>dm_flag = False, dm_running = running, dm_watching = True\<rparr>"

datatype daemon_event = Caught signal | WatcherRound

fun on_event :: "daemon_event \<Rightarrow> daemon \<Rightarrow> daemon" where
  "on_event (Caught s) d = handler d"
| "on_event WatcherRound d = watcher_round d"

section \<open>The program\<close>

type_synonym 'sc loop_turn = "'sc broker_env \<times> (shm \<Rightarrow> shm) \<times> nat \<times> schedule"

text \<open>The turns that the loop takes until it finds the run flag cleared; \<open>None\<close> when it never does.\<close>

fun turns_taken :: "daemon \<Rightarrow> (daemon_event list \<times> 'sc loop_turn) list \<Rightarrow> 'sc loop_turn list option" where
  "turns_taken d [] = None"
| "turns_taken d ((evs, t) # script) =
     (let d1 = fold on_event evs d
      in if dm_running d1 then map_option (Cons t) (turns_taken d1 script) else Some [])"

datatype exit_status = ExitCode nat | KilledBy signal

text \<open>
  \<open>early\<close> is what arrives after the broker is up and before the handlers are in place: the default action of
  both signals ends the process there and then. The result is the status, the lines on the standard error
  and the shared memory; \<open>None\<close>: the process is still running.
\<close>

definition main :: "'sc broker_env \<Rightarrow> signal list \<Rightarrow> (daemon_event list \<times> 'sc loop_turn) list \<Rightarrow> shm \<Rightarrow>
    (exit_status \<times> string list \<times> shm) option" where
  "main env early script w =
     (case start env w of
        (Inl AlreadyRunning, w1) \<Rightarrow>
          Some (ExitCode 0, [''impulsed: another broker is already running; nothing to do''], w1)
      | (Inl (StartIo e), w1) \<Rightarrow>
          Some (ExitCode 1, [''impulsed: failed to start: '' @ show_io_error (be_os env) e], w1)
      | (Inr b, w1) \<Rightarrow>
          (case early of
             s # _ \<Rightarrow> Some (KilledBy s, [], w1)
           | [] \<Rightarrow>
               (case turns_taken (install_signal_handler True) script of
                  None \<Rightarrow> None
                | Some turns \<Rightarrow>
                    (case run turns (be_now env) b w1 of
                       None \<Rightarrow> None
                     | Some (b2, w2) \<Rightarrow>
                         Some (ExitCode 0, [''impulsed: shutting down''], broker_drop (be_os env) b2 w2)))))"

section \<open>The loop ends\<close>

lemma daemon_event_flag: "dm_flag d \<Longrightarrow> dm_flag (on_event e d)"
  by (cases e) (simp_all add: handler_def watcher_round_def)

lemma daemon_events_flag: "dm_flag d \<Longrightarrow> dm_flag (fold on_event evs d)"
  by (induction evs arbitrary: d) (simp_all add: daemon_event_flag)

lemma caught_flag: "Caught s \<in> set evs \<Longrightarrow> dm_flag (fold on_event evs d)"
proof (induction evs arbitrary: d)
  case (Cons e evs)
  then show ?case using daemon_events_flag [of "on_event e d" evs] by (auto simp: handler_def)
qed simp

text \<open>As long as the loop runs the watcher does, and once it has seen the flag the run flag stays cleared.\<close>

definition daemon_ok :: "daemon \<Rightarrow> bool" where
  "daemon_ok d \<longleftrightarrow> (dm_running d \<longleftrightarrow> dm_watching d)"

lemma daemon_event_ok: "daemon_ok d \<Longrightarrow> daemon_ok (on_event e d)"
  by (cases e) (simp_all add: daemon_ok_def handler_def watcher_round_def)

lemma daemon_events_ok: "daemon_ok d \<Longrightarrow> daemon_ok (fold on_event evs d)"
  by (induction evs arbitrary: d) (simp_all add: daemon_event_ok)

lemma daemon_events_stopped: "\<not> dm_running d \<Longrightarrow> \<not> dm_running (fold on_event evs d)"
proof (induction evs arbitrary: d)
  case (Cons e evs)
  then show ?case by (cases e) (simp_all add: handler_def watcher_round_def)
qed simp

lemma round_stops: "daemon_ok d \<Longrightarrow> dm_flag d \<Longrightarrow> WatcherRound \<in> set evs \<Longrightarrow> \<not> dm_running (fold on_event evs d)"
proof (induction evs arbitrary: d)
  case (Cons e evs)
  show ?case
  proof (cases e)
    case (Caught s)
    with Cons.IH [of "handler d"] Cons.prems show ?thesis by (simp add: handler_def daemon_ok_def)
  next
    case WatcherRound
    have "\<not> dm_running (watcher_round d)" using Cons.prems by (simp add: watcher_round_def daemon_ok_def)
    with WatcherRound daemon_events_stopped show ?thesis by simp
  qed
qed simp

lemma turns_taken_flagged:
  assumes "daemon_ok d" "dm_flag d" "j < length script" "WatcherRound \<in> set (fst (script ! j))"
  shows "\<exists>k \<le> j. turns_taken d script = Some (map snd (take k script))"
  using assms
proof (induction script arbitrary: d j)
  case (Cons x script)
  obtain evs t where x: "x = (evs, t)" by (cases x)
  let ?d = "fold on_event evs d"
  show ?case
  proof (cases "dm_running ?d")
    case False
    then show ?thesis by (intro exI [of _ 0]) (simp add: x)
  next
    case True
    then have "j \<noteq> 0" using round_stops [OF Cons.prems(1,2), of evs] Cons.prems(4) x by (cases j) auto
    then obtain i where i: "j = Suc i" by (cases j) auto
    then obtain k where "k \<le> i" "turns_taken ?d script = Some (map snd (take k script))"
      using Cons.IH [OF daemon_events_ok [OF Cons.prems(1)] daemon_events_flag [OF Cons.prems(2)], of i] Cons.prems by auto
    with True i show ?thesis by (intro exI [of _ "Suc k"]) (simp add: x)
  qed
qed simp

lemma turns_taken_caught:
  assumes "daemon_ok d" "i < j" "j < length script" "Caught s \<in> set (fst (script ! i))" "WatcherRound \<in> set (fst (script ! j))"
  shows "\<exists>k \<le> j. turns_taken d script = Some (map snd (take k script))"
  using assms
proof (induction script arbitrary: d i j)
  case (Cons x script)
  obtain evs t where x: "x = (evs, t)" by (cases x)
  obtain j' where j: "j = Suc j'" using Cons.prems(2) by (cases j) auto
  let ?d = "fold on_event evs d"
  have ok: "daemon_ok ?d" by (rule daemon_events_ok [OF Cons.prems(1)])
  have "\<exists>k \<le> j'. turns_taken ?d script = Some (map snd (take k script))" if "dm_running ?d"
  proof (cases i)
    case 0
    then have "dm_flag ?d" using Cons.prems(4) x caught_flag by auto
    from turns_taken_flagged [OF ok this, of j'] Cons.prems(3,5) j show ?thesis by simp
  next
    case (Suc i')
    with Cons.IH [OF ok, of i' j'] Cons.prems j show ?thesis by simp
  qed
  then show ?case
  proof (cases "dm_running ?d")
    case True
    assume "dm_running ?d \<Longrightarrow> \<exists>k \<le> j'. turns_taken ?d script = Some (map snd (take k script))"
    with True obtain k where "k \<le> j'" "turns_taken ?d script = Some (map snd (take k script))" by blast
    with True j show ?thesis by (intro exI [of _ "Suc k"]) (simp add: x)
  qed (intro exI [of _ 0], simp add: x)
qed simp

section \<open>What the loop keeps\<close>

text \<open>No handler and no sweep exchanges the control segment.\<close>

lemma reclaim_arenas_control [simp]: "br_control_seg (fst (fold (reclaim_arena os) ns s)) = br_control_seg (fst s)"
  by (induction ns arbitrary: s) auto

lemma release_client_control [simp]: "br_control_seg (fst (release_client os i b w)) = br_control_seg b"
  by (simp add: release_client_def Let_def case_prod_beta)

lemma make_arena_control [simp]: "br_control_seg (fst (snd (make_arena os nm cap b w))) = br_control_seg b"
  by (simp add: make_arena_def Let_def split: prod.splits sum.splits)

definition control_kept :: "broker \<Rightarrow> outcome \<Rightarrow> bool" where
  "control_kept b out \<longleftrightarrow> (\<forall>res b' w'. out = Some (res, b', w') \<longrightarrow> br_control_seg b' = br_control_seg b)"

lemma control_keptI [intro]: "br_control_seg (fst s) = br_control_seg b \<Longrightarrow> control_kept b (Some (res, s))"
  by (auto simp: control_kept_def)

lemma control_kept_reply [intro]: "br_control_seg b' = br_control_seg b \<Longrightarrow> control_kept b (reply env to_v i k msg b' w)"
  by (auto simp: control_kept_def reply_def split: option.splits sum.splits)

lemma control_kept_publish_new [intro]:
  "br_control_seg b' = br_control_seg b \<Longrightarrow> control_kept b (publish_new env m b' w)"
  unfolding publish_new_def Let_def case_prod_beta
  by (split sum.split, intro conjI allI impI control_kept_reply, simp) (split sum.split, intro conjI allI impI control_kept_reply; simp)

lemma control_kept_expose_new [intro]:
  "br_control_seg b' = br_control_seg b \<Longrightarrow> control_kept b (expose_new env m b' w)"
  unfolding expose_new_def Let_def case_prod_beta
  by (auto split: sum.split)

lemma control_kept_handlers [intro]:
  "control_kept b (on_register env f b w)" "control_kept b (on_unregister env f b w)" "control_kept b (on_publish env f b w)"
  "control_kept b (on_unpublish env f b w)" "control_kept b (on_list env f b w)" "control_kept b (on_subscribe env f b w)"
  "control_kept b (on_expose env f b w)" "control_kept b (on_lookup env f b w)"
  unfolding on_register_def on_unregister_def on_publish_def on_unpublish_def on_list_def on_subscribe_def on_expose_def on_lookup_def
    Let_def case_prod_beta
  by (auto split: sum.split option.split release.split)

lemma handle_control: "handle env bs b w = Some (res, b', w') \<Longrightarrow> br_control_seg b' = br_control_seg b"
proof -
  have "control_kept b (handle env bs b w)"
    unfolding handle_def by (auto split: sum.split option.split kind.split)
  then show "handle env bs b w = Some (res, b', w') \<Longrightarrow> br_control_seg b' = br_control_seg b"
    by (simp add: control_kept_def)
qed

lemma sweep_control [simp]: "br_control_seg (fst (sweep env b w)) = br_control_seg b"
  by (simp add: sweep_def case_prod_beta Let_def)

lemma run_turn:
  assumes "run (t # turns) ls b w = Some x"
  obtains ls1 b1 w1 where "run (t # turns) ls b w = run turns ls1 b1 w1" "br_control_seg b1 = br_control_seg b"
proof -
  obtain env others parks es where t: "t = (env, others, parks, es)" by (cases t)
  obtain v m es' where pop: "pop_blocking (br_submission b) (Some parks) es (ring_mem (br_submission b) (others w)) = Some (v, m, es')"
    using assms t by (auto split: option.splits)
  let ?w1 = "set_ring_mem (br_submission b) m (others w)"
  obtain res b2 w2 where h: "(case v of None \<Rightarrow> Some (Inr (), b, ?w1) | Some bs \<Rightarrow> handle env bs b ?w1) = Some (res, b2, w2)"
    using assms t pop by (auto simp: Let_def split: option.splits)
  have b2: "br_control_seg b2 = br_control_seg b" using h handle_control by (auto split: option.splits)
  show thesis
  proof (cases "SWEEP_INTERVAL \<le> be_now env - ls")
    case True
    obtain b3 w3 where sw: "sweep env b2 w2 = (b3, w3)" by (cases "sweep env b2 w2")
    then have "br_control_seg b3 = br_control_seg b" using sweep_control [of env b2 w2] b2 by simp
    then show thesis using t pop h sw True by (intro that [of "be_now env" b3 w3]) (simp_all add: Let_def)
  next
    case False
    then show thesis using t pop h b2 by (intro that [of ls b2 w2]) (simp_all add: Let_def)
  qed
qed

lemma run_control: "run turns ls b w = Some (b', w') \<Longrightarrow> br_control_seg b' = br_control_seg b"
proof (induction turns arbitrary: ls b w)
  case (Cons t turns)
  obtain ls1 b1 w1 where "run (t # turns) ls b w = run turns ls1 b1 w1" "br_control_seg b1 = br_control_seg b"
    by (rule run_turn [OF Cons.prems])
  with Cons.IH [of ls1 b1 w1] Cons.prems show ?case by simp
qed simp

lemma start_control:
  assumes "start env w = (Inr b, w1)"
  shows "seg_name (br_control_seg b) = CONTROL_SEGMENT" "owns_unlink (br_control_seg b)"
  by (rule start_cases [OF assms], simp add: segment_create_Inr)+

section \<open>Shutting down\<close>

text \<open>C30: The daemon goes down cleanly. Let the kernel size and map what it creates, remove names when told to and list its
  directory at the start, let no ring that is in memory at the start be locked or torn, and let the other processes use
  the segments through the rings in them, create segments of their own as they like and leave the arenas' names to the
  broker. When the broker came up, \<^verbatim>\<open>SIGINT\<close> or \<^verbatim>\<open>SIGTERM\<close> is caught before some turn of the
  control loop, and the watcher thread has a round before a later one, then every turn of the loop comes back, whatever it was about,
  the loop takes no turn after that round, the process ends with status 0, and nobody can open the control segment
  any more, nor an arena, nor the reply segment of any client that registered, whatever its name.\<close>

theorem daemon_shutdown:
  assumes "shm_ok w" "shm_calm w" "os_steady (be_os env)" "os_read_dir (be_os env) = None" "start env w = (Inr b, w1)"
    and "i < j" "j < length script" "Caught s \<in> set (fst (script ! i))" "WatcherRound \<in> set (fst (script ! j))"
    and "\<forall>(evs, t) \<in> set script. turn_polite t" and "j \<le> 2 ^ 63 - 2"
  shows "\<exists>k b2 w2 w'. k \<le> j \<and> turns_taken (install_signal_handler True) script = Some (map snd (take k script)) \<and>
    run (map snd (take k script)) (be_now env) b w1 = Some (b2, w2) \<and>
    main env [] script w = Some (ExitCode 0, [''impulsed: shutting down''], w') \<and>
    (\<forall>nm os. nm \<in> arena_space \<or> nm = CONTROL_SEGMENT \<or> nm \<in> set (br_reply_names b2) \<longrightarrow> \<not> is_ok (segment_open os nm w'))"
proof -
  have "daemon_ok (install_signal_handler True)" by (simp add: daemon_ok_def install_signal_handler_def)
  from turns_taken_caught [OF this assms(6-9)]
  obtain k where k: "k \<le> j" "turns_taken (install_signal_handler True) script = Some (map snd (take k script))" by blast
  have "loop_inv (length (map snd (take k script))) b w1"
    using start_inv [OF assms(5,1)] start_calm [OF assms(5,1,2,3)] assms(3,4,11) k(1) by (simp add: loop_inv_def)
  moreover have "\<forall>t \<in> set (map snd (take k script)). turn_polite t" using assms(10) by (fastforce dest: in_set_takeD)
  ultimately obtain b2 w2 where run: "run (map snd (take k script)) (be_now env) b w1 = Some (b2, w2)" and inv: "loop_inv 0 b2 w2"
    using run_returns by blast
  have ctl: "seg_name (br_control_seg b2) = CONTROL_SEGMENT" "owns_unlink (br_control_seg b2)"
    using run_control [OF run] start_control [OF assms(5)] by simp_all
  have main: "main env [] script w = Some (ExitCode 0, [''impulsed: shutting down''], broker_drop (be_os env) b2 w2)"
    using assms(5) k(2) run by (simp add: main_def)
  have "\<not> is_ok (segment_open os nm (broker_drop (be_os env) b2 w2))"
    if "nm \<in> arena_space \<or> nm = CONTROL_SEGMENT \<or> nm \<in> set (br_reply_names b2)" for nm os
    using broker_drop_spec [OF assms(3) _ _ ctl, of w2 nm] inv that by (cases "has_nul nm") (auto simp: loop_inv_def segment_open_def)
  with k run main show ?thesis by blast
qed

text \<open>
  A client that makes its reply segment and pushes its registration while the broker waits; the broker registers it.
\<close>

definition demo_reg :: register where
  "demo_reg = \<lparr>reg_correlation_id = 7, reg_app_name = ''demo'', reg_nonce = 1, reg_reply_segment = client_segment 1,
     reg_heartbeat_ms = 1000, reg_pid = 815\<rparr>"

definition demo_joins :: "bytes \<Rightarrow> nat loop_turn" where
  "demo_joins d = (demo_env, new_segment demo_os (client_segment 1) REPLY_CAP, 1,
     [\<lambda>m. case ring_attach (ring_seg (br_submission demo_broker)) SUBMISSION_BASE m of Inr r \<Rightarrow> snd (push_now r d m) | Inl _ \<Rightarrow> m])"

lemma reply_cap_ok: "is_power_of_two REPLY_CAP" "REPLY_CAP < 2 ^ 32"
  using is_power_of_two_power [of 19] by (simp_all add: REPLY_CAP_def)

lemma demo_joins_polite: "turn_polite (demo_joins d)"
  using new_segment_polite [OF _ reply_cap_ok, of demo_os "client_segment 1"] demo_steady(1) demo_env_polite push_polite
  by (simp add: turn_polite_def demo_joins_def demo_env_def)

lemma demo_joins_registers:
  assumes d: "frame_decode d = Inr f" "kind_of proto_cat (frame_schema_fp f) = Some Register"
      "from_frame_compat proto_lib proto_cat register_from_value f = Inr demo_reg"
    and len: "4 + length d \<le> SUBMISSION_CAP"
    and run: "run [demo_joins d] 0 demo_broker demo_world = Some (b2, w2)"
  shows "client_segment 1 \<in> set (br_reply_names b2)"
proof -
  let ?r = "br_submission demo_broker" and ?w = "new_segment demo_os (client_segment 1) REPLY_CAP demo_world"
  let ?e = "\<lambda>m. case ring_attach (ring_seg ?r) SUBMISSION_BASE m of Inr r \<Rightarrow> snd (push_now r d m) | Inl _ \<Rightarrow> m"
  have inv: "loop_inv 1 demo_broker demo_world" by (simp add: demo_loop_inv)
  have os: "os_calm demo_os" using demo_calm by (simp add: demo_cenv_def)
  have nn: "\<not> has_nul (client_segment 1)" by (rule bus_name_nul) (simp add: bus_names_def)
  obtain seg w1 r m where c: "segment_create demo_os (client_segment 1) (ring_bytes REPLY_CAP) demo_world = (Inr seg, w1)"
    "ring_format seg 0 REPLY_CAP (shm_obj w1 (seg_ptr seg)) = (Inr r, m)"
    "\<forall>p < shm_next demo_world. shm_obj (set_obj (seg_ptr seg) m w1) p = shm_obj demo_world p"
    "arena_at (client_segment 1) (r\<lparr>ring_seg := seg\<lparr>owns_unlink := False\<rparr>\<rparr>) (set_obj (seg_ptr seg) m w1)"
    "seg_ptr seg = shm_next demo_world"
    by (rule fresh_ring_calm [OF os nn demo_control_seg(7) reply_cap_ok]) (metis segment.select_convs(2))
  have w: "?w = set_obj (seg_ptr seg) m w1" using c demo_control_seg(7) by (simp add: new_segment_def)
  let ?rr = "r\<lparr>ring_seg := seg\<lparr>owns_unlink := False\<rparr>\<rparr>" and ?m = "ring_mem ?r ?w"
  have lt: "seg_ptr (ring_seg ?r) < shm_next demo_world" using inv by (simp add: loop_inv_def loop_calm_def sub_ring_ok_def)
  have m: "?m = ring_mem ?r demo_world" using c(3) lt by (simp add: w ring_mem_def)
  have at: "ring_attach (ring_seg ?r) SUBMISSION_BASE ?m = Inr ?r" using inv by (simp add: m loop_inv_def loop_calm_def sub_ring_ok_def)
  have q: "ring_idle ?r ?m" "ring_list ?r ?m = []" using demo_control(3,4) by (simp_all add: m)
  have e: "?e ?m = snd (push_now ?r d ?m)" by (simp add: at)
  have push: "ring_idle ?r (?e ?m)" "ring_list ?r (?e ?m) = [d]"
    using rq.push_invar [OF q(1), of d] rq.push_contents [OF q(1), of d] rq.push_accepts [OF q(1), of d] q(2) len start_cap [OF demo_start]
    by (simp_all add: e)
  define m1 where "m1 = snd (try_pop ?r (?e ?m))"
  have pop: "pop_blocking ?r (Some 1) [?e] ?m = Some (Some d, m1, [])"
    using pop_blocking_none(2) [OF q, of 0 ?e "[]"] pop_blocking_now(1) [OF push, of 0 "[]"] by (simp add: m1_def)
  let ?w1 = "set_ring_mem ?r m1 ?w"
  have "arena_at (client_segment 1) ?rr ?w1"
    unfolding set_ring_mem_def w by (rule arena_at_other [OF c(4)]) (use c(5) lt in simp)
  then have seg: "segment_open demo_os (client_segment 1) ?w1 = Inr (ring_seg ?rr)"
    "ring_attach (ring_seg ?rr) 0 (shm_obj ?w1 (seg_ptr (ring_seg ?rr))) = Inr ?rr"
    using os by (simp_all add: arena_at_def ring_mem_def)
  have env: "be_lib demo_env = proto_lib" "be_cat demo_env = proto_cat" "be_os demo_env = demo_os" "be_now demo_env = 0"
    by (simp_all add: demo_env_def)
  obtain cid k where h: "handle demo_env d demo_broker ?w1 =
      reply demo_env register_reply_to_value cid RegisterReply k (registered demo_reg (ring_seg ?rr) ?rr demo_broker) ?w1"
    using d seg by (simp add: handle_def on_register_def env demo_reg_def registered_def add_client_def Let_def)
  obtain ls b3 w3 where ot: "one_turn demo_env (Some d) 0 demo_broker ?w1 = Some (ls, b3, w3)" "b2 = b3"
    using run pop by (simp only: demo_joins_def run_one_turn) (auto split: option.splits)
  have "b3 = registered demo_reg (ring_seg ?rr) ?rr demo_broker"
    using ot(1) h reply_same(1) by (fastforce simp: one_turn_def env SWEEP_INTERVAL_def split: option.splits)
  then show ?thesis using ot(2) by (simp add: registered_def demo_reg_def)
qed

theorem daemon_shutdown_witness:
  "\<exists>d w'. main demo_env [] [([Caught SIGTERM], demo_joins d), ([WatcherRound], demo_env, id, 0, [])] shm_empty =
     Some (ExitCode 0, [''impulsed: shutting down''], w') \<and>
     \<not> is_ok (segment_open demo_os CONTROL_SEGMENT w') \<and> \<not> is_ok (segment_open demo_os (client_segment 1) w')"
proof -
  have "has_type (kind_type Register) (register_to_value demo_reg)" "length (ref_enc (register_to_value demo_reg)) \<le> 4000"
    using length_client_segment [of 1] by (simp_all add: kind_type_def register_to_value_def demo_reg_def)
  then have "sendable proto_lib proto_cat register_to_value Register demo_reg (br_submission demo_broker) demo_world"
    by (rule demo_sendable) (simp_all add: ring_empty_def demo_control(3,4) start_cap [OF demo_start] SUBMISSION_CAP_def)
  then obtain f where f: "ring_ready (br_submission demo_broker) demo_world (frame_encode f)" "frame_decode (frame_encode f) = Inr f"
    "kind_of proto_cat (frame_schema_fp f) = Some Register" "from_frame_compat proto_lib proto_cat register_from_value f = Inr demo_reg"
    using m_reg.sent [OF proto_lib_laws proto_cat_build proto_lib_distinct] by blast
  let ?d = "frame_encode f" and ?quiet = "(demo_env, id, 0, [])"
  let ?script = "[([Caught SIGTERM], demo_joins ?d), ([WatcherRound], ?quiet)]"
  have len: "4 + length ?d \<le> SUBMISSION_CAP" using f(1) start_cap [OF demo_start] by (simp add: ring_ready_def)
  have "turn_polite ?quiet" by (simp add: turn_polite_def demo_env_polite demo_steady(1) others_polite_id)
  then have pol: "\<forall>(evs, t) \<in> set ?script. turn_polite t" using demo_joins_polite by simp
  have taken: "turns_taken (install_signal_handler True) ?script = Some [demo_joins ?d]"
    by (simp add: install_signal_handler_def handler_def watcher_round_def)
  obtain k b2 w2 w' where k: "turns_taken (install_signal_handler True) ?script = Some (map snd (take k ?script))"
    "run (map snd (take k ?script)) (be_now demo_env) demo_broker demo_world = Some (b2, w2)"
    "main demo_env [] ?script shm_empty = Some (ExitCode 0, [''impulsed: shutting down''], w')"
    "\<forall>nm os. nm \<in> arena_space \<or> nm = CONTROL_SEGMENT \<or> nm \<in> set (br_reply_names b2) \<longrightarrow> \<not> is_ok (segment_open os nm w')"
    using daemon_shutdown [OF shm_ok_empty shm_calm_empty demo_steady demo_start, of 0 1 ?script SIGTERM] pol by fastforce
  have "run [demo_joins ?d] 0 demo_broker demo_world = Some (b2, w2)" using k(1,2) taken by (simp add: demo_env_def)
  then have "client_segment 1 \<in> set (br_reply_names b2)" by (rule demo_joins_registers [OF f(2-4) len])
  with k(3,4) show ?thesis by blast
qed

end
