(* ===== verification/Spec2Isabelle.thy ===== *)
theory Spec2Isabelle
  imports Ring_Access Ring_Leave Ring_Reconnect Ring_Threads Ring_Daemon
begin

text \<open>
  A verification of Ring, the shared-memory IPC bus of \<^verbatim>\<open>impulsed\<close>: the core library, the broker, the
  Rust connector and the HTTP contract.

  \<^bold>\<open>The program.\<close> Applications talk through segments of POSIX shared memory. The broker \<^verbatim>\<open>impulsed\<close>
  owns a control segment with a submission ring, on which every client puts framed Avro messages; it
  answers each client on the reply ring of a segment the client made, keeps a registry of
  clients, channels and functions, and allocates an arena, a segment with one ring, for each channel and
  each function. After that the traffic of channels and calls goes over the arenas without the broker.
  The connector runs a dispatcher, which brings replies to the calls that wait for them, a watcher, which
  reconnects when the broker was restarted, and for each exposed function a reader and a pool of workers.

  \<^bold>\<open>Theories and what they model\<close> (paths under \<^verbatim>\<open>src/crates\<close>; each definition keeps the name of the code's
  function or type where it can).

  \<^item> \<open>Ring_Prelude\<close>: widths, wrap-around, little-endian words in byte memories, printed numbers, hash maps
    (locale \<open>hash_table\<close>), codecs (\<open>codec\<close>, \<open>framed_codec\<close>), reachable states (\<open>invariant_system\<close>).
  \<^item> \<open>Ring_Shm\<close> (\<^verbatim>\<open>core/src/shm.rs\<close>): segments over a store of names and objects; the results of the system
    calls are the parameter \<open>os_env\<close>, so that every error branch can be taken.
  \<^item> \<open>Ring_Buffer\<close> (\<^verbatim>\<open>core/src/ring.rs\<close>): the ring on the bytes of its segment, with 64-bit cursors, wrapped
    copies, producer lock and blocking operations; locale \<open>record_queue\<close>, interpreted on the ring.
  \<^item> \<open>Ring_Threads\<close> (\<^verbatim>\<open>core/src/ring.rs\<close>, \<^verbatim>\<open>core/src/futex.rs\<close>): the same ring with its producers and its
    consumer as threads that interleave, access by access, and the futex words they park on.
  \<^item> \<open>Ring_Frame\<close> (\<^verbatim>\<open>core/src/frame.rs\<close>), \<open>Ring_Util\<close> (\<^verbatim>\<open>core/src/util.rs\<close>), \<open>Ring_Control\<close>
    (\<^verbatim>\<open>core/src/control.rs\<close>): frames, names and keys, the control segment and arena capacities.
  \<^item> \<open>Ring_Avro\<close>, \<open>Ring_Avro_Ref\<close> (\<^verbatim>\<open>core/src/avro.rs\<close>): the glue over the Avro crate, which is the parameter
    \<open>avro_lib\<close> with its documented laws, and an instance of the parameter.
  \<^item> \<open>Ring_Proto\<close>, \<open>Ring_Catalog\<close> (\<^verbatim>\<open>core/src/proto.rs\<close>): the messages, their schemas and legacy schemas, the
    catalogue, framing and correlation ids; locale \<open>message_codec\<close>, interpreted for each message.
  \<^item> \<open>Ring_Registry\<close> (\<^verbatim>\<open>impulsed/src/registry.rs\<close>): the tables; locale \<open>named_table\<close>, interpreted for channels and
    functions.
  \<^item> \<open>Ring_Broker\<close>, \<open>Ring_Broker_Inv\<close>, \<open>Ring_Broker_Props\<close> (\<^verbatim>\<open>impulsed/src/broker.rs\<close>): start, singleton
    guard, control loop, every handler, drop; the invariant of broker and shared memory over all reachable
    states.
  \<^item> \<open>Ring_Loop\<close>: the control loop among processes that use their rings as the code does: that every turn comes back,
    that no handler depends on the submission ring, and the loop over a queue that it refines.
  \<^item> \<open>Ring_Daemon\<close> (\<^verbatim>\<open>impulsed/src/main.rs\<close>): the executable: signals, the run flag, exit status.
  \<^item> \<open>Ring_Http\<close> (\<^verbatim>\<open>http/src/lib.rs\<close>): names, records and their schema texts, upgrade tokens, stream frames
    and body sizes; locale \<open>wire_record\<close>, interpreted for the three records.
  \<^item> \<open>Ring_Client\<close>, \<open>Ring_Client_Props\<close> (\<^verbatim>\<open>connector/src/client.rs\<close>): slots, bootstrap, control calls, the
    cache of callees, reconnection and replay, dispatcher, watcher.
  \<^item> \<open>Ring_Channel\<close> (\<^verbatim>\<open>connector/src/channel.rs\<close>): publishers and subscribers.
  \<^item> \<open>Ring_Rpc\<close>, \<open>Ring_Pool\<close> (\<^verbatim>\<open>connector/src/rpc.rs\<close>): futures and their executor, the service, the worker
    pool.
  \<^item> \<open>Ring_Connection\<close> (\<^verbatim>\<open>connector/src/lib.rs\<close>): the public interface, and a call once the function is known.
  \<^item> \<open>Ring_Bus\<close>: connector and broker together, on one shared memory: connecting, publishing and subscribing; one
    request and its reply are the locale \<open>control_exchange\<close>, interpreted for each kind of request.
  \<^item> \<open>Ring_Service\<close>: exposing, looking up and calling a function over the bus, from end to end.
  \<^item> \<open>Ring_Reconnect\<close>: a connection and a broker that was restarted: the watcher's turn, the new transport, the
    replay of what the connection owns.
  \<^item> \<open>Ring_Access\<close>, \<open>Ring_Leave\<close>: what a connection is refused, the list of channels it is given, and what is left
    when it is dropped.

  \<^bold>\<open>What the groups of lemmas show.\<close>

  \<^item> Data: the ring is a first-in first-out queue of records, byte for byte and across wraps, and touches
    nothing outside itself; frames, messages, legacy messages and HTTP records survive encoding and
    decoding; the control segment reads back what was written.
  \<^item> Threads: in every interleaving the ring stays first-in first-out and well formed, the producers' lock
    excludes, sleepers on the lock are not forgotten, and the consumer is never left asleep on a record; a thread
    that runs alone does what the sequential operation does.
  \<^item> Broker: its tables, rings and segments agree in every reachable state; each handler's effect on every
    branch; the control loop serves every message once, in order, and sweeps when it is due; what a departed client
    leaves behind; a second broker is refused, a stale one is replaced; a signal ends the daemon, and nobody can open
    one of its segments any more.
  \<^item> Connector: a control call ends with its own reply or one of two errors and leaves no slot behind; the
    dispatcher routes each reply to the one call that waits for it; the callee cache never hands out another
    interface; both ends of a channel refine a bounded queue of values; the executor returns, and no wake-up
    is lost; the pool keeps its bound, loses and reorders nothing and strands no job; a call
    from end to end returns what the handler returned; after a restart of the broker a connection is registered
    again, with every channel and every function it owns; a wrong key opens nothing; one turn of the broker
    after the last handle of a connection is dropped, its registrations, arenas and reply segment are gone.
  \<^item> Deviations, proved as such: a producer that waits for space can miss the wake-up and sleep in front of an
    empty ring until its time-out; a dead holder of the producer lock blocks pushes without a deadline; an empty
    control segment blocks every start; a failed allocation leaves its name behind; a reconnect that failed
    after the transport was swapped is never retried; a slow handler can delay a job although the
    pool may grow; only two of the three documented chunks fit a ring.

  \<^bold>\<open>Blocking and concurrency.\<close> An operation that can block takes a schedule: what others do to the
  memory (or to the connection) during each park, and after how many parks its deadline is over. It
  returns \<open>None\<close> when the schedule ends while it is still parked; theorems that it returns assume
  as many entries as the deadline allows parks, and nothing else about them than that rings are left
  well formed and unlocked (or that the others take steps of the connector's own). Loops of the broker, the
  dispatcher and the watcher run over a list of turns of any length. The pool and the ring in \<open>Ring_Threads\<close>
  are inductive step relations over the program points of their threads; a wait on a condition variable or a
  futex may end at any time. Elsewhere an operation runs by itself between two blocking points. All
  interleavings are sequentially consistent ones. The sequence words of the ring are 32 bits wide and wrap: the
  theorems on threads assume that the producers and the records a ring can hold are together fewer than \<open>2^32\<close>.
  Machine integers have their width: ring cursors, fingerprints and epochs are words, \<^verbatim>\<open>i64\<close>
  and \<^verbatim>\<open>usize\<close> are integers with the wrap-around written out where the code casts or subtracts. Channel
  and function identifiers are assumed not to run through all of their \<open>2^63\<close> values.

  \<^bold>\<open>The kernel.\<close> The outcome of each system call is a parameter. Theorems say what they need of it: nothing; or that
  what was created can be sized, mapped and unlinked (\<open>os_steady\<close>), while creating and opening may still be refused; or
  that nothing is refused (\<open>os_calm\<close>), for the runs from end to end. The invariant of the bus is over \<open>os_steady\<close>
  kernels: without that, a failed allocation leaves its name behind.

  \<^bold>\<open>Not modelled.\<close> The failure of \<^verbatim>\<open>thread::spawn\<close>; the weak memory orderings of the atomics; mapping and unmapping of memory beyond the identity of a segment's bytes; the log
  and its set-up in \<^verbatim>\<open>impulsed/src/main.rs\<close>; connectors in
  other languages, examples, tests and benchmarks. The old transport of a connection is dropped when a new
  one takes its place, although a call in flight may hold it a little longer.
\<close>

end
